(* ===== verification/Rust_Prelude.thy ===== *)
theory Rust_Prelude
  imports Main "HOL-Library.Word"
begin

text \<open>
  The part of Rust and of its standard library that the modelled code uses: machine integers,
  the outcome of a fallible function, slices that panic when they are out of range, checked,
  wrapping, overflowing and saturating arithmetic, and the big-endian integers of the wire
  format. Everything here is shared by the component theories.

  An outcome is \<open>Ok v\<close>, \<open>Err e\<close> (the error a function returns) or \<open>Panic\<close> (an index out of
  range, a failed \<open>unwrap\<close> or \<open>assert\<close>, or an arithmetic overflow). Plain \<open>+\<close>, \<open>-\<close> and \<open>*\<close> of
  the source are modelled with the overflow checks of Rust's dev profile: an overflow is a
  \<open>Panic\<close>. A theorem that a function does not panic therefore also says that the release build,
  where these operators wrap, computes the same value. Lengths of slices and vectors
  (\<open>usize\<close>) are natural numbers.
\<close>

unbundle bit_operations_syntax

type_synonym u8 = "8 word"
type_synonym u16 = "16 word"
type_synonym u32 = "32 word"
type_synonym u64 = "64 word"
type_synonym bytes = "u8 list"

named_theorems outcome_simps \<open>rules that run the outcome monad\<close>
named_theorems wire_simps \<open>rules that evaluate wire encodings\<close>

section \<open>Outcomes\<close>

datatype ('a, 'e) outcome = Ok 'a | Err 'e | Panic

text \<open>The \<open>?\<close> operator: go on with the value, hand an error or a panic to the caller.\<close>

fun and_then :: "('a, 'e) outcome \<Rightarrow> ('a \<Rightarrow> ('b, 'e) outcome) \<Rightarrow> ('b, 'e) outcome" where
  "and_then (Ok x) f = f x"
| "and_then (Err e) f = Err e"
| "and_then Panic f = Panic"

fun map_err :: "('e \<Rightarrow> 'f) \<Rightarrow> ('a, 'e) outcome \<Rightarrow> ('a, 'f) outcome" where
  "map_err f (Ok x) = Ok x"
| "map_err f (Err e) = Err (f e)"
| "map_err f Panic = Panic"

fun map_ok :: "('a \<Rightarrow> 'b) \<Rightarrow> ('a, 'e) outcome \<Rightarrow> ('b, 'e) outcome" where
  "map_ok f (Ok x) = Ok (f x)"
| "map_ok f (Err e) = Err e"
| "map_ok f Panic = Panic"

fun ok_or :: "'e \<Rightarrow> 'a option \<Rightarrow> ('a, 'e) outcome" where
  "ok_or e None = Err e"
| "ok_or e (Some x) = Ok x"

text \<open>\<open>unwrap\<close> of a result and of an option.\<close>

fun unwrap :: "('a, 'e) outcome \<Rightarrow> ('a, 'f) outcome" where
  "unwrap (Ok x) = Ok x"
| "unwrap (Err e) = Panic"
| "unwrap Panic = Panic"

fun unwrap_opt :: "'a option \<Rightarrow> ('a, 'e) outcome" where
  "unwrap_opt (Some x) = Ok x"
| "unwrap_opt None = Panic"

text \<open>\<open>collect::<Result<Vec<_>>>\<close> over a mapped list: stops at the first error.\<close>

fun try_map :: "('a \<Rightarrow> ('b, 'e) outcome) \<Rightarrow> 'a list \<Rightarrow> ('b list, 'e) outcome" where
  "try_map f [] = Ok []"
| "try_map f (x # xs) = and_then (f x) (\<lambda>y. and_then (try_map f xs) (\<lambda>ys. Ok (y # ys)))"

lemma and_then_Ok_iff [outcome_simps]:
  "and_then m f = Ok y \<longleftrightarrow> (\<exists>x. m = Ok x \<and> f x = Ok y)"
  by (cases m) auto

lemma and_then_not_Panic [outcome_simps]:
  "and_then m f \<noteq> Panic \<longleftrightarrow> m \<noteq> Panic \<and> (\<forall>x. m = Ok x \<longrightarrow> f x \<noteq> Panic)"
  by (cases m) auto

lemma and_then_Err_iff:
  "and_then m f = Err e \<longleftrightarrow> m = Err e \<or> (\<exists>x. m = Ok x \<and> f x = Err e)"
  by (cases m) auto

lemma map_err_Ok_iff [outcome_simps]: "map_err f m = Ok y \<longleftrightarrow> m = Ok y"
  by (cases m) auto

lemma map_err_Panic_iff [outcome_simps]: "map_err f m = Panic \<longleftrightarrow> m = Panic"
  by (cases m) auto

lemma ok_or_Ok_iff [outcome_simps]: "ok_or e m = Ok y \<longleftrightarrow> m = Some y"
  by (cases m) auto

lemma ok_or_not_Panic [simp]: "ok_or e m \<noteq> Panic" "Panic \<noteq> ok_or e m"
  by (cases m; simp)+

lemma and_then_cong [fundef_cong]:
  "m = m' \<Longrightarrow> (\<And>x. m' = Ok x \<Longrightarrow> f x = f' x) \<Longrightarrow> and_then m f = and_then m' f'"
  by (cases m') auto

lemma and_then_assoc: "and_then (and_then m f) g = and_then m (\<lambda>x. and_then (f x) g)"
  by (cases m) auto

lemma try_map_Ok_map: "(\<And>x. x \<in> set xs \<Longrightarrow> f x = Ok (g x)) \<Longrightarrow> try_map f xs = Ok (map g xs)"
  by (induction xs) auto

lemma try_map_not_Panic: "(\<And>x. x \<in> set xs \<Longrightarrow> f x \<noteq> Panic) \<Longrightarrow> try_map f xs \<noteq> Panic"
  by (induction xs) (auto simp: outcome_simps)

lemma try_map_length: "try_map f xs = Ok ys \<Longrightarrow> length ys = length xs"
  by (induction xs arbitrary: ys) (auto simp: outcome_simps)

section \<open>Slices\<close>

definition index :: "'a list \<Rightarrow> nat \<Rightarrow> ('a, 'e) outcome" where
  "index xs i = (if i < length xs then Ok (xs ! i) else Panic)"

definition slice :: "'a list \<Rightarrow> nat \<Rightarrow> nat \<Rightarrow> ('a list, 'e) outcome" where
  "slice xs a b = (if a \<le> b \<and> b \<le> length xs then Ok (take (b - a) (drop a xs)) else Panic)"

definition slice_from :: "'a list \<Rightarrow> nat \<Rightarrow> ('a list, 'e) outcome" where
  "slice_from xs a = (if a \<le> length xs then Ok (drop a xs) else Panic)"

definition slice_to :: "'a list \<Rightarrow> nat \<Rightarrow> ('a list, 'e) outcome" where
  "slice_to xs b = (if b \<le> length xs then Ok (take b xs) else Panic)"

text \<open>\<open>xs[i] = x\<close> and \<open>xs[a..a + ys.len()].copy_from_slice(ys)\<close>.\<close>

definition set_index :: "'a list \<Rightarrow> nat \<Rightarrow> 'a \<Rightarrow> ('a list, 'e) outcome" where
  "set_index xs i x = (if i < length xs then Ok (xs[i := x]) else Panic)"

definition copy_at :: "'a list \<Rightarrow> nat \<Rightarrow> 'a list \<Rightarrow> ('a list, 'e) outcome" where
  "copy_at xs a ys =
     (if a + length ys \<le> length xs then Ok (take a xs @ ys @ drop (a + length ys) xs) else Panic)"

lemma index_Ok [simp]: "i < length xs \<Longrightarrow> index xs i = Ok (xs ! i)"
  by (simp add: index_def)

lemma index_oob [simp]: "length xs \<le> i \<Longrightarrow> index xs i = Panic"
  by (simp add: index_def)

lemma slice_Ok [simp]:
  "a \<le> b \<Longrightarrow> b \<le> length xs \<Longrightarrow> slice xs a b = Ok (take (b - a) (drop a xs))"
  by (simp add: slice_def)

lemma slice_from_Ok [simp]: "a \<le> length xs \<Longrightarrow> slice_from xs a = Ok (drop a xs)"
  by (simp add: slice_from_def)

lemma slice_to_Ok [simp]: "b \<le> length xs \<Longrightarrow> slice_to xs b = Ok (take b xs)"
  by (simp add: slice_to_def)

lemma set_index_Ok [simp]: "i < length xs \<Longrightarrow> set_index xs i x = Ok (xs[i := x])"
  by (simp add: set_index_def)

lemma copy_at_Ok [simp]:
  "a + length ys \<le> length xs \<Longrightarrow> copy_at xs a ys = Ok (take a xs @ ys @ drop (a + length ys) xs)"
  by (simp add: copy_at_def)

lemma index_not_Panic [outcome_simps]: "index xs i \<noteq> Panic \<longleftrightarrow> i < length xs"
  by (simp add: index_def)

lemma slice_not_Panic [outcome_simps]: "slice xs a b \<noteq> Panic \<longleftrightarrow> a \<le> b \<and> b \<le> length xs"
  by (simp add: slice_def)

lemma index_Ok_iff [outcome_simps]: "index xs i = Ok x \<longleftrightarrow> i < length xs \<and> xs ! i = x"
  by (auto simp: index_def)

lemma slice_Ok_iff [outcome_simps]:
  "slice xs a b = Ok ys \<longleftrightarrow> a \<le> b \<and> b \<le> length xs \<and> ys = take (b - a) (drop a xs)"
  by (auto simp: slice_def)

lemma slice_from_Ok_iff [outcome_simps]:
  "slice_from xs a = Ok ys \<longleftrightarrow> a \<le> length xs \<and> ys = drop a xs"
  by (auto simp: slice_from_def)

lemma slice_to_Ok_iff [outcome_simps]:
  "slice_to xs b = Ok ys \<longleftrightarrow> b \<le> length xs \<and> ys = take b xs"
  by (auto simp: slice_to_def)

lemma replicate_update_same [simp]: "(replicate n x)[i := x] = replicate n x"
proof (cases "i < n")
  case True
  then show ?thesis by (metis list_update_id nth_replicate)
qed (simp add: list_update_beyond)

section \<open>Integer arithmetic\<close>

text \<open>
  \<open>checked_plus\<close> and \<open>checked_minus\<close> are the operators \<open>+\<close> and \<open>-\<close> with overflow checks;
  \<open>overflowing_add\<close> returns the wrapped sum and the carry, \<open>overflowing_sub\<close> the wrapped
  difference and the borrow. \<open>wrapping_add\<close> and \<open>wrapping_sub\<close> are \<open>+\<close> and \<open>-\<close> on words.
\<close>

definition checked_plus :: "'n::len word \<Rightarrow> 'n word \<Rightarrow> ('n word, 'e) outcome" where
  "checked_plus a b = (if unat a + unat b < 2 ^ LENGTH('n) then Ok (a + b) else Panic)"

definition checked_minus :: "'n::len word \<Rightarrow> 'n word \<Rightarrow> ('n word, 'e) outcome" where
  "checked_minus a b = (if b \<le> a then Ok (a - b) else Panic)"

definition overflowing_add :: "'n::len word \<Rightarrow> 'n word \<Rightarrow> 'n word \<times> bool" where
  "overflowing_add a b = (a + b, 2 ^ LENGTH('n) \<le> unat a + unat b)"

definition overflowing_sub :: "'n::len word \<Rightarrow> 'n word \<Rightarrow> 'n word \<times> bool" where
  "overflowing_sub a b = (a - b, a < b)"

definition saturating_sub :: "'n::len word \<Rightarrow> 'n word \<Rightarrow> 'n word" where
  "saturating_sub a b = (if b \<le> a then a - b else 0)"

text \<open>Subtraction of lengths (\<open>usize\<close>).\<close>

definition usize_sub :: "nat \<Rightarrow> nat \<Rightarrow> (nat, 'e) outcome" where
  "usize_sub a b = (if b \<le> a then Ok (a - b) else Panic)"

lemma usize_sub_Ok [simp]: "b \<le> a \<Longrightarrow> usize_sub a b = Ok (a - b)"
  by (simp add: usize_sub_def)

lemma checked_plus_Ok:
  "unat a + unat b < 2 ^ LENGTH('n) \<Longrightarrow> checked_plus (a :: 'n::len word) b = Ok (a + b)"
  by (simp add: checked_plus_def)

lemma checked_minus_Ok: "b \<le> a \<Longrightarrow> checked_minus a b = Ok (a - b)"
  by (simp add: checked_minus_def)

lemma unat_plus_no_carry:
  "unat a + unat b < 2 ^ LENGTH('n) \<Longrightarrow> unat ((a :: 'n::len word) + b) = unat a + unat b"
  by (simp add: unat_word_ariths)

text \<open>
  A window of \<open>w\<close> values that starts at \<open>c\<close> and may wrap, tested with \<open>overflowing_add\<close>, holds exactly
  the values at a distance below \<open>w\<close>.
\<close>

definition in_window :: "'n::len word \<Rightarrow> 'n word \<Rightarrow> 'n word \<Rightarrow> bool" where
  "in_window c w i \<longleftrightarrow>
     (let (limit, next_gen) = overflowing_add c w in
      (\<not> next_gen \<and> c \<le> i \<and> i < limit) \<or> (next_gen \<and> (c \<le> i \<or> i < limit)))"

lemma unat_minus_split:
  "unat ((i :: 'n::len word) - c) = (if c \<le> i then unat i - unat c else 2 ^ LENGTH('n) + unat i - unat c)"
proof (cases "c \<le> i")
  case False
  then have "unat i < unat c" by (simp add: word_le_nat_alt)
  moreover have "unat c < 2 ^ LENGTH('n)" by (rule unsigned_less)
  ultimately show ?thesis using False by (simp add: unat_sub_if')
qed (simp add: unat_sub)

lemma in_window_nat:
  fixes C I W N :: nat
  assumes "C < N" "I < N" "W < N"
  shows "(if C + W < N then C \<le> I \<and> I < C + W else C \<le> I \<or> I < C + W - N)
    \<longleftrightarrow> (if C \<le> I then I - C else N + I - C) < W"
  using assms by auto

lemma in_window_iff: "in_window c w i \<longleftrightarrow> unat (i - c) < unat (w :: 'n::len word)"
proof -
  have b: "unat c < 2 ^ LENGTH('n)" "unat i < 2 ^ LENGTH('n)" "unat w < 2 ^ LENGTH('n)"
    by (rule unsigned_less)+
  have sum: "unat (c + w) = (if unat c + unat w < 2 ^ LENGTH('n) then unat c + unat w
      else unat c + unat w - 2 ^ LENGTH('n))"
  proof (cases "unat c + unat w < 2 ^ LENGTH('n)")
    case False
    then have "(unat c + unat w) mod 2 ^ LENGTH('n) = (unat c + unat w - 2 ^ LENGTH('n)) mod 2 ^ LENGTH('n)"
      by (simp add: le_mod_geq)
    moreover have "unat c + unat w - 2 ^ LENGTH('n) < 2 ^ LENGTH('n)" using b by linarith
    ultimately show ?thesis using False by (simp add: unat_word_ariths)
  qed (simp add: unat_plus_no_carry)
  have "in_window c w i \<longleftrightarrow> (if unat c + unat w < 2 ^ LENGTH('n)
      then unat c \<le> unat i \<and> unat i < unat c + unat w
      else unat c \<le> unat i \<or> unat i < unat c + unat w - 2 ^ LENGTH('n))"
    by (simp add: in_window_def overflowing_add_def word_le_nat_alt word_less_nat_alt sum not_less)
  also have "\<dots> \<longleftrightarrow> unat (i - c) < unat w"
    unfolding in_window_nat [OF b] by (simp add: unat_minus_split word_le_nat_alt)
  finally show ?thesis .
qed

lemma word_of_nat_window:
  "a < b + 2 ^ LENGTH('n) \<Longrightarrow> b < a + 2 ^ LENGTH('n) \<Longrightarrow>
     (of_nat a :: 'n::len word) = of_nat b \<longleftrightarrow> a = b"
proof (induction a b rule: linorder_wlog)
  case (le a b)
  have "(of_nat a :: 'n word) = of_nat b \<longleftrightarrow> (of_nat (b - a) :: 'n word) = 0"
    using le(1) by (auto simp: of_nat_diff)
  also have "\<dots> \<longleftrightarrow> 2 ^ LENGTH('n) dvd b - a" by (simp add: word_of_nat_eq_0_iff)
  also have "\<dots> \<longleftrightarrow> a = b" using le by (auto dest: dvd_imp_le)
  finally show ?case .
next
  case (sym a b)
  then show ?case by metis
qed

lemma u32_max: "unat (- 1 :: u32) = 4294967295"
  by (simp add: unsigned_minus_1_eq_mask mask_eq_exp_minus_1)

lemma u32_not_max: "(gen :: u32) \<noteq> - 1 \<longleftrightarrow> unat gen + 1 < 2 ^ 32"
  using unsigned_less [of gen, where 'a = nat] by (auto simp: word_unat_eq_iff u32_max)

lemma checked_plus_one: "checked_plus (gen :: u32) 1 = (if gen = - 1 then Panic else Ok (gen + 1))"
  using u32_not_max [of gen] by (auto simp: checked_plus_def)

lemma checked_minus_one: "checked_minus (gen :: u32) 1 = (if gen = 0 then Panic else Ok (gen - 1))"
  by (auto simp: checked_minus_def word_le_nat_alt unat_gt_0 Suc_le_eq)

lemma unat_plus_one_max: "(gen :: u32) \<noteq> - 1 \<Longrightarrow> unat (gen + 1) = unat gen + 1"
  using u32_not_max [of gen] unat_plus_no_carry [of gen 1] by simp

section \<open>Actions on a state\<close>

text \<open>
  A method with \<open>&mut self\<close>: it changes the state and returns an outcome. An error keeps the changes
  that were made before it, as in the code. After a panic the state is not used any more.
\<close>

type_synonym ('s, 'a, 'e) action = "'s \<Rightarrow> ('a, 'e) outcome \<times> 's"

definition act_return :: "'a \<Rightarrow> ('s, 'a, 'e) action" where
  "act_return x = (\<lambda>s. (Ok x, s))"

definition act_fail :: "'e \<Rightarrow> ('s, 'a, 'e) action" where
  "act_fail e = (\<lambda>s. (Err e, s))"

fun act_then :: "('s, 'a, 'e) action \<Rightarrow> ('a \<Rightarrow> ('s, 'b, 'e) action) \<Rightarrow> 's \<Rightarrow> ('b, 'e) outcome \<times> 's" where
  "act_then m f s =
     (case m s of (Ok x, s') \<Rightarrow> f x s' | (Err e, s') \<Rightarrow> (Err e, s') | (Panic, s') \<Rightarrow> (Panic, s'))"

definition act_lift :: "('a, 'e) outcome \<Rightarrow> ('s, 'a, 'e) action" where
  "act_lift m = (\<lambda>s. (m, s))"

definition act_read :: "('s \<Rightarrow> 'a) \<Rightarrow> ('s, 'a, 'e) action" where
  "act_read f = (\<lambda>s. (Ok (f s), s))"

definition act_modify :: "('s \<Rightarrow> 's) \<Rightarrow> ('s, unit, 'e) action" where
  "act_modify f = (\<lambda>s. (Ok (), f s))"

text \<open>A \<open>for\<close> loop whose body acts on the state.\<close>

fun act_for :: "'a list \<Rightarrow> ('a \<Rightarrow> ('s, unit, 'e) action) \<Rightarrow> ('s, unit, 'e) action" where
  "act_for [] f = act_return ()"
| "act_for (x # xs) f = act_then (f x) (\<lambda>_. act_for xs f)"

text \<open>A mapped iterator collected into a result: stops at the first error.\<close>

fun act_map :: "('a \<Rightarrow> ('s, 'b, 'e) action) \<Rightarrow> 'a list \<Rightarrow> ('s, 'b list, 'e) action" where
  "act_map f [] = act_return []"
| "act_map f (x # xs) = act_then (f x) (\<lambda>y. act_then (act_map f xs) (\<lambda>ys. act_return (y # ys)))"

declare act_then.simps [simp del]

lemma act_simps [simp]:
  "act_then (act_return x) f s = f x s"
  "act_then (act_fail e) f s = (Err e, s)"
  "act_then (act_lift (Ok x)) f s = f x s"
  "act_then (act_lift (Err e)) f s = (Err e, s)"
  "act_then (act_lift Panic) f s = (Panic, s)"
  "act_then (act_read g) f s = f (g s) s"
  "act_then (act_modify h) f' s = f' () (h s)"
  "act_return x s = (Ok x, s)"
  "act_fail e s = (Err e, s)"
  "act_lift m s = (m, s)"
  "act_read g s = (Ok (g s), s)"
  "act_modify h s = (Ok (), h s)"
  by (simp_all add: act_then.simps act_return_def act_fail_def act_lift_def act_read_def act_modify_def)

lemma act_then_Ok: "m s = (Ok x, s') \<Longrightarrow> act_then m f s = f x s'"
  by (simp add: act_then.simps)

lemma act_then_cases:
  "act_then m f s = (r, t) \<Longrightarrow>
     (\<And>x s'. m s = (Ok x, s') \<Longrightarrow> f x s' = (r, t) \<Longrightarrow> P) \<Longrightarrow>
     (\<And>e. m s = (Err e, t) \<Longrightarrow> r = Err e \<Longrightarrow> P) \<Longrightarrow> (m s = (Panic, t) \<Longrightarrow> r = Panic \<Longrightarrow> P) \<Longrightarrow> P"
  by (auto simp: act_then.simps split: prod.splits outcome.splits)

text \<open>An invariant of the state is kept by a sequence of actions that keep it.\<close>

lemma act_then_invariant:
  assumes "\<And>r t. m s = (r, t) \<Longrightarrow> I t" and "\<And>x t r u. m s = (Ok x, t) \<Longrightarrow> I t \<Longrightarrow> f x t = (r, u) \<Longrightarrow> I u"
    and "act_then m f s = (r, u)"
  shows "I u"
  using assms(3) by (rule act_then_cases) (auto dest: assms(1) intro: assms(2) [OF _ assms(1)])

lemma act_then_fst: "fst (act_then m f s) = and_then (fst (m s)) (\<lambda>x. fst (f x (snd (m s))))"
  by (cases "fst (m s)"; cases "m s") (simp_all add: act_then.simps)

section \<open>Byte strings\<close>

text \<open>Byte string literals: the code of every character.\<close>

definition ascii :: "string \<Rightarrow> bytes" where
  "ascii s = map of_char s"

lemma length_ascii [simp]: "length (ascii s) = length s"
  by (simp add: ascii_def)

definition starts_with :: "'a list \<Rightarrow> 'a list \<Rightarrow> bool" where
  "starts_with xs p \<longleftrightarrow> take (length p) xs = p"

section \<open>Big-endian integers\<close>

text \<open>
  \<open>write_be\<close> appends \<open>to_be_bytes\<close>; \<open>read_be\<close> takes exactly the width of the integer from the
  front of a slice and fails with an I/O error when the slice is too short.
\<close>

definition be16 :: "u16 \<Rightarrow> bytes" where
  "be16 w = [ucast (drop_bit 8 w), ucast w]"

definition be32 :: "u32 \<Rightarrow> bytes" where
  "be32 w = [ucast (drop_bit 24 w), ucast (drop_bit 16 w), ucast (drop_bit 8 w), ucast w]"

definition be64 :: "u64 \<Rightarrow> bytes" where
  "be64 w = [ucast (drop_bit 56 w), ucast (drop_bit 48 w), ucast (drop_bit 40 w),
     ucast (drop_bit 32 w), ucast (drop_bit 24 w), ucast (drop_bit 16 w), ucast (drop_bit 8 w),
     ucast w]"

text \<open>\<open>from_be_bytes\<close> at any width.\<close>

definition from_be :: "bytes \<Rightarrow> 'n::len word" where
  "from_be bs = foldl (\<lambda>acc b. push_bit 8 acc OR ucast b) 0 bs"

definition read_be16 :: "'e \<Rightarrow> bytes \<Rightarrow> (u16, 'e) outcome" where
  "read_be16 e bs = (if length bs < 2 then Err e else Ok (from_be (take 2 bs)))"

definition read_be32 :: "'e \<Rightarrow> bytes \<Rightarrow> (u32, 'e) outcome" where
  "read_be32 e bs = (if length bs < 4 then Err e else Ok (from_be (take 4 bs)))"

definition read_be64 :: "'e \<Rightarrow> bytes \<Rightarrow> (u64, 'e) outcome" where
  "read_be64 e bs = (if length bs < 8 then Err e else Ok (from_be (take 8 bs)))"

lemma length_be [simp]: "length (be16 a) = 2" "length (be32 b) = 4" "length (be64 c) = 8"
  by (simp_all add: be16_def be32_def be64_def)

lemma be_not_Nil [simp]: "be16 a \<noteq> []" "be32 b \<noteq> []" "be64 c \<noteq> []"
  by (simp_all add: be16_def be32_def be64_def)

text \<open>One more byte of a number: the recurrence of \<open>from_be\<close> and of the encoders.\<close>

lemma from_be_Nil [simp]: "from_be [] = 0"
  by (simp add: from_be_def)

lemma from_be_snoc: "from_be (bs @ [b]) = push_bit 8 (from_be bs) OR ucast b"
  by (simp add: from_be_def)

lemma be_step:
  "push_bit 8 (drop_bit (k + 8) w) OR ucast (ucast (drop_bit k w) :: u8) = drop_bit k (w :: 'n::len word)"
proof (rule bit_word_eqI)
  fix n assume n: "n < LENGTH('n)"
  have shift: "k + 8 + (n - 8) = k + n" if "\<not> n < 8" using that by simp
  have len: "LENGTH(8) = 8" by simp
  show "bit (push_bit 8 (drop_bit (k + 8) w) OR ucast (ucast (drop_bit k w) :: u8)) n
      = bit (drop_bit k w) n"
    using n shift
    by (cases "n < 8") (simp_all only: bit_or_iff bit_push_bit_iff bit_drop_bit_eq
        bit_ucast_iff comp_def possible_bit_word not_less len simp_thms not_le, auto)
qed

lemma from_be_single: "from_be [b] = ucast b"
  by (simp add: from_be_def)

text \<open>Reading the bytes \<open>[drop_bit (8 k) w, ..., w]\<close> one by one yields ever longer prefixes of \<open>w\<close>.\<close>

lemma from_be_extend:
  "from_be bs = drop_bit j w \<Longrightarrow> j = k + 8 \<Longrightarrow>
   from_be (bs @ [ucast (drop_bit k w)]) = drop_bit k (w :: 'n::len word)"
  by (simp add: from_be_snoc be_step)

lemma from_be_top:
  "LENGTH('n) = k + 8 \<Longrightarrow> from_be [ucast (drop_bit k w)] = drop_bit k (w :: 'n::len word)"
  using from_be_extend [of "[]" "k + 8" w k] by (simp add: drop_bit_word_beyond)

lemma from_be16: "from_be (be16 w) = w"
  using from_be_extend [OF from_be_top [of 8 w], of 0] by (simp add: be16_def)

lemma from_be32: "from_be (be32 w) = w"
proof -
  note 3 = from_be_top [of 24 w, simplified]
  note 2 = from_be_extend [OF 3, of 16, simplified]
  note 1 = from_be_extend [OF 2, of 8, simplified]
  show ?thesis using from_be_extend [OF 1, of 0] by (simp add: be32_def)
qed

lemma from_be64: "from_be (be64 w) = w"
proof -
  note 7 = from_be_top [of 56 w, simplified]
  note 6 = from_be_extend [OF 7, of 48, simplified]
  note 5 = from_be_extend [OF 6, of 40, simplified]
  note 4 = from_be_extend [OF 5, of 32, simplified]
  note 3 = from_be_extend [OF 4, of 24, simplified]
  note 2 = from_be_extend [OF 3, of 16, simplified]
  note 1 = from_be_extend [OF 2, of 8, simplified]
  show ?thesis using from_be_extend [OF 1, of 0] by (simp add: be64_def)
qed

section \<open>The interface of a fixed-width wire field\<close>

text \<open>
  A field of the wire format is written as \<open>width\<close> bytes and read back from the front of a slice;
  a slice that is too short is an I/O error. Every fixed-width field of the packets
  (\<open>u16\<close>, \<open>u32\<close>, \<open>u64\<close>) satisfies these laws, and every round trip of a packet rests on them.
\<close>

locale wire_field =
  fixes width :: nat
    and enc :: "'a \<Rightarrow> bytes"
    and dec :: "'e \<Rightarrow> bytes \<Rightarrow> ('a, 'e) outcome"
  assumes width_enc: "length (enc x) = width"
    and dec_enc: "dec e (enc x @ rest) = Ok x"
    and dec_short: "length bs < width \<Longrightarrow> dec e bs = Err e"
    and dec_total: "width \<le> length bs \<Longrightarrow> \<exists>x. dec e bs = Ok x"
begin

lemma dec_enc_self: "dec e (enc x) = Ok x"
  using dec_enc [of e x "[]"] by simp

lemma enc_inj: "enc x = enc y \<Longrightarrow> x = y"
  by (metis dec_enc_self outcome.inject(1))

lemma dec_not_Panic: "dec e bs \<noteq> Panic"
  using dec_short [of bs e] dec_total [of bs e] by (cases "length bs < width") auto

lemma width_concat: "length (concat (map enc xs)) = width * length xs"
  by (induction xs) (simp_all add: width_enc)

text \<open>Reading the fields of a vector at their offsets, as \<open>(0..count).map(|i| read_be(&b[off + i * w..]))\<close>.\<close>

lemma dec_vector_nth:
  "i < length xs \<Longrightarrow> dec e (drop (i * width) (concat (map enc xs) @ rest)) = Ok (xs ! i)"
proof (induction xs arbitrary: i)
  case Nil
  then show ?case by simp
next
  case (Cons x xs)
  then show ?case
    by (cases i) (simp_all add: dec_enc width_enc)
qed

end

interpretation be16_field: wire_field 2 be16 read_be16
  by unfold_locales (auto simp: read_be16_def from_be16)

interpretation be32_field: wire_field 4 be32 read_be32
  by unfold_locales (auto simp: read_be32_def from_be32)

interpretation be64_field: wire_field 8 be64 read_be64
  by unfold_locales (auto simp: read_be64_def from_be64)

lemmas read_be_write_be [simp, wire_simps] =
  be16_field.dec_enc be16_field.dec_enc_self
  be32_field.dec_enc be32_field.dec_enc_self
  be64_field.dec_enc be64_field.dec_enc_self

lemmas read_be_not_Panic [simp] =
  be16_field.dec_not_Panic be32_field.dec_not_Panic be64_field.dec_not_Panic

end
