(* ===== verification/Packet_Header.thy ===== *)
theory Packet_Header
  imports Rust_Prelude
begin

text \<open>
  Packet headers: the first half of \<open>utils/tsproto-packets/src/packets.rs\<close> and the error type of
  \<open>utils/tsproto-packets/src/lib.rs\<close>. A packet from the server has an 11 byte header (8 byte mac,
  2 byte packet id, 1 byte flags and type), a packet from a client has two more bytes for the
  client id. Incoming packets (\<open>InHeader\<close>, \<open>InPacket\<close>) are views of a datagram, outgoing packets
  (\<open>OutPacket\<close>, \<open>OutUdpPacket\<close>) are buffers that setters fill in place.
\<close>

section \<open>Enumerations\<close>

datatype packet_type =
  Voice | VoiceWhisper | Command | CommandLow | Ping | Pong | Ack_T | AckLow | Init

datatype direction = S2C | C2S

datatype codec_type =
  SpeexNarrowband | SpeexWideband | SpeexUltrawideband | CeltMono | OpusVoice | OpusMusic

text \<open>The derived \<open>ToPrimitive\<close> and \<open>FromPrimitive\<close> of the enumerations: the discriminants.\<close>

fun packet_type_to_u8 :: "packet_type \<Rightarrow> u8" where
  "packet_type_to_u8 Voice = 0"
| "packet_type_to_u8 VoiceWhisper = 1"
| "packet_type_to_u8 Command = 2"
| "packet_type_to_u8 CommandLow = 3"
| "packet_type_to_u8 Ping = 4"
| "packet_type_to_u8 Pong = 5"
| "packet_type_to_u8 Ack_T = 6"
| "packet_type_to_u8 AckLow = 7"
| "packet_type_to_u8 Init = 8"

definition packet_types :: "packet_type list" where
  "packet_types = [Voice, VoiceWhisper, Command, CommandLow, Ping, Pong, Ack_T, AckLow, Init]"

definition packet_type_from_u8 :: "u8 \<Rightarrow> packet_type option" where
  "packet_type_from_u8 n =
     (if unat n < length packet_types then Some (packet_types ! unat n) else None)"

definition packet_type_index :: "packet_type \<Rightarrow> nat" where
  "packet_type_index t = unat (packet_type_to_u8 t)"

fun codec_to_u8 :: "codec_type \<Rightarrow> u8" where
  "codec_to_u8 SpeexNarrowband = 0"
| "codec_to_u8 SpeexWideband = 1"
| "codec_to_u8 SpeexUltrawideband = 2"
| "codec_to_u8 CeltMono = 3"
| "codec_to_u8 OpusVoice = 4"
| "codec_to_u8 OpusMusic = 5"

definition codec_types :: "codec_type list" where
  "codec_types =
     [SpeexNarrowband, SpeexWideband, SpeexUltrawideband, CeltMono, OpusVoice, OpusMusic]"

definition codec_from_u8 :: "u8 \<Rightarrow> codec_type option" where
  "codec_from_u8 n = (if unat n < length codec_types then Some (codec_types ! unat n) else None)"

definition is_command :: "packet_type \<Rightarrow> bool" where
  "is_command t \<longleftrightarrow> t = Command \<or> t = CommandLow"

definition is_ack :: "packet_type \<Rightarrow> bool" where
  "is_ack t \<longleftrightarrow> t = Ack_T \<or> t = AckLow \<or> t = Pong"

definition is_voice :: "packet_type \<Rightarrow> bool" where
  "is_voice t \<longleftrightarrow> t = Voice \<or> t = VoiceWhisper"

fun reverse :: "direction \<Rightarrow> direction" where
  "reverse S2C = C2S"
| "reverse C2S = S2C"

section \<open>Flags\<close>

text \<open>The bit set \<open>Flags\<close>: a byte of which only the four named bits are used.\<close>

type_synonym flags = u8

definition UNENCRYPTED :: flags where "UNENCRYPTED = 0x80"
definition COMPRESSED :: flags where "COMPRESSED = 0x40"
definition NEWPROTOCOL :: flags where "NEWPROTOCOL = 0x20"
definition FRAGMENTED :: flags where "FRAGMENTED = 0x10"

definition flags_contains :: "flags \<Rightarrow> flags \<Rightarrow> bool" where
  "flags_contains f g \<longleftrightarrow> f AND g = g"

definition flags_from_bits :: "u8 \<Rightarrow> flags option" where
  "flags_from_bits b =
     (if b AND NOT (UNENCRYPTED OR COMPRESSED OR NEWPROTOCOL OR FRAGMENTED) = 0
      then Some b else None)"

definition valid_flags :: "flags \<Rightarrow> bool" where
  "valid_flags f \<longleftrightarrow> f AND 0xF0 = f"

section \<open>Errors\<close>

text \<open>
  The errors of the crate; the first five wrap errors of other crates and of the standard library,
  whose payload is dropped.
\<close>

datatype packets_error =
    Base64 | Io | ParseInt | Utf8 | StringUtf8
  | InvalidInitStep u8
  | InvalidCodec u8
  | PacketContentTooShort nat
  | PacketTooShort nat
  | ParseCommand string
  | UnknownPacketType u8
  | WrongDirection
  | WrongInitMac bytes
  | WrongPacketType packet_type

section \<open>Incoming packets\<close>

definition S2C_HEADER_LEN :: nat where "S2C_HEADER_LEN = 11"
definition C2S_HEADER_LEN :: nat where "C2S_HEADER_LEN = 13"

record in_header =
  ih_dir :: direction
  ih_data :: bytes

record in_packet =
  ip_header :: in_header
  ip_content :: bytes

definition header_len :: "direction \<Rightarrow> nat" where
  "header_len dir = (if dir = S2C then S2C_HEADER_LEN else C2S_HEADER_LEN)"

definition in_header_new :: "direction \<Rightarrow> bytes \<Rightarrow> (in_header, 'e) outcome" where
  "in_header_new dir bs =
     and_then (slice_to bs (header_len dir)) (\<lambda>h. Ok \<lparr>ih_dir = dir, ih_data = h\<rparr>)"

definition get_off :: "in_header \<Rightarrow> nat" where
  "get_off h = (if ih_dir h = S2C then 10 else 12)"

definition h_mac :: "in_header \<Rightarrow> (bytes, 'e) outcome" where
  "h_mac h = slice_to (ih_data h) 8"

definition h_packet_id :: "in_header \<Rightarrow> (u16, 'e) outcome" where
  "h_packet_id h = and_then (slice (ih_data h) 8 10) (\<lambda>s. unwrap (read_be16 Io s))"

definition h_client_id :: "in_header \<Rightarrow> (u16 option, 'e) outcome" where
  "h_client_id h =
     (if ih_dir h = S2C then Ok None
      else and_then (slice (ih_data h) 10 12) (\<lambda>s. map_ok Some (unwrap (read_be16 Io s))))"

definition h_flags :: "in_header \<Rightarrow> (flags, 'e) outcome" where
  "h_flags h =
     and_then (index (ih_data h) (get_off h)) (\<lambda>b. unwrap_opt (flags_from_bits (b AND 0xF0)))"

definition h_packet_type :: "in_header \<Rightarrow> (packet_type, 'e) outcome" where
  "h_packet_type h =
     and_then (index (ih_data h) (get_off h)) (\<lambda>b. unwrap_opt (packet_type_from_u8 (b AND 0xF)))"

definition h_get_meta :: "in_header \<Rightarrow> (bytes, 'e) outcome" where
  "h_get_meta h = slice_from (ih_data h) 8"

text \<open>\<open>InPacket::new\<close> panics on a short datagram; \<open>InPacket::try_new\<close> checks length and type first.\<close>

definition in_packet_new :: "direction \<Rightarrow> bytes \<Rightarrow> (in_packet, 'e) outcome" where
  "in_packet_new dir bs =
     and_then (in_header_new dir bs) (\<lambda>h.
     and_then (slice_from bs (length (ih_data h))) (\<lambda>c.
     Ok \<lparr>ip_header = h, ip_content = c\<rparr>))"

definition in_packet_try_new :: "direction \<Rightarrow> bytes \<Rightarrow> (in_packet, packets_error) outcome" where
  "in_packet_try_new dir bs =
     (let hl = header_len dir in
      if length bs < hl then Err (PacketTooShort (length bs))
      else and_then (index bs (hl - 1)) (\<lambda>b.
        let p_type = b AND 0xF in
        if p_type > 8 then Err (UnknownPacketType p_type)
        else in_packet_new dir bs))"

text \<open>The id of the packet that an ack, a pong or an init packet acknowledges.\<close>

definition ack_packet :: "in_packet \<Rightarrow> (u16 option, packets_error) outcome" where
  "ack_packet p =
     and_then (h_packet_type (ip_header p)) (\<lambda>p_type.
       if is_ack p_type then
         map_ok Some (map_err (\<lambda>_. PacketContentTooShort (length (ip_content p)))
           (read_be16 Io (ip_content p)))
       else if p_type = Init then
         (if ih_dir (ip_header p) = S2C then
            (case ip_content p of
               [] \<Rightarrow> Err (PacketContentTooShort (length (ip_content p)))
             | i # _ \<Rightarrow>
                 (if i = 1 then Ok (Some 0)
                  else if i = 3 then Ok (Some 2)
                  else if i = 127 then Ok (Some 2)
                  else Err (InvalidInitStep i)))
          else
            (if 4 < length (ip_content p) then
               let i = ip_content p ! 4 in
               if i = 0 then Ok None
               else if i = 2 then Ok (Some 1)
               else if i = 4 then Ok (Some 3)
               else Err (InvalidInitStep i)
             else Err (PacketContentTooShort (length (ip_content p)))))
       else Ok None)"

section \<open>Outgoing packets\<close>

record out_packet =
  op_dir :: direction
  op_data :: bytes

record out_udp_packet =
  ou_generation_id :: u32
  ou_data :: out_packet

definition content_offset :: "out_packet \<Rightarrow> nat" where
  "content_offset p = (if op_dir p = S2C then S2C_HEADER_LEN else C2S_HEADER_LEN)"

definition out_content :: "out_packet \<Rightarrow> (bytes, 'e) outcome" where
  "out_content p = slice_from (op_data p) (content_offset p)"

definition header_bytes :: "out_packet \<Rightarrow> (bytes, 'e) outcome" where
  "header_bytes p = slice_to (op_data p) (content_offset p)"

definition out_header :: "out_packet \<Rightarrow> (in_header, 'e) outcome" where
  "out_header p = and_then (header_bytes p) (\<lambda>h. Ok \<lparr>ih_dir = op_dir p, ih_data = h\<rparr>)"

definition out_packet_view :: "out_packet \<Rightarrow> (in_packet, 'e) outcome" where
  "out_packet_view p = in_packet_new (op_dir p) (op_data p)"

definition set_mac :: "bytes \<Rightarrow> out_packet \<Rightarrow> (out_packet, 'e) outcome" where
  "set_mac mac p =
     (if length mac \<noteq> 8 then Panic
      else and_then (copy_at (op_data p) 0 mac) (\<lambda>d. Ok (p\<lparr>op_data := d\<rparr>)))"

definition set_packet_id :: "u16 \<Rightarrow> out_packet \<Rightarrow> (out_packet, 'e) outcome" where
  "set_packet_id i p = and_then (copy_at (op_data p) 8 (be16 i)) (\<lambda>d. Ok (p\<lparr>op_data := d\<rparr>))"

definition set_client_id :: "u16 \<Rightarrow> out_packet \<Rightarrow> (out_packet, 'e) outcome" where
  "set_client_id i p =
     (if op_dir p \<noteq> C2S then Panic
      else and_then (copy_at (op_data p) 10 (be16 i)) (\<lambda>d. Ok (p\<lparr>op_data := d\<rparr>)))"

definition set_flags :: "flags \<Rightarrow> out_packet \<Rightarrow> (out_packet, 'e) outcome" where
  "set_flags f p =
     and_then (out_header p) (\<lambda>h.
     and_then (index (op_data p) (get_off h)) (\<lambda>b.
     and_then (set_index (op_data p) (get_off h) ((b AND 0xF) OR f)) (\<lambda>d.
     Ok (p\<lparr>op_data := d\<rparr>))))"

definition set_packet_type :: "packet_type \<Rightarrow> out_packet \<Rightarrow> (out_packet, 'e) outcome" where
  "set_packet_type t p =
     and_then (out_header p) (\<lambda>h.
     and_then (index (op_data p) (get_off h)) (\<lambda>b.
     and_then (set_index (op_data p) (get_off h) ((b AND 0xF0) OR packet_type_to_u8 t)) (\<lambda>d.
     Ok (p\<lparr>op_data := d\<rparr>))))"

definition new_with_dir :: "direction \<Rightarrow> flags \<Rightarrow> packet_type \<Rightarrow> (out_packet, 'e) outcome" where
  "new_with_dir dir f t =
     and_then (set_flags f \<lparr>op_dir = dir, op_data = replicate (header_len dir) 0\<rparr>)
       (set_packet_type t)"

definition new_from_data :: "direction \<Rightarrow> bytes \<Rightarrow> out_packet" where
  "new_from_data dir bs = \<lparr>op_dir = dir, op_data = bs\<rparr>"

definition out_packet_new ::
  "bytes \<Rightarrow> u16 \<Rightarrow> u16 option \<Rightarrow> flags \<Rightarrow> packet_type \<Rightarrow> (out_packet, 'e) outcome" where
  "out_packet_new mac packet_id client_id f t =
     (let dir = (if client_id \<noteq> None then C2S else S2C) in
      and_then (new_with_dir dir f t) (\<lambda>res.
      and_then (set_mac mac res) (\<lambda>res.
      and_then (set_packet_id packet_id res) (\<lambda>res.
      case client_id of None \<Rightarrow> Ok res | Some cid \<Rightarrow> set_client_id cid res))))"

text \<open>\<open>data_mut().write_all(..)\<close> and \<open>extend_from_slice\<close>: append to the buffer.\<close>

definition append_data :: "bytes \<Rightarrow> out_packet \<Rightarrow> out_packet" where
  "append_data bs p = p\<lparr>op_data := op_data p @ bs\<rparr>"

definition udp_packet_type :: "out_udp_packet \<Rightarrow> (packet_type, 'e) outcome" where
  "udp_packet_type u = and_then (out_header (ou_data u)) h_packet_type"

definition udp_packet_id :: "out_udp_packet \<Rightarrow> (u16, 'e) outcome" where
  "udp_packet_id u =
     and_then (udp_packet_type u) (\<lambda>t.
       if t = Init then
         and_then (out_content (ou_data u)) (\<lambda>c.
           map_ok ucast (index c (if op_dir (ou_data u) = S2C then 0 else 4)))
       else and_then (out_header (ou_data u)) h_packet_id)"

text \<open>\<open>OutAck::new\<close>: the ack of a command or the pong of a ping.\<close>

definition out_ack :: "direction \<Rightarrow> packet_type \<Rightarrow> u16 \<Rightarrow> (out_packet, 'e) outcome" where
  "out_ack dir for_type packet_id =
     (if for_type = Command then map_ok (append_data (be16 packet_id)) (new_with_dir dir 0 Ack_T)
      else if for_type = CommandLow then
        map_ok (append_data (be16 packet_id)) (new_with_dir dir 0 AckLow)
      else if for_type = Ping then
        map_ok (append_data (be16 packet_id)) (new_with_dir dir 0 Pong)
      else Panic)"

section \<open>Discriminants\<close>

lemma packet_type_to_u8_bound: "unat (packet_type_to_u8 t) < 9"
  by (cases t) auto

lemma packet_type_to_u8_nibble [simp]: "packet_type_to_u8 t AND 0xF = packet_type_to_u8 t"
  by (cases t) auto

lemma packet_type_to_u8_high [simp]: "packet_type_to_u8 t AND 0xF0 = 0"
  by (cases t) auto

lemma packet_type_from_to [simp]: "packet_type_from_u8 (packet_type_to_u8 t) = Some t"
  by (cases t) (simp_all add: packet_type_from_u8_def packet_types_def)

lemma packet_types_nth [simp]: "packet_types ! unat (packet_type_to_u8 t) = t"
  by (cases t) (simp_all add: packet_types_def)

lemma packet_type_from_u8_iff: "(\<exists>t. packet_type_from_u8 n = Some t) \<longleftrightarrow> n \<le> 8"
  by (auto simp: packet_type_from_u8_def packet_types_def word_le_nat_alt)

lemma packet_type_to_u8_inj [simp]: "packet_type_to_u8 t = packet_type_to_u8 t' \<longleftrightarrow> t = t'"
  by (cases t; cases t') auto

lemma codec_from_to [simp]: "codec_from_u8 (codec_to_u8 c) = Some c"
  by (cases c) (simp_all add: codec_from_u8_def codec_types_def)

lemma codec_from_u8_None_iff: "codec_from_u8 n = None \<longleftrightarrow> 6 \<le> n"
  by (auto simp: codec_from_u8_def codec_types_def word_le_nat_alt)

section \<open>The header layout\<close>

text \<open>
  The bytes of a header with given fields. The lemmas below say that every getter reads its field
  of the layout and that every setter replaces its field and no other, so that the packets built by
  the code are described by \<open>hdr\<close> from here on.
\<close>

definition hdr :: "direction \<Rightarrow> bytes \<Rightarrow> u16 \<Rightarrow> u16 \<Rightarrow> flags \<Rightarrow> packet_type \<Rightarrow> bytes" where
  "hdr dir mac i c f t =
     mac @ be16 i @ (if dir = C2S then be16 c else []) @ [f OR packet_type_to_u8 t]"

lemma valid_flags_simps [simp]:
  "valid_flags 0" "valid_flags UNENCRYPTED" "valid_flags COMPRESSED" "valid_flags NEWPROTOCOL"
  "valid_flags FRAGMENTED" "valid_flags f \<Longrightarrow> valid_flags g \<Longrightarrow> valid_flags (f OR g)"
  by (simp_all add: valid_flags_def UNENCRYPTED_def COMPRESSED_def NEWPROTOCOL_def FRAGMENTED_def
      bit.conj_disj_distrib2)

lemma valid_flags_low: "valid_flags f \<Longrightarrow> f AND 0xF = 0"
proof -
  assume "valid_flags f"
  then have "f AND 0xF = (f AND 0xF0) AND 0xF" by (simp add: valid_flags_def)
  also have "\<dots> = f AND (0xF0 AND 0xF)" by (simp only: and.assoc)
  finally show ?thesis by simp
qed

lemma flag_byte [simp]:
  assumes "valid_flags f"
  shows "(f OR packet_type_to_u8 t) AND 0xF0 = f"
    and "(f OR packet_type_to_u8 t) AND 0xF = packet_type_to_u8 t"
  using assms valid_flags_low [OF assms]
  by (simp_all add: bit.conj_disj_distrib2 valid_flags_def)

lemma valid_flags_from_bits [simp]: "flags_from_bits (b AND 0xF0) = Some (b AND 0xF0)"
  by (simp add: flags_from_bits_def UNENCRYPTED_def COMPRESSED_def NEWPROTOCOL_def
      FRAGMENTED_def and.assoc)

lemma header_len_simps [simp]: "header_len S2C = 11" "header_len C2S = 13"
  by (simp_all add: header_len_def S2C_HEADER_LEN_def C2S_HEADER_LEN_def)

lemma length_hdr [simp]: "length mac = 8 \<Longrightarrow> length (hdr dir mac i c f t) = header_len dir"
  by (cases dir) (simp_all add: hdr_def)

lemma content_offset_eq: "content_offset p = header_len (op_dir p)"
  by (simp add: content_offset_def header_len_def)

lemma hdr_getters [simp]:
  assumes "length mac = 8" "valid_flags f"
  shows "h_mac \<lparr>ih_dir = dir, ih_data = hdr dir mac i c f t\<rparr> = Ok mac"
    and "h_packet_id \<lparr>ih_dir = dir, ih_data = hdr dir mac i c f t\<rparr> = Ok i"
    and "h_client_id \<lparr>ih_dir = dir, ih_data = hdr dir mac i c f t\<rparr>
         = Ok (if dir = C2S then Some c else None)"
    and "h_flags \<lparr>ih_dir = dir, ih_data = hdr dir mac i c f t\<rparr> = Ok f"
    and "h_packet_type \<lparr>ih_dir = dir, ih_data = hdr dir mac i c f t\<rparr> = Ok t"
  using assms
  by (cases dir; simp add: h_mac_def h_packet_id_def h_client_id_def h_flags_def h_packet_type_def
      get_off_def hdr_def nth_append; fail)+

lemma in_packet_new_hdr [simp]:
  "length mac = 8 \<Longrightarrow> in_packet_new dir (hdr dir mac i c f t @ rest)
     = Ok \<lparr>ip_header = \<lparr>ih_dir = dir, ih_data = hdr dir mac i c f t\<rparr>, ip_content = rest\<rparr>"
  by (simp add: in_packet_new_def in_header_new_def)

lemma out_header_hdr [simp]:
  "length mac = 8 \<Longrightarrow> out_header \<lparr>op_dir = dir, op_data = hdr dir mac i c f t @ rest\<rparr>
     = Ok \<lparr>ih_dir = dir, ih_data = hdr dir mac i c f t\<rparr>"
  by (simp add: out_header_def header_bytes_def content_offset_eq)

lemma header_bytes_hdr [simp]:
  "length mac = 8 \<Longrightarrow> header_bytes \<lparr>op_dir = dir, op_data = hdr dir mac i c f t @ rest\<rparr>
     = Ok (hdr dir mac i c f t)"
  by (simp add: header_bytes_def content_offset_eq)

lemma out_content_hdr [simp]:
  "length mac = 8 \<Longrightarrow> out_content \<lparr>op_dir = dir, op_data = hdr dir mac i c f t @ rest\<rparr> = Ok rest"
  by (simp add: out_content_def content_offset_eq)

lemma append_data_hdr [simp]:
  "append_data bs \<lparr>op_dir = dir, op_data = d\<rparr> = \<lparr>op_dir = dir, op_data = d @ bs\<rparr>"
  by (simp add: append_data_def)

lemma set_mac_hdr [simp]:
  "length mac = 8 \<Longrightarrow> length mac' = 8 \<Longrightarrow>
     set_mac mac' \<lparr>op_dir = dir, op_data = hdr dir mac i c f t @ rest\<rparr>
     = Ok \<lparr>op_dir = dir, op_data = hdr dir mac' i c f t @ rest\<rparr>"
  by (simp add: set_mac_def hdr_def)

lemma set_packet_id_hdr [simp]:
  "length mac = 8 \<Longrightarrow>
     set_packet_id i' \<lparr>op_dir = dir, op_data = hdr dir mac i c f t @ rest\<rparr>
     = Ok \<lparr>op_dir = dir, op_data = hdr dir mac i' c f t @ rest\<rparr>"
  by (cases dir) (simp_all add: set_packet_id_def hdr_def)

lemma set_client_id_hdr [simp]:
  "length mac = 8 \<Longrightarrow>
     set_client_id c' \<lparr>op_dir = C2S, op_data = hdr C2S mac i c f t @ rest\<rparr>
     = Ok \<lparr>op_dir = C2S, op_data = hdr C2S mac i c' f t @ rest\<rparr>"
  by (simp add: set_client_id_def hdr_def)

lemma hdr_flag_byte:
  assumes "length mac = 8"
  shows "(hdr dir mac i c f t @ rest) ! (header_len dir - 1) = f OR packet_type_to_u8 t"
    and "(hdr dir mac i c f t @ rest)[header_len dir - 1 := g OR packet_type_to_u8 t']
         = hdr dir mac i c g t' @ rest"
  using assms by (cases dir; simp add: hdr_def nth_append list_update_append)+

lemma get_off_eq: "get_off \<lparr>ih_dir = dir, ih_data = d\<rparr> = header_len dir - 1"
  by (cases dir) (simp_all add: get_off_def)

lemma header_len_pos [simp]: "header_len dir - Suc 0 < header_len dir + n" "0 < header_len dir"
  by (cases dir; simp)+

lemma set_flags_hdr [simp]:
  "length mac = 8 \<Longrightarrow> valid_flags f \<Longrightarrow>
     set_flags g \<lparr>op_dir = dir, op_data = hdr dir mac i c f t @ rest\<rparr>
     = Ok \<lparr>op_dir = dir, op_data = hdr dir mac i c g t @ rest\<rparr>"
  using hdr_flag_byte(1) [of mac dir i c f t rest] hdr_flag_byte(2) [of mac dir i c f t rest g t]
  by (simp add: set_flags_def get_off_eq or.commute)

lemma set_packet_type_hdr [simp]:
  "length mac = 8 \<Longrightarrow> valid_flags f \<Longrightarrow>
     set_packet_type t' \<lparr>op_dir = dir, op_data = hdr dir mac i c f t @ rest\<rparr>
     = Ok \<lparr>op_dir = dir, op_data = hdr dir mac i c f t' @ rest\<rparr>"
  using hdr_flag_byte(1) [of mac dir i c f t rest] hdr_flag_byte(2) [of mac dir i c f t rest f t']
  by (simp add: set_packet_type_def get_off_eq)

lemma zero_hdr: "replicate (header_len dir) 0 = hdr dir (replicate 8 0) 0 0 0 Voice"
  by (cases dir) (simp_all add: hdr_def be16_def numeral_eq_Suc)

text \<open>A packet that is only a header.\<close>

lemmas hdr_setters_Nil [simp] =
  set_mac_hdr [where rest = "[]", unfolded append_Nil2]
  set_packet_id_hdr [where rest = "[]", unfolded append_Nil2]
  set_client_id_hdr [where rest = "[]", unfolded append_Nil2]
  set_flags_hdr [where rest = "[]", unfolded append_Nil2]
  set_packet_type_hdr [where rest = "[]", unfolded append_Nil2]
  out_header_hdr [where rest = "[]", unfolded append_Nil2]
  out_content_hdr [where rest = "[]", unfolded append_Nil2]
  in_packet_new_hdr [where rest = "[]", unfolded append_Nil2]

lemma new_with_dir_hdr [simp]:
  "valid_flags f \<Longrightarrow>
     new_with_dir dir f t = Ok \<lparr>op_dir = dir, op_data = hdr dir (replicate 8 0) 0 0 f t\<rparr>"
  by (simp add: new_with_dir_def zero_hdr)

lemma out_packet_new_hdr:
  assumes "length mac = 8" "valid_flags f"
  shows "out_packet_new mac i cid f t
     = Ok \<lparr>op_dir = (if cid = None then S2C else C2S),
          op_data = hdr (if cid = None then S2C else C2S) mac i (case cid of None \<Rightarrow> 0 | Some c \<Rightarrow> c)
            f t\<rparr>"
  using assms by (cases cid) (simp_all add: out_packet_new_def)

section \<open>Accepted packets\<close>

text \<open>
  What \<open>try_new\<close> establishes: the header has its full length and its type nibble is a packet type.
  No accessor panics on such a packet.
\<close>

definition wf_in_header :: "in_header \<Rightarrow> bool" where
  "wf_in_header h \<longleftrightarrow>
     length (ih_data h) = header_len (ih_dir h) \<and> (ih_data h ! get_off h) AND 0xF \<le> 8"

lemma get_off_less: "length (ih_data h) = header_len (ih_dir h) \<Longrightarrow> get_off h < length (ih_data h)"
  by (cases "ih_dir h") (simp_all add: get_off_def)

lemma wf_in_header_bounds:
  assumes "wf_in_header h"
  shows "get_off h < length (ih_data h)" "11 \<le> length (ih_data h)"
    "ih_dir h = C2S \<Longrightarrow> 13 \<le> length (ih_data h)"
  using assms by (cases "ih_dir h"; simp add: wf_in_header_def get_off_def)+

text \<open>The values of the fields of a well-formed header, and the accessors that return them.\<close>

definition hv_mac :: "in_header \<Rightarrow> bytes" where
  "hv_mac h = take 8 (ih_data h)"

definition hv_id :: "in_header \<Rightarrow> u16" where
  "hv_id h = from_be (take 2 (drop 8 (ih_data h)))"

definition hv_cid :: "in_header \<Rightarrow> u16 option" where
  "hv_cid h = (if ih_dir h = S2C then None else Some (from_be (take 2 (drop 10 (ih_data h)))))"

definition hv_flags :: "in_header \<Rightarrow> flags" where
  "hv_flags h = (ih_data h ! get_off h) AND 0xF0"

definition hv_type :: "in_header \<Rightarrow> packet_type" where
  "hv_type h = packet_types ! unat ((ih_data h ! get_off h) AND 0xF)"

lemma wf_in_header_accessors [simp]:
  assumes "wf_in_header h"
  shows "h_mac h = Ok (hv_mac h)" "h_packet_id h = Ok (hv_id h)" "h_client_id h = Ok (hv_cid h)"
    "h_flags h = Ok (hv_flags h)" "h_packet_type h = Ok (hv_type h)"
    "h_get_meta h = Ok (drop 8 (ih_data h))"
proof -
  note b = wf_in_header_bounds [OF assms]
  show "h_mac h = Ok (hv_mac h)" "h_packet_id h = Ok (hv_id h)" "h_get_meta h = Ok (drop 8 (ih_data h))"
    using b by (simp_all add: h_mac_def hv_mac_def h_packet_id_def read_be16_def hv_id_def
        h_get_meta_def)
  show "h_client_id h = Ok (hv_cid h)"
    using b by (cases "ih_dir h") (simp_all add: h_client_id_def hv_cid_def read_be16_def)
  show "h_flags h = Ok (hv_flags h)" using b by (simp add: h_flags_def hv_flags_def)
  show "h_packet_type h = Ok (hv_type h)"
    using b assms
    by (auto simp: h_packet_type_def hv_type_def wf_in_header_def packet_type_from_u8_def
        packet_types_def word_le_nat_alt)
qed

lemma valid_flags_hv_flags [simp]: "valid_flags (hv_flags h)"
  by (simp add: valid_flags_def hv_flags_def and.assoc)

lemma wf_in_header_hdr [simp]:
  assumes "length mac = 8" "valid_flags f"
  shows "wf_in_header \<lparr>ih_dir = dir, ih_data = hdr dir mac i c f t\<rparr>"
  using assms hdr_flag_byte(1) [of mac dir i c f t "[]"]
    packet_type_from_u8_iff [of "packet_type_to_u8 t"]
  by (simp add: wf_in_header_def get_off_eq)

lemma hv_hdr [simp]:
  assumes "length mac = 8" "valid_flags f"
  shows "hv_mac \<lparr>ih_dir = dir, ih_data = hdr dir mac i c f t\<rparr> = mac"
    and "hv_id \<lparr>ih_dir = dir, ih_data = hdr dir mac i c f t\<rparr> = i"
    and "hv_cid \<lparr>ih_dir = dir, ih_data = hdr dir mac i c f t\<rparr>
         = (if dir = C2S then Some c else None)"
    and "hv_flags \<lparr>ih_dir = dir, ih_data = hdr dir mac i c f t\<rparr> = f"
    and "hv_type \<lparr>ih_dir = dir, ih_data = hdr dir mac i c f t\<rparr> = t"
  using assms
  by (cases dir; simp add: hv_mac_def hv_id_def hv_cid_def hv_flags_def hv_type_def get_off_def
      hdr_def nth_append from_be16 packet_types_nth; fail)+

lemma in_packet_try_new_Ok_iff:
  "in_packet_try_new dir bs = Ok p \<longleftrightarrow>
     header_len dir \<le> length bs \<and> (bs ! (header_len dir - 1)) AND 0xF \<le> 8 \<and>
     p = \<lparr>ip_header = \<lparr>ih_dir = dir, ih_data = take (header_len dir) bs\<rparr>,
          ip_content = drop (header_len dir) bs\<rparr>"
proof -
  have "header_len dir - 1 < length bs" if "header_len dir \<le> length bs"
    using that by (cases dir) simp_all
  then show ?thesis
    by (auto simp: in_packet_try_new_def Let_def in_packet_new_def in_header_new_def not_less
        not_le min_def outcome_simps)
qed

lemma in_packet_try_new_wf:
  "in_packet_try_new dir bs = Ok p \<Longrightarrow> wf_in_header (ip_header p) \<and> ih_dir (ip_header p) = dir"
  by (cases dir) (auto simp: in_packet_try_new_Ok_iff wf_in_header_def get_off_def)

lemma in_packet_try_new_not_Panic: "in_packet_try_new dir bs \<noteq> Panic"
proof -
  have "header_len dir - 1 < length bs" if "header_len dir \<le> length bs"
    using that by (cases dir) simp_all
  then show ?thesis
    by (auto simp: in_packet_try_new_def Let_def in_packet_new_def in_header_new_def not_less
        not_le min_def outcome_simps)
qed

lemma ack_packet_not_Panic: "wf_in_header (ip_header p) \<Longrightarrow> ack_packet p \<noteq> Panic"
  by (cases "read_be16 Io (ip_content p)")
    (auto simp: ack_packet_def Let_def split: list.splits)

section \<open>Properties\<close>

text \<open>
  \<open>try_new\<close> is a total and exact check: \<open>InPacket::try_new\<close> never panics; it accepts exactly
  the datagrams that hold a whole header with a known packet type, and rejects the others as too
  short or of unknown type.
\<close>

theorem try_new_total:
  "in_packet_try_new dir bs =
     (if length bs < header_len dir then Err (PacketTooShort (length bs))
      else if 8 < (bs ! (header_len dir - 1)) AND 0xF
      then Err (UnknownPacketType ((bs ! (header_len dir - 1)) AND 0xF))
      else Ok \<lparr>ip_header = \<lparr>ih_dir = dir, ih_data = take (header_len dir) bs\<rparr>,
               ip_content = drop (header_len dir) bs\<rparr>)"
proof -
  have "header_len dir - 1 < length bs" if "header_len dir \<le> length bs"
    using that by (cases dir) simp_all
  then show ?thesis
    by (simp add: in_packet_try_new_def Let_def in_packet_new_def in_header_new_def min_def)
qed

text \<open>
  C36 (accepted packets are safe): no accessor of a packet accepted by \<open>try_new\<close> panics, nor does
  the search for the acknowledged id, and header and content together are the datagram.
\<close>

theorem try_new_safe:
  assumes "in_packet_try_new dir bs = Ok p"
  shows "ih_data (ip_header p) @ ip_content p = bs \<and>
    h_mac (ip_header p) = Ok (hv_mac (ip_header p)) \<and>
    h_packet_id (ip_header p) = Ok (hv_id (ip_header p)) \<and>
    h_client_id (ip_header p) = Ok (hv_cid (ip_header p)) \<and>
    (hv_cid (ip_header p) = None \<longleftrightarrow> dir = S2C) \<and>
    h_flags (ip_header p) = Ok (hv_flags (ip_header p)) \<and> valid_flags (hv_flags (ip_header p)) \<and>
    h_packet_type (ip_header p) = Ok (hv_type (ip_header p)) \<and>
    h_get_meta (ip_header p) = Ok (drop 8 (ih_data (ip_header p))) \<and>
    ack_packet p \<noteq> Panic"
  using in_packet_try_new_wf [OF assms] assms
  by (auto simp: in_packet_try_new_Ok_iff ack_packet_not_Panic hv_cid_def)

theorem try_new_safe_witness:
  "\<exists>p. in_packet_try_new S2C (replicate 10 0 @ [0x22]) = Ok p \<and>
     hv_type (ip_header p) = Command \<and> hv_flags (ip_header p) = NEWPROTOCOL \<and>
     ih_data (ip_header p) @ ip_content p = replicate 10 0 @ [0x22]"
proof -
  let ?p = "\<lparr>ip_header = \<lparr>ih_dir = S2C, ih_data = replicate 10 0 @ [0x22]\<rparr>, ip_content = []\<rparr>"
  have "in_packet_try_new S2C (replicate 10 0 @ [0x22]) = Ok ?p"
    by (simp add: in_packet_try_new_Ok_iff nth_append)
  with try_new_safe [OF this] show ?thesis
    by (simp add: hv_type_def hv_flags_def get_off_def nth_append packet_types_def NEWPROTOCOL_def)
qed

text \<open>
  Header round trip: the header that \<open>OutPacket::new\<close> writes, followed by any content, is
  accepted by \<open>InPacket::try_new\<close>, which reads back the mac, the packet id, the client id, the
  flags, the packet type and the content.
\<close>

theorem out_packet_roundtrip:
  assumes "length mac = 8" and "valid_flags f"
  shows "\<exists>p q. out_packet_new mac i cid f t = (Ok p :: (_, packets_error) outcome) \<and>
    in_packet_try_new (op_dir p) (op_data (append_data content p)) = Ok q \<and>
    ip_content q = content \<and> hv_mac (ip_header q) = mac \<and> hv_id (ip_header q) = i \<and>
    hv_cid (ip_header q) = cid \<and> hv_flags (ip_header q) = f \<and> hv_type (ip_header q) = t"
proof -
  let ?dir = "if cid = None then S2C else C2S"
  let ?h = "hdr ?dir mac i (case cid of None \<Rightarrow> 0 | Some c \<Rightarrow> c) f t"
  have "in_packet_try_new ?dir (?h @ content)
      = Ok \<lparr>ip_header = \<lparr>ih_dir = ?dir, ih_data = ?h\<rparr>, ip_content = content\<rparr>"
    using assms hdr_flag_byte(1) [of mac ?dir i _ f t content]
      packet_type_from_u8_iff [of "packet_type_to_u8 t"]
    by (simp add: in_packet_try_new_Ok_iff)
  then show ?thesis
    using assms by (cases cid) (auto simp: out_packet_new_hdr)
qed

theorem out_packet_roundtrip_witness:
  "\<exists>p q. out_packet_new [1, 2, 3, 4, 5, 6, 7, 8] 300 (Some 9) NEWPROTOCOL Command
       = (Ok p :: (_, packets_error) outcome) \<and>
     in_packet_try_new (op_dir p) (op_data (append_data [65] p)) = Ok q \<and>
     ip_content q = [65] \<and> hv_id (ip_header q) = 300 \<and> hv_cid (ip_header q) = Some 9"
  using out_packet_roundtrip [of "[1, 2, 3, 4, 5, 6, 7, 8]" NEWPROTOCOL 300 "Some 9" Command "[65]"]
  by auto

text \<open>
  Acks acknowledge: the packet that \<open>OutAck::new\<close> builds for a command, a low-priority command
  or a ping is an ack, a low-priority ack or a pong, and \<open>ack_packet\<close> finds in it the id that is
  acknowledged; for every other packet type \<open>OutAck::new\<close> panics.
\<close>

theorem out_ack_roundtrip:
  "if for_type = Command \<or> for_type = CommandLow \<or> for_type = Ping
   then \<exists>p q. out_ack dir for_type i = (Ok p :: (_, packets_error) outcome) \<and>
     out_packet_view p = (Ok q :: (_, packets_error) outcome) \<and>
     hv_type (ip_header q) = (if for_type = Command then Ack_T
       else if for_type = CommandLow then AckLow else Pong) \<and>
     ack_packet q = Ok (Some i)
   else out_ack dir for_type i = (Panic :: (_, packets_error) outcome)"
  by (auto simp: out_ack_def out_packet_view_def ack_packet_def is_ack_def)

end
