(* ===== verification/Packet_Ids.thy ===== *)
theory Packet_Ids
  imports Packet_Header
begin

text \<open>
  Identifiers of packets (\<open>PartialPacketId\<close>, \<open>PacketId\<close>, \<open>SendRecordId\<close> of
  \<open>tsproto/src/resend.rs\<close>) and the errors of the protocol crate (\<open>tsproto/src/lib.rs\<close>).
  A packet id has 16 bits on the wire; a 32 bit generation counts its wraps. Instants and durations
  are natural numbers of nanoseconds.
\<close>

section \<open>Errors of the protocol crate\<close>

datatype tsproto_error =
    CreateAck packets_error
  | DecompressPacket
  | IdentityCrypto
  | InvalidHex
  | MaxLengthExceeded string
  | Network
  | NotInReceiveWindow u16 u16 u16 packet_type
  | PacketParse string packets_error
  | Timeout string
  | UnallowedUnencryptedPacket
  | UnexpectedInitPacket
  | WrongClientId u16
  | WrongAddress
  | WrongMac packet_type u32 u16

section \<open>Partial packet ids\<close>

datatype partial_packet_id = PartialPacketId (generation_id: u32) (packet_id: u16)

definition ppid_default :: partial_packet_id where
  "ppid_default = PartialPacketId 0 0"

text \<open>\<open>Ord\<close>: by generation, then by id.\<close>

definition ppid_le :: "partial_packet_id \<Rightarrow> partial_packet_id \<Rightarrow> bool" where
  "ppid_le a b \<longleftrightarrow>
     generation_id a < generation_id b \<or>
     generation_id a = generation_id b \<and> packet_id a \<le> packet_id b"

definition ppid_less :: "partial_packet_id \<Rightarrow> partial_packet_id \<Rightarrow> bool" where
  "ppid_less a b \<longleftrightarrow>
     generation_id a < generation_id b \<or>
     generation_id a = generation_id b \<and> packet_id a < packet_id b"

instantiation partial_packet_id :: linorder
begin

definition less_eq_partial_packet_id :: "partial_packet_id \<Rightarrow> partial_packet_id \<Rightarrow> bool" where
  "less_eq_partial_packet_id a b \<longleftrightarrow> ppid_le a b"

definition less_partial_packet_id :: "partial_packet_id \<Rightarrow> partial_packet_id \<Rightarrow> bool" where
  "less_partial_packet_id a b \<longleftrightarrow> ppid_less a b"

instance
  by standard
    (auto simp: less_eq_partial_packet_id_def less_partial_packet_id_def ppid_le_def ppid_less_def
      partial_packet_id.expand)

end

lemmas ppid_order_defs = less_eq_partial_packet_id_def less_partial_packet_id_def ppid_le_def ppid_less_def

definition ppid_add :: "partial_packet_id \<Rightarrow> u16 \<Rightarrow> partial_packet_id" where
  "ppid_add p rhs =
     (let (i, next_gen) = overflowing_add (packet_id p) rhs
      in PartialPacketId (if next_gen then generation_id p + 1 else generation_id p) i)"

definition ppid_sub :: "partial_packet_id \<Rightarrow> u16 \<Rightarrow> partial_packet_id" where
  "ppid_sub p rhs =
     (let (i, last_gen) = overflowing_sub (packet_id p) rhs
      in PartialPacketId (if last_gen then generation_id p - 1 else generation_id p) i)"

text \<open>The difference as an \<open>i64\<close>; it lies between \<open>- 2 ^ 48\<close> and \<open>2 ^ 48\<close>, so it does not overflow.\<close>

definition ppid_diff :: "partial_packet_id \<Rightarrow> partial_packet_id \<Rightarrow> int" where
  "ppid_diff a b =
     (let gen_diff = uint (generation_id a) - uint (generation_id b);
          id_diff = uint (packet_id a) - uint (packet_id b)
      in gen_diff * 65535 + id_diff)"

section \<open>Packet ids and send records\<close>

record packet_id_t =
  pid_type :: packet_type
  pid_part :: partial_packet_id

datatype cmp_ordering = Less | Equal | Greater

fun reverse_ordering :: "cmp_ordering \<Rightarrow> cmp_ordering" where
  "reverse_ordering Less = Greater"
| "reverse_ordering Equal = Equal"
| "reverse_ordering Greater = Less"

definition cmp :: "'a::linorder \<Rightarrow> 'a \<Rightarrow> cmp_ordering" where
  "cmp a b = (if a < b then Less else if a = b then Equal else Greater)"

fun then_with :: "cmp_ordering \<Rightarrow> cmp_ordering \<Rightarrow> cmp_ordering" where
  "then_with Equal o2 = o2"
| "then_with o1 o2 = o1"

definition packet_id_partial_cmp :: "packet_id_t \<Rightarrow> packet_id_t \<Rightarrow> cmp_ordering option" where
  "packet_id_partial_cmp a b =
     (if pid_type a = pid_type b then Some (cmp (pid_part a) (pid_part b)) else None)"

text \<open>The comparison \<open>id <= ack\<close> of two packet ids, derived from \<open>partial_cmp\<close>.\<close>

definition packet_id_le :: "packet_id_t \<Rightarrow> packet_id_t \<Rightarrow> bool" where
  "packet_id_le a b \<longleftrightarrow>
     (case packet_id_partial_cmp a b of None \<Rightarrow> False | Some r \<Rightarrow> r \<noteq> Greater)"

text \<open>The id of an outgoing datagram.\<close>

definition packet_id_of :: "out_udp_packet \<Rightarrow> (packet_id_t, 'e) outcome" where
  "packet_id_of u =
     and_then (udp_packet_type u) (\<lambda>t.
     and_then (udp_packet_id u) (\<lambda>i.
     Ok \<lparr>pid_type = t, pid_part = PartialPacketId (ou_generation_id u) i\<rparr>))"

record send_record_id =
  sr_last :: nat
  sr_tries :: nat
  sr_id :: packet_id_t

text \<open>The priority of a record in the send queue: the greatest is sent first.\<close>

definition send_record_cmp :: "send_record_id \<Rightarrow> send_record_id \<Rightarrow> cmp_ordering" where
  "send_record_cmp a b =
     (if sr_tries a = 0 \<and> sr_tries b \<noteq> 0 then Greater
      else if sr_tries a \<noteq> 0 \<and> sr_tries b = 0 then Less
      else then_with (reverse_ordering (cmp (sr_last a) (sr_last b)))
             (reverse_ordering (cmp (pid_part (sr_id a)) (pid_part (sr_id b)))))"

text \<open>\<open>PartialEq\<close> of send records compares the packet id only.\<close>

definition send_record_eq :: "send_record_id \<Rightarrow> send_record_id \<Rightarrow> bool" where
  "send_record_eq a b \<longleftrightarrow> sr_id a = sr_id b"

section \<open>Lemmas\<close>

lemma ppid_add_simps [simp]:
  "packet_id (ppid_add p n) = packet_id p + n"
  "generation_id (ppid_add p n) =
     (if 2 ^ 16 \<le> unat (packet_id p) + unat n then generation_id p + 1 else generation_id p)"
  by (simp_all add: ppid_add_def overflowing_add_def)

lemma ppid_sub_simps [simp]:
  "packet_id (ppid_sub p n) = packet_id p - n"
  "generation_id (ppid_sub p n) =
     (if packet_id p < n then generation_id p - 1 else generation_id p)"
  by (simp_all add: ppid_sub_def overflowing_sub_def)

text \<open>A sum wraps around exactly when it is less than either summand.\<close>

lemma word_add_less_iff:
  "(a :: 'n::len word) + b < b \<longleftrightarrow> 2 ^ LENGTH('n) \<le> unat a + unat b"
  using no_olen_add_nat [of b a] by (auto simp: add.commute not_le)

lemma ppid_sub_add [simp]: "ppid_sub (ppid_add p n) n = p"
  by (rule partial_packet_id.expand)
    (use word_add_less_iff [of "packet_id p" n] in auto)

lemma ppid_add_sub [simp]: "ppid_add (ppid_sub p n) n = p"
proof (rule partial_packet_id.expand)
  have "2 ^ 16 \<le> unat (packet_id p - n) + unat n \<longleftrightarrow> packet_id p < n"
    using word_add_less_iff [of "packet_id p - n" n] by simp
  then show "generation_id (ppid_add (ppid_sub p n) n) = generation_id p \<and>
      packet_id (ppid_add (ppid_sub p n) n) = packet_id p"
    by simp
qed

text \<open>The number of a partial packet id in the sequence of all packets of its type.\<close>

definition ppid_nat :: "partial_packet_id \<Rightarrow> nat" where
  "ppid_nat p = unat (generation_id p) * 2 ^ 16 + unat (packet_id p)"

lemma packet_id_bound: "unat (packet_id p) < 2 ^ 16"
  using unsigned_less [of "packet_id p"] by simp

lemma nat_lex_less:
  fixes a b c d m :: nat
  assumes "b < m" "d < m"
  shows "a * m + b < c * m + d \<longleftrightarrow> a < c \<or> a = c \<and> b < d"
proof -
  have "a * m + b < c * m + d" if "a < c"
  proof -
    have "Suc a * m \<le> c * m" using that by (intro mult_le_mono1) simp
    then show ?thesis using assms by simp
  qed
  moreover have "c * m + d < a * m + b" if "c < a"
  proof -
    have "Suc c * m \<le> a * m" using that by (intro mult_le_mono1) simp
    then show ?thesis using assms by simp
  qed
  ultimately show ?thesis by (cases a c rule: linorder_cases) auto
qed

lemma ppid_less_nat: "p < q \<longleftrightarrow> ppid_nat p < ppid_nat q"
  using nat_lex_less [OF packet_id_bound packet_id_bound, of _ p _ q]
  by (simp add: ppid_order_defs ppid_nat_def word_less_nat_alt word_unat_eq_iff)

lemma ppid_nat_inject: "ppid_nat p = ppid_nat q \<longleftrightarrow> p = q"
  using ppid_less_nat [of p q] ppid_less_nat [of q p] by (metis less_irrefl neqE)

lemma ppid_nat_add:
  assumes "ppid_nat p + unat n < 2 ^ 48"
  shows "ppid_nat (ppid_add p n) = ppid_nat p + unat n"
proof (cases "2 ^ 16 \<le> unat (packet_id p) + unat n")
  case True
  have "unat (generation_id p) * 2 ^ 16 + 2 ^ 16 < 2 ^ 48"
    using True assms by (simp add: ppid_nat_def)
  then have "unat (generation_id p) + 1 < 2 ^ 32" by simp
  then have "unat (generation_id p + 1) = unat (generation_id p) + 1"
    by (simp add: unat_plus_no_carry)
  moreover have "unat (packet_id p + n) = unat (packet_id p) + unat n - 2 ^ 16"
  proof -
    have "unat (packet_id p) + unat n - 2 ^ 16 < 2 ^ 16"
      using packet_id_bound [of p] unsigned_less [of n, where 'a = nat] by simp
    then show ?thesis
      using True by (simp add: unat_word_ariths le_mod_geq)
  qed
  ultimately show ?thesis using True by (simp add: ppid_nat_def)
next
  case False
  then have "unat (packet_id p + n) = unat (packet_id p) + unat n"
    by (intro unat_plus_no_carry) simp
  with False show ?thesis by (simp add: ppid_nat_def)
qed

lemma ppid_less_add:
  assumes "ppid_nat p + unat n < 2 ^ 48" and "n \<noteq> 0"
  shows "p < ppid_add p n"
  using assms by (simp add: ppid_less_nat ppid_nat_add unat_gt_0)

lemma ppid_le_nat: "p \<le> q \<longleftrightarrow> ppid_nat p \<le> ppid_nat q"
  using ppid_less_nat [of q p] by (simp add: not_less [symmetric])

lemma ppid_nat_bound: "ppid_nat p < 2 ^ 48"
  using packet_id_bound [of p] unsigned_less [of "generation_id p", where 'a = nat]
  by (simp add: ppid_nat_def)

lemma ppid_add_one_le: "p < q \<Longrightarrow> ppid_add p 1 \<le> q"
  using ppid_nat_bound [of q] by (simp add: ppid_less_nat ppid_le_nat ppid_nat_add)

lemma packet_id_of_hdr [simp]:
  assumes "length mac = 8" "valid_flags f" "t \<noteq> Init"
  shows "packet_id_of \<lparr>ou_generation_id = g, ou_data = \<lparr>op_dir = d, op_data = hdr d mac i c f t @ bs\<rparr>\<rparr>
    = Ok \<lparr>pid_type = t, pid_part = PartialPacketId g i\<rparr>"
  using assms by (simp add: packet_id_of_def udp_packet_type_def udp_packet_id_def)

lemma send_record_cmp_reverse:
  "send_record_cmp b a = reverse_ordering (send_record_cmp a b)"
  by (auto simp: send_record_cmp_def cmp_def)

lemma send_record_cmp_trans:
  "send_record_cmp a b \<noteq> Less \<Longrightarrow> send_record_cmp b c \<noteq> Less \<Longrightarrow> send_record_cmp a c \<noteq> Less"
  by (auto simp: send_record_cmp_def cmp_def split: if_splits)

lemma send_record_cmp_refl [simp]: "send_record_cmp a a = Equal"
  by (cases "sr_tries a") (simp_all add: send_record_cmp_def cmp_def)

section \<open>Properties\<close>

text \<open>
  Packet ids count: a partial packet id is a position in the sequence of all packets of its
  type. Adding to it moves the position forward by as much, through a wrap of the 16 bit id, as
  long as the generation counter itself does not wrap; subtraction undoes addition always, and the
  order of \<open>Ord\<close> is the order of the positions.
\<close>

theorem packet_ids_count:
  assumes "ppid_nat p + unat n < 2 ^ 48"
  shows "ppid_nat (ppid_add p n) = ppid_nat p + unat n \<and>
    ppid_sub (ppid_add p n) n = p \<and> ppid_add (ppid_sub p n) n = p \<and>
    (p < q \<longleftrightarrow> ppid_nat p < ppid_nat q)"
  using assms by (simp add: ppid_nat_add ppid_less_nat)

theorem packet_ids_count_witness:
  "ppid_nat (ppid_add (PartialPacketId 1 0xFFFE) 5) = ppid_nat (PartialPacketId 1 0xFFFE) + 5 \<and>
   ppid_add (PartialPacketId 1 0xFFFE) 5 = PartialPacketId 2 3"
proof -
  have "ppid_nat (PartialPacketId 1 0xFFFE) + unat (5 :: u16) < 2 ^ 48"
    by (simp add: ppid_nat_def)
  from packet_ids_count [OF this] show ?thesis
    by (simp add: ppid_add_def overflowing_add_def)
qed

text \<open>
  Differences of packet ids lose one per generation: the difference of two partial packet ids
  counts 65535 ids per generation instead of 65536, so it is the distance of their positions less
  the number of generations between them; in particular an id and its successor have the difference
  0 when the id wraps.
\<close>

theorem packet_id_diff_short:
  "ppid_diff a b = int (ppid_nat a) - int (ppid_nat b)
     - (uint (generation_id a) - uint (generation_id b)) \<and>
   ppid_diff (PartialPacketId 1 0) (PartialPacketId 0 0xFFFF) = 0"
proof
  show "ppid_diff a b = int (ppid_nat a) - int (ppid_nat b)
      - (uint (generation_id a) - uint (generation_id b))"
    by (simp add: ppid_diff_def ppid_nat_def Let_def algebra_simps)
  show "ppid_diff (PartialPacketId 1 0) (PartialPacketId 0 0xFFFF) = 0"
    by (simp add: ppid_diff_def)
qed

text \<open>
  The priority of resends is a total preorder: comparing two send records the other way around
  reverses the result, the comparison is transitive, and a packet that was never sent always comes
  before one that was.
\<close>

theorem send_record_order:
  "send_record_cmp b a = reverse_ordering (send_record_cmp a b) \<and>
   (send_record_cmp a b \<noteq> Less \<longrightarrow> send_record_cmp b c \<noteq> Less \<longrightarrow> send_record_cmp a c \<noteq> Less) \<and>
   (sr_tries a = 0 \<longrightarrow> sr_tries b \<noteq> 0 \<longrightarrow> send_record_cmp a b = Greater)"
  using send_record_cmp_reverse [of b a] send_record_cmp_trans [of a b c]
  by (simp add: send_record_cmp_def)

theorem send_record_order_witness:
  "send_record_cmp \<lparr>sr_last = 9, sr_tries = 0, sr_id = \<lparr>pid_type = Command, pid_part = PartialPacketId 0 4\<rparr>\<rparr>
     \<lparr>sr_last = 3, sr_tries = 2, sr_id = \<lparr>pid_type = Command, pid_part = PartialPacketId 0 1\<rparr>\<rparr> = Greater"
  using send_record_order [of
      "\<lparr>sr_last = 3, sr_tries = 2, sr_id = \<lparr>pid_type = Command, pid_part = PartialPacketId 0 1\<rparr>\<rparr>"
      "\<lparr>sr_last = 9, sr_tries = 0, sr_id = \<lparr>pid_type = Command, pid_part = PartialPacketId 0 4\<rparr>\<rparr>"]
  by simp

end
