(* ===== verification/Algorithms.thy ===== *)
theory Algorithms
  imports Packet_Ids
begin

text \<open>
  Encryption, compression and fragmentation of packets (\<open>tsproto/src/algorithms.rs\<close>): which packets
  are encrypted, the derivation of keys and nonces with its cache, the sealing and opening of a
  packet, \<open>compress_and_split\<close>, the shared secret and the big integers of the RSA puzzle.

  The primitives come from other crates (SHA-1, SHA-256, SHA-512, AES-EAX, QuickLZ, Curve25519); the
  record \<open>primitives\<close> holds them as parameters, and \<open>primitives_laws\<close> names what the code relies
  on: digests have their length, EAX decryption undoes encryption with the same key, nonce and
  associated data and keeps the length, and QuickLZ decompression undoes compression.
\<close>

section \<open>Parameters\<close>

record primitives =
  sha256 :: "bytes \<Rightarrow> bytes"
  eax_encrypt :: "bytes \<Rightarrow> bytes \<Rightarrow> bytes \<Rightarrow> bytes \<Rightarrow> (bytes \<times> bytes) option"
  eax_decrypt :: "bytes \<Rightarrow> bytes \<Rightarrow> bytes \<Rightarrow> bytes \<Rightarrow> bytes \<Rightarrow> bytes option"
  qlz_compress :: "bytes \<Rightarrow> bytes"
  qlz_decompress :: "bytes \<Rightarrow> nat \<Rightarrow> bytes option"

text \<open>
  \<open>eax_encrypt key nonce meta data\<close> is the ciphertext and the mac, or \<open>None\<close> when the data is too
  long; \<open>eax_decrypt key nonce meta data mac\<close> is the plaintext, or \<open>None\<close> when the mac is wrong;
  \<open>qlz_decompress data max\<close> is \<open>None\<close> for malformed data and for more than \<open>max\<close> bytes.
\<close>

definition primitives_laws :: "primitives \<Rightarrow> bool" where
  "primitives_laws pr \<longleftrightarrow>
     (\<forall>d. length (sha256 pr d) = 32) \<and>
     (\<forall>k n m d c mac. eax_encrypt pr k n m d = Some (c, mac) \<longrightarrow>
        length mac = 8 \<and> length c = length d \<and> eax_decrypt pr k n m c mac = Some d) \<and>
     (\<forall>k n m c mac d. eax_decrypt pr k n m c mac = Some d \<longrightarrow> length d = length c) \<and>
     (\<forall>d mx. length d \<le> mx \<longrightarrow> qlz_decompress pr (qlz_compress pr d) mx = Some d)"

definition FAKE_KEY :: bytes where "FAKE_KEY = ascii [CHR ''c'', CHR '':'', CHR 0x5C] @ ascii ''windows'' @ ascii [CHR 0x5C] @ ascii ''syste''"
definition FAKE_NONCE :: bytes where "FAKE_NONCE = ascii [CHR ''m'', CHR 0x5C] @ ascii ''firewall32.cpl''"

section \<open>Which packets are encrypted\<close>

fun must_encrypt :: "packet_type \<Rightarrow> bool" where
  "must_encrypt Command = True"
| "must_encrypt CommandLow = True"
| "must_encrypt Voice = False"
| "must_encrypt Ack_T = False"
| "must_encrypt AckLow = False"
| "must_encrypt VoiceWhisper = False"
| "must_encrypt Ping = False"
| "must_encrypt Pong = False"
| "must_encrypt Init = False"

definition should_encrypt :: "packet_type \<Rightarrow> bool \<Rightarrow> bool" where
  "should_encrypt t voice_encryption \<longleftrightarrow>
     must_encrypt t \<or> t = Ack_T \<or> t = AckLow \<or> voice_encryption \<and> is_voice t"

section \<open>Keys and nonces\<close>

record cached_key =
  ck_generation_id :: u32
  ck_key :: bytes
  ck_nonce :: bytes

type_synonym key_cache = "cached_key list list"

definition cached_key_default :: cached_key where
  "cached_key_default =
     \<lparr>ck_generation_id = - 1, ck_key = replicate 16 0, ck_nonce = replicate 16 0\<rparr>"

definition key_cache_default :: key_cache where
  "key_cache_default = replicate 8 (replicate 2 cached_key_default)"

text \<open>The bytes that are hashed for the key and the nonce of a generation.\<close>

definition key_material :: "packet_type \<Rightarrow> bool \<Rightarrow> u32 \<Rightarrow> bytes \<Rightarrow> bytes" where
  "key_material p_type has_c_id generation iv =
     [if has_c_id then 0x31 else 0x30, packet_type_to_u8 p_type] @ be32 generation @ iv"

definition create_key_nonce ::
  "primitives \<Rightarrow> packet_type \<Rightarrow> u16 option \<Rightarrow> u16 \<Rightarrow> u32 \<Rightarrow> bytes \<Rightarrow> key_cache
     \<Rightarrow> ((bytes \<times> bytes) \<times> key_cache, 'e) outcome" where
  "create_key_nonce pr p_type c_id p_id generation iv cache =
     (let ti = packet_type_index p_type;
          ci = (if c_id \<noteq> None then 1 else 0) in
      and_then (index cache ti) (\<lambda>row.
      and_then (index row ci) (\<lambda>entry.
      let entry =
            (if ck_generation_id entry \<noteq> generation then
               let keynonce = sha256 pr (key_material p_type (c_id \<noteq> None) generation iv)
               in \<lparr>ck_generation_id = generation, ck_key = take 16 keynonce,
                   ck_nonce = drop 16 keynonce\<rparr>
             else entry);
          key = ck_key entry;
          key = key[0 := key ! 0 XOR ucast (drop_bit 8 p_id)];
          key = key[1 := key ! 1 XOR ucast (p_id AND 0xFF)]
      in Ok ((key, ck_nonce entry), cache[ti := row[ci := entry]]))))"

section \<open>Sealing and opening packets\<close>

definition encrypt_key_nonce ::
  "primitives \<Rightarrow> bytes \<Rightarrow> bytes \<Rightarrow> out_packet \<Rightarrow> (out_packet, tsproto_error) outcome" where
  "encrypt_key_nonce pr key nonce packet =
     and_then (out_header packet) (\<lambda>h.
     and_then (h_get_meta h) (\<lambda>meta.
     and_then (out_content packet) (\<lambda>content.
     case eax_encrypt pr key nonce meta content of
       None \<Rightarrow> Err (MaxLengthExceeded ''encryption data'')
     | Some (c, mac) \<Rightarrow>
         set_mac mac (packet\<lparr>op_data := take (content_offset packet) (op_data packet) @ c\<rparr>))))"

definition encrypt_fake :: "primitives \<Rightarrow> out_packet \<Rightarrow> (out_packet, tsproto_error) outcome" where
  "encrypt_fake pr packet = encrypt_key_nonce pr FAKE_KEY FAKE_NONCE packet"

text \<open>The cache is updated even when the encryption fails.\<close>

definition encrypt ::
  "primitives \<Rightarrow> out_packet \<Rightarrow> u32 \<Rightarrow> bytes \<Rightarrow> key_cache
     \<Rightarrow> ((out_packet, tsproto_error) outcome \<times> key_cache, 'e) outcome" where
  "encrypt pr packet generation iv cache =
     and_then (out_header packet) (\<lambda>h.
     and_then (h_packet_type h) (\<lambda>t.
     and_then (h_client_id h) (\<lambda>c.
     and_then (h_packet_id h) (\<lambda>i.
     and_then (create_key_nonce pr t c i generation iv cache) (\<lambda>((key, nonce), cache).
     Ok (encrypt_key_nonce pr key nonce packet, cache))))))"

definition decrypt_key_nonce ::
  "primitives \<Rightarrow> in_packet \<Rightarrow> bytes \<Rightarrow> bytes \<Rightarrow> (bytes, tsproto_error) outcome" where
  "decrypt_key_nonce pr packet key nonce =
     and_then (h_get_meta (ip_header packet)) (\<lambda>meta.
     and_then (h_mac (ip_header packet)) (\<lambda>mac.
     case eax_decrypt pr key nonce meta (ip_content packet) mac of
       Some content \<Rightarrow> Ok content
     | None \<Rightarrow>
         and_then (h_packet_type (ip_header packet)) (\<lambda>t.
         and_then (h_packet_id (ip_header packet)) (\<lambda>i. Err (WrongMac t 0 i)))))"

definition decrypt_fake :: "primitives \<Rightarrow> in_packet \<Rightarrow> (bytes, tsproto_error) outcome" where
  "decrypt_fake pr packet = decrypt_key_nonce pr packet FAKE_KEY FAKE_NONCE"

text \<open>The error names the generation; the cache is updated even when decryption fails.\<close>

definition decrypt ::
  "primitives \<Rightarrow> in_packet \<Rightarrow> u32 \<Rightarrow> bytes \<Rightarrow> key_cache
     \<Rightarrow> ((bytes, tsproto_error) outcome \<times> key_cache, 'e) outcome" where
  "decrypt pr packet generation iv cache =
     and_then (h_packet_type (ip_header packet)) (\<lambda>t.
     and_then (h_client_id (ip_header packet)) (\<lambda>c.
     and_then (h_packet_id (ip_header packet)) (\<lambda>i.
     and_then (create_key_nonce pr t c i generation iv cache) (\<lambda>((key, nonce), cache).
     Ok (map_err (\<lambda>e. case e of WrongMac p_type _ p_id \<Rightarrow> WrongMac p_type generation p_id | _ \<Rightarrow> e)
           (decrypt_key_nonce pr packet key nonce), cache)))))"

section \<open>Compression and fragmentation\<close>

text \<open>The loop that cuts the data; \<open>max_size\<close> is 487 or 489, so every turn makes progress.\<close>

function split_data :: "nat \<Rightarrow> bytes \<Rightarrow> bytes list" where
  "split_data max_size d =
     (if 0 < max_size \<and> max_size < length d
      then take max_size d # split_data max_size (drop max_size d)
      else [d])"
  by pat_completeness auto
termination
  by (relation "measure (\<lambda>(m, d). length d)") auto

declare split_data.simps [simp del]

definition max_content :: "bool \<Rightarrow> nat" where
  "max_content is_client = 500 - (if is_client then C2S_HEADER_LEN else S2C_HEADER_LEN)"

text \<open>A fragment: the original header in front of the data, with the flags of its position.\<close>

definition make_fragment ::
  "bool \<Rightarrow> bytes \<Rightarrow> direction \<Rightarrow> bool \<Rightarrow> nat \<Rightarrow> nat \<Rightarrow> bytes \<Rightarrow> (out_packet, 'e) outcome" where
  "make_fragment is_client orig_header dir compressed len i d =
     (let header_size = (if is_client then C2S_HEADER_LEN else S2C_HEADER_LEN) in
      if length orig_header \<noteq> header_size then Panic
      else
        let packet = new_from_data dir (orig_header @ d) in
        and_then
          (if i = 0 \<and> compressed
           then and_then (and_then (out_header packet) h_flags) (\<lambda>f. set_flags (f OR COMPRESSED) packet)
           else Ok packet) (\<lambda>packet.
        if len > 1 \<and> (i = 0 \<or> i = len - 1)
        then and_then (and_then (out_header packet) h_flags) (\<lambda>f. set_flags (f OR FRAGMENTED) packet)
        else Ok packet))"

definition compress_and_split ::
  "primitives \<Rightarrow> bool \<Rightarrow> out_packet \<Rightarrow> (out_packet list, 'e) outcome" where
  "compress_and_split pr is_client packet =
     and_then (out_content packet) (\<lambda>d.
     let max_size = max_content is_client in
     if length d \<le> max_size then Ok [packet]
     else
       let cdata = qlz_compress pr d;
           compressed = (length cdata \<le> length d);
           d = (if compressed then cdata else d)
       in and_then (and_then (out_header packet) h_packet_type) (\<lambda>t.
          let datas = (if length d \<le> max_size \<or> t = VoiceWhisper then [d] else split_data max_size d)
          in and_then (header_bytes packet) (\<lambda>orig_header.
             try_map (\<lambda>(i, d). make_fragment is_client orig_header (op_dir packet) compressed
                 (length datas) i d) (enumerate 0 datas))))"

section \<open>Shared secret and big integers\<close>

text \<open>
  \<open>compute_iv_mac\<close> after the key exchange: the shared secret is hashed with \<open>sha512\<close>, mixed with the
  random values of both sides and hashed with \<open>sha1\<close> (parameters).
\<close>

definition compute_iv_mac ::
  "(bytes \<Rightarrow> bytes) \<Rightarrow> (bytes \<Rightarrow> bytes) \<Rightarrow> bytes \<Rightarrow> bytes \<Rightarrow> bytes \<Rightarrow> bytes \<times> bytes" where
  "compute_iv_mac sha512 sha1 alpha beta shared_secret =
     (let shared_iv = map2 (XOR) (sha512 shared_secret) (take 10 alpha @ take 54 beta)
      in (shared_iv, take 8 (sha1 shared_iv)))"

text \<open>Little-endian digits; zero is one digit, as \<open>BigUint::to_bytes_le\<close> documents.\<close>

fun to_bytes_le :: "nat \<Rightarrow> bytes" where
  "to_bytes_le n = (if n < 256 then [of_nat n] else of_nat (n mod 256) # to_bytes_le (n div 256))"

declare to_bytes_le.simps [simp del]

definition biguint_to_array :: "nat \<Rightarrow> (bytes, 'e) outcome" where
  "biguint_to_array i =
     (let v = to_bytes_le i
      in and_then (usize_sub 64 (length v)) (\<lambda>pad. Ok (rev (v @ replicate pad 0))))"

definition array_to_biguint :: "bytes \<Rightarrow> nat" where
  "array_to_biguint a = foldl (\<lambda>n b. n * 256 + unat b) 0 a"

section \<open>Keys: the cache is transparent\<close>

lemma packet_type_index_simps [simp]:
  "packet_type_index t < 9" "packet_type_index t = 8 \<longleftrightarrow> t = Init"
  "packet_type_index t = packet_type_index t' \<longleftrightarrow> t = t'"
  by (cases t; cases t'; simp add: packet_type_index_def)+

lemma packet_type_index_less: "packet_type_index t < 8 \<longleftrightarrow> t \<noteq> Init"
  by (cases t) (simp_all add: packet_type_index_def)

text \<open>The key and nonce of a generation without any cache.\<close>

definition key_of :: "primitives \<Rightarrow> packet_type \<Rightarrow> bool \<Rightarrow> u32 \<Rightarrow> bytes \<Rightarrow> bytes" where
  "key_of pr t has_c generation iv = take 16 (sha256 pr (key_material t has_c generation iv))"

definition nonce_of :: "primitives \<Rightarrow> packet_type \<Rightarrow> bool \<Rightarrow> u32 \<Rightarrow> bytes \<Rightarrow> bytes" where
  "nonce_of pr t has_c generation iv = drop 16 (sha256 pr (key_material t has_c generation iv))"

definition mix_id :: "u16 \<Rightarrow> bytes \<Rightarrow> bytes" where
  "mix_id p_id key =
     (let key = key[0 := key ! 0 XOR ucast (drop_bit 8 p_id)]
      in key[1 := key ! 1 XOR ucast (p_id AND 0xFF)])"

definition key_nonce_spec ::
  "primitives \<Rightarrow> packet_type \<Rightarrow> bool \<Rightarrow> u16 \<Rightarrow> u32 \<Rightarrow> bytes \<Rightarrow> bytes \<times> bytes" where
  "key_nonce_spec pr t has_c p_id generation iv =
     (mix_id p_id (key_of pr t has_c generation iv), nonce_of pr t has_c generation iv)"

definition entry_ok :: "primitives \<Rightarrow> bytes \<Rightarrow> packet_type \<Rightarrow> bool \<Rightarrow> cached_key \<Rightarrow> bool" where
  "entry_ok pr iv t has_c e \<longleftrightarrow>
     ck_generation_id e = - 1 \<or>
     ck_key e = key_of pr t has_c (ck_generation_id e) iv \<and>
     ck_nonce e = nonce_of pr t has_c (ck_generation_id e) iv"

definition cache_inv :: "primitives \<Rightarrow> bytes \<Rightarrow> key_cache \<Rightarrow> bool" where
  "cache_inv pr iv cache \<longleftrightarrow>
     length cache = 8 \<and>
     (\<forall>t. t \<noteq> Init \<longrightarrow> length (cache ! packet_type_index t) = 2 \<and>
        entry_ok pr iv t False (cache ! packet_type_index t ! 0) \<and>
        entry_ok pr iv t True (cache ! packet_type_index t ! 1))"

lemma cache_inv_default [simp]: "cache_inv pr iv key_cache_default"
  by (auto simp: cache_inv_def key_cache_default_def entry_ok_def cached_key_default_def
      packet_type_index_less numeral_2_eq_2)

lemma create_key_nonce_spec:
  assumes inv: "cache_inv pr iv cache" and t: "t \<noteq> Init" and g: "generation \<noteq> - 1"
  shows "\<exists>cache'. create_key_nonce pr t c_id p_id generation iv cache
      = Ok (key_nonce_spec pr t (c_id \<noteq> None) p_id generation iv, cache') \<and> cache_inv pr iv cache'"
proof -
  let ?ti = "packet_type_index t"
  let ?ci = "if c_id \<noteq> None then 1 else 0 :: nat"
  let ?e = "cache ! ?ti ! ?ci"
  have len: "length cache = 8" "?ti < 8" "length (cache ! ?ti) = 2" "?ci < 2"
    using inv t by (auto simp: cache_inv_def packet_type_index_less)
  have ok: "entry_ok pr iv t (c_id \<noteq> None) ?e"
    using inv t by (auto simp: cache_inv_def)
  define e' where "e' = (if ck_generation_id ?e \<noteq> generation then
      \<lparr>ck_generation_id = generation, ck_key = key_of pr t (c_id \<noteq> None) generation iv,
       ck_nonce = nonce_of pr t (c_id \<noteq> None) generation iv\<rparr> else ?e)"
  have e': "ck_key e' = key_of pr t (c_id \<noteq> None) generation iv"
    "ck_nonce e' = nonce_of pr t (c_id \<noteq> None) generation iv" "entry_ok pr iv t (c_id \<noteq> None) e'"
    using ok g by (auto simp: e'_def entry_ok_def)
  have "(if ck_generation_id ?e \<noteq> generation then
      let keynonce = sha256 pr (key_material t (c_id \<noteq> None) generation iv)
      in \<lparr>ck_generation_id = generation, ck_key = take 16 keynonce, ck_nonce = drop 16 keynonce\<rparr>
      else ?e) = e'"
    by (simp add: e'_def Let_def key_of_def nonce_of_def)
  with len e'(1,2) have "create_key_nonce pr t c_id p_id generation iv cache
      = Ok (key_nonce_spec pr t (c_id \<noteq> None) p_id generation iv, cache[?ti := (cache ! ?ti)[?ci := e']])"
    unfolding create_key_nonce_def key_nonce_spec_def mix_id_def
    by (simp only: Let_def [of "packet_type_index t"] Let_def [of ?ci] index_Ok and_then.simps)
      (simp add: Let_def)
  moreover have "cache_inv pr iv (cache[?ti := (cache ! ?ti)[?ci := e']])"
    using inv t len e'(3) by (auto simp: cache_inv_def nth_list_update packet_type_index_less)
  ultimately show ?thesis by blast
qed

section \<open>Opening undoes sealing\<close>

lemma h_get_meta_hdr [simp]:
  "length mac = 8 \<Longrightarrow>
   h_get_meta \<lparr>ih_dir = dir, ih_data = hdr dir mac i c f t\<rparr>
     = Ok (drop 8 (hdr dir (replicate 8 0) i c f t))"
  by (simp add: h_get_meta_def hdr_def)

lemma encrypt_key_nonce_hdr:
  assumes "primitives_laws pr" "length mac = 8"
    "eax_encrypt pr key nonce (drop 8 (hdr dir (replicate 8 0) i c f t)) d = Some (e, mac')"
  shows "encrypt_key_nonce pr key nonce \<lparr>op_dir = dir, op_data = hdr dir mac i c f t @ d\<rparr>
    = Ok \<lparr>op_dir = dir, op_data = hdr dir mac' i c f t @ e\<rparr>"
proof -
  have "length mac' = 8" using assms(1,3) by (auto simp: primitives_laws_def)
  then show ?thesis
    using assms(2,3) by (simp add: encrypt_key_nonce_def content_offset_eq)
qed

lemma encrypt_key_nonce_hdr_cases:
  assumes "primitives_laws pr" "length mac = 8"
    "encrypt_key_nonce pr key nonce \<lparr>op_dir = dir, op_data = hdr dir mac i c f t @ d\<rparr> = Ok p"
  obtains e mac' where "p = \<lparr>op_dir = dir, op_data = hdr dir mac' i c f t @ e\<rparr>" "length mac' = 8"
    "length e = length d"
    "eax_decrypt pr key nonce (drop 8 (hdr dir (replicate 8 0) i c f t)) e mac' = Some d"
proof (cases "eax_encrypt pr key nonce (drop 8 (hdr dir (replicate 8 0) i c f t)) d")
  case None
  with assms(2,3) have False by (simp add: encrypt_key_nonce_def)
  then show ?thesis ..
next
  case (Some em)
  obtain e mac' where em: "em = (e, mac')" by (cases em)
  have "length mac' = 8 \<and> length e = length d \<and>
      eax_decrypt pr key nonce (drop 8 (hdr dir (replicate 8 0) i c f t)) e mac' = Some d"
    using assms(1) Some em unfolding primitives_laws_def by blast
  moreover have "p = \<lparr>op_dir = dir, op_data = hdr dir mac' i c f t @ e\<rparr>"
    using encrypt_key_nonce_hdr [OF assms(1,2) Some [unfolded em]] assms(3) by simp
  ultimately show ?thesis using that by blast
qed

lemma decrypt_key_nonce_hdr:
  assumes "length mac = 8"
    "eax_decrypt pr key nonce (drop 8 (hdr dir (replicate 8 0) i c f t)) e mac = Some d"
    "valid_flags f"
  shows "decrypt_key_nonce pr
    \<lparr>ip_header = \<lparr>ih_dir = dir, ih_data = hdr dir mac i c f t\<rparr>, ip_content = e\<rparr> key nonce = Ok d"
  using assms by (simp add: decrypt_key_nonce_def del: wf_in_header_accessors(6))

section \<open>Fragmentation\<close>

lemma split_data_concat: "concat (split_data m d) = d"
proof (induction m d rule: split_data.induct)
  case (1 m d)
  then show ?case by (subst split_data.simps) simp
qed

lemma split_data_not_Nil [simp]: "split_data m d \<noteq> []"
  by (subst split_data.simps) simp

lemma split_data_bound: "0 < m \<Longrightarrow> x \<in> set (split_data m d) \<Longrightarrow> length x \<le> m"
proof (induction m d rule: split_data.induct)
  case (1 m d)
  then show ?case
    by (cases "m < length d") (auto simp: split_data.simps [of m d])
qed

lemma split_data_length:
  "0 < m \<Longrightarrow> m < length d \<Longrightarrow> 1 < length (split_data m d)"
  by (subst split_data.simps) (cases "split_data m (drop m d)"; simp)

definition frag_flags :: "flags \<Rightarrow> bool \<Rightarrow> nat \<Rightarrow> nat \<Rightarrow> flags" where
  "frag_flags f compressed n i =
     (let f = (if i = 0 \<and> compressed then f OR COMPRESSED else f)
      in if n > 1 \<and> (i = 0 \<or> i = n - 1) then f OR FRAGMENTED else f)"

lemma valid_frag_flags [simp]: "valid_flags f \<Longrightarrow> valid_flags (frag_flags f compressed n i)"
  by (simp add: frag_flags_def Let_def)

lemma make_fragment_hdr:
  assumes "length mac = 8" "valid_flags f" "is_client \<longleftrightarrow> dir = C2S"
  shows "make_fragment is_client (hdr dir mac i c f t) dir compressed n k d
    = Ok \<lparr>op_dir = dir, op_data = hdr dir mac i c (frag_flags f compressed n k) t @ d\<rparr>"
  using assms
  by (cases dir) (simp_all add: make_fragment_def new_from_data_def frag_flags_def Let_def
      C2S_HEADER_LEN_def S2C_HEADER_LEN_def)

text \<open>The data and the pieces that a packet is sent as.\<close>

definition packed :: "primitives \<Rightarrow> nat \<Rightarrow> bytes \<Rightarrow> bool \<times> bytes" where
  "packed pr max_size d =
     (if length d \<le> max_size then (False, d)
      else let cdata = qlz_compress pr d
           in if length cdata \<le> length d then (True, cdata) else (False, d))"

definition pieces :: "primitives \<Rightarrow> nat \<Rightarrow> packet_type \<Rightarrow> bytes \<Rightarrow> bytes list" where
  "pieces pr max_size t d =
     (let d' = snd (packed pr max_size d)
      in if length d' \<le> max_size \<or> t = VoiceWhisper then [d'] else split_data max_size d')"

lemma compress_and_split_hdr:
  assumes "length mac = 8" "valid_flags f" "is_client \<longleftrightarrow> dir = C2S"
  shows "compress_and_split pr is_client \<lparr>op_dir = dir, op_data = hdr dir mac i c f t @ d\<rparr>
    = Ok (let m = max_content is_client; ps = pieces pr m t d
          in map (\<lambda>(k, d'). \<lparr>op_dir = dir, op_data =
               hdr dir mac i c (frag_flags f (fst (packed pr m d)) (length ps) k) t @ d'\<rparr>)
             (enumerate 0 ps))"
proof (cases "length d \<le> max_content is_client")
  case True
  then show ?thesis
    using assms by (simp add: compress_and_split_def packed_def pieces_def frag_flags_def Let_def)
next
  case False
  let ?m = "max_content is_client"
  let ?ps = "pieces pr ?m t d"
  have "compress_and_split pr is_client \<lparr>op_dir = dir, op_data = hdr dir mac i c f t @ d\<rparr>
      = try_map (\<lambda>(k, d'). make_fragment is_client (hdr dir mac i c f t) dir (fst (packed pr ?m d))
          (length ?ps) k d') (enumerate 0 ?ps)"
    using False assms
    by (simp add: compress_and_split_def packed_def pieces_def Let_def)
  also have "\<dots> = Ok (map (\<lambda>(k, d'). \<lparr>op_dir = dir, op_data =
      hdr dir mac i c (frag_flags f (fst (packed pr ?m d)) (length ?ps) k) t @ d'\<rparr>) (enumerate 0 ?ps))"
    by (rule try_map_Ok_map) (auto simp: make_fragment_hdr [OF assms])
  finally show ?thesis by (simp add: Let_def)
qed

lemma pieces_concat: "concat (pieces pr m t d) = snd (packed pr m d)"
  by (simp add: pieces_def Let_def split_data_concat)

lemma pieces_bound: "0 < m \<Longrightarrow> t \<noteq> VoiceWhisper \<Longrightarrow> x \<in> set (pieces pr m t d) \<Longrightarrow> length x \<le> m"
  by (auto simp: pieces_def Let_def split: if_splits dest: split_data_bound)

lemma max_content_simps [simp]: "max_content True = 487" "max_content False = 489"
  by (simp_all add: max_content_def C2S_HEADER_LEN_def S2C_HEADER_LEN_def)

section \<open>Big-endian digits\<close>

definition le_value :: "bytes \<Rightarrow> nat" where
  "le_value bs = foldr (\<lambda>b n. n * 256 + unat b) bs 0"

lemma le_value_simps [simp]:
  "le_value [] = 0" "le_value (b # bs) = le_value bs * 256 + unat b"
  by (simp_all add: le_value_def)

lemma unat_of_nat_u8 [simp]: "unat (of_nat (n mod 256) :: u8) = n mod 256"
  by (simp add: unat_of_nat take_bit_eq_mod)

lemma le_value_to_bytes_le: "le_value (to_bytes_le n) = n"
proof (induction n rule: to_bytes_le.induct)
  case (1 n)
  then show ?case
    by (cases "n < 256") (simp_all add: to_bytes_le.simps [of n] unat_of_nat take_bit_eq_mod)
qed

lemma le_value_append_zeros [simp]: "le_value (bs @ replicate k 0) = le_value bs"
proof -
  have "le_value (replicate k 0) = 0" by (induction k) simp_all
  then show ?thesis by (induction bs) simp_all
qed

lemma array_to_biguint_rev: "array_to_biguint (rev bs) = le_value bs"
  by (simp add: array_to_biguint_def le_value_def foldl_conv_foldr)

lemma length_to_bytes_le: "0 < k \<Longrightarrow> length (to_bytes_le n) \<le> k \<longleftrightarrow> n < 256 ^ k"
proof (induction n arbitrary: k rule: to_bytes_le.induct)
  case (1 n)
  show ?case
  proof (cases "n < 256")
    case True
    have "(256 :: nat) ^ 1 \<le> 256 ^ k" using 1(2) by (intro power_increasing) simp_all
    with True show ?thesis using 1(2) by (simp add: to_bytes_le.simps [of n])
  next
    case False
    obtain j where k: "k = Suc j" using 1(2) by (cases k) auto
    show ?thesis
    proof (cases j)
      case 0
      then show ?thesis using False k by (simp add: to_bytes_le.simps [of n] to_bytes_le.simps [of "n div 256"])
    next
      case (Suc i)
      then show ?thesis using False k 1(1) [of j]
        by (simp add: to_bytes_le.simps [of n] div_less_iff_less_mult mult.commute)
    qed
  qed
qed

section \<open>Properties\<close>

text \<open>Requests for keys, one after the other, on the cache of a connection.\<close>

fun key_requests ::
  "primitives \<Rightarrow> bytes \<Rightarrow> key_cache \<Rightarrow> (packet_type \<times> u16 option \<times> u16 \<times> u32) list
     \<Rightarrow> ((bytes \<times> bytes) list, 'e) outcome" where
  "key_requests pr iv cache [] = Ok []"
| "key_requests pr iv cache ((t, c, i, g) # rs) =
     and_then (create_key_nonce pr t c i g iv cache) (\<lambda>(kn, cache').
     map_ok ((#) kn) (key_requests pr iv cache' rs))"

lemma key_requests_spec:
  "cache_inv pr iv cache \<Longrightarrow> \<forall>(t, c, i, g) \<in> set rs. t \<noteq> Init \<and> g \<noteq> - 1 \<Longrightarrow>
   (key_requests pr iv cache rs :: (_, 'e) outcome)
     = Ok (map (\<lambda>(t, c, i, g). key_nonce_spec pr t (c \<noteq> None) i g iv) rs)"
proof (induction rs arbitrary: cache)
  case (Cons r rs)
  obtain t c i g where r: "r = (t, c, i, g)" by (cases r)
  with Cons.prems have "t \<noteq> Init" "g \<noteq> - 1" by auto
  from create_key_nonce_spec [OF Cons.prems(1) this, of c i] obtain cache' where
    "create_key_nonce pr t c i g iv cache = (Ok (key_nonce_spec pr t (c \<noteq> None) i g iv, cache') ::
       (_, 'e) outcome)" "cache_inv pr iv cache'"
    by (metis outcome.inject(1))
  with r Cons show ?case by simp
qed simp

text \<open>Primitives that satisfy the laws: a reversible cipher with a constant mac.\<close>

definition toy_primitives :: primitives where
  "toy_primitives =
     \<lparr>sha256 = (\<lambda>d. take 32 (d @ replicate 32 0)),
      eax_encrypt = (\<lambda>k n m d. Some (map (\<lambda>b. b XOR 0x55) d, take 8 (k @ replicate 8 0))),
      eax_decrypt = (\<lambda>k n m c mac.
        if mac = take 8 (k @ replicate 8 0) then Some (map (\<lambda>b. b XOR 0x55) c) else None),
      qlz_compress = (\<lambda>d. 0 # d),
      qlz_decompress = (\<lambda>c mx. case c of [] \<Rightarrow> None
        | _ # d \<Rightarrow> if length d \<le> mx then Some d else None)\<rparr>"

lemma toy_primitives_laws [simp]: "primitives_laws toy_primitives"
  by (auto simp: primitives_laws_def toy_primitives_def comp_def xor.assoc split: if_splits)

text \<open>
  C33 (the key cache is transparent): whatever keys are requested one after the other from the
  cache of a new connection, for packets of any type but init, any client id, packet id and
  generation below \<open>u32::MAX\<close>, each request returns the key and nonce that the derivation of the
  protocol yields for it, and none panics.
\<close>

theorem key_cache_transparent:
  assumes "\<forall>(t, c, i, g) \<in> set rs. t \<noteq> Init \<and> g \<noteq> - 1"
  shows "key_requests pr iv key_cache_default rs
    = Ok (map (\<lambda>(t, c, i, g). key_nonce_spec pr t (c \<noteq> None) i g iv) rs)"
  by (rule key_requests_spec [OF cache_inv_default assms])

theorem key_cache_transparent_witness:
  "key_requests toy_primitives (replicate 64 7) key_cache_default
     [(Command, None, 1, 0), (Voice, Some (3 :: u16), 9, 0), (Command, None, 2, 1), (Command, None, 5, 0)]
   = Ok (map (\<lambda>(t, c, i, g). key_nonce_spec toy_primitives t (c \<noteq> None) i g (replicate 64 7))
       [(Command, None, 1, 0), (Voice, Some (3 :: u16), 9, 0), (Command, None, 2, 1), (Command, None, 5, 0)])"
  by (rule key_cache_transparent) simp

text \<open>
  The cache default is a valid generation: the empty cache entry carries the generation
  \<open>u32::MAX\<close>, so for that generation a new connection uses an all-zero key, mixed only with the
  packet id, and an all-zero nonce, whatever the shared iv is; an init packet has no row in the
  cache and panics.
\<close>

theorem key_cache_max_generation:
  "create_key_nonce pr t c i (- 1) iv key_cache_default =
     (if t = Init then Panic
      else Ok ((mix_id i (replicate 16 0), replicate 16 0), key_cache_default))"
proof (cases "t = Init")
  case True
  then show ?thesis
    by (simp add: create_key_nonce_def key_cache_default_def packet_type_index_def)
next
  case False
  have "key_cache_default[packet_type_index t := (replicate 2 cached_key_default)[n := cached_key_default]]
      = key_cache_default" for n
    using False by (simp add: key_cache_default_def packet_type_index_less replicate_update_same)
  then show ?thesis
    using False by (auto simp: create_key_nonce_def Let_def key_cache_default_def mix_id_def
        packet_type_index_less cached_key_default_def)
qed

lemma encrypt_then_decrypt:
  assumes laws: "primitives_laws pr" and mac: "length mac = 8" and f: "valid_flags f"
    and t: "t \<noteq> Init" and g: "g \<noteq> - 1" and inv: "cache_inv pr iv cache"
    and enc: "encrypt pr \<lparr>op_dir = dir, op_data = hdr dir mac i c f t @ d\<rparr> g iv cache
      = (Ok (Ok p, cache2) :: (_, 'e) outcome)"
  obtains e mac' where "p = \<lparr>op_dir = dir, op_data = hdr dir mac' i c f t @ e\<rparr>" "length mac' = 8"
    "length e = length d" "cache_inv pr iv cache2"
    "\<And>cache'. cache_inv pr iv cache' \<Longrightarrow> \<exists>cache3. cache_inv pr iv cache3 \<and>
      decrypt pr \<lparr>ip_header = \<lparr>ih_dir = dir, ih_data = hdr dir mac' i c f t\<rparr>, ip_content = e\<rparr> g iv cache'
        = (Ok (Ok d, cache3) :: (_, 'f) outcome)"
proof -
  let ?cid = "if dir = C2S then Some c else None"
  obtain key nonce where kn: "key_nonce_spec pr t (?cid \<noteq> None) i g iv = (key, nonce)"
    by (cases "key_nonce_spec pr t (?cid \<noteq> None) i g iv")
  obtain c1 where c1: "create_key_nonce pr t ?cid i g iv cache
      = (Ok ((key, nonce), c1) :: (_, 'e) outcome)" "cache_inv pr iv c1"
    using create_key_nonce_spec [OF inv t g, of ?cid i] unfolding kn by blast
  have "encrypt_key_nonce pr key nonce \<lparr>op_dir = dir, op_data = hdr dir mac i c f t @ d\<rparr> = Ok p"
    and c2: "cache2 = c1"
    using enc mac f c1(1)
    by (simp_all add: encrypt_def)
  from encrypt_key_nonce_hdr_cases [OF laws mac this(1)] obtain e mac' where
    p: "p = \<lparr>op_dir = dir, op_data = hdr dir mac' i c f t @ e\<rparr>" "length mac' = 8" "length e = length d"
      "eax_decrypt pr key nonce (drop 8 (hdr dir (replicate 8 0) i c f t)) e mac' = Some d"
    by blast
  let ?q = "\<lparr>ip_header = \<lparr>ih_dir = dir, ih_data = hdr dir mac' i c f t\<rparr>, ip_content = e\<rparr>"
  have "\<exists>cache3. cache_inv pr iv cache3 \<and> decrypt pr ?q g iv cache' = (Ok (Ok d, cache3) :: (_, 'f) outcome)"
    if inv': "cache_inv pr iv cache'" for cache'
  proof -
    obtain c3 where c3: "create_key_nonce pr t ?cid i g iv cache'
        = (Ok ((key, nonce), c3) :: (_, 'f) outcome)" "cache_inv pr iv c3"
      using create_key_nonce_spec [OF inv' t g, of ?cid i] unfolding kn by blast
    then show ?thesis
      using p f decrypt_key_nonce_hdr [OF p(2) p(4) f] by (simp add: decrypt_def)
  qed
  with that [OF p(1-3)] c1(2) show ?thesis by (simp add: c2)
qed

text \<open>
  Opening undoes sealing: a packet that one side encrypts is decrypted by the other side to
  the content it had, when both know the shared iv and agree on the generation, even though each
  side uses a key cache of its own with whatever history; the id and the flags stay readable and
  both caches stay valid.
\<close>

theorem decrypt_encrypt:
  assumes laws: "primitives_laws pr" and mac: "length mac = 8" and f: "valid_flags f"
    and t: "t \<noteq> Init" and g: "g \<noteq> - 1"
    and inv: "cache_inv pr iv cache" "cache_inv pr iv cache'"
    and enc: "encrypt pr \<lparr>op_dir = dir, op_data = hdr dir mac i c f t @ d\<rparr> g iv cache
      = (Ok (Ok p, cache2) :: (_, unit) outcome)"
  shows "\<exists>q cache3. in_packet_try_new dir (op_data p) = Ok q \<and> hv_id (ip_header q) = i \<and>
    hv_flags (ip_header q) = f \<and> length (ip_content q) = length d \<and>
    decrypt pr q g iv cache' = (Ok (Ok d, cache3) :: (_, unit) outcome) \<and>
    cache_inv pr iv cache2 \<and> cache_inv pr iv cache3"
proof -
  from encrypt_then_decrypt [OF laws mac f t g inv(1) enc] obtain e mac' where
    p: "p = \<lparr>op_dir = dir, op_data = hdr dir mac' i c f t @ e\<rparr>" "length mac' = 8"
      "length e = length d" "cache_inv pr iv cache2"
      "\<exists>cache3. cache_inv pr iv cache3 \<and>
        decrypt pr \<lparr>ip_header = \<lparr>ih_dir = dir, ih_data = hdr dir mac' i c f t\<rparr>, ip_content = e\<rparr> g iv cache'
          = (Ok (Ok d, cache3) :: (_, unit) outcome)"
    using inv(2) by metis
  have "in_packet_try_new dir (op_data p)
      = Ok \<lparr>ip_header = \<lparr>ih_dir = dir, ih_data = hdr dir mac' i c f t\<rparr>, ip_content = e\<rparr>"
    using p f hdr_flag_byte(1) [of mac' dir i c f t e] packet_type_from_u8_iff [of "packet_type_to_u8 t"]
    by (simp add: in_packet_try_new_Ok_iff)
  then show ?thesis using p f by auto
qed

theorem decrypt_encrypt_witness:
  "\<exists>p c2 q c3. encrypt toy_primitives
       \<lparr>op_dir = C2S, op_data = hdr C2S (replicate 8 0) 5 1 NEWPROTOCOL Command @ [9, 8, 7]\<rparr>
       2 [1] key_cache_default = (Ok (Ok p, c2) :: (_, unit) outcome) \<and>
     in_packet_try_new C2S (op_data p) = Ok q \<and>
     decrypt toy_primitives q 2 [1] key_cache_default = (Ok (Ok [9, 8, 7], c3) :: (_, unit) outcome)"
proof -
  let ?p = "\<lparr>op_dir = C2S, op_data = hdr C2S (replicate 8 0) 5 1 NEWPROTOCOL Command @ [9, 8, 7]\<rparr>"
  obtain key nonce where k: "key_nonce_spec toy_primitives Command True 5 2 [1] = (key, nonce)"
    by fastforce
  obtain c1 where kn: "create_key_nonce toy_primitives Command (Some 1) 5 2 [1] key_cache_default
      = (Ok ((key, nonce), c1) :: (_, unit) outcome)"
    using create_key_nonce_spec [OF cache_inv_default, of Command 2 toy_primitives "Some 1" 5 "[1]"] k
    by auto
  obtain e mac' where "eax_encrypt toy_primitives key nonce
      (drop 8 (hdr C2S (replicate 8 0) 5 1 NEWPROTOCOL Command)) [9, 8, 7] = Some (e, mac')"
    by (simp add: toy_primitives_def)
  from encrypt_key_nonce_hdr [OF toy_primitives_laws _ this, of "replicate 8 0"]
  have "\<exists>p c2. encrypt toy_primitives ?p 2 [1] key_cache_default
      = (Ok (Ok p, c2) :: (_, unit) outcome)"
    using kn by (simp add: encrypt_def)
  then obtain p c2 where enc: "encrypt toy_primitives ?p 2 [1] key_cache_default
      = (Ok (Ok p, c2) :: (_, unit) outcome)"
    by blast
  show ?thesis
    using decrypt_encrypt [OF toy_primitives_laws _ _ _ _ cache_inv_default cache_inv_default enc] enc
    by simp blast
qed

definition piece_flags :: "flags \<Rightarrow> bool \<Rightarrow> nat \<Rightarrow> flags list" where
  "piece_flags f compressed n = map (frag_flags f compressed n) [0..<n]"

lemma length_piece_flags [simp]: "length (piece_flags f z n) = n"
  by (simp add: piece_flags_def)

lemma pieces_not_Nil [simp]: "pieces pr m t d \<noteq> []"
  by (simp add: pieces_def Let_def)

lemma piece_flags_contain:
  assumes "k < n"
  shows "f AND COMPRESSED = 0 \<Longrightarrow> flags_contains (piece_flags f z n ! k) COMPRESSED \<longleftrightarrow> z \<and> k = 0"
    and "f AND FRAGMENTED = 0 \<Longrightarrow>
      flags_contains (piece_flags f z n ! k) FRAGMENTED \<longleftrightarrow> 1 < n \<and> (k = 0 \<or> k = n - 1)"
  using assms
  by (auto simp: piece_flags_def frag_flags_def Let_def flags_contains_def COMPRESSED_def
      FRAGMENTED_def word_bw_comms bit.conj_disj_distrib)

lemma compress_and_split_pieces:
  assumes "length mac = 8" "valid_flags f" "is_client \<longleftrightarrow> dir = C2S"
    and "ds = pieces pr (max_content is_client) t d"
    and "fs = piece_flags f (fst (packed pr (max_content is_client) d)) (length ds)"
  shows "compress_and_split pr is_client \<lparr>op_dir = dir, op_data = hdr dir mac i c f t @ d\<rparr>
      = Ok (map (\<lambda>(g, d'). \<lparr>op_dir = dir, op_data = hdr dir mac i c g t @ d'\<rparr>) (zip fs ds))"
  using assms
  by (simp add: compress_and_split_hdr Let_def enumerate_eq_zip zip_map1 split_def comp_def piece_flags_def)

lemma concat_pieces:
  assumes "f AND COMPRESSED = 0" "ds = pieces pr m t d" "fs = piece_flags f (fst (packed pr m d)) (length ds)"
  shows "concat ds = (if flags_contains (hd fs) COMPRESSED then qlz_compress pr d else d)"
proof -
  have "hd fs = fs ! 0" using assms(2,3) by (simp add: hd_conv_nth piece_flags_def)
  moreover have "0 < length ds" using assms(2) by simp
  ultimately have "flags_contains (hd fs) COMPRESSED \<longleftrightarrow> fst (packed pr m d)"
    using piece_flags_contain(1) [of 0 "length ds" f] assms(1,3) by simp
  then show ?thesis
    unfolding assms(2) pieces_concat by (auto simp: packed_def Let_def)
qed

text \<open>
  Fragments carry the packet: \<open>compress_and_split\<close> does not panic; unless the packet is a
  whisper, every datagram it yields is at most 500 bytes; every one keeps the mac, id, client id
  and type of the packet; their contents concatenated are the content of the packet or its
  compressed form, and then the first one carries the compressed flag; exactly the first and the
  last of several fragments carry the fragmented flag.
\<close>

theorem compress_and_split_fragments:
  assumes "length mac = 8" and "valid_flags f" and "f AND COMPRESSED = 0" and "f AND FRAGMENTED = 0"
    and "is_client \<longleftrightarrow> dir = C2S"
  shows "\<exists>ds fs. compress_and_split pr is_client \<lparr>op_dir = dir, op_data = hdr dir mac i c f t @ d\<rparr>
      = Ok (map (\<lambda>(g, d'). \<lparr>op_dir = dir, op_data = hdr dir mac i c g t @ d'\<rparr>) (zip fs ds)) \<and>
    ds \<noteq> [] \<and> length fs = length ds \<and>
    (t \<noteq> VoiceWhisper \<longrightarrow> (\<forall>d' \<in> set ds. header_len dir + length d' \<le> 500)) \<and>
    concat ds = (if flags_contains (hd fs) COMPRESSED then qlz_compress pr d else d) \<and>
    (\<forall>k < length fs. (0 < k \<longrightarrow> \<not> flags_contains (fs ! k) COMPRESSED) \<and>
       (flags_contains (fs ! k) FRAGMENTED
          \<longleftrightarrow> 1 < length fs \<and> (k = 0 \<or> k = length fs - 1)))"
proof -
  let ?m = "max_content is_client"
  let ?ds = "pieces pr ?m t d"
  let ?fs = "piece_flags f (fst (packed pr ?m d)) (length ?ds)"
  have m: "header_len dir + ?m = 500" "0 < ?m" using assms(5) by (cases dir; simp)+
  then have "header_len dir + length d' \<le> 500" if "t \<noteq> VoiceWhisper" "d' \<in> set ?ds" for d'
    using pieces_bound [OF m(2) that] by simp
  moreover note compress_and_split_pieces [OF assms(1,2,5) refl refl] concat_pieces [OF assms(3) refl refl]
  moreover have "\<forall>k < length ?fs. (0 < k \<longrightarrow> \<not> flags_contains (?fs ! k) COMPRESSED) \<and>
      (flags_contains (?fs ! k) FRAGMENTED \<longleftrightarrow> 1 < length ?fs \<and> (k = 0 \<or> k = length ?fs - 1))"
    using piece_flags_contain assms(3,4) by simp
  ultimately show ?thesis by (intro exI [of _ ?ds] exI [of _ ?fs]) simp
qed

theorem compress_and_split_fragments_witness:
  "\<exists>ds fs. compress_and_split toy_primitives True
      \<lparr>op_dir = C2S, op_data = hdr C2S (replicate 8 0) 0 1 NEWPROTOCOL Command @ replicate 1000 65\<rparr>
      = Ok (map (\<lambda>(g, d'). \<lparr>op_dir = C2S, op_data = hdr C2S (replicate 8 0) 0 1 g Command @ d'\<rparr>)
          (zip fs ds)) \<and>
    (\<forall>d' \<in> set ds. header_len C2S + length d' \<le> 500) \<and>
    concat ds = (if flags_contains (hd fs) COMPRESSED then qlz_compress toy_primitives (replicate 1000 65)
      else replicate 1000 65)"
  using compress_and_split_fragments [of "replicate 8 0" NEWPROTOCOL True C2S toy_primitives 0 1 Command
      "replicate 1000 65"]
  by (simp add: NEWPROTOCOL_def COMPRESSED_def FRAGMENTED_def valid_flags_def
      split: if_splits) blast

text \<open>
  Big integers of the puzzle: \<open>biguint_to_array\<close> writes every number below \<open>2 ^ 512\<close> as exactly
  64 big-endian bytes which \<open>array_to_biguint\<close> reads back, and panics (\<open>64 - len\<close> underflows) for
  every larger number.
\<close>

theorem biguint_array_roundtrip:
  "if n < 2 ^ 512
   then \<exists>a. biguint_to_array n = (Ok a :: (_, unit) outcome) \<and> length a = 64 \<and> array_to_biguint a = n
   else biguint_to_array n = (Panic :: (_, unit) outcome)"
proof -
  have "(2 :: nat) ^ 512 = 256 ^ 64" by simp
  then have "length (to_bytes_le n) \<le> 64 \<longleftrightarrow> n < 2 ^ 512"
    using length_to_bytes_le [of 64 n] by simp
  moreover have "array_to_biguint (replicate k 0 @ rev (to_bytes_le n)) = n" for k
    using array_to_biguint_rev [of "to_bytes_le n @ replicate k 0"]
    by (simp add: le_value_to_bytes_le)
  ultimately show ?thesis
    by (simp add: biguint_to_array_def Let_def usize_sub_def)
qed

end
