(* ===== verification/Init_Packets.thy ===== *)
theory Init_Packets
  imports Packet_Header
begin

text \<open>
  The init packets of the handshake (\<open>utils/tsproto-packets/src/packets.rs\<close>): the parsers
  \<open>InPacket::into_s2cinit\<close> and \<open>InPacket::into_c2sinit\<close> and the builders \<open>OutC2SInit0\<close>,
  \<open>OutC2SInit2\<close>, \<open>OutC2SInit4\<close>, \<open>OutS2CInit1\<close> and \<open>OutS2CInit3\<close>. Arrays of a fixed size are byte
  lists; the parsers cut them at their offsets, the builders append them.
  The base64 encoder of \<open>OutC2SInit4\<close> is the parameter \<open>b64\<close>.
\<close>

section \<open>Data\<close>

datatype c2s_init_data =
    C2SInit0 u32 u32 bytes
  | C2SInit2 u32 bytes bytes
  | C2SInit4 u32 bytes bytes u32 bytes bytes bytes

datatype s2c_init_data =
    S2CInit1 bytes bytes
  | S2CInit3 bytes bytes u32 bytes
  | S2CInit127

record in_s2c_init =
  s2c_packet :: in_packet
  s2c_data :: s2c_init_data

record in_c2s_init =
  c2s_packet :: in_packet
  c2s_data :: c2s_init_data

fun c2s_get_step :: "c2s_init_data \<Rightarrow> u8" where
  "c2s_get_step (C2SInit0 _ _ _) = 0"
| "c2s_get_step (C2SInit2 _ _ _) = 2"
| "c2s_get_step (C2SInit4 _ _ _ _ _ _ _) = 4"

fun s2c_get_step :: "s2c_init_data \<Rightarrow> u8" where
  "s2c_get_step (S2CInit1 _ _) = 1"
| "s2c_get_step (S2CInit3 _ _ _ _) = 3"
| "s2c_get_step S2CInit127 = 127"

definition INIT_MAC :: bytes where "INIT_MAC = ascii ''TS3INIT1''"

section \<open>Parsers\<close>

definition into_s2cinit :: "in_packet \<Rightarrow> (in_s2c_init, packets_error) outcome" where
  "into_s2cinit p =
     (if ih_dir (ip_header p) \<noteq> S2C then Err WrongDirection
      else and_then (h_packet_type (ip_header p)) (\<lambda>p_type.
        if p_type \<noteq> Init then Err (WrongPacketType p_type)
        else and_then (h_mac (ip_header p)) (\<lambda>mac.
        if mac \<noteq> INIT_MAC then Err (WrongInitMac mac)
        else let c = ip_content p in
        if c = [] then Err (PacketContentTooShort (length c))
        else and_then (index c 0) (\<lambda>step.
        and_then
         (if step = 1 then
            (if length c < 21 then Err (PacketContentTooShort (length c))
             else and_then (slice c 1 17) (\<lambda>random1.
               and_then (slice c 17 21) (\<lambda>random0_r. Ok (S2CInit1 random1 random0_r))))
          else if step = 3 then
            (if length c < 233 then Err (PacketContentTooShort (length c))
             else and_then (slice c 1 65) (\<lambda>x.
               and_then (slice c 65 129) (\<lambda>n.
               and_then (and_then (slice_from c 129) (read_be32 Io)) (\<lambda>level.
               and_then (slice c 133 233) (\<lambda>random2. Ok (S2CInit3 x n level random2))))))
          else if step = 127 then Ok S2CInit127
          else Err (InvalidInitStep step))
         (\<lambda>d. Ok \<lparr>s2c_packet = p, s2c_data = d\<rparr>)))))"

text \<open>The error for an unknown step names byte 0 of the content, as the source does.\<close>

definition into_c2sinit :: "in_packet \<Rightarrow> (in_c2s_init, packets_error) outcome" where
  "into_c2sinit p =
     (if ih_dir (ip_header p) \<noteq> C2S then Err WrongDirection
      else and_then (h_packet_type (ip_header p)) (\<lambda>p_type.
        if p_type \<noteq> Init then Err (WrongPacketType p_type)
        else and_then (h_mac (ip_header p)) (\<lambda>mac.
        if mac \<noteq> INIT_MAC then Err (WrongInitMac mac)
        else let c = ip_content p in
        if length c < 5 then Err (PacketContentTooShort (length c))
        else and_then (and_then (slice_from c 0) (read_be32 Io)) (\<lambda>version.
        and_then (index c 4) (\<lambda>step.
        and_then
         (if step = 0 then
            (if length c < 13 then Err (PacketContentTooShort (length c))
             else and_then (and_then (slice_from c 5) (read_be32 Io)) (\<lambda>timestamp.
               and_then (slice c 9 13) (\<lambda>random0. Ok (C2SInit0 version timestamp random0))))
          else if step = 2 then
            (if length c < 25 then Err (PacketContentTooShort (length c))
             else and_then (slice c 5 21) (\<lambda>random1.
               and_then (slice c 21 25) (\<lambda>random0_r. Ok (C2SInit2 version random1 random0_r))))
          else if step = 4 then
            (let len = 5 + 128 + 4 + 100 + 64 in
             if length c < len + 20 then Err (PacketContentTooShort (length c))
             else and_then (slice c 5 69) (\<lambda>x.
               and_then (slice c 69 133) (\<lambda>n.
               and_then (and_then (slice_from c 133) (read_be32 Io)) (\<lambda>level.
               and_then (slice c 137 237) (\<lambda>random2.
               and_then (slice c 237 301) (\<lambda>y.
               and_then (slice_from c len) (\<lambda>command.
               Ok (C2SInit4 version x n level random2 y command))))))))
          else and_then (index c 0) (\<lambda>b. Err (InvalidInitStep b)))
         (\<lambda>d. Ok \<lparr>c2s_packet = p, c2s_data = d\<rparr>))))))"

section \<open>Builders\<close>

text \<open>Every builder starts from an init header with the init mac and packet id 0x65.\<close>

definition out_init :: "direction \<Rightarrow> bytes \<Rightarrow> (out_packet, 'e) outcome" where
  "out_init dir content =
     and_then (new_with_dir dir 0 Init) (\<lambda>res.
     and_then (set_mac INIT_MAC res) (\<lambda>res.
     and_then (set_packet_id 0x65 res) (\<lambda>res.
     Ok (append_data content res))))"

definition out_c2s_init0 :: "u32 \<Rightarrow> u32 \<Rightarrow> bytes \<Rightarrow> (out_packet, 'e) outcome" where
  "out_c2s_init0 version timestamp random0 =
     out_init C2S (be32 version @ [0] @ be32 timestamp @ random0 @ replicate 8 0)"

definition out_c2s_init2 :: "u32 \<Rightarrow> bytes \<Rightarrow> bytes \<Rightarrow> (out_packet, 'e) outcome" where
  "out_c2s_init2 version random1 random0_r =
     out_init C2S (be32 version @ [2] @ random1 @ random0_r)"

text \<open>The \<open>clientinitiv\<close> command, which is sent inside the last init packet.\<close>

definition clientinitiv :: "(bytes \<Rightarrow> bytes) \<Rightarrow> bytes \<Rightarrow> bytes \<Rightarrow> bytes \<Rightarrow> bytes" where
  "clientinitiv b64 alpha omega ip =
     (let ip = (if ip = [] then [] else ascii ''='' @ ip) in
      ascii ''clientinitiv alpha='' @ b64 alpha @ ascii '' omega='' @ b64 omega
        @ ascii '' ot=1 ip'' @ ip)"

definition out_c2s_init4 ::
  "(bytes \<Rightarrow> bytes) \<Rightarrow> u32 \<Rightarrow> bytes \<Rightarrow> bytes \<Rightarrow> u32 \<Rightarrow> bytes \<Rightarrow> bytes \<Rightarrow> bytes \<Rightarrow> bytes \<Rightarrow> bytes
     \<Rightarrow> (out_packet, 'e) outcome" where
  "out_c2s_init4 b64 version x n level random2 y alpha omega ip =
     out_init C2S (be32 version @ [4] @ x @ n @ be32 level @ random2 @ y
       @ clientinitiv b64 alpha omega ip)"

definition out_s2c_init1 :: "bytes \<Rightarrow> bytes \<Rightarrow> (out_packet, 'e) outcome" where
  "out_s2c_init1 random1 random0_r = out_init S2C ([1] @ random1 @ random0_r)"

definition out_s2c_init3 :: "bytes \<Rightarrow> bytes \<Rightarrow> u32 \<Rightarrow> bytes \<Rightarrow> (out_packet, 'e) outcome" where
  "out_s2c_init3 x n level random2 = out_init S2C ([3] @ x @ n @ be32 level @ random2)"

section \<open>Init packets and their contents\<close>

definition init_hdr :: "direction \<Rightarrow> bytes" where
  "init_hdr dir = hdr dir INIT_MAC 0x65 0 0 Init"

definition init_packet :: "direction \<Rightarrow> bytes \<Rightarrow> in_packet" where
  "init_packet dir c = \<lparr>ip_header = \<lparr>ih_dir = dir, ih_data = init_hdr dir\<rparr>, ip_content = c\<rparr>"

lemma length_INIT_MAC [simp]: "length INIT_MAC = 8"
  by (simp add: INIT_MAC_def)

lemma out_init_eq [simp]:
  "out_init dir c = Ok \<lparr>op_dir = dir, op_data = init_hdr dir @ c\<rparr>"
  by (simp add: out_init_def init_hdr_def)

lemma view_init [simp]:
  "out_packet_view \<lparr>op_dir = dir, op_data = init_hdr dir @ c\<rparr> = Ok (init_packet dir c)"
  by (simp add: out_packet_view_def init_hdr_def init_packet_def)

lemma init_packet_simps [simp]:
  "ih_dir (ip_header (init_packet dir c)) = dir"
  "ip_content (init_packet dir c) = c"
  "h_packet_type (ip_header (init_packet dir c)) = Ok Init"
  "h_mac (ip_header (init_packet dir c)) = Ok INIT_MAC"
  by (simp_all add: init_packet_def init_hdr_def)

lemma clientinitiv_length: "20 \<le> length (clientinitiv b64 alpha omega ip)"
  by (simp add: clientinitiv_def Let_def)

lemma into_s2cinit_init:
  "into_s2cinit (init_packet S2C c) =
     (if c = [] then Err (PacketContentTooShort 0)
      else map_ok (\<lambda>d. \<lparr>s2c_packet = init_packet S2C c, s2c_data = d\<rparr>)
       (if hd c = 1 then
          (if length c < 21 then Err (PacketContentTooShort (length c))
           else Ok (S2CInit1 (take 16 (drop 1 c)) (take 4 (drop 17 c))))
        else if hd c = 3 then
          (if length c < 233 then Err (PacketContentTooShort (length c))
           else Ok (S2CInit3 (take 64 (drop 1 c)) (take 64 (drop 65 c))
                  (from_be (take 4 (drop 129 c))) (take 100 (drop 133 c))))
        else if hd c = 127 then Ok S2CInit127
        else Err (InvalidInitStep (hd c))))"
  by (cases c) (auto simp: into_s2cinit_def Let_def read_be32_def)

lemma into_c2sinit_init:
  "into_c2sinit (init_packet C2S c) =
     (if length c < 5 then Err (PacketContentTooShort (length c))
      else let version = from_be (take 4 c) in
       map_ok (\<lambda>d. \<lparr>c2s_packet = init_packet C2S c, c2s_data = d\<rparr>)
       (if c ! 4 = 0 then
          (if length c < 13 then Err (PacketContentTooShort (length c))
           else Ok (C2SInit0 version (from_be (take 4 (drop 5 c))) (take 4 (drop 9 c))))
        else if c ! 4 = 2 then
          (if length c < 25 then Err (PacketContentTooShort (length c))
           else Ok (C2SInit2 version (take 16 (drop 5 c)) (take 4 (drop 21 c))))
        else if c ! 4 = 4 then
          (if length c < 321 then Err (PacketContentTooShort (length c))
           else Ok (C2SInit4 version (take 64 (drop 5 c)) (take 64 (drop 69 c))
                  (from_be (take 4 (drop 133 c))) (take 100 (drop 137 c)) (take 64 (drop 237 c))
                  (drop 301 c)))
        else Err (InvalidInitStep (c ! 0))))"
  by (cases c) (auto simp: into_c2sinit_def Let_def read_be32_def)

lemma into_s2cinit_not_Panic:
  assumes "wf_in_header (ip_header p)"
  shows "into_s2cinit p \<noteq> Panic"
  using assms by (auto simp: into_s2cinit_def Let_def read_be32_def)

lemma into_c2sinit_not_Panic:
  assumes "wf_in_header (ip_header p)"
  shows "into_c2sinit p \<noteq> Panic"
  using assms by (cases "ip_content p") (auto simp: into_c2sinit_def Let_def read_be32_def)

text \<open>
  The error of the client init parser names the first byte of the version, not the step byte:
  a packet with the unknown step 9 and version 0x04000000 is reported as \<open>Invalid init step 4\<close>.
\<close>

lemma c2s_init_error_names_version_byte:
  "5 \<le> length c \<Longrightarrow> c ! 4 \<noteq> 0 \<Longrightarrow> c ! 4 \<noteq> 2 \<Longrightarrow> c ! 4 \<noteq> 4 \<Longrightarrow>
   into_c2sinit (init_packet C2S c) = Err (InvalidInitStep (c ! 0))"
  by (simp add: into_c2sinit_init Let_def)

section \<open>Properties\<close>

text \<open>
  Init parsers never panic: on every datagram that \<open>try_new\<close> accepts, the parsers of the two
  kinds of init packets return a packet or an error.
\<close>

theorem init_parsers_total:
  assumes "in_packet_try_new dir bs = Ok p"
  shows "into_s2cinit p \<noteq> Panic \<and> into_c2sinit p \<noteq> Panic"
  using in_packet_try_new_wf [OF assms] into_s2cinit_not_Panic into_c2sinit_not_Panic by blast

theorem init_parsers_total_witness:
  "\<exists>p. in_packet_try_new C2S (INIT_MAC @ [0, 0x65, 0, 0, 8] @ [1, 2, 3, 4, 7]) = Ok p \<and>
     into_s2cinit p \<noteq> Panic \<and> into_c2sinit p \<noteq> Panic"
proof -
  have "\<exists>p. in_packet_try_new C2S (INIT_MAC @ [0, 0x65, 0, 0, 8] @ [1, 2, 3, 4, 7]) = Ok p"
    by (simp add: in_packet_try_new_Ok_iff nth_append)
  then show ?thesis using init_parsers_total by blast
qed

text \<open>
  Client init round trips: the server's parser reads back every field that the client's
  builders of \<open>Init0\<close>, \<open>Init2\<close> and \<open>Init4\<close> have written; the command of \<open>Init4\<close> is the
  \<open>clientinitiv\<close> command.
\<close>

theorem c2s_init_roundtrip:
  assumes "length random0 = 4" and "length random1 = 16" and "length random0_r = 4"
    and "length x = 64" and "length n = 64" and "length random2 = 100" and "length y = 64"
  shows "(\<exists>p q r. out_c2s_init0 version timestamp random0 = (Ok p :: (_, unit) outcome) \<and>
      out_packet_view p = (Ok q :: (_, unit) outcome) \<and> into_c2sinit q = Ok r \<and>
      c2s_data r = C2SInit0 version timestamp random0)
    \<and> (\<exists>p q r. out_c2s_init2 version random1 random0_r = (Ok p :: (_, unit) outcome) \<and>
      out_packet_view p = (Ok q :: (_, unit) outcome) \<and> into_c2sinit q = Ok r \<and>
      c2s_data r = C2SInit2 version random1 random0_r)
    \<and> (\<exists>p q r. out_c2s_init4 b64 version x n level random2 y alpha omega ip
        = (Ok p :: (_, unit) outcome) \<and>
      out_packet_view p = (Ok q :: (_, unit) outcome) \<and> into_c2sinit q = Ok r \<and>
      c2s_data r = C2SInit4 version x n level random2 y (clientinitiv b64 alpha omega ip))"
  using assms clientinitiv_length [of b64 alpha omega ip]
  by (simp add: out_c2s_init0_def out_c2s_init2_def out_c2s_init4_def into_c2sinit_init Let_def
      nth_append from_be16 from_be32)

theorem c2s_init_roundtrip_witness:
  "\<exists>p q r. out_c2s_init2 9 (replicate 16 1) (replicate 4 2) = (Ok p :: (_, unit) outcome) \<and>
     out_packet_view p = (Ok q :: (_, unit) outcome) \<and> into_c2sinit q = Ok r \<and>
     c2s_data r = C2SInit2 9 (replicate 16 1) (replicate 4 2)"
  using c2s_init_roundtrip [of "replicate 4 0" "replicate 16 1" "replicate 4 2" "replicate 64 0"
      "replicate 64 0" "replicate 100 0" "replicate 64 0" 9 0] by simp

text \<open>
  Server init round trips: the client's parser reads back every field of the server's \<open>Init1\<close>
  and \<open>Init3\<close> packets.
\<close>

theorem s2c_init_roundtrip:
  assumes "length random1 = 16" and "length random0_r = 4"
    and "length x = 64" and "length n = 64" and "length random2 = 100"
  shows "(\<exists>p q r. out_s2c_init1 random1 random0_r = (Ok p :: (_, unit) outcome) \<and>
      out_packet_view p = (Ok q :: (_, unit) outcome) \<and> into_s2cinit q = Ok r \<and>
      s2c_data r = S2CInit1 random1 random0_r)
    \<and> (\<exists>p q r. out_s2c_init3 x n level random2 = (Ok p :: (_, unit) outcome) \<and>
      out_packet_view p = (Ok q :: (_, unit) outcome) \<and> into_s2cinit q = Ok r \<and>
      s2c_data r = S2CInit3 x n level random2)"
  using assms
  by (simp add: out_s2c_init1_def out_s2c_init3_def into_s2cinit_init from_be32)

theorem s2c_init_roundtrip_witness:
  "\<exists>p q r. out_s2c_init1 (replicate 16 5) [1, 2, 3, 4] = (Ok p :: (_, unit) outcome) \<and>
     out_packet_view p = (Ok q :: (_, unit) outcome) \<and> into_s2cinit q = Ok r \<and>
     s2c_data r = S2CInit1 (replicate 16 5) [1, 2, 3, 4]"
  using s2c_init_roundtrip [of "replicate 16 5" "[1, 2, 3, 4]" "replicate 64 0" "replicate 64 0"
      "replicate 100 0"] by simp

text \<open>
  The handshake acknowledges itself: the answer of the server to every init packet of the
  client acknowledges exactly the id under which the resender keeps that packet, so \<open>Init1\<close> removes
  \<open>Init0\<close> and \<open>Init3\<close> removes \<open>Init2\<close>; and the client packets acknowledge the server packets they
  answer.
\<close>

theorem init_ack_chain:
  "\<exists>i0 i1 i2 i3 q0 q1 q2 q3. out_c2s_init0 v ts r0 = (Ok i0 :: (_, packets_error) outcome) \<and>
     out_s2c_init1 r1 r0' = (Ok i1 :: (_, packets_error) outcome) \<and>
     out_c2s_init2 v r1 r0' = (Ok i2 :: (_, packets_error) outcome) \<and>
     out_s2c_init3 x n level r2 = (Ok i3 :: (_, packets_error) outcome) \<and>
     out_packet_view i0 = (Ok q0 :: (_, packets_error) outcome) \<and>
     out_packet_view i1 = (Ok q1 :: (_, packets_error) outcome) \<and>
     out_packet_view i2 = (Ok q2 :: (_, packets_error) outcome) \<and>
     out_packet_view i3 = (Ok q3 :: (_, packets_error) outcome) \<and>
     ack_packet q0 = Ok None \<and>
     map_ok Some (udp_packet_id \<lparr>ou_generation_id = g, ou_data = i0\<rparr>) = ack_packet q1 \<and>
     map_ok Some (udp_packet_id \<lparr>ou_generation_id = g, ou_data = i1\<rparr>) = ack_packet q2 \<and>
     map_ok Some (udp_packet_id \<lparr>ou_generation_id = g, ou_data = i2\<rparr>) = ack_packet q3"
  by (simp add: out_c2s_init0_def out_s2c_init1_def out_c2s_init2_def out_s2c_init3_def
      ack_packet_def is_ack_def Let_def nth_append udp_packet_id_def udp_packet_type_def
      init_hdr_def out_packet_view_def)

end
