(* ===== verification/Audio_Packets.thy ===== *)
theory Audio_Packets
  imports Packet_Header
begin

text \<open>
  Voice packets (\<open>AudioData\<close>, \<open>InPacket::into_audio\<close> and \<open>OutAudio::new\<close> of
  \<open>utils/tsproto-packets/src/packets.rs\<close>): the five layouts of a voice packet, the parser that
  chooses between them by packet type, direction and the new-protocol flag, and the builder.
\<close>

section \<open>Data\<close>

datatype audio_data =
    AudioC2S u16 codec_type bytes
  | AudioC2SWhisper u16 codec_type "u64 list" "u16 list" bytes
  | AudioC2SWhisperNew u16 codec_type u8 u8 u64 bytes
  | AudioS2C u16 u16 codec_type bytes
  | AudioS2CWhisper u16 u16 codec_type bytes

record in_audio =
  audio_packet :: in_packet
  audio_data :: audio_data

fun audio_direction :: "audio_data \<Rightarrow> direction" where
  "audio_direction (AudioC2S _ _ _) = C2S"
| "audio_direction (AudioC2SWhisper _ _ _ _ _) = C2S"
| "audio_direction (AudioC2SWhisperNew _ _ _ _ _ _) = C2S"
| "audio_direction (AudioS2C _ _ _ _) = S2C"
| "audio_direction (AudioS2CWhisper _ _ _ _) = S2C"

fun audio_packet_type :: "audio_data \<Rightarrow> packet_type" where
  "audio_packet_type (AudioC2S _ _ _) = Voice"
| "audio_packet_type (AudioC2SWhisper _ _ _ _ _) = VoiceWhisper"
| "audio_packet_type (AudioC2SWhisperNew _ _ _ _ _ _) = VoiceWhisper"
| "audio_packet_type (AudioS2C _ _ _ _) = Voice"
| "audio_packet_type (AudioS2CWhisper _ _ _ _) = VoiceWhisper"

fun audio_codec :: "audio_data \<Rightarrow> codec_type" where
  "audio_codec (AudioC2S _ codec _) = codec"
| "audio_codec (AudioC2SWhisper _ codec _ _ _) = codec"
| "audio_codec (AudioC2SWhisperNew _ codec _ _ _ _) = codec"
| "audio_codec (AudioS2C _ _ codec _) = codec"
| "audio_codec (AudioS2CWhisper _ _ codec _) = codec"

fun audio_id :: "audio_data \<Rightarrow> u16" where
  "audio_id (AudioC2S i _ _) = i"
| "audio_id (AudioC2SWhisper i _ _ _ _) = i"
| "audio_id (AudioC2SWhisperNew i _ _ _ _ _) = i"
| "audio_id (AudioS2C i _ _ _) = i"
| "audio_id (AudioS2CWhisper i _ _ _) = i"

fun audio_flags :: "audio_data \<Rightarrow> flags" where
  "audio_flags (AudioC2S _ _ _) = 0"
| "audio_flags (AudioC2SWhisper _ _ _ _ _) = 0"
| "audio_flags (AudioC2SWhisperNew _ _ _ _ _ _) = NEWPROTOCOL"
| "audio_flags (AudioS2C _ _ _ _) = 0"
| "audio_flags (AudioS2CWhisper _ _ _ _) = 0"

fun audio_payload :: "audio_data \<Rightarrow> bytes" where
  "audio_payload (AudioC2S _ _ d) = d"
| "audio_payload (AudioC2SWhisper _ _ _ _ d) = d"
| "audio_payload (AudioC2SWhisperNew _ _ _ _ _ d) = d"
| "audio_payload (AudioS2C _ _ _ d) = d"
| "audio_payload (AudioS2CWhisper _ _ _ d) = d"

section \<open>The parser\<close>

text \<open>
  \<open>CodecType::from_u8(content[i]).ok_or_else(|| Error::InvalidCodec(content[j]))\<close>: the codec is
  at \<open>i\<close>, the error reads index \<open>j\<close>. The source uses \<open>j = 4\<close> everywhere, also where the codec is
  at index 2.
\<close>

definition read_codec :: "bytes \<Rightarrow> nat \<Rightarrow> nat \<Rightarrow> (codec_type, packets_error) outcome" where
  "read_codec c i j =
     and_then (index c i) (\<lambda>b.
       case codec_from_u8 b of
         Some codec \<Rightarrow> Ok codec
       | None \<Rightarrow> and_then (index c j) (\<lambda>e. Err (InvalidCodec e)))"

definition audio_parse ::
  "packet_type \<Rightarrow> bool \<Rightarrow> direction \<Rightarrow> bytes \<Rightarrow> (audio_data, packets_error) outcome" where
  "audio_parse p_type newprotocol dir content =
     and_then (read_be16 Io content) (\<lambda>i.
     if p_type = Voice then
       (if dir = S2C then
          (if length content < 5 then Err (PacketContentTooShort (length content))
           else and_then (and_then (slice_from content 2) (read_be16 Io)) (\<lambda>from_id.
             and_then (read_codec content 4 4) (\<lambda>codec.
             and_then (slice_from content 5) (\<lambda>d.
             Ok (AudioS2C i from_id codec d)))))
        else
          (if length content < 3 then Err (PacketContentTooShort (length content))
           else and_then (read_codec content 2 4) (\<lambda>codec.
             and_then (slice_from content 3) (\<lambda>d.
             Ok (AudioC2S i codec d)))))
     else if dir = S2C then
       (if length content < 5 then Err (PacketContentTooShort (length content))
        else and_then (and_then (slice_from content 2) (read_be16 Io)) (\<lambda>from_id.
          and_then (read_codec content 4 4) (\<lambda>codec.
          and_then (slice_from content 5) (\<lambda>d.
          Ok (AudioS2CWhisper i from_id codec d)))))
     else
       (if length content < 3 then Err (PacketContentTooShort (length content))
        else and_then (read_codec content 2 4) (\<lambda>codec.
          if newprotocol then
            (if length content < 14 then Err (PacketContentTooShort (length content))
             else and_then (index content 3) (\<lambda>whisper_type.
               and_then (index content 4) (\<lambda>target.
               and_then (and_then (slice_from content 5) (read_be64 Io)) (\<lambda>target_id.
               and_then (slice_from content 13) (\<lambda>d.
               Ok (AudioC2SWhisperNew i codec whisper_type target target_id d))))))
          else
            (if length content < 5 then Err (PacketContentTooShort (length content))
             else and_then (index content 3) (\<lambda>cc.
               and_then (index content 4) (\<lambda>cl.
               let channel_count = unat cc;
                   client_count = unat cl;
                   channel_off = 5;
                   client_off = channel_off + channel_count * 8;
                   off = client_off + client_count * 2
               in if length content < off then Err (PacketContentTooShort (length content))
                  else and_then (try_map (\<lambda>k. and_then (slice_from content (channel_off + k * 8))
                           (read_be64 Io)) [0..<channel_count]) (\<lambda>channels.
                    and_then (try_map (\<lambda>k. and_then (slice_from content (client_off + k * 2))
                           (read_be16 Io)) [0..<client_count]) (\<lambda>clients.
                    and_then (slice_from content off) (\<lambda>d.
                    Ok (AudioC2SWhisper i codec channels clients d))))))))))"

definition into_audio :: "in_packet \<Rightarrow> (in_audio, packets_error) outcome" where
  "into_audio p =
     and_then (h_packet_type (ip_header p)) (\<lambda>p_type.
     and_then (h_flags (ip_header p)) (\<lambda>f.
     and_then (audio_parse p_type (flags_contains f NEWPROTOCOL) (ih_dir (ip_header p))
         (ip_content p)) (\<lambda>d.
     Ok \<lparr>audio_packet = p, audio_data = d\<rparr>)))"

section \<open>The builder\<close>

text \<open>The numbers of channels and clients are truncated to a byte (\<open>len() as u8\<close>).\<close>

fun audio_content :: "audio_data \<Rightarrow> bytes" where
  "audio_content (AudioC2S i codec d) = be16 i @ [codec_to_u8 codec] @ d"
| "audio_content (AudioC2SWhisper i codec channels clients d) =
     be16 i @ [codec_to_u8 codec, of_nat (length channels), of_nat (length clients)]
       @ concat (map be64 channels) @ concat (map be16 clients) @ d"
| "audio_content (AudioC2SWhisperNew i codec whisper_type target target_id d) =
     be16 i @ [codec_to_u8 codec, whisper_type, target] @ be64 target_id @ d"
| "audio_content (AudioS2C i from_id codec d) = be16 i @ be16 from_id @ [codec_to_u8 codec] @ d"
| "audio_content (AudioS2CWhisper i from_id codec d) =
     be16 i @ be16 from_id @ [codec_to_u8 codec] @ d"

definition out_audio :: "audio_data \<Rightarrow> (out_packet, 'e) outcome" where
  "out_audio d =
     map_ok (append_data (audio_content d))
       (new_with_dir (audio_direction d) (audio_flags d) (audio_packet_type d))"

section \<open>Lemmas\<close>

lemma read_codec_Ok [simp]:
  "k < length c \<Longrightarrow> c ! k = codec_to_u8 codec \<Longrightarrow> read_codec c k j = Ok codec"
  by (simp add: read_codec_def)

lemma read_codec_not_Panic: "k < length c \<Longrightarrow> j < length c \<Longrightarrow> read_codec c k j \<noteq> Panic"
  by (simp add: read_codec_def split: option.splits)

text \<open>The vectors of channels and clients: \<open>count\<close> fields in a row, read at their offsets.\<close>

context wire_field
begin

lemma try_map_vector:
  "try_map (\<lambda>k. and_then (slice_from (pre @ concat (map enc xs) @ rest) (length pre + k * width))
      (dec e)) [0..<length xs] = Ok xs"
proof -
  have "try_map (\<lambda>k. and_then (slice_from (pre @ concat (map enc xs) @ rest) (length pre + k * width))
      (dec e)) [0..<length xs] = Ok (map (\<lambda>k. xs ! k) [0..<length xs])"
  proof (rule try_map_Ok_map)
    fix k assume "k \<in> set [0..<length xs]"
    then have k: "k < length xs" by simp
    then have "k * width \<le> length (concat (map enc xs))"
      by (simp add: width_concat mult.commute)
    then show "and_then (slice_from (pre @ concat (map enc xs) @ rest) (length pre + k * width))
        (dec e) = Ok (xs ! k)"
      using dec_vector_nth [OF k, of e rest] by simp
  qed
  then show ?thesis by (simp add: map_nth)
qed

end

lemma Suc5: "Suc (Suc (Suc (Suc (Suc n)))) = 5 + n"
  by simp

lemma whisper_vectors:
  "try_map (\<lambda>k. and_then (slice_from (be16 i @ a # b # c # concat (map be64 chs) @ rest) (5 + k * 8))
     (read_be64 e)) [0..<length chs] = Ok chs"
  "try_map (\<lambda>k. and_then
       (slice_from (be16 i @ a # b # c # concat (map be64 chs) @ concat (map be16 cls) @ rest)
         (5 + length chs * 8 + k * 2)) (read_be16 e)) [0..<length cls] = Ok cls"
  using be64_field.try_map_vector [where pre = "be16 i @ [a, b, c]" and xs = chs and rest = rest]
    be16_field.try_map_vector
      [where pre = "be16 i @ [a, b, c] @ concat (map be64 chs)" and xs = cls and rest = rest]
  by (simp_all add: be64_field.width_concat mult.commute [of 8] Suc5 add.assoc del: add_2_eq_Suc')

lemma drop_3_Cons: "drop (3 + n) (a # b # c # xs) = drop n xs"
  by (simp add: numeral_3_eq_3)

text \<open>Which packets the builder can describe, and the parser can read back.\<close>

fun wf_audio :: "audio_data \<Rightarrow> bool" where
  "wf_audio (AudioC2SWhisper _ _ channels clients _) \<longleftrightarrow>
     length channels < 256 \<and> length clients < 256"
| "wf_audio (AudioC2SWhisperNew _ _ _ _ _ d) \<longleftrightarrow> d \<noteq> []"
| "wf_audio _ \<longleftrightarrow> True"

lemma parse_content:
  "wf_audio d \<Longrightarrow>
   audio_parse (audio_packet_type d) (flags_contains (audio_flags d) NEWPROTOCOL)
     (audio_direction d) (audio_content d) = Ok d"
proof (cases d)
  case (AudioC2SWhisper i codec channels clients d')
  assume "wf_audio d"
  with AudioC2SWhisper have "unat (of_nat (length channels) :: u8) = length channels"
    "unat (of_nat (length clients) :: u8) = length clients"
    by (simp_all add: unat_of_nat)
  then show ?thesis
    using AudioC2SWhisper
    by (simp add: whisper_vectors audio_parse_def flags_contains_def NEWPROTOCOL_def nth_append Let_def drop_3_Cons
        be64_field.width_concat be16_field.width_concat)
qed (cases "audio_payload d"; simp add: audio_parse_def flags_contains_def NEWPROTOCOL_def nth_append)+

lemma try_map_slice_not_Panic:
  assumes "off + n * w \<le> length c" and "\<And>bs. rd bs \<noteq> Panic"
  shows "try_map (\<lambda>k. and_then (slice_from c (off + k * w)) rd) [0..<n] \<noteq> Panic"
proof (rule try_map_not_Panic)
  fix k assume "k \<in> set [0..<n]"
  then have "k * w \<le> n * w" by (intro mult_le_mono1) simp
  with assms(1) have "off + k * w \<le> length c" by linarith
  with assms show "and_then (slice_from c (off + k * w)) rd \<noteq> Panic" by simp
qed

text \<open>
  The codec error of the client layouts reads index 4 of a content that is only known to have
  three bytes.
\<close>

lemma read_codec_eq:
  "read_codec c k j =
     (if length c \<le> k then Panic
      else case codec_from_u8 (c ! k) of
        Some codec \<Rightarrow> Ok codec
      | None \<Rightarrow> if length c \<le> j then Panic else Err (InvalidCodec (c ! j)))"
  by (simp add: read_codec_def index_def split: option.splits)

lemma whisper_not_Panic:
  assumes "5 + unat (c ! 3) * 8 + unat (c ! 4) * 2 \<le> length c"
  shows "and_then (try_map (\<lambda>k. and_then (slice_from c (5 + k * 8)) (read_be64 Io)) [0..<unat (c ! 3)])
      (\<lambda>channels. and_then (try_map (\<lambda>k. and_then
          (slice_from c (5 + unat (c ! 3) * 8 + k * 2)) (read_be16 Io)) [0..<unat (c ! 4)])
      (\<lambda>clients. and_then (slice_from c (5 + unat (c ! 3) * 8 + unat (c ! 4) * 2))
      (\<lambda>d. Ok (AudioC2SWhisper i codec channels clients d)))) \<noteq> Panic"
  using assms try_map_slice_not_Panic [of 5 "unat (c ! 3)" 8 c "read_be64 Io"]
    try_map_slice_not_Panic [of "5 + unat (c ! 3) * 8" "unat (c ! 4)" 2 c "read_be16 Io"]
  by (simp add: outcome_simps)

section \<open>Properties\<close>

text \<open>
  C37 (voice round trip): every voice packet whose vectors have at most 255 entries, and whose
  payload is not empty in the new whisper layout, is built by \<open>OutAudio::new\<close> into a datagram that
  \<open>try_new\<close> accepts and \<open>into_audio\<close> parses back to the same packet.
\<close>

theorem audio_roundtrip:
  assumes "wf_audio d"
  shows "\<exists>p q r. out_audio d = (Ok p :: (_, unit) outcome) \<and>
    in_packet_try_new (audio_direction d) (op_data p) = Ok q \<and>
    into_audio q = Ok r \<and> audio_data r = d"
proof -
  let ?h = "hdr (audio_direction d) (replicate 8 0) 0 0 (audio_flags d) (audio_packet_type d)"
  have f: "valid_flags (audio_flags d)" by (cases d) simp_all
  then have "in_packet_try_new (audio_direction d) (?h @ audio_content d)
      = Ok \<lparr>ip_header = \<lparr>ih_dir = audio_direction d, ih_data = ?h\<rparr>, ip_content = audio_content d\<rparr>"
    using hdr_flag_byte(1) [of "replicate 8 0" "audio_direction d" 0 0 "audio_flags d"
        "audio_packet_type d" "audio_content d"] packet_type_from_u8_iff [of "packet_type_to_u8 (audio_packet_type d)"]
    by (simp add: in_packet_try_new_Ok_iff)
  with f parse_content [OF assms] show ?thesis
    by (simp add: out_audio_def into_audio_def)
qed

theorem audio_roundtrip_witness:
  "\<exists>p q r. out_audio (AudioC2SWhisper 0x1234 OpusVoice [4, 5, 6] [7, 8] [1, 2, 3])
       = (Ok p :: (_, unit) outcome) \<and>
     in_packet_try_new C2S (op_data p) = Ok q \<and> into_audio q = Ok r \<and>
     audio_data r = AudioC2SWhisper 0x1234 OpusVoice [4, 5, 6] [7, 8] [1, 2, 3]"
  using audio_roundtrip [of "AudioC2SWhisper 0x1234 OpusVoice [4, 5, 6] [7, 8] [1, 2, 3]"] by simp

text \<open>
  Where the voice parser panics: the parser panics exactly on client packets of three or four
  bytes whose codec byte is unknown, since the error message reads index 4 of the content.
\<close>

theorem audio_parse_panics_iff:
  "audio_parse p_type newprotocol dir content = Panic \<longleftrightarrow>
     dir = C2S \<and> (length content = 3 \<or> length content = 4) \<and> codec_from_u8 (content ! 2) = None"
proof (cases "read_be16 Io content")
  case (Ok i)
  then have 2: "2 \<le> length content" by (simp add: read_be16_def split: if_splits)
  have "length content = 3 \<or> length content = 4" if "2 < length content" "length content \<le> 4"
    using that by arith
  then show ?thesis
    using Ok 2 whisper_not_Panic [of content]
    by (cases dir; cases newprotocol; cases "codec_from_u8 (content ! 2)";
        cases "length content < 5"; cases "length content < 3")
      (auto simp: audio_parse_def outcome_simps Let_def read_codec_eq split: option.splits)
qed (auto simp: audio_parse_def read_be16_def split: if_splits)

text \<open>
  End of a whispered stream is lost: a new-protocol whisper packet with an empty payload,
  which is how the end of a stream is announced, can be built but is rejected by the parser as too
  short, although its 13 content bytes hold every field.
\<close>

theorem whisper_new_end_of_stream_rejected:
  "length (audio_content (AudioC2SWhisperNew i codec w t tid [])) = 13 \<and>
   audio_parse VoiceWhisper True C2S (audio_content (AudioC2SWhisperNew i codec w t tid []))
     = Err (PacketContentTooShort 13)"
  by (simp add: audio_parse_def nth_append)

end
