(* ===== verification/Utf8.thy ===== *)
theory Utf8
  imports Rust_Prelude
begin

text \<open>
  \<open>str::from_utf8\<close> of the Rust standard library: a slice of bytes is a string when it is well-formed
  UTF-8 (no overlong forms, no surrogates, nothing above U+10FFFF). Strings are modelled by their bytes.
\<close>

definition continuation :: "u8 \<Rightarrow> bool" where
  "continuation b \<longleftrightarrow> 0x80 \<le> b \<and> b \<le> 0xBF"

text \<open>The lowest and the highest second byte after a leading byte, and the number of bytes after it.\<close>

definition lead_bounds :: "u8 \<Rightarrow> (nat \<times> u8 \<times> u8) option" where
  "lead_bounds b =
     (if 0xC2 \<le> b \<and> b \<le> 0xDF then Some (1, 0x80, 0xBF)
      else if b = 0xE0 then Some (2, 0xA0, 0xBF)
      else if b = 0xED then Some (2, 0x80, 0x9F)
      else if 0xE1 \<le> b \<and> b \<le> 0xEF then Some (2, 0x80, 0xBF)
      else if b = 0xF0 then Some (3, 0x90, 0xBF)
      else if 0xF1 \<le> b \<and> b \<le> 0xF3 then Some (3, 0x80, 0xBF)
      else if b = 0xF4 then Some (3, 0x80, 0x8F)
      else None)"

text \<open>The bytes after the first character, if there is a well-formed one.\<close>

fun utf8_step :: "bytes \<Rightarrow> bytes option" where
  "utf8_step [] = None"
| "utf8_step (b # bs) =
     (if b < 0x80 then Some bs
      else
        (case lead_bounds b of
           None \<Rightarrow> None
         | Some (n, lo, hi) \<Rightarrow>
             (if n \<le> length bs \<and> lo \<le> bs ! 0 \<and> bs ! 0 \<le> hi \<and> list_all continuation (take n bs)
              then Some (drop n bs) else None)))"

lemma utf8_step_shorter: "utf8_step d = Some r \<Longrightarrow> length r < length d"
  by (cases d) (auto split: if_splits option.splits)

function utf8_valid :: "bytes \<Rightarrow> bool" where
  "utf8_valid d \<longleftrightarrow> d = [] \<or> (case utf8_step d of Some r \<Rightarrow> utf8_valid r | None \<Rightarrow> False)"
  by auto
termination
  by (relation "measure length") (simp_all add: utf8_step_shorter)

declare utf8_valid.simps [simp del]

definition from_utf8 :: "'e \<Rightarrow> bytes \<Rightarrow> (bytes, 'e) outcome" where
  "from_utf8 e d = (if utf8_valid d then Ok d else Err e)"

lemma utf8_valid_Nil [simp]: "utf8_valid []"
  by (simp add: utf8_valid.simps)

lemma utf8_valid_ascii_Cons [simp]: "b < 0x80 \<Longrightarrow> utf8_valid (b # bs) \<longleftrightarrow> utf8_valid bs"
  by (simp add: utf8_valid.simps [of "b # bs"])

lemma from_utf8_not_Panic [simp]: "from_utf8 e d \<noteq> Panic"
  by (simp add: from_utf8_def)

lemma from_utf8_Ok_iff [outcome_simps]: "from_utf8 e d = Ok s \<longleftrightarrow> utf8_valid d \<and> s = d"
  by (auto simp: from_utf8_def)

end
