(* ===== verification/Decimal.thy ===== *)
theory Decimal
  imports Rust_Prelude
begin

text \<open>
  Decimal numbers of the Rust standard library: \<open>Display\<close> of an unsigned integer and \<open>FromStr\<close> of an
  unsigned integer, which takes an optional plus sign and digits and fails on overflow.
\<close>

fun show_nat :: "nat \<Rightarrow> bytes" where
  "show_nat n = (if n < 10 then [of_nat (0x30 + n)] else show_nat (n div 10) @ [of_nat (0x30 + n mod 10)])"

declare show_nat.simps [simp del]

definition digit_value :: "u8 \<Rightarrow> nat option" where
  "digit_value b = (if 0x30 \<le> b \<and> b \<le> 0x39 then Some (unat b - 0x30) else None)"

fun parse_digits :: "nat \<Rightarrow> nat \<Rightarrow> bytes \<Rightarrow> nat option" where
  "parse_digits limit acc [] = Some acc"
| "parse_digits limit acc (b # bs) =
     (case digit_value b of
        None \<Rightarrow> None
      | Some d \<Rightarrow> if acc * 10 + d < limit then parse_digits limit (acc * 10 + d) bs else None)"

definition parse_uint :: "'e \<Rightarrow> bytes \<Rightarrow> ('n::len word, 'e) outcome" where
  "parse_uint e s =
     (let ds = (case s of b # bs \<Rightarrow> if b = 0x2B then bs else s | [] \<Rightarrow> s)
      in if ds = [] then Err e else ok_or e (map_option of_nat (parse_digits (2 ^ LENGTH('n)) 0 ds)))"

lemma parse_uint_not_Panic [simp]: "parse_uint e s \<noteq> Panic"
  by (simp add: parse_uint_def Let_def)

lemma show_nat_not_Nil [simp]: "show_nat n \<noteq> []"
  by (simp add: show_nat.simps [of n])

lemma digit_of_nat: "d < 10 \<Longrightarrow> unat (of_nat (0x30 + d) :: u8) = 0x30 + d"
  by (simp only: unat_of_nat) (simp add: take_bit_eq_mod)

lemma digit_value_digit [simp]: "d < 10 \<Longrightarrow> digit_value (of_nat (0x30 + d)) = Some d"
  using digit_of_nat [of d] by (simp add: digit_value_def word_le_nat_alt del: of_nat_add of_nat_numeral)

lemma set_show_nat: "b \<in> set (show_nat n) \<Longrightarrow> \<exists>d < 10. b = of_nat (0x30 + d)"
proof (induction n rule: show_nat.induct)
  case (1 n)
  show ?case
  proof (cases "n < 10")
    case True
    with 1(2) show ?thesis by (auto simp: show_nat.simps [of n] simp del: of_nat_add)
  next
    case False
    with 1(2) consider "b \<in> set (show_nat (n div 10))" | "b = of_nat (0x30 + n mod 10)"
      by (auto simp: show_nat.simps [of n] simp del: of_nat_add)
    then show ?thesis
    proof cases
      case 2
      moreover have "n mod 10 < 10" by simp
      ultimately show ?thesis by blast
    qed (use 1(1) False in blast)
  qed
qed

lemma parse_digits_append:
  "parse_digits limit acc (xs @ ys) = Option.bind (parse_digits limit acc xs) (\<lambda>n. parse_digits limit n ys)"
  by (induction xs arbitrary: acc) (auto split: option.splits)

lemma parse_show_nat: "n < limit \<Longrightarrow> parse_digits limit 0 (show_nat n) = Some n"
proof (induction n rule: show_nat.induct)
  case (1 n)
  show ?case
  proof (cases "n < 10")
    case True
    with 1 show ?thesis by (simp add: show_nat.simps [of n] del: of_nat_add)
  next
    case False
    then have "n div 10 < limit" using 1 by linarith
    with 1 False show ?thesis
      by (simp add: show_nat.simps [of n] parse_digits_append del: of_nat_add)
  qed
qed

lemma parse_uint_show: "parse_uint e (show_nat (unat w)) = Ok (w :: 'n::len word)"
proof -
  obtain b bs where s: "show_nat (unat w) = b # bs" by (cases "show_nat (unat w)") auto
  then obtain d where "d < 10" and b: "b = of_nat (0x30 + d)" using set_show_nat [of b "unat w"] by auto
  have "b \<noteq> 0x2B"
  proof
    assume "b = 0x2B"
    then have "unat b = 0x2B" by simp
    with digit_of_nat [OF \<open>d < 10\<close>] b show False by simp
  qed
  moreover have "parse_digits (2 ^ LENGTH('n)) 0 (show_nat (unat w)) = Some (unat w)"
    by (rule parse_show_nat) simp
  ultimately show ?thesis by (simp add: parse_uint_def s)
qed

lemma show_nat_ascii: "b \<in> set (show_nat n) \<Longrightarrow> b < 0x80"
  using set_show_nat [of b n] digit_of_nat by (fastforce simp: word_less_nat_alt)

end
