(* ===== verification/Commands.thy ===== *)
theory Commands
  imports Packet_Header Utf8 Decimal
begin

text \<open>
  Text commands: the tokenizer \<open>CommandParser\<close> with its iterator and \<open>unescape\<close>
  (\<open>utils/tsproto-packets/src/commands.rs\<close>) and the writer \<open>OutCommand\<close> with \<open>EscapedWriter\<close>
  (\<open>utils/tsproto-packets/src/packets.rs\<close>). A command is a name and a sequence of arguments
  \<open>name=value\<close> separated by spaces; a pipe symbol starts the next part of a command. Characters
  that separate arguments are escaped in values.

  The parser keeps the whole data and an index, as the source does. Every read of the current byte
  is behind an \<open>at_end\<close> check, so the index is in range there.
\<close>

section \<open>The parser\<close>

record command_parser =
  cp_data :: bytes
  cp_index :: nat

record argument_value =
  av_raw :: bytes
  av_escapes :: nat

datatype command_item = Argument bytes argument_value | NextCommand

text \<open>The byte sets of the source: \<open>b"\x0b\x0c\t\r\n "\<close>, \<open>b" =|"\<close> and \<open>b"\x0b\x0c\t\r\n| "\<close>.\<close>

definition spaces :: bytes where "spaces = [0x0B, 0x0C, 0x09, 0x0D, 0x0A, 0x20]"
definition name_ends :: bytes where "name_ends = [0x20, 0x3D, 0x7C]"
definition value_ends :: bytes where "value_ends = [0x0B, 0x0C, 0x09, 0x0D, 0x0A, 0x7C, 0x20]"

definition is_ascii_alphanumeric :: "u8 \<Rightarrow> bool" where
  "is_ascii_alphanumeric b \<longleftrightarrow>
     0x30 \<le> b \<and> b \<le> 0x39 \<or> 0x41 \<le> b \<and> b \<le> 0x5A \<or> 0x61 \<le> b \<and> b \<le> 0x7A"

definition at_end :: "command_parser \<Rightarrow> bool" where
  "at_end p \<longleftrightarrow> length (cp_data p) \<le> cp_index p"

definition cur :: "command_parser \<Rightarrow> u8" where
  "cur p = cp_data p ! cp_index p"

definition cur_in :: "bytes \<Rightarrow> command_parser \<Rightarrow> bool" where
  "cur_in cs p \<longleftrightarrow> cur p \<in> set cs"

definition adv :: "command_parser \<Rightarrow> command_parser" where
  "adv p = p\<lparr>cp_index := Suc (cp_index p)\<rparr>"

text \<open>The end of the command name: 0 when the first word is not a name.\<close>

function name_end_from :: "bytes \<Rightarrow> nat \<Rightarrow> nat" where
  "name_end_from d name_end =
     (if name_end < length d then
        (if \<not> is_ascii_alphanumeric (d ! name_end) then
           (if d ! name_end = 0x20 then name_end else 0)
         else name_end_from d (Suc name_end))
      else name_end)"
  by pat_completeness auto
termination
  by (relation "measure (\<lambda>(d, n). length d - n)") auto

declare name_end_from.simps [simp del]

definition command_parser_new :: "bytes \<Rightarrow> bytes \<times> command_parser" where
  "command_parser_new d =
     (let name_end = name_end_from d 0
      in (take name_end d, \<lparr>cp_data = d, cp_index = name_end\<rparr>))"

text \<open>The loops \<open>while !at_end() && cur_in(cs) { adv() }\<close> and its negated form.\<close>

function adv_while :: "(u8 \<Rightarrow> bool) \<Rightarrow> command_parser \<Rightarrow> command_parser" where
  "adv_while P p = (if \<not> at_end p \<and> P (cur p) then adv_while P (adv p) else p)"
  by pat_completeness auto
termination
  by (relation "measure (\<lambda>(P, p). length (cp_data p) - cp_index p)") (auto simp: at_end_def adv_def)

declare adv_while.simps [simp del]

definition skip_space :: "command_parser \<Rightarrow> command_parser" where
  "skip_space = adv_while (\<lambda>b. b \<in> set spaces)"

text \<open>The loop over a value, which counts the escape sequences.\<close>

function scan_value :: "command_parser \<Rightarrow> nat \<Rightarrow> command_parser \<times> nat" where
  "scan_value p escapes =
     (if at_end p then (p, escapes)
      else if cur_in value_ends p then (p, escapes)
      else if cur p = 0x5C then
        (if at_end (adv p) \<or> cur_in value_ends (adv p) then (adv p, Suc escapes)
         else scan_value (adv (adv p)) (Suc escapes))
      else scan_value (adv p) escapes)"
  by pat_completeness auto
termination
  by (relation "measure (\<lambda>(p, e). length (cp_data p) - cp_index p)") (auto simp: at_end_def adv_def)

declare scan_value.simps [simp del]

text \<open>\<open>Iterator::next\<close>: the next item, if there is one, and the parser after it.\<close>

definition parser_slice :: "command_parser \<Rightarrow> nat \<Rightarrow> nat \<Rightarrow> bytes" where
  "parser_slice p a b = take (b - a) (drop a (cp_data p))"

definition next_item :: "command_parser \<Rightarrow> command_item option \<times> command_parser" where
  "next_item p0 =
     (let p = skip_space p0 in
      if at_end p then (None, p)
      else if cur p = 0x7C then (Some NextCommand, adv p)
      else
        let name_start = cp_index p;
            p = adv_while (\<lambda>b. b \<notin> set name_ends) p;
            name_end = cp_index p;
            name = parser_slice p name_start name_end
        in if at_end p \<or> cur p \<noteq> 0x3D
           then (Some (Argument name \<lparr>av_raw = [], av_escapes = 0\<rparr>), p)
           else
             let p = adv p;
                 value_start = cp_index p;
                 (p, escapes) = scan_value p 0
             in (Some (Argument name
                   \<lparr>av_raw = parser_slice p value_start (cp_index p), av_escapes = escapes\<rparr>), p))"

section \<open>Values\<close>

fun unescape_byte :: "u8 \<Rightarrow> u8" where
  "unescape_byte c =
     (if c = 0x76 then 0x0B else if c = 0x66 then 0x0C else if c = 0x74 then 0x09
      else if c = 0x72 then 0x0D else if c = 0x6E then 0x0A else if c = 0x70 then 0x7C
      else if c = 0x73 then 0x20 else c)"

fun unescape :: "bytes \<Rightarrow> bytes" where
  "unescape [] = []"
| "unescape (b # bs) =
     (if b = 0x5C then (case bs of [] \<Rightarrow> [] | c # cs \<Rightarrow> unescape_byte c # unescape cs)
      else b # unescape bs)"

text \<open>\<open>get\<close>: the capacity \<open>raw.len() - escapes\<close> is computed with an overflow check.\<close>

definition value_get :: "argument_value \<Rightarrow> (bytes, 'e) outcome" where
  "value_get v =
     (if av_escapes v = 0 then Ok (av_raw v)
      else and_then (usize_sub (length (av_raw v)) (av_escapes v)) (\<lambda>_. Ok (unescape (av_raw v))))"

text \<open>\<open>get_str\<close>, and \<open>get_parse\<close> for an unsigned integer.\<close>

definition get_str :: "argument_value \<Rightarrow> (bytes, packets_error) outcome" where
  "get_str v =
     (if av_escapes v = 0 then from_utf8 Packet_Header.Utf8 (av_raw v)
      else and_then (value_get v) (from_utf8 StringUtf8))"

definition get_parse :: "argument_value \<Rightarrow> ('n::len word, packets_error) outcome" where
  "get_parse v = and_then (get_str v) (parse_uint ParseInt)"

section \<open>The writer\<close>

fun escape_byte :: "u8 \<Rightarrow> bytes" where
  "escape_byte c =
     (if c = 0x0B then [0x5C, 0x76] else if c = 0x0C then [0x5C, 0x66]
      else if c = 0x5C then [0x5C, 0x5C] else if c = 0x09 then [0x5C, 0x74]
      else if c = 0x0D then [0x5C, 0x72] else if c = 0x0A then [0x5C, 0x6E]
      else if c = 0x7C then [0x5C, 0x70] else if c = 0x20 then [0x5C, 0x73]
      else if c = 0x2F then [0x5C, 0x2F] else [c])"

definition escape :: "bytes \<Rightarrow> bytes" where
  "escape bs = concat (map escape_byte bs)"

definition out_command_new ::
  "direction \<Rightarrow> flags \<Rightarrow> packet_type \<Rightarrow> bytes \<Rightarrow> (out_packet, 'e) outcome" where
  "out_command_new dir f t name =
     and_then (new_with_dir dir 0 t) (\<lambda>res.
     and_then (set_flags f res) (\<lambda>res.
     Ok (append_data name res)))"

text \<open>\<open>content().last() != Some('|') && !content().is_empty()\<close>: then a space is written first.\<close>

definition write_separator :: "out_packet \<Rightarrow> (out_packet, 'e) outcome" where
  "write_separator p =
     and_then (out_content p) (\<lambda>c.
       if c \<noteq> [] \<and> last c \<noteq> 0x7C then Ok (append_data [0x20] p) else Ok p)"

definition write_bin_arg :: "bytes \<Rightarrow> bytes \<Rightarrow> out_packet \<Rightarrow> (out_packet, 'e) outcome" where
  "write_bin_arg name value p =
     and_then (write_separator p) (\<lambda>p.
     let p = append_data name p
     in if value \<noteq> [] then Ok (append_data (escape value) (append_data [0x3D] p)) else Ok p)"

text \<open>\<open>write_arg\<close> writes the \<open>=\<close> first and removes it when the formatted value is empty.\<close>

definition write_arg :: "bytes \<Rightarrow> bytes \<Rightarrow> out_packet \<Rightarrow> (out_packet, 'e) outcome" where
  "write_arg name value p =
     and_then (write_separator p) (\<lambda>p.
     let p = append_data [0x3D] (append_data name p);
         len = length (op_data p);
         p = append_data (escape value) p
     in if length (op_data p) = len then Ok (p\<lparr>op_data := butlast (op_data p)\<rparr>) else Ok p)"

definition start_new_part :: "out_packet \<Rightarrow> out_packet" where
  "start_new_part p = append_data [0x7C] p"

section \<open>The parser always advances\<close>

lemma adv_simps [simp]: "cp_data (adv p) = cp_data p" "cp_index (adv p) = Suc (cp_index p)"
  by (simp_all add: adv_def)

lemma adv_while_data [simp]: "cp_data (adv_while P p) = cp_data p"
  by (induction P p rule: adv_while.induct) (simp add: adv_while.simps)

lemma adv_while_index: "cp_index p \<le> cp_index (adv_while P p)"
proof (induction P p rule: adv_while.induct)
  case (1 P p)
  then show ?case by (subst adv_while.simps) (auto dest: Suc_leD)
qed

lemma adv_while_bound: "cp_index p \<le> length (cp_data p) \<Longrightarrow>
    cp_index (adv_while P p) \<le> length (cp_data p)"
proof (induction P p rule: adv_while.induct)
  case (1 P p)
  then show ?case by (subst adv_while.simps) (auto simp: at_end_def)
qed

lemma adv_while_stop: "at_end (adv_while P p) \<or> \<not> P (cur (adv_while P p))"
proof (induction P p rule: adv_while.induct)
  case (1 P p)
  then show ?case
    by (cases "\<not> at_end p \<and> P (cur p)") (auto simp: adv_while.simps [of P p])
qed

lemma scan_value_data: "cp_data (fst (scan_value p e)) = cp_data p"
proof (induction p e rule: scan_value.induct)
  case (1 p e)
  then show ?case by (subst scan_value.simps) auto
qed

lemma scan_value_index: "cp_index p \<le> cp_index (fst (scan_value p e))"
proof (induction p e rule: scan_value.induct)
  case (1 p e)
  then show ?case by (subst scan_value.simps) (auto dest: Suc_leD)
qed

lemma next_item_advances:
  assumes "next_item p = (Some it, p')"
  shows "cp_data p' = cp_data p \<and> cp_index p < cp_index p' \<and> cp_index p < length (cp_data p)"
proof -
  let ?q = "skip_space p"
  let ?r = "adv_while (\<lambda>b. b \<notin> set name_ends) ?q"
  have q: "cp_data ?q = cp_data p" "cp_index p \<le> cp_index ?q"
    by (simp_all add: skip_space_def adv_while_index)
  have nend: "\<not> at_end ?q"
    using assms by (auto simp: next_item_def Let_def)
  have r: "cp_data ?r = cp_data p" "cp_index ?q \<le> cp_index ?r"
    by (simp_all add: q adv_while_index)
  have first: "cp_index ?q < cp_index ?r" if "cur ?q \<noteq> 0x7C" "cur ?q \<noteq> 0x3D"
  proof -
    have "cur ?q \<noteq> 0x20"
      using nend adv_while_stop [of "\<lambda>b. b \<in> set spaces" p]
      by (auto simp: skip_space_def spaces_def)
    with that nend have "?r = adv_while (\<lambda>b. b \<notin> set name_ends) (adv ?q)"
      by (subst adv_while.simps) (simp add: name_ends_def)
    then show ?thesis
      using adv_while_index [of "adv ?q" "\<lambda>b. b \<notin> set name_ends"] by simp
  qed
  show ?thesis
  proof (cases "cur ?q = 0x7C")
    case True
    then show ?thesis
      using assms nend q by (auto simp: next_item_def Let_def at_end_def)
  next
    case False
    show ?thesis
    proof (cases "at_end ?r \<or> cur ?r \<noteq> 0x3D")
      case True
      have "cp_index ?q < cp_index ?r"
      proof (cases "cur ?q = 0x3D")
        case eq: True
        then have "?r = ?q"
          by (subst adv_while.simps) (simp add: name_ends_def)
        then show ?thesis using eq True nend by simp
      qed (use first \<open>cur ?q \<noteq> 0x7C\<close> in simp)
      moreover have "p' = ?r"
        using assms nend False True by (auto simp: next_item_def Let_def)
      ultimately show ?thesis
        using nend q r by (simp add: at_end_def)
    next
      case False2: False
      then have "p' = fst (scan_value (adv ?r) 0)"
        using assms nend False by (auto simp: next_item_def Let_def split: prod.splits)
      then show ?thesis
        using nend q r scan_value_data [of "adv ?r" 0] scan_value_index [of "adv ?r" 0]
        by (simp add: at_end_def)
    qed
  qed
qed

text \<open>The items of a command: the iterator run to its end.\<close>

function parse_items :: "command_parser \<Rightarrow> command_item list" where
  "parse_items p =
     (case next_item p of (None, _) \<Rightarrow> [] | (Some it, p') \<Rightarrow> it # parse_items p')"
  by pat_completeness auto
termination
  by (relation "measure (\<lambda>p. length (cp_data p) - cp_index p)")
    (auto dest!: next_item_advances [OF sym])

declare parse_items.simps [simp del]

section \<open>Escaping\<close>

lemma escape_simps [simp]: "escape [] = []" "escape (b # bs) = escape_byte b @ escape bs"
  by (simp_all add: escape_def)

lemma escape_append: "escape (a @ b) = escape a @ escape b"
  by (induction a) simp_all

lemma escape_eq_Nil [simp]: "escape bs = [] \<longleftrightarrow> bs = []"
  by (cases bs) auto

lemma escape_byte_separator_free: "set (escape_byte b) \<inter> set value_ends = {}"
  by (auto simp: value_ends_def)

lemma escape_separator_free: "set (escape bs) \<inter> set value_ends = {}"
proof (induction bs)
  case (Cons b bs)
  then show ?case using escape_byte_separator_free [of b] by (auto simp del: escape_byte.simps)
qed simp

lemma unescape_escape_byte: "unescape (escape_byte b @ bs) = b # unescape bs"
  by simp

lemma unescape_escape [simp]: "unescape (escape bs) = bs"
  by (induction bs) (simp_all add: unescape_escape_byte del: escape_byte.simps)

text \<open>The number of escape sequences in an escaped value.\<close>

definition escape_count :: "bytes \<Rightarrow> nat" where
  "escape_count bs = length (filter (\<lambda>b. length (escape_byte b) = 2) bs)"

lemma escape_count_simps [simp]:
  "escape_count [] = 0"
  "escape_count (b # bs) = (if length (escape_byte b) = 2 then 1 else 0) + escape_count bs"
  by (simp_all add: escape_count_def)

lemma escape_count_le: "escape_count bs \<le> length (escape bs)"
  by (induction bs) (auto simp del: escape_byte.simps)

lemma escape_count_0: "escape_count bs = 0 \<Longrightarrow> escape bs = bs"
  by (induction bs) (auto split: if_splits)

section \<open>The parser on written text\<close>

lemma adv_while_run:
  assumes "\<And>b. b \<in> set xs \<Longrightarrow> P b" and "suf = [] \<or> \<not> P (hd suf)"
  shows "adv_while P \<lparr>cp_data = pre @ xs @ suf, cp_index = length pre\<rparr>
    = \<lparr>cp_data = pre @ xs @ suf, cp_index = length pre + length xs\<rparr>"
  using assms
proof (induction xs arbitrary: pre)
  case Nil
  then show ?case
    by (cases suf) (simp_all add: adv_while.simps at_end_def cur_def)
next
  case (Cons x xs)
  have "adv_while P \<lparr>cp_data = pre @ (x # xs) @ suf, cp_index = length pre\<rparr>
      = adv_while P \<lparr>cp_data = (pre @ [x]) @ xs @ suf, cp_index = length (pre @ [x])\<rparr>"
    using Cons.prems(1)
    by (subst adv_while.simps) (simp add: at_end_def cur_def adv_def)
  also have "\<dots> = \<lparr>cp_data = (pre @ [x]) @ xs @ suf, cp_index = length (pre @ [x]) + length xs\<rparr>"
    using Cons.prems by (intro Cons.IH) auto
  finally show ?case by simp
qed

lemma scan_value_byte:
  "scan_value \<lparr>cp_data = pre @ escape_byte b @ rest, cp_index = length pre\<rparr> e
   = scan_value \<lparr>cp_data = (pre @ escape_byte b) @ rest, cp_index = length (pre @ escape_byte b)\<rparr>
       (e + (if length (escape_byte b) = 2 then 1 else 0))"
  by (subst scan_value.simps)
    (auto simp: at_end_def cur_def cur_in_def adv_def value_ends_def nth_append)

lemma scan_value_run:
  assumes "suf = [] \<or> hd suf \<in> set value_ends"
  shows "scan_value \<lparr>cp_data = pre @ escape v @ suf, cp_index = length pre\<rparr> e
    = (\<lparr>cp_data = pre @ escape v @ suf, cp_index = length pre + length (escape v)\<rparr>,
       e + escape_count v)"
proof (induction v arbitrary: pre e)
  case Nil
  with assms show ?case
    by (cases suf) (simp_all add: scan_value.simps at_end_def cur_in_def cur_def)
next
  case (Cons b v)
  show ?case
    using scan_value_byte [of pre b "escape v @ suf" e]
      Cons.IH [of "pre @ escape_byte b" "e + (if length (escape_byte b) = 2 then 1 else 0)"]
    by (simp del: escape_byte.simps)
qed

text \<open>Names of commands and of arguments that the parser can read back.\<close>

definition valid_command_name :: "bytes \<Rightarrow> bool" where
  "valid_command_name n \<longleftrightarrow> n \<noteq> [] \<and> (\<forall>b \<in> set n. is_ascii_alphanumeric b)"

definition valid_arg_name :: "bytes \<Rightarrow> bool" where
  "valid_arg_name n \<longleftrightarrow>
     n \<noteq> [] \<and> hd n \<notin> set spaces \<and> (\<forall>b \<in> set n. b \<notin> set name_ends)"

text \<open>The text of an argument and the item that it is parsed into.\<close>

definition arg_text :: "bytes \<Rightarrow> bytes \<Rightarrow> bytes" where
  "arg_text n v = n @ (if v = [] then [] else 0x3D # escape v)"

definition arg_item :: "bytes \<Rightarrow> bytes \<Rightarrow> command_item" where
  "arg_item n v = Argument n \<lparr>av_raw = escape v, av_escapes = escape_count v\<rparr>"

lemma skip_space_run:
  assumes "sp = [] \<or> sp = [0x20]" and "suf = [] \<or> hd suf \<notin> set spaces"
  shows "skip_space \<lparr>cp_data = pre @ sp @ suf, cp_index = length pre\<rparr>
    = \<lparr>cp_data = pre @ sp @ suf, cp_index = length pre + length sp\<rparr>"
  unfolding skip_space_def using assms
  by (intro adv_while_run) (auto simp: spaces_def)

lemma next_item_arg:
  assumes n: "valid_arg_name n" and sp: "sp = [] \<or> sp = [0x20]"
    and suf: "suf = [] \<or> hd suf = 0x20 \<or> hd suf = 0x7C"
  shows "next_item \<lparr>cp_data = pre @ sp @ arg_text n v @ suf, cp_index = length pre\<rparr>
    = (Some (arg_item n v), \<lparr>cp_data = pre @ sp @ arg_text n v @ suf,
         cp_index = length pre + length sp + length (arg_text n v)\<rparr>)"
proof -
  let ?vt = "if v = [] then [] else 0x3D # escape v"
  let ?d = "pre @ sp @ n @ ?vt @ suf"
  have n1: "n \<noteq> []" "hd n \<notin> set spaces" "hd n \<notin> set name_ends" "\<And>b. b \<in> set n \<Longrightarrow> b \<notin> set name_ends"
    using n by (auto simp: valid_arg_name_def)
  have skip: "skip_space \<lparr>cp_data = ?d, cp_index = length pre\<rparr>
      = \<lparr>cp_data = ?d, cp_index = length (pre @ sp)\<rparr>"
    using skip_space_run [of sp "n @ ?vt @ suf" pre] sp n1 by simp
  have name: "adv_while (\<lambda>b. b \<notin> set name_ends) \<lparr>cp_data = ?d, cp_index = length (pre @ sp)\<rparr>
      = \<lparr>cp_data = ?d, cp_index = length (pre @ sp @ n)\<rparr>"
    using adv_while_run [of n "\<lambda>b. b \<notin> set name_ends" "?vt @ suf" "pre @ sp"] n1 suf
    by (auto simp: name_ends_def)
  have first: "?d ! length (pre @ sp) = hd n" "length (pre @ sp) < length ?d"
    using n1 by (simp_all add: nth_append hd_conv_nth)
  have pipe: "hd n \<noteq> 0x7C" using n1(3) by (simp add: name_ends_def)
  show ?thesis
  proof (cases "v = []")
    case True
    have "suf = [] \<or> ?d ! length (pre @ sp @ n) \<noteq> 0x3D"
      using suf True by (auto simp: nth_append hd_conv_nth)
    then show ?thesis
      using True skip name first pipe
      by (auto simp: next_item_def Let_def arg_text_def arg_item_def at_end_def cur_def
          parser_slice_def)
  next
    case False
    have "scan_value \<lparr>cp_data = (pre @ sp @ n @ [0x3D]) @ escape v @ suf,
          cp_index = length (pre @ sp @ n @ [0x3D])\<rparr> 0
        = (\<lparr>cp_data = (pre @ sp @ n @ [0x3D]) @ escape v @ suf,
            cp_index = length (pre @ sp @ n @ [0x3D]) + length (escape v)\<rparr>, escape_count v)"
      using suf by (subst scan_value_run) (auto simp: value_ends_def)
    then show ?thesis
      using False skip name first pipe
      by (auto simp: next_item_def Let_def arg_text_def arg_item_def at_end_def cur_def
          parser_slice_def adv_def nth_append)
  qed
qed

lemma next_item_pipe:
  "next_item \<lparr>cp_data = pre @ 0x7C # suf, cp_index = length pre\<rparr>
   = (Some NextCommand, \<lparr>cp_data = pre @ 0x7C # suf, cp_index = Suc (length pre)\<rparr>)"
proof -
  have "skip_space \<lparr>cp_data = pre @ 0x7C # suf, cp_index = length pre\<rparr>
      = \<lparr>cp_data = pre @ 0x7C # suf, cp_index = length pre\<rparr>"
    using skip_space_run [of "[]" "0x7C # suf" pre] by (simp add: spaces_def)
  then show ?thesis
    by (simp add: next_item_def Let_def at_end_def cur_def adv_def)
qed

lemma next_item_end: "next_item \<lparr>cp_data = pre, cp_index = length pre\<rparr>
    = (None, \<lparr>cp_data = pre, cp_index = length pre\<rparr>)"
proof -
  have "skip_space \<lparr>cp_data = pre, cp_index = length pre\<rparr> = \<lparr>cp_data = pre, cp_index = length pre\<rparr>"
    using skip_space_run [of "[]" "[]" pre] by simp
  then show ?thesis by (simp add: next_item_def at_end_def)
qed

section \<open>Writing a whole command\<close>

text \<open>A client of the writer: the calls it makes on an \<open>OutCommand\<close> after \<open>new\<close>.\<close>

datatype command_op = WriteArg bytes bytes | WriteBinArg bytes bytes | NewPart

fun apply_op :: "command_op \<Rightarrow> out_packet \<Rightarrow> (out_packet, 'e) outcome" where
  "apply_op (WriteArg n v) p = write_arg n v p"
| "apply_op (WriteBinArg n v) p = write_bin_arg n v p"
| "apply_op NewPart p = Ok (start_new_part p)"

fun apply_ops :: "command_op list \<Rightarrow> out_packet \<Rightarrow> (out_packet, 'e) outcome" where
  "apply_ops [] p = Ok p"
| "apply_ops (op # ops) p = and_then (apply_op op p) (apply_ops ops)"

definition write_command ::
  "direction \<Rightarrow> flags \<Rightarrow> packet_type \<Rightarrow> bytes \<Rightarrow> command_op list \<Rightarrow> (out_packet, 'e) outcome" where
  "write_command dir f t name ops =
     and_then (out_command_new dir f t name) (apply_ops ops)"

text \<open>The text that the calls append; \<open>piped\<close> says that the last byte is a pipe.\<close>

fun op_text :: "bool \<Rightarrow> command_op \<Rightarrow> bytes" where
  "op_text piped (WriteArg n v) = (if piped then [] else [0x20]) @ arg_text n v"
| "op_text piped (WriteBinArg n v) = (if piped then [] else [0x20]) @ arg_text n v"
| "op_text piped NewPart = [0x7C]"

fun ops_text :: "bool \<Rightarrow> command_op list \<Rightarrow> bytes" where
  "ops_text piped [] = []"
| "ops_text piped (op # ops) = op_text piped op @ ops_text (op = NewPart) ops"

fun valid_op :: "command_op \<Rightarrow> bool" where
  "valid_op (WriteArg n v) \<longleftrightarrow> valid_arg_name n"
| "valid_op (WriteBinArg n v) \<longleftrightarrow> valid_arg_name n"
| "valid_op NewPart \<longleftrightarrow> True"

fun op_matches :: "command_op \<Rightarrow> command_item \<Rightarrow> bool" where
  "op_matches (WriteArg n v) (Argument n' av) \<longleftrightarrow> n' = n \<and> value_get av = (Ok v :: (bytes, unit) outcome)"
| "op_matches (WriteBinArg n v) (Argument n' av) \<longleftrightarrow> n' = n \<and> value_get av = (Ok v :: (bytes, unit) outcome)"
| "op_matches NewPart NextCommand \<longleftrightarrow> True"
| "op_matches _ _ \<longleftrightarrow> False"

lemma write_separator_hdr [simp]:
  "length mac = 8 \<Longrightarrow> c \<noteq> [] \<Longrightarrow>
   write_separator \<lparr>op_dir = dir, op_data = hdr dir mac i cid f t @ c\<rparr>
     = Ok \<lparr>op_dir = dir, op_data = hdr dir mac i cid f t @ c @ (if last c = 0x7C then [] else [0x20])\<rparr>"
  by (simp add: write_separator_def)

lemma apply_op_hdr:
  assumes "length mac = 8" "c \<noteq> []"
  shows "apply_op op \<lparr>op_dir = dir, op_data = hdr dir mac i cid f t @ c\<rparr>
    = Ok \<lparr>op_dir = dir, op_data = hdr dir mac i cid f t @ c @ op_text (last c = 0x7C) op\<rparr>"
  using assms
  by (cases op)
    (auto simp: write_arg_def write_bin_arg_def Let_def arg_text_def start_new_part_def butlast_append)

lemma arg_text_last:
  assumes "valid_arg_name n"
  shows "arg_text n v \<noteq> []" "last (arg_text n v) \<noteq> 0x7C"
proof -
  show "arg_text n v \<noteq> []" using assms by (simp add: arg_text_def valid_arg_name_def)
  have "last n \<in> set n" using assms by (simp add: valid_arg_name_def)
  then have "last n \<noteq> 0x7C" using assms by (auto simp: valid_arg_name_def name_ends_def)
  moreover have "last (escape v) \<noteq> 0x7C" if "v \<noteq> []"
  proof -
    have "last (escape v) \<in> set (escape v)" using that by (intro last_in_set) simp
    then have "last (escape v) \<notin> set value_ends" using escape_separator_free [of v] by blast
    then show ?thesis by (auto simp: value_ends_def)
  qed
  ultimately show "last (arg_text n v) \<noteq> 0x7C" by (simp add: arg_text_def)
qed

lemma op_text_last:
  "valid_op op \<Longrightarrow> op_text piped op \<noteq> [] \<and> (last (op_text piped op) = 0x7C \<longleftrightarrow> op = NewPart)"
  by (cases op) (auto simp: arg_text_last)

lemma apply_ops_hdr:
  assumes "length mac = 8" "c \<noteq> []" "list_all valid_op ops"
  shows "apply_ops ops \<lparr>op_dir = dir, op_data = hdr dir mac i cid f t @ c\<rparr>
    = Ok \<lparr>op_dir = dir, op_data = hdr dir mac i cid f t @ c @ ops_text (last c = 0x7C) ops\<rparr>"
  using assms
proof (induction ops arbitrary: c)
  case (Cons op ops)
  then have "op_text (last c = 0x7C) op \<noteq> []"
    "last (op_text (last c = 0x7C) op) = 0x7C \<longleftrightarrow> op = NewPart"
    using op_text_last [of op "last c = 0x7C"] by simp_all
  then show ?case
    using Cons.prems Cons.IH [of "c @ op_text (last c = 0x7C) op"]
    by (simp add: apply_op_hdr)
qed simp

lemma ops_text_head:
  "ops_text False ops = [] \<or> hd (ops_text False ops) = 0x20 \<or> hd (ops_text False ops) = 0x7C"
proof (cases ops)
  case (Cons op ops')
  then show ?thesis by (cases op) simp_all
qed simp

lemma value_get_arg [simp]:
  "value_get \<lparr>av_raw = escape v, av_escapes = escape_count v\<rparr> = Ok v"
  using escape_count_0 [of v] escape_count_le [of v] by (simp add: value_get_def)

lemma parse_items_text:
  assumes "list_all valid_op ops"
  shows "list_all2 op_matches ops
    (parse_items \<lparr>cp_data = pre @ ops_text piped ops, cp_index = length pre\<rparr>)"
  using assms
proof (induction ops arbitrary: pre piped)
  case Nil
  then show ?case by (subst parse_items.simps) (simp add: next_item_end)
next
  case (Cons op ops)
  let ?rest = "ops_text (op = NewPart) ops"
  let ?next = "\<lparr>cp_data = (pre @ op_text piped op) @ ?rest, cp_index = length (pre @ op_text piped op)\<rparr>"
  have "\<exists>it. next_item \<lparr>cp_data = pre @ ops_text piped (op # ops), cp_index = length pre\<rparr>
      = (Some it, ?next) \<and> op_matches op it"
  proof (cases op)
    case (WriteArg n v)
    then show ?thesis
      using next_item_arg [of n "if piped then [] else [0x20]" ?rest pre v] Cons.prems
        ops_text_head [of ops]
      by (simp add: arg_item_def add.assoc)
  next
    case (WriteBinArg n v)
    then show ?thesis
      using next_item_arg [of n "if piped then [] else [0x20]" ?rest pre v] Cons.prems
        ops_text_head [of ops]
      by (simp add: arg_item_def add.assoc)
  next
    case NewPart
    then show ?thesis by (simp add: next_item_pipe)
  qed
  then obtain it where
    "next_item \<lparr>cp_data = pre @ ops_text piped (op # ops), cp_index = length pre\<rparr> = (Some it, ?next)"
    "op_matches op it" by blast
  then show ?case
    using Cons.IH [of "pre @ op_text piped op" "op = NewPart"] Cons.prems
    by (subst parse_items.simps) simp
qed

lemma name_end_run:
  assumes "\<forall>b \<in> set n. is_ascii_alphanumeric b" "suf = [] \<or> hd suf = 0x20"
  shows "name_end_from (pre @ n @ suf) (length pre) = length pre + length n"
  using assms
proof (induction n arbitrary: pre)
  case Nil
  then show ?case
    by (cases suf) (simp_all add: name_end_from.simps is_ascii_alphanumeric_def)
next
  case (Cons b n)
  then show ?case
    using Cons.IH [of "pre @ [b]"] by (subst name_end_from.simps) simp
qed

text \<open>
  A first call of \<open>start_new_part\<close> would glue the pipe to the name, which the parser then does not
  take for a command name.
\<close>

lemma command_parser_new_text:
  assumes "valid_command_name name" and "ops = [] \<or> hd ops \<noteq> NewPart"
  shows "command_parser_new (name @ ops_text False ops)
    = (name, \<lparr>cp_data = name @ ops_text False ops, cp_index = length name\<rparr>)"
proof -
  have "ops_text False ops = [] \<or> hd (ops_text False ops) = 0x20"
    using assms(2) by (cases ops; cases "hd ops") simp_all
  then have "name_end_from (name @ ops_text False ops) 0 = length name"
    using assms(1) name_end_run [of name _ "[]"] by (simp add: valid_command_name_def)
  then show ?thesis by (simp add: command_parser_new_def)
qed

lemma valid_command_name_last: "valid_command_name n \<Longrightarrow> n \<noteq> [] \<and> last n \<noteq> 0x7C"
proof -
  assume v: "valid_command_name n"
  then have "is_ascii_alphanumeric (last n)" by (simp add: valid_command_name_def)
  then have "last n \<noteq> 0x7C" by (auto simp: is_ascii_alphanumeric_def)
  with v show ?thesis by (simp add: valid_command_name_def)
qed

section \<open>Items of arbitrary text\<close>

text \<open>Every escape sequence takes at least one byte, so the parser never counts too many.\<close>

lemma scan_value_escapes:
  "e \<le> e0 + (cp_index p - i0) \<Longrightarrow> i0 \<le> cp_index p \<Longrightarrow>
   snd (scan_value p e) \<le> e0 + (cp_index (fst (scan_value p e)) - i0)"
proof (induction p e rule: scan_value.induct)
  case (1 p e)
  then show ?case by (subst (1 2) scan_value.simps) (auto simp: at_end_def)
qed

lemma scan_value_bound:
  "cp_index p \<le> length (cp_data p) \<Longrightarrow>
   cp_index (fst (scan_value p e)) \<le> length (cp_data p)"
proof (induction p e rule: scan_value.induct)
  case (1 p e)
  then show ?case by (subst scan_value.simps) (auto simp: at_end_def)
qed

lemma next_item_value:
  assumes it: "next_item p = (Some (Argument n av), p')"
  shows "av_escapes av \<le> length (av_raw av)"
proof -
  let ?r = "adv_while (\<lambda>b. b \<notin> set name_ends) (skip_space p)"
  let ?s = "scan_value (adv ?r) 0"
  have ne: "\<not> at_end (skip_space p)" "cur (skip_space p) \<noteq> 0x7C"
    using it by (auto simp: next_item_def Let_def split: if_splits)
  show ?thesis
  proof (cases "at_end ?r \<or> cur ?r \<noteq> 0x3D")
    case True
    then show ?thesis using it ne by (auto simp: next_item_def Let_def)
  next
    case False
    then have av: "av = \<lparr>av_raw = parser_slice (fst ?s) (cp_index (adv ?r)) (cp_index (fst ?s)),
        av_escapes = snd ?s\<rparr>"
      using it ne by (auto simp: next_item_def Let_def split_beta)
    have "cp_index (adv ?r) \<le> length (cp_data (adv ?r))"
      using False by (simp add: at_end_def)
    then have "snd ?s \<le> cp_index (fst ?s) - cp_index (adv ?r)"
      "cp_index (fst ?s) \<le> length (cp_data (fst ?s))"
      using scan_value_escapes [of 0 0 "adv ?r" "cp_index (adv ?r)"] scan_value_bound [of "adv ?r" 0]
      by (simp_all add: scan_value_data)
    then show ?thesis by (simp add: av parser_slice_def)
  qed
qed

section \<open>Properties\<close>

lemma write_command_bytes:
  assumes "valid_command_name name" and "valid_flags f" and "list_all valid_op ops"
  shows "write_command dir f t name ops = (Ok \<lparr>op_dir = dir,
    op_data = hdr dir (replicate 8 0) 0 0 f t @ name @ ops_text False ops\<rparr> :: (out_packet, 'e) outcome)"
  using apply_ops_hdr [of "replicate 8 0" name ops dir 0 0 f t] valid_command_name_last [OF assms(1)] assms(2,3)
  by (simp add: write_command_def out_command_new_def)

lemma apply_ops_append:
  "apply_ops (ops @ [op]) p = (and_then (apply_ops ops p) (apply_op op) :: (out_packet, 'e) outcome)"
proof (induction ops arbitrary: p)
  case Nil
  show ?case by (cases "apply_op op p :: (out_packet, 'e) outcome") simp_all
next
  case (Cons first ops)
  then show ?case by (cases "apply_op first p :: (out_packet, 'e) outcome") simp_all
qed

lemma write_command_append:
  assumes "write_command dir f t name ops = (Ok p :: (out_packet, 'e) outcome)"
  shows "write_command dir f t name (ops @ [WriteArg n v]) = (write_arg n v p :: (out_packet, 'e) outcome)"
  using assms
  by (cases "out_command_new dir f t name :: (out_packet, 'e) outcome") (simp_all add: write_command_def apply_ops_append)

lemma written_command_parses:
  assumes "valid_command_name name" and "valid_flags f" and "list_all valid_op ops"
    and "ops = [] \<or> hd ops \<noteq> NewPart"
  shows "\<exists>p c q. write_command dir f t name ops = (Ok p :: (_, unit) outcome) \<and>
    out_content p = (Ok c :: (_, unit) outcome) \<and>
    command_parser_new c = (name, q) \<and> list_all2 op_matches ops (parse_items q)"
  using write_command_bytes [OF assms(1-3), where ?'e = unit] command_parser_new_text [OF assms(1,4)]
    parse_items_text [OF assms(3), of name False]
  by simp

text \<open>
  C34 (command round trip): a command written with \<open>OutCommand\<close> is parsed back by \<open>CommandParser\<close> to
  its name and to one item per call of the writer, in order: an argument with the written name,
  whose value unescapes to the written bytes whatever these bytes are, or the start of a new part.
  This holds when the name of the command is not empty and has ASCII letters and digits only, the flags
  leave the bits of the packet type alone, every argument has a name that is not empty, does not start with
  white space and has no byte that ends a name, and the first call does not start a new part.
\<close>

theorem command_roundtrip:
  assumes "valid_command_name name" and "valid_flags f" and "list_all valid_op ops"
    and "ops = [] \<or> hd ops \<noteq> NewPart"
  shows "\<exists>p c q. write_command dir f t name ops = (Ok p :: (_, unit) outcome) \<and>
    out_content p = (Ok c :: (_, unit) outcome) \<and>
    command_parser_new c = (name, q) \<and> list_all2 op_matches ops (parse_items q)"
  by (rule written_command_parses [OF assms])

theorem command_roundtrip_witness:
  "\<exists>p c q. write_command S2C 0 Command [0x63, 0x6D, 0x64]
       [WriteArg [0x61] [0x20, 0x5C, 0x7C], NewPart, WriteBinArg [0x62] []]
       = (Ok p :: (_, unit) outcome) \<and>
     out_content p = (Ok c :: (_, unit) outcome) \<and>
     command_parser_new c = ([0x63, 0x6D, 0x64], q) \<and>
     list_all2 op_matches [WriteArg [0x61] [0x20, 0x5C, 0x7C], NewPart, WriteBinArg [0x62] []]
       (parse_items q)"
  by (rule command_roundtrip)
    (simp_all add: valid_command_name_def is_ascii_alphanumeric_def valid_arg_name_def
      name_ends_def spaces_def)

text \<open>
  No injection: the text that the writer puts after a \<open>=\<close> contains no byte that ends a value,
  so a value cannot start another argument or another part of the command, and unescaping it gives
  the value back.
\<close>

theorem escape_safe: "set (escape v) \<inter> set value_ends = {} \<and> unescape (escape v) = v"
  by (simp add: escape_separator_free)

text \<open>
  The parser is total: on arbitrary bytes every item that the iterator returns moves the index
  forward inside the data, which is why the iteration ends, and reading the value of an argument
  does not panic.
\<close>

theorem next_item_progress:
  assumes "next_item p = (Some it, p')"
  shows "cp_data p' = cp_data p \<and> cp_index p < cp_index p' \<and> cp_index p < length (cp_data p) \<and>
    (\<forall>n av. it = Argument n av \<longrightarrow> value_get av \<noteq> Panic)"
proof -
  have "value_get av \<noteq> Panic" if "it = Argument n av" for n av
    using next_item_value [of p n av p'] assms that by (simp add: value_get_def)
  then show ?thesis using next_item_advances [OF assms] by blast
qed

theorem next_item_progress_witness:
  "\<exists>it p'. next_item \<lparr>cp_data = [0x61, 0x3D, 0x5C], cp_index = 0\<rparr> = (Some it, p') \<and>
     0 < cp_index p' \<and> it = Argument [0x61] \<lparr>av_raw = [0x5C], av_escapes = 1\<rparr> \<and>
     value_get \<lparr>av_raw = [0x5C], av_escapes = 1\<rparr> \<noteq> (Panic :: (bytes, unit) outcome)"
proof -
  let ?p = "\<lparr>cp_data = [0x61, 0x3D, 0x5C], cp_index = 0\<rparr>"
  have "next_item ?p = (Some (Argument [0x61] \<lparr>av_raw = [0x5C], av_escapes = 1\<rparr>),
      \<lparr>cp_data = [0x61, 0x3D, 0x5C], cp_index = 3\<rparr>)"
    by (simp add: next_item_def skip_space_def adv_while.simps scan_value.simps at_end_def cur_def
        cur_in_def adv_def spaces_def name_ends_def value_ends_def parser_slice_def Let_def)
  with next_item_progress [OF this] show ?thesis by simp
qed

end
