(* ===== verification/Ordered_Map.thy ===== *)
theory Ordered_Map
  imports Rust_Prelude
begin

text \<open>
  \<open>BTreeMap\<close> of the standard library, as far as the resender uses it: \<open>insert\<close>, \<open>get_mut\<close>, \<open>remove\<close>
  and iteration in the order of the keys. The interface is the locale \<open>ordered_map\<close>; its lemmas about
  the first and the second entry are what the acknowledgement of packets rests on. The maps of the
  model are association lists with strictly ascending keys, which satisfy the interface.
\<close>

section \<open>The interface\<close>

locale ordered_map =
  fixes invar :: "'m \<Rightarrow> bool"
    and empty :: 'm
    and lookup :: "'m \<Rightarrow> 'k::linorder \<Rightarrow> 'v option"
    and insert :: "'k \<Rightarrow> 'v \<Rightarrow> 'm \<Rightarrow> 'm"
    and remove :: "'k \<Rightarrow> 'm \<Rightarrow> 'm"
    and entries :: "'m \<Rightarrow> ('k \<times> 'v) list"
  assumes invar_empty: "invar empty"
    and invar_insert: "invar m \<Longrightarrow> invar (insert k v m)"
    and invar_remove: "invar m \<Longrightarrow> invar (remove k m)"
    and entries_empty: "entries empty = []"
    and entries_ascending: "invar m \<Longrightarrow> sorted_wrt (<) (map fst (entries m))"
    and entries_lookup: "invar m \<Longrightarrow> map_of (entries m) k = lookup m k"
    and lookup_insert: "invar m \<Longrightarrow> lookup (insert k v m) k' = (if k' = k then Some v else lookup m k')"
    and lookup_remove: "invar m \<Longrightarrow> lookup (remove k m) k' = (if k' = k then None else lookup m k')"
begin

lemma distinct_entries: "invar m \<Longrightarrow> distinct (map fst (entries m))"
  using entries_ascending strict_sorted_iff by blast

lemma entries_iff: "invar m \<Longrightarrow> (k, v) \<in> set (entries m) \<longleftrightarrow> lookup m k = Some v"
  using distinct_entries entries_lookup by (metis map_of_eq_Some_iff)

lemma key_in_entries: "invar m \<Longrightarrow> k \<in> fst ` set (entries m) \<longleftrightarrow> lookup m k \<noteq> None"
  by (metis entries_lookup map_of_eq_None_iff)

lemma entries_Nil_iff: "invar m \<Longrightarrow> entries m = [] \<longleftrightarrow> (\<forall>k. lookup m k = None)"
proof
  assume "invar m" and "\<forall>k. lookup m k = None"
  then show "entries m = []" using entries_iff [of m] by (cases "entries m") fastforce+
next
  assume "invar m" and "entries m = []"
  then show "\<forall>k. lookup m k = None" using entries_lookup [of m] by simp
qed

lemma first_le: "invar m \<Longrightarrow> entries m = (k, v) # es \<Longrightarrow> lookup m k' \<noteq> None \<Longrightarrow> k \<le> k'"
  using entries_ascending [of m] key_in_entries [of m k'] by auto

text \<open>What is left when the first entry is removed: nothing below the second key.\<close>

lemma remove_first_second:
  assumes "invar m" "entries m = (k, v) # (k2, v2) # es" "lookup (remove k m) k' \<noteq> None"
  shows "k2 \<le> k'"
proof -
  have "lookup m k' \<noteq> None" "k' \<noteq> k" using assms(1,3) by (auto simp: lookup_remove split: if_splits)
  then have "k' \<in> fst ` set ((k2, v2) # es)"
    using assms(1,2) key_in_entries [of m k'] by auto
  then show ?thesis using entries_ascending [of m] assms(1,2) by auto
qed

lemma remove_first_only:
  assumes "invar m" "entries m = [(k, v)]"
  shows "lookup (remove k m) k' = None"
  using assms entries_lookup [of m k'] by (auto simp: lookup_remove split: if_splits)

lemma remove_absent: "invar m \<Longrightarrow> lookup m k = None \<Longrightarrow> lookup (remove k m) k' = lookup m k'"
  by (simp add: lookup_remove)

end

section \<open>Ascending association lists\<close>

type_synonym ('k, 'v) btree = "('k \<times> 'v) list"

definition bt_invar :: "('k::linorder, 'v) btree \<Rightarrow> bool" where
  "bt_invar m \<longleftrightarrow> sorted_wrt (<) (map fst m)"

fun bt_get :: "('k::linorder, 'v) btree \<Rightarrow> 'k \<Rightarrow> 'v option" where
  "bt_get [] k = None"
| "bt_get ((k', v) # m) k = (if k = k' then Some v else bt_get m k)"

fun bt_insert :: "'k::linorder \<Rightarrow> 'v \<Rightarrow> ('k, 'v) btree \<Rightarrow> ('k, 'v) btree" where
  "bt_insert k v [] = [(k, v)]"
| "bt_insert k v ((k', v') # m) =
     (if k < k' then (k, v) # (k', v') # m
      else if k = k' then (k, v) # m
      else (k', v') # bt_insert k v m)"

fun bt_remove :: "'k::linorder \<Rightarrow> ('k, 'v) btree \<Rightarrow> ('k, 'v) btree" where
  "bt_remove k [] = []"
| "bt_remove k ((k', v) # m) = (if k = k' then m else (k', v) # bt_remove k m)"

lemma bt_get_map_of [simp]: "map_of m k = bt_get m k"
  by (induction m k rule: bt_get.induct) auto

lemma bt_get_None_iff: "bt_get m k = None \<longleftrightarrow> k \<notin> fst ` set m"
  by (induction m k rule: bt_get.induct) auto

lemma bt_get_below: "sorted_wrt (<) (map fst m) \<Longrightarrow> \<forall>x \<in> fst ` set m. k < x \<Longrightarrow> bt_get m k = None"
  by (auto simp: bt_get_None_iff)

lemma fst_set_bt_insert [simp]: "fst ` set (bt_insert k v m) = Set.insert k (fst ` set m)"
  by (induction k v m rule: bt_insert.induct) auto

lemma set_bt_remove: "set (bt_remove k m) \<subseteq> set m"
  by (induction k m rule: bt_remove.induct) auto

lemma bt_invar_insert: "bt_invar m \<Longrightarrow> bt_invar (bt_insert k v m)"
  by (induction k v m rule: bt_insert.induct) (auto simp: bt_invar_def)

lemma bt_invar_remove: "bt_invar m \<Longrightarrow> bt_invar (bt_remove k m)"
proof (induction k m rule: bt_remove.induct)
  case (2 k k' v m)
  then show ?case using set_bt_remove [of k m] by (auto simp: bt_invar_def)
qed (simp add: bt_invar_def)

lemma bt_get_insert: "bt_get (bt_insert k v m) k' = (if k' = k then Some v else bt_get m k')"
  by (induction k v m rule: bt_insert.induct) auto

lemma bt_get_remove: "bt_invar m \<Longrightarrow> bt_get (bt_remove k m) k' = (if k' = k then None else bt_get m k')"
proof (induction k m rule: bt_remove.induct)
  case (2 k k1 v m)
  then have "bt_get m k1 = None" by (auto simp: bt_invar_def intro!: bt_get_below)
  with 2 show ?case by (auto simp: bt_invar_def)
qed simp

interpretation bt: ordered_map bt_invar "[]" bt_get bt_insert bt_remove "\<lambda>m. m"
  by unfold_locales
    (simp_all add: bt_invar_insert bt_invar_remove bt_get_insert bt_get_remove, simp_all add: bt_invar_def)

section \<open>The interface of a binary heap\<close>

text \<open>
  \<open>BinaryHeap::peek_mut\<close>: the position of a greatest element. \<open>ge a b\<close> says that \<open>a\<close> does not come after
  \<open>b\<close> in the order of priorities.
\<close>

locale max_heap =
  fixes peek :: "'a list \<Rightarrow> nat option"
    and ge :: "'a \<Rightarrow> 'a \<Rightarrow> bool"
  assumes peek_None: "peek q = None \<longleftrightarrow> q = []"
    and peek_less: "peek q = Some k \<Longrightarrow> k < length q"
    and peek_ge: "peek q = Some k \<Longrightarrow> x \<in> set q \<Longrightarrow> ge (q ! k) x"
begin

lemma peek_in: "peek q = Some k \<Longrightarrow> q ! k \<in> set q"
  by (simp add: peek_less)

text \<open>What does not hold of the top, and is inherited upwards, holds of no element.\<close>

lemma peek_none_below:
  assumes "peek q = Some k" "\<not> P (q ! k)" "\<And>a b. ge a b \<Longrightarrow> P b \<Longrightarrow> P a"
  shows "\<forall>x \<in> set q. \<not> P x"
  using assms peek_ge by blast

end

end
