(* ===== verification/Connection_State.thy ===== *)
theory Connection_State
  imports Algorithms Init_Packets Audio_Packets Commands Ordered_Map
begin

text \<open>
  The state of a connection: \<open>Connection\<close> and \<open>ConnectedParams\<close> (\<open>tsproto/src/connection.rs\<close>), its
  \<open>PacketCodec\<close> (\<open>packet_codec.rs\<close>) and its \<open>Resender\<close> with the statistics (\<open>resend.rs\<close>). The methods of
  these structs take the whole \<open>&mut Connection\<close>, so the records stand here and the operations in the
  theories \<open>Packet_Codec\<close>, \<open>Resender\<close> and \<open>Connection\<close>.

  The outside world is part of the state where it answers: the socket holds the answers it will give
  and the datagrams it was handed. Event listeners are callbacks that cannot change the connection;
  the events they are called with are recorded in order. The clock is read once per call, durations and
  instants are nanoseconds since an origin before the connection, and a timer has fired when its
  deadline is not after the clock. Waking the task is a hint to the scheduler and is left out, as is
  the reuse of the receive buffer.
\<close>

section \<open>Limits\<close>

definition MAX_UDP_PACKET_LENGTH :: nat where "MAX_UDP_PACKET_LENGTH = 1500"
definition MAX_FRAGMENTS_LENGTH :: nat where "MAX_FRAGMENTS_LENGTH = 40960"
definition MAX_QUEUE_LEN :: u16 where "MAX_QUEUE_LEN = 200"
definition MAX_DECOMPRESSED_SIZE :: nat where "MAX_DECOMPRESSED_SIZE = 2 * 1024 * 1024"
definition UDP_SINK_CAPACITY :: nat where "UDP_SINK_CAPACITY = 50"

section \<open>Packet codec\<close>

text \<open>
  The next id to send and to expect per packet type, and for commands and low commands the packets
  that came out of order and the fragments that wait for the rest.
\<close>

record packet_codec =
  outgoing_p_ids :: "partial_packet_id list"
  receive_queue :: "bytes list list"
  fragmented_queue :: "bytes option list"
  incoming_p_ids :: "partial_packet_id list"

definition packet_codec_default :: packet_codec where
  "packet_codec_default =
     \<lparr>outgoing_p_ids = replicate 8 ppid_default, receive_queue = replicate 2 [],
      fragmented_queue = replicate 2 None, incoming_p_ids = replicate 8 ppid_default\<rparr>"

section \<open>Resender\<close>

datatype resender_state = Connecting | Connected | Disconnecting | Disconnected

record send_record =
  rec_sent :: nat
  rec_id :: send_record_id
  rec_packet :: out_udp_packet

record ping =
  ping_id :: partial_packet_id
  ping_sent :: nat

datatype packet_stat = InControl | InKeepalive | InSpeech | OutControl | OutKeepalive | OutSpeech

text \<open>\<open>p_stat as usize\<close>.\<close>

fun packet_stat_index :: "packet_stat \<Rightarrow> nat" where
  "packet_stat_index InControl = 0"
| "packet_stat_index InKeepalive = 1"
| "packet_stat_index InSpeech = 2"
| "packet_stat_index OutControl = 3"
| "packet_stat_index OutKeepalive = 4"
| "packet_stat_index OutSpeech = 5"

datatype packet_loss_stat = VoiceInCount | VoiceInLost | AckOutCount | AckOutLost | AckInCount
  | AckInLost | AckInOrCommandOutLost | CommandOutCount | PongInCount | PongInLost | PingOutCount
  | PingInCount | PingInLost

fun packet_loss_index :: "packet_loss_stat \<Rightarrow> nat" where
  "packet_loss_index VoiceInCount = 0"
| "packet_loss_index VoiceInLost = 1"
| "packet_loss_index AckOutCount = 2"
| "packet_loss_index AckOutLost = 3"
| "packet_loss_index AckInCount = 4"
| "packet_loss_index AckInLost = 5"
| "packet_loss_index AckInOrCommandOutLost = 6"
| "packet_loss_index CommandOutCount = 7"
| "packet_loss_index PongInCount = 8"
| "packet_loss_index PongInLost = 9"
| "packet_loss_index PingOutCount = 10"
| "packet_loss_index PingInCount = 11"
| "packet_loss_index PingInLost = 12"

record connection_stats =
  rtt :: nat
  rtt_dev :: nat
  total_packets :: "u64 list"
  total_bytes :: "u64 list"
  packet_loss :: "u32 list"
  last_second_bytes :: "u32 list list"
  next_second_index :: u8

definition connection_stats_default :: connection_stats where
  "connection_stats_default =
     \<lparr>rtt = 0, rtt_dev = 0, total_packets = replicate 6 0, total_bytes = replicate 6 0,
      packet_loss = replicate 13 0, last_second_bytes = replicate 60 (replicate 6 0),
      next_second_index = 0\<rparr>"

record stats_counter =
  sc_bytes :: "u32 list"
  sc_packet_loss :: "u32 list"

definition stats_counter_default :: stats_counter where
  "stats_counter_default = \<lparr>sc_bytes = replicate 6 0, sc_packet_loss = replicate 13 0\<rparr>"

text \<open>Durations in nanoseconds.\<close>

definition from_secs :: "nat \<Rightarrow> nat" where "from_secs n = n * 10 ^ 9"
definition from_millis :: "nat \<Rightarrow> nat" where "from_millis n = n * 10 ^ 6"

record resend_config =
  connecting_timeout :: nat
  normal_timeout :: nat
  disconnect_timeout :: nat
  srtt :: nat
  srtt_dev :: nat

definition resend_config_default :: resend_config where
  "resend_config_default =
     \<lparr>connecting_timeout = from_secs 5, normal_timeout = from_secs 30, disconnect_timeout = from_secs 5,
      srtt = from_millis 500, srtt_dev = from_millis 0\<rparr>"

text \<open>The deadlines of the four timers.\<close>

record timers =
  t_timeout :: nat
  t_ping_timeout :: nat
  t_state_timeout :: nat
  t_stats_timeout :: nat

type_synonym send_map = "(partial_packet_id, send_record) btree"

record resender =
  send_queue :: "send_record_id list"
  full_send_queue :: "send_map list"
  send_queue_indices :: "partial_packet_id list"
  config :: resend_config
  res_state :: resender_state
  last_pings :: "ping list"
  stats_counter :: stats_counter
  stats :: connection_stats
  w_max :: u16
  last_loss :: nat
  no_congestion_since :: "nat option"
  last_receive :: nat
  last_send :: nat
  last_stat :: nat
  res_timers :: timers

definition PING_COUNT :: nat where "PING_COUNT = 30"
definition PING_SECONDS :: nat where "PING_SECONDS = 1"
definition STAT_SECONDS :: nat where "STAT_SECONDS = 1"
definition UDP_HEADER_SIZE :: u32 where "UDP_HEADER_SIZE = 8"
definition IPV4_HEADER_SIZE :: u32 where "IPV4_HEADER_SIZE = 20"

definition resender_default :: "nat \<Rightarrow> resender" where
  "resender_default now =
     \<lparr>send_queue = [], full_send_queue = replicate 3 [], send_queue_indices = replicate 3 ppid_default,
      config = resend_config_default, res_state = Connecting, last_pings = [],
      stats_counter = stats_counter_default, stats = connection_stats_default,
      w_max = of_nat UDP_SINK_CAPACITY, last_loss = now, no_congestion_since = Some now,
      last_receive = now, last_send = now, last_stat = now,
      res_timers = \<lparr>t_timeout = now + from_secs 1, t_ping_timeout = now + from_secs PING_SECONDS,
        t_state_timeout = now + from_secs 1, t_stats_timeout = now + from_secs STAT_SECONDS\<rparr>\<rparr>"

section \<open>Connection\<close>

record connected_params =
  cp_c_id :: u16
  cp_voice_encryption :: bool
  cp_public_key :: bytes
  cp_shared_iv :: bytes
  cp_shared_mac :: bytes
  cp_key_cache :: key_cache

definition connected_params_new :: "bytes \<Rightarrow> bytes \<Rightarrow> bytes \<Rightarrow> connected_params" where
  "connected_params_new public_key shared_iv shared_mac =
     \<lparr>cp_c_id = 0, cp_voice_encryption = True, cp_public_key = public_key, cp_shared_iv = shared_iv,
      cp_shared_mac = shared_mac, cp_key_cache = key_cache_default\<rparr>"

datatype event =
    ReceiveUdpPacket in_packet
  | ReceivePacket in_packet
  | SendUdpPacket out_udp_packet
  | SendPacket out_packet

datatype stream_item =
    CommandItem in_packet
  | AudioItem in_audio
  | C2SInitItem in_c2s_init
  | S2CInitItem in_s2c_init
  | AckPacketItem packet_id_t
  | NetworkStatsUpdated
  | ErrorItem tsproto_error

text \<open>
  What the socket answers: a call of \<open>poll_send_to\<close> takes the next answer, the number of bytes it sent
  or an I/O error (\<open>None\<close>); a call of \<open>poll_recv_from\<close> takes the next datagram with its source address or
  an I/O error. When no answer is left, the call is \<open>Pending\<close>. What was sent is recorded.
\<close>

type_synonym address = string

record socket =
  send_answers :: "nat option list"
  recv_answers :: "(bytes \<times> address) option list"
  sent_datagrams :: "bytes list"

datatype 'a poll = Pending | Ready 'a

record connection =
  is_client :: bool
  params :: "connected_params option"
  con_address :: address
  resender :: resender
  codec :: packet_codec
  udp_socket :: socket
  stream_items :: "stream_item list"
  acks_to_send :: "out_udp_packet list"
  event_log :: "event list"

type_synonym 'a con_action = "(connection, 'a, tsproto_error) action"

text \<open>
  What the operations take from outside: the clock, the value of the floating point expression of
  the congestion window (rounded down; \<open>None\<close> when it is not a number), the binary search in the list
  of pings, and the cryptographic primitives.
\<close>

record env =
  now :: nat
  cubic :: "nat \<Rightarrow> u16 \<Rightarrow> int option"
  binary_search :: "u16 list \<Rightarrow> u16 \<Rightarrow> nat option"
  prims :: primitives

text \<open>
  Documented behaviour of \<open>binary_search_by_key\<close>: an index that it returns holds the key, and on a
  sorted list it finds every key that is there.
\<close>

definition binary_search_law :: "(u16 list \<Rightarrow> u16 \<Rightarrow> nat option) \<Rightarrow> bool" where
  "binary_search_law bs \<longleftrightarrow>
     (\<forall>ks k i. bs ks k = Some i \<longrightarrow> i < length ks \<and> ks ! i = k) \<and>
     (\<forall>ks k. sorted ks \<and> k \<in> set ks \<longrightarrow> bs ks k \<noteq> None)"

definition connection_new :: "nat \<Rightarrow> bool \<Rightarrow> address \<Rightarrow> socket \<Rightarrow> connection" where
  "connection_new t client addr sock =
     (let c = packet_codec_default;
          one = PartialPacketId 0 1;
          i = packet_type_index Command
      in \<lparr>is_client = client, params = None, con_address = addr, resender = resender_default t,
          codec = (if client then c\<lparr>outgoing_p_ids := (outgoing_p_ids c)[i := one]\<rparr>
                   else c\<lparr>incoming_p_ids := (incoming_p_ids c)[i := one]\<rparr>),
          udp_socket = sock, stream_items = [], acks_to_send = [], event_log = []\<rparr>)"

section \<open>Small updates\<close>

definition push_item :: "stream_item \<Rightarrow> unit con_action" where
  "push_item x = act_modify (stream_items_update (\<lambda>xs. xs @ [x]))"

definition send_event :: "event \<Rightarrow> unit con_action" where
  "send_event e = act_modify (event_log_update (\<lambda>es. es @ [e]))"

definition on_resender :: "(resender \<Rightarrow> ('a, tsproto_error) outcome \<times> resender) \<Rightarrow> 'a con_action" where
  "on_resender f = (\<lambda>con. case f (resender con) of (r, res) \<Rightarrow> (r, con\<lparr>resender := res\<rparr>))"

text \<open>The direction of the packets a connection receives and sends.\<close>

definition in_dir :: "connection \<Rightarrow> direction" where
  "in_dir con = (if is_client con then S2C else C2S)"

end
