(* ===== verification/Packet_Codec.thy ===== *)
theory Packet_Codec
  imports Connection_State
begin

text \<open>
  The packet codec (\<open>tsproto/src/packet_codec.rs\<close>) and the receive window (\<open>connection.rs\<close>): the
  ordering and reassembly of incoming commands (\<open>handle_command_packet\<close>) and the compression,
  fragmentation, numbering and encryption of outgoing packets (\<open>encode_packet\<close>). The handler of a
  received datagram, which also acknowledges packets, is in the theory \<open>Connection\<close>.
\<close>

section \<open>Receive window\<close>

text \<open>
  Whether an id is accepted, its generation, and the bounds of the window. \<open>generation_id + 1\<close> and
  \<open>generation_id - 1\<close> are checked.
\<close>

definition in_receive_window ::
  "connection \<Rightarrow> packet_type \<Rightarrow> u16 \<Rightarrow> (bool \<times> u32 \<times> u16 \<times> u16, 'e) outcome" where
  "in_receive_window con p_type p_id =
     (if p_type = Init then Ok (True, 0, 0, 0)
      else
        and_then (index (incoming_p_ids (codec con)) (packet_type_index p_type)) (\<lambda>cur.
        let cur_next = packet_id cur;
            (limit, next_gen) = overflowing_add cur_next 0x7FFF;
            gen = generation_id cur;
            in_recv_win = (\<not> next_gen \<and> cur_next \<le> p_id \<and> p_id < limit)
              \<or> (next_gen \<and> (cur_next \<le> p_id \<or> p_id < limit))
        in and_then
             (if in_recv_win then (if next_gen \<and> p_id < limit then checked_plus gen 1 else Ok gen)
              else if p_id < cur_next then Ok gen
              else checked_minus gen 1) (\<lambda>gen_id.
           Ok (in_recv_win, gen_id, cur_next, limit))))"

section \<open>Incoming commands\<close>

definition decompress :: "primitives \<Rightarrow> bytes \<Rightarrow> (bytes, tsproto_error) outcome" where
  "decompress pr content = ok_or DecompressPacket (qlz_decompress pr content MAX_DECOMPRESSED_SIZE)"

text \<open>\<open>truncate\<close> to the header and append the decompressed content.\<close>

definition decompress_packet :: "primitives \<Rightarrow> direction \<Rightarrow> bytes \<Rightarrow> (bytes, tsproto_error) outcome" where
  "decompress_packet pr dir data =
     and_then (in_packet_new dir data) (\<lambda>packet.
     and_then (h_flags (ip_header packet)) (\<lambda>flags.
     if flags_contains flags COMPRESSED then
       and_then (decompress pr (ip_content packet)) (\<lambda>decompressed.
       Ok (take (length (ih_data (ip_header packet))) data @ decompressed))
     else Ok data))"

text \<open>
  One command packet in order: the fragment queue goes from empty to the first fragment, collects the
  middle ones and is taken by the last one. The action works on the fragment queue.
\<close>

definition handle_fragment ::
  "primitives \<Rightarrow> direction \<Rightarrow> bytes \<Rightarrow> (bytes option, bytes option, tsproto_error) action" where
  "handle_fragment pr dir packet_data =
     act_then (act_lift (in_packet_new dir packet_data)) (\<lambda>packet.
     act_then (act_lift (h_flags (ip_header packet))) (\<lambda>flags.
     act_then (act_read id) (\<lambda>frag_queue.
     if flags_contains flags FRAGMENTED then
       (case frag_queue of
          Some frag \<Rightarrow>
            act_then (act_modify (\<lambda>_. None)) (\<lambda>_.
            act_then (act_lift (decompress_packet pr dir (frag @ ip_content packet))) (\<lambda>p.
            act_return (Some p)))
        | None \<Rightarrow>
            act_then (act_modify (\<lambda>_. Some packet_data)) (\<lambda>_. act_return None))
     else
       (case frag_queue of
          Some frag \<Rightarrow>
            if length frag < MAX_FRAGMENTS_LENGTH
            then act_then (act_modify (\<lambda>_. Some (frag @ ip_content packet))) (\<lambda>_. act_return None)
            else act_fail (MaxLengthExceeded ''fragment queue'')
        | None \<Rightarrow>
            act_then (act_lift (decompress_packet pr dir packet_data)) (\<lambda>p. act_return (Some p))))))"

text \<open>\<open>iter().position()\<close> of the packet with an id.\<close>

fun position_id :: "direction \<Rightarrow> u16 \<Rightarrow> bytes list \<Rightarrow> (nat option, 'e) outcome" where
  "position_id dir i [] = Ok None"
| "position_id dir i (p # ps) =
     and_then (in_header_new dir p) (\<lambda>h.
     and_then (h_packet_id h) (\<lambda>j.
     if j = i then Ok (Some 0) else map_ok (map_option Suc) (position_id dir i ps)))"

lemma position_id_less: "position_id dir i ps = Ok (Some pos) \<Longrightarrow> pos < length ps"
proof (induction ps arbitrary: pos)
  case (Cons p ps)
  from Cons.prems obtain h j where "in_header_new dir p = (Ok h :: (_, 'a) outcome)"
    "h_packet_id h = (Ok j :: (_, 'a) outcome)"
    by (auto simp: outcome_simps)
  with Cons show ?case
    by (cases "position_id dir i ps :: (_, 'a) outcome") (auto split: if_splits)
qed simp

definition remove_at :: "nat \<Rightarrow> 'a list \<Rightarrow> 'a list" where
  "remove_at i xs = take i xs @ drop (Suc i) xs"

lemma length_remove_at: "i < length xs \<Longrightarrow> Suc (length (remove_at i xs)) = length xs"
  by (simp add: remove_at_def)

text \<open>The next expected id, the fragment queue and the receive queue of one command type.\<close>

record command_queues =
  q_next :: partial_packet_id
  q_frag :: "bytes option"
  q_receive :: "bytes list"

text \<open>
  The loop: handle a packet that is in order, then the packet that follows it if it waits in the
  receive queue. Every turn but the first takes a packet out of the queue.
\<close>

function command_loop ::
  "primitives \<Rightarrow> direction \<Rightarrow> bytes \<Rightarrow> u16 \<Rightarrow> command_queues
     \<Rightarrow> (bytes list, tsproto_error) outcome \<times> command_queues" where
  "command_loop pr dir packet_data i q =
     (let q = q\<lparr>q_next := ppid_add (q_next q) 1\<rparr> in
      case handle_fragment pr dir packet_data (q_frag q) of
        (Err e, frag) \<Rightarrow> (Err e, q\<lparr>q_frag := frag\<rparr>)
      | (Panic, frag) \<Rightarrow> (Panic, q)
      | (Ok res_packet, frag) \<Rightarrow>
          let q = q\<lparr>q_frag := frag\<rparr>;
              packets = (case res_packet of None \<Rightarrow> [] | Some p \<Rightarrow> [p]) in
          case position_id dir (i + 1) (q_receive q) of
            Ok (Some pos) \<Rightarrow>
              (case command_loop pr dir (q_receive q ! pos) (i + 1)
                 (q\<lparr>q_receive := remove_at pos (q_receive q)\<rparr>) of
                 (r, q) \<Rightarrow> (map_ok ((@) packets) r, q))
          | Ok None \<Rightarrow> (Ok packets, q)
          | Err e \<Rightarrow> (Err e, q)
          | Panic \<Rightarrow> (Panic, q))"
  by pat_completeness auto
termination
  by (relation "measure (\<lambda>(pr, dir, d, i, q). length (q_receive q))")
    (auto dest!: position_id_less length_remove_at)

declare command_loop.simps [simp del]

text \<open>\<open>handle_command_packet\<close> on the queues of the type of the packet.\<close>

definition handle_command_queues ::
  "primitives \<Rightarrow> direction \<Rightarrow> bytes \<Rightarrow> u16 \<Rightarrow> (command_queues, bytes list, tsproto_error) action" where
  "handle_command_queues pr dir packet_data i =
     act_then (act_read q_next) (\<lambda>in_ids.
     let cur_next = packet_id in_ids in
     if cur_next = i then command_loop pr dir packet_data i
     else
       let (limit, next_gen) = overflowing_add cur_next MAX_QUEUE_LEN in
       if (\<not> next_gen \<and> cur_next \<le> i \<and> i < limit) \<or> (next_gen \<and> (cur_next \<le> i \<or> i < limit))
       then act_then (act_modify (q_receive_update (\<lambda>ps. ps @ [packet_data]))) (\<lambda>_. act_return [])
       else act_fail (MaxLengthExceeded ''command queue''))"

definition handle_command_packet :: "primitives \<Rightarrow> bytes \<Rightarrow> bytes list con_action" where
  "handle_command_packet pr packet_data =
     act_then (act_read id) (\<lambda>con.
     let dir = in_dir con; c = codec con in
     act_then (act_lift (in_packet_new dir packet_data)) (\<lambda>packet.
     act_then (act_lift (h_packet_type (ip_header packet))) (\<lambda>p_type.
     act_then (act_lift (h_packet_id (ip_header packet))) (\<lambda>i.
     let type_i = packet_type_index p_type; cmd_i = (if p_type = Command then 0 else 1) in
     act_then (act_lift (index (receive_queue c) cmd_i)) (\<lambda>r_queue.
     act_then (act_lift (index (fragmented_queue c) cmd_i)) (\<lambda>frag_queue.
     act_then (act_lift (index (incoming_p_ids c) type_i)) (\<lambda>in_ids.
     case handle_command_queues pr dir packet_data i
        \<lparr>q_next = in_ids, q_frag = frag_queue, q_receive = r_queue\<rparr> of
       (r, q) \<Rightarrow>
         act_then (act_modify (codec_update (\<lambda>c. c
            \<lparr>receive_queue := (receive_queue c)[cmd_i := q_receive q],
             fragmented_queue := (fragmented_queue c)[cmd_i := q_frag q],
             incoming_p_ids := (incoming_p_ids c)[type_i := q_next q]\<rparr>))) (\<lambda>_. act_lift r))))))))"

section \<open>Outgoing packets\<close>

text \<open>The encryption with the parameters of the connection, which are set (\<open>unwrap\<close>).\<close>

definition encrypt_with_params :: "primitives \<Rightarrow> out_packet \<Rightarrow> u32 \<Rightarrow> out_packet con_action" where
  "encrypt_with_params pr packet generation =
     act_then (act_read params) (\<lambda>ps.
     act_then (act_lift (unwrap_opt ps)) (\<lambda>ps.
     act_then (act_lift (encrypt pr packet generation (cp_shared_iv ps) (cp_key_cache ps))) (\<lambda>(r, cache).
     act_then (act_modify (params_update (\<lambda>_. Some (ps\<lparr>cp_key_cache := cache\<rparr>)))) (\<lambda>_.
     act_lift r))))"

text \<open>The closure that numbers, encrypts and counts one packet.\<close>

definition encode_one ::
  "primitives \<Rightarrow> packet_type \<Rightarrow> bool \<Rightarrow> bool \<Rightarrow> out_packet \<Rightarrow> out_udp_packet con_action" where
  "encode_one pr p_type fake_encrypt should_enc packet =
     act_then
       (if p_type = Init then act_return (PartialPacketId 0 0, packet)
        else
          act_then (act_read (outgoing_p_ids \<circ> codec)) (\<lambda>ids.
          act_then (act_lift (index ids (packet_type_index p_type))) (\<lambda>p_id.
          act_then (act_lift (set_packet_id (packet_id p_id) packet)) (\<lambda>packet.
          act_return (p_id, packet))))) (\<lambda>(p_id, packet).
     act_then
       (if fake_encrypt then act_lift (encrypt_fake pr packet)
        else if should_enc then encrypt_with_params pr packet (generation_id p_id)
        else act_return packet) (\<lambda>packet.
     let p_id = ppid_add p_id 1 in
     act_then
       (if p_type \<noteq> Init
        then act_modify (codec_update (outgoing_p_ids_update (\<lambda>ids. ids[packet_type_index p_type := p_id])))
        else act_return ()) (\<lambda>_.
     act_return \<lparr>ou_generation_id = generation_id p_id, ou_data = packet\<rparr>)))"

text \<open>\<open>packet.flags(packet.header().flags() | f)\<close>.\<close>

definition add_flags :: "flags \<Rightarrow> out_packet \<Rightarrow> (out_packet, 'e) outcome" where
  "add_flags f packet =
     and_then (out_header packet) (\<lambda>h. and_then (h_flags h) (\<lambda>g. set_flags (g OR f) packet))"

definition must_fake_encrypt ::
  "bool \<Rightarrow> packet_type \<Rightarrow> partial_packet_id \<Rightarrow> out_packet \<Rightarrow> (bool, 'e) outcome" where
  "must_fake_encrypt client p_type p_id packet =
     and_then
       (if p_type = Command \<and> generation_id p_id = 0 then
          if \<not> client \<and> packet_id p_id = 0 then Ok True
          else if client \<and> packet_id p_id = 1
          then map_ok (\<lambda>c. starts_with c (ascii ''clientek'')) (out_content packet)
          else Ok False
        else Ok False) (\<lambda>fake.
     Ok (fake \<or> client \<and> p_type = Ack_T \<and> generation_id p_id = 0 \<and> packet_id p_id = 0))"

text \<open>Commands are compressed and split; a voice packet of a client gets its id in the content.\<close>

definition split_packet ::
  "primitives \<Rightarrow> bool \<Rightarrow> packet_type \<Rightarrow> partial_packet_id list \<Rightarrow> out_packet
     \<Rightarrow> (out_packet list, 'e) outcome" where
  "split_packet pr client p_type ids packet =
     (if p_type = Command \<or> p_type = CommandLow then compress_and_split pr client packet
      else if client \<and> (p_type = Voice \<or> p_type = VoiceWhisper) then
        and_then (index ids (packet_type_index p_type)) (\<lambda>p_id.
        and_then (copy_at (op_data packet) (content_offset packet) (be16 (packet_id p_id))) (\<lambda>d.
        Ok [packet\<lparr>op_data := d\<rparr>]))
      else Ok [packet])"

definition encode_packet :: "primitives \<Rightarrow> out_packet \<Rightarrow> out_udp_packet list con_action" where
  "encode_packet pr packet =
     act_then (act_lift (and_then (out_header packet) h_packet_type)) (\<lambda>p_type.
     act_then (act_read id) (\<lambda>con.
     act_then (act_lift
       (if (p_type = Command \<or> p_type = CommandLow) \<and> is_client con
        then add_flags NEWPROTOCOL packet else Ok packet)) (\<lambda>packet.
     act_then (act_lift
       (if p_type = Init then Ok (PartialPacketId 0 0)
        else index (outgoing_p_ids (codec con)) (packet_type_index p_type))) (\<lambda>p_id.
     act_then (act_lift (must_fake_encrypt (is_client con) p_type p_id packet)) (\<lambda>fake_encrypt.
     let (should_enc, fake_encrypt, c_id) =
           (case params con of
              Some ps \<Rightarrow> (should_encrypt p_type (cp_voice_encryption ps), fake_encrypt, cp_c_id ps)
            | None \<Rightarrow> (should_encrypt p_type False, fake_encrypt \<or> should_encrypt p_type False, 0)) in
     act_then (act_lift (if is_client con then set_client_id c_id packet else Ok packet)) (\<lambda>packet.
     act_then (act_lift
       (if \<not> should_enc \<and> \<not> fake_encrypt then
          and_then (add_flags UNENCRYPTED packet) (\<lambda>packet.
          case params con of
            Some ps \<Rightarrow> set_mac (cp_shared_mac ps) packet
          | None \<Rightarrow> Ok packet)
        else Ok packet)) (\<lambda>packet.
     act_then (act_lift (split_packet pr (is_client con) p_type (outgoing_p_ids (codec con)) packet)) (\<lambda>packets.
     act_map (encode_one pr p_type fake_encrypt should_enc) packets))))))))"

section \<open>Datagrams that were accepted\<close>

text \<open>What \<open>try_new\<close> has checked, and the fields of such a datagram.\<close>

definition wf_packet :: "direction \<Rightarrow> bytes \<Rightarrow> bool" where
  "wf_packet dir d \<longleftrightarrow> header_len dir \<le> length d \<and> (d ! (header_len dir - 1)) AND 0xF \<le> 8"

definition d_header :: "direction \<Rightarrow> bytes \<Rightarrow> in_header" where
  "d_header dir d = \<lparr>ih_dir = dir, ih_data = take (header_len dir) d\<rparr>"

definition d_id :: "direction \<Rightarrow> bytes \<Rightarrow> u16" where "d_id dir d = hv_id (d_header dir d)"
definition d_flags :: "direction \<Rightarrow> bytes \<Rightarrow> flags" where "d_flags dir d = hv_flags (d_header dir d)"
definition d_type :: "direction \<Rightarrow> bytes \<Rightarrow> packet_type" where "d_type dir d = hv_type (d_header dir d)"
definition d_content :: "direction \<Rightarrow> bytes \<Rightarrow> bytes" where "d_content dir d = drop (header_len dir) d"

lemma wf_packet_try_new: "wf_packet dir d \<longleftrightarrow> (\<exists>p. in_packet_try_new dir d = Ok p)"
  by (auto simp: wf_packet_def in_packet_try_new_Ok_iff)

lemma wf_packet_header [simp]: "wf_packet dir d \<Longrightarrow> wf_in_header (d_header dir d)"
  by (cases dir) (auto simp: wf_packet_def d_header_def wf_in_header_def get_off_def)

lemma in_header_new_wf [simp]: "wf_packet dir d \<Longrightarrow> in_header_new dir d = Ok (d_header dir d)"
  by (simp add: wf_packet_def in_header_new_def d_header_def)

lemma in_packet_new_wf [simp]:
  "wf_packet dir d \<Longrightarrow> in_packet_new dir d = Ok \<lparr>ip_header = d_header dir d, ip_content = d_content dir d\<rparr>"
  by (simp add: wf_packet_def in_packet_new_def in_header_new_def d_header_def d_content_def min_def)

lemma wf_packet_hdr [simp]:
  assumes "length mac = 8" "valid_flags f"
  shows "wf_packet dir (hdr dir mac i c f t @ d)" "d_id dir (hdr dir mac i c f t @ d) = i"
    "d_flags dir (hdr dir mac i c f t @ d) = f" "d_type dir (hdr dir mac i c f t @ d) = t"
    "d_content dir (hdr dir mac i c f t @ d) = d"
    "d_header dir (hdr dir mac i c f t @ d) = \<lparr>ih_dir = dir, ih_data = hdr dir mac i c f t\<rparr>"
proof -
  have len: "length (hdr dir mac i c f t) = header_len dir" using assms(1) by simp
  have h: "d_header dir (hdr dir mac i c f t @ d) = \<lparr>ih_dir = dir, ih_data = hdr dir mac i c f t\<rparr>"
    using len by (simp add: d_header_def)
  show "d_header dir (hdr dir mac i c f t @ d) = \<lparr>ih_dir = dir, ih_data = hdr dir mac i c f t\<rparr>"
    by (rule h)
  show "d_id dir (hdr dir mac i c f t @ d) = i" "d_flags dir (hdr dir mac i c f t @ d) = f"
    "d_type dir (hdr dir mac i c f t @ d) = t"
    using assms by (simp_all add: d_id_def d_flags_def d_type_def h)
  show "d_content dir (hdr dir mac i c f t @ d) = d"
    using len by (simp add: d_content_def)
  show "wf_packet dir (hdr dir mac i c f t @ d)"
    using assms len hdr_flag_byte(1) [of mac dir i c f t d] packet_type_from_u8_iff [of "packet_type_to_u8 t"]
    by (simp add: wf_packet_def)
qed

section \<open>The receive queue\<close>

lemma position_id_None:
  "\<forall>p \<in> set ps. wf_packet dir p \<and> d_id dir p \<noteq> i \<Longrightarrow> position_id dir i ps = Ok None"
  by (induction ps) (auto simp: d_id_def)

lemma position_id_Some:
  "\<forall>p \<in> set ps. wf_packet dir p \<and> d_id dir p \<noteq> i \<Longrightarrow> wf_packet dir y \<Longrightarrow> d_id dir y = i \<Longrightarrow>
   position_id dir i (ps @ y # qs) = Ok (Some (length ps))"
  by (induction ps) (auto simp: d_id_def)

lemma remove_at_append [simp]: "remove_at (length xs) (xs @ y # ys) = xs @ ys"
  by (simp add: remove_at_def)

lemma act_map_append:
  "act_map f (xs @ ys) s = (Ok zs, u) \<longleftrightarrow>
     (\<exists>as bs t. act_map f xs s = (Ok as, t) \<and> act_map f ys t = (Ok bs, u) \<and> zs = as @ bs)"
proof (induction xs arbitrary: s zs)
  case Nil
  then show ?case by simp
next
  case (Cons x xs)
  show ?case
  proof (cases "f x s")
    case (Pair r t)
    show ?thesis
    proof (cases r)
      case (Ok y)
      have "act_map f ((x # xs) @ ys) s = (Ok zs, u) \<longleftrightarrow>
          (\<exists>zs'. act_map f (xs @ ys) t = (Ok zs', u) \<and> zs = y # zs')"
        using Pair Ok by (auto simp: act_then.simps split: prod.splits outcome.splits)
      moreover have "act_map f (x # xs) s = (Ok as, v) \<longleftrightarrow>
          (\<exists>as'. act_map f xs t = (Ok as', v) \<and> as = y # as')" for as v
        using Pair Ok by (auto simp: act_then.simps split: prod.splits outcome.splits)
      ultimately show ?thesis by (auto simp: Cons.IH)
    qed (use Pair in \<open>auto simp: act_then.simps\<close>)
  qed
qed

lemma act_map_Cons_Ok:
  "act_map f (x # xs) s = (Ok zs, u) \<longleftrightarrow>
     (\<exists>y t ys. f x s = (Ok y, t) \<and> act_map f xs t = (Ok ys, u) \<and> zs = y # ys)"
  by (auto simp: act_then.simps split: prod.splits outcome.splits)

lemma act_map_length: "act_map f xs s = (Ok ys, t) \<Longrightarrow> length ys = length xs"
  by (induction xs arbitrary: s ys) (auto simp: act_map_Cons_Ok simp del: act_map.simps(2))

text \<open>
  The messages \<open>m 0, m 1, ...\<close> carry consecutive ids from \<open>n\<close> on. \<open>window_of n m p S\<close> says that the
  indices in \<open>S\<close> lie after \<open>p\<close>, inside the queue window.
\<close>

definition ids_from :: "direction \<Rightarrow> u16 \<Rightarrow> (nat \<Rightarrow> bytes) \<Rightarrow> nat set \<Rightarrow> bool" where
  "ids_from dir n m S \<longleftrightarrow> (\<forall>j \<in> S. wf_packet dir (m j) \<and> d_id dir (m j) = n + of_nat j)"

lemma ids_from_subset: "ids_from dir n m S \<Longrightarrow> T \<subseteq> S \<Longrightarrow> ids_from dir n m T"
  by (auto simp: ids_from_def)

lemma window_id_eq:
  assumes "ids_from dir n m S" "a \<in> S" "a < p + 200" "p \<le> a + 200"
  shows "d_id dir (m a) = n + of_nat p \<longleftrightarrow> a = p"
  using assms word_of_nat_window [where 'n = 16, of a p] by (auto simp: ids_from_def)

lemma ppid_add_iterate: "((\<lambda>q. ppid_add q 1) ^^ k) (ppid_add q 1) = ((\<lambda>q. ppid_add q 1) ^^ Suc k) q"
  by (simp only: funpow_Suc_right comp_def)

lemma packet_id_iterate: "packet_id (((\<lambda>q. ppid_add q 1) ^^ k) q) = packet_id q + of_nat k"
  by (induction k) simp_all

definition outputs :: "'a option list \<Rightarrow> 'a list" where
  "outputs rs = List.map_filter (\<lambda>x. x) rs"

lemma outputs_simps [simp]:
  "outputs [] = []" "outputs (None # rs) = outputs rs" "outputs (Some p # rs) = p # outputs rs"
  "outputs (rs @ rs') = outputs rs @ outputs rs'"
  by (simp_all add: outputs_def List.map_filter_def)

lemma command_loop_in_order:
  assumes "p < p'" "distinct js" "set js \<subseteq> {p<..<p + 200}" "{p<..<p'} \<subseteq> set js" "p' \<notin> set js"
    and "ids_from dir n m (insert p (set js))"
    and "act_map (handle_fragment pr dir) (map m [p..<p']) frag = (Ok rs, frag')"
  shows "\<exists>js'. command_loop pr dir (m p) (n + of_nat p) \<lparr>q_next = nx, q_frag = frag, q_receive = map m js\<rparr>
      = (Ok (outputs rs), \<lparr>q_next = ((\<lambda>q. ppid_add q 1) ^^ (p' - p)) nx, q_frag = frag', q_receive = map m js'\<rparr>)
    \<and> distinct js' \<and> set js' = set js - {p<..<p'}"
  using assms
proof (induction "p' - p" arbitrary: p js frag rs nx)
  case 0
  then show ?case by simp
next
  case (Suc k)
  have up: "[p..<p'] = p # [Suc p..<p']" using Suc.prems(1) by (rule upt_conv_Cons)
  obtain r frag1 rs1 where r: "handle_fragment pr dir (m p) frag = (Ok r, frag1)"
    "act_map (handle_fragment pr dir) (map m [Suc p..<p']) frag1 = (Ok rs1, frag')" "rs = r # rs1"
    using Suc.prems(7) unfolding up list.map act_map_Cons_Ok by blast
  have wf: "wf_packet dir (m j)" if "j \<in> set js" for j
    using Suc.prems(6) that by (auto simp: ids_from_def)
  have idn: "d_id dir (m j) = n + of_nat p + 1 \<longleftrightarrow> j = Suc p" if "j \<in> set js" for j
    using window_id_eq [OF Suc.prems(6), of j "Suc p"] that Suc.prems(3) by (auto simp: ac_simps)
  have out: "(case r of None \<Rightarrow> [] | Some p \<Rightarrow> [p]) @ outputs rs1 = outputs rs"
    using r(3) by (cases r) simp_all
  show ?case
  proof (cases "Suc p = p'")
    case True
    then have "position_id dir (n + of_nat p + 1) (map m js) = (Ok None :: (_, tsproto_error) outcome)"
      using Suc.prems(5) wf idn by (intro position_id_None) auto
    moreover have "rs1 = []" "frag1 = frag'" using r(2) True by simp_all
    ultimately show ?thesis
      using Suc.prems(2,3,5) r True out
      by (intro exI [of _ js]) (auto simp: command_loop.simps [of pr dir "m p"])
  next
    case False
    then have "Suc p < p'" "Suc p \<in> set js" using Suc.prems(1,4) by auto
    then obtain as bs where js: "js = as @ Suc p # bs" using split_list by metis
    have "Suc p \<notin> set as" "Suc p \<notin> set bs" using Suc.prems(2) js by auto
    then have pos: "position_id dir (n + of_nat p + 1) (map m js)
        = (Ok (Some (length as)) :: (_, tsproto_error) outcome)"
      using wf idn unfolding js list.map map_append
      by (intro position_id_Some [where ps = "map m as", unfolded length_map]) (auto simp: js)
    have nth: "map m js ! length as = m (Suc p)" "remove_at (length as) (map m js) = map m (as @ bs)"
      unfolding js using remove_at_append [of "map m as" "m (Suc p)" "map m bs"]
      by (simp_all add: nth_append)
    have sets: "set (as @ bs) = set js - {Suc p}" "distinct (as @ bs)" using Suc.prems(2) js by auto
    have eq1: "n + word_of_nat (Suc p) = n + word_of_nat p + (1 :: u16)" by simp
    have "\<exists>js'. command_loop pr dir (m (Suc p)) (n + of_nat (Suc p))
        \<lparr>q_next = ppid_add nx 1, q_frag = frag1, q_receive = map m (as @ bs)\<rparr>
        = (Ok (outputs rs1), \<lparr>q_next = ((\<lambda>q. ppid_add q 1) ^^ (p' - Suc p)) (ppid_add nx 1),
            q_frag = frag', q_receive = map m js'\<rparr>)
        \<and> distinct js' \<and> set js' = set (as @ bs) - {Suc p<..<p'}"
    proof (rule Suc.hyps(1))
      show "set (as @ bs) \<subseteq> {Suc p<..<Suc p + 200}" using Suc.prems(3) sets(1) by force
      show "ids_from dir n m (insert (Suc p) (set (as @ bs)))"
        using \<open>Suc p \<in> set js\<close> sets(1) by (intro ids_from_subset [OF Suc.prems(6)]) auto
    qed (use Suc sets \<open>Suc p < p'\<close> r(2) in auto)
    then obtain js' where js': "command_loop pr dir (m (Suc p)) (n + of_nat p + 1)
        \<lparr>q_next = ppid_add nx 1, q_frag = frag1, q_receive = map m (as @ bs)\<rparr>
        = (Ok (outputs rs1), \<lparr>q_next = ((\<lambda>q. ppid_add q 1) ^^ (p' - p)) nx,
            q_frag = frag', q_receive = map m js'\<rparr>)" "distinct js'" "set js' = set (as @ bs) - {Suc p<..<p'}"
      unfolding ppid_add_iterate Suc_diff_Suc [OF Suc.prems(1)] eq1 by blast
    moreover have "set js' = set js - {p<..<p'}"
      unfolding js'(3) sets(1) using \<open>Suc p < p'\<close> by auto
    ultimately show ?thesis
      using r pos nth out by (intro exI [of _ js']) (simp add: command_loop.simps [of pr dir "m p"])
  qed
qed

text \<open>
  After the messages with the indices in \<open>A\<close> have arrived, in any order: \<open>p\<close> is the first index that is
  missing, the messages before it were handled in order, and exactly those after it wait.
\<close>

definition delivered ::
  "primitives \<Rightarrow> direction \<Rightarrow> (nat \<Rightarrow> bytes) \<Rightarrow> command_queues \<Rightarrow> nat set \<Rightarrow> nat \<Rightarrow> bytes list
     \<Rightarrow> command_queues \<Rightarrow> bool" where
  "delivered pr dir m q0 A p outs q \<longleftrightarrow>
     {..<p} \<subseteq> A \<and> p \<notin> A \<and> A \<subseteq> {..<p + 200} \<and>
     q_next q = ((\<lambda>q. ppid_add q 1) ^^ p) (q_next q0) \<and>
     (\<exists>js. q_receive q = map m js \<and> distinct js \<and> set js = A - {..<p}) \<and>
     (\<exists>rs. act_map (handle_fragment pr dir) (map m [0..<p]) (q_frag q0) = (Ok rs, q_frag q) \<and>
        outs = outputs rs)"

lemma delivered_first_missing:
  "delivered pr dir m q0 A p outs q \<Longrightarrow> A = {..<k} \<Longrightarrow> p = k"
  by (auto simp: delivered_def not_less)

lemma upt_split3: "p \<le> q \<Longrightarrow> q \<le> k \<Longrightarrow> [0..<k] = [0..<p] @ [p..<q] @ [q..<k]"
  using upt_add_eq_append [of 0 p "q - p"] upt_add_eq_append [of 0 q "k - q"] by simp

lemma first_missing_set: "p < p' \<Longrightarrow> p \<notin> A \<Longrightarrow> A - {..<p} - {p<..<p'} = insert p A - {..<(p' :: nat)}"
proof (rule set_eqI)
  fix x assume "p < p'" "p \<notin> A"
  then show "x \<in> A - {..<p} - {p<..<p'} \<longleftrightarrow> x \<in> insert p A - {..<p'}" by (cases "x = p") auto
qed

lemma delivered_in_order:
  assumes inv: "delivered pr dir m q0 A p outs q" and new: "p < k" "A \<subseteq> {..<k}"
    and ids: "packet_id (q_next q0) = n" "ids_from dir n m {..<k}"
    and ok: "act_map (handle_fragment pr dir) (map m [0..<k]) (q_frag q0) = (Ok rs, frag)"
  shows "\<exists>out p' q'. handle_command_queues pr dir (m p) (d_id dir (m p)) q = (Ok out, q') \<and>
    delivered pr dir m q0 (insert p A) p' (outs @ out) q'"
proof -
  define p' where "p' = (LEAST x. x \<notin> insert p A)"
  have fin: "k \<notin> insert p A" using new by auto
  have p': "p' \<notin> insert p A" "p' \<le> k"
    using LeastI [of "\<lambda>x. x \<notin> insert p A", OF fin] Least_le [of "\<lambda>x. x \<notin> insert p A", OF fin]
    by (auto simp: p'_def)
  have below: "x \<in> insert p A" if "x < p'" for x
    using not_less_Least [of x "\<lambda>x. x \<notin> insert p A"] that by (auto simp: p'_def)
  have "p < p'" using p'(1) inv by (cases "p' < p") (auto simp: delivered_def)
  obtain js rs1 where q: "q_receive q = map m js" "distinct js" "set js = A - {..<p}"
    and rs1: "act_map (handle_fragment pr dir) (map m [0..<p]) (q_frag q0) = (Ok rs1, q_frag q)"
      "outs = outputs rs1"
    and nx: "q_next q = ((\<lambda>q. ppid_add q 1) ^^ p) (q_next q0)"
    using inv unfolding delivered_def by blast
  obtain rs2 frag2 where rs2: "act_map (handle_fragment pr dir) (map m [p..<p']) (q_frag q) = (Ok rs2, frag2)"
    using ok rs1(1) unfolding upt_split3 [OF less_imp_le [OF \<open>p < p'\<close>] p'(2)] map_append act_map_append
    by auto
  have "\<exists>js'. command_loop pr dir (m p) (n + of_nat p)
      \<lparr>q_next = q_next q, q_frag = q_frag q, q_receive = map m js\<rparr>
      = (Ok (outputs rs2), \<lparr>q_next = ((\<lambda>q. ppid_add q 1) ^^ (p' - p)) (q_next q), q_frag = frag2,
          q_receive = map m js'\<rparr>) \<and> distinct js' \<and> set js' = set js - {p<..<p'}"
  proof (rule command_loop_in_order)
    show "set js \<subseteq> {p<..<p + 200}" using inv q(3) by (force simp: delivered_def)
    show "{p<..<p'} \<subseteq> set js" unfolding q(3) using below by fastforce
    show "p' \<notin> set js" using p'(1) q(3) by auto
    show "ids_from dir n m (insert p (set js))" using ids(2) new q(3) by (intro ids_from_subset [OF ids(2)]) auto
  qed (use \<open>p < p'\<close> q(2) rs2 in auto)
  then obtain js' where loop: "command_loop pr dir (m p) (n + of_nat p) q
      = (Ok (outputs rs2), \<lparr>q_next = ((\<lambda>q. ppid_add q 1) ^^ (p' - p)) (q_next q), q_frag = frag2,
          q_receive = map m js'\<rparr>)" "distinct js'" "set js' = set js - {p<..<p'}"
    using q(1) by (cases q) auto
  have pid: "d_id dir (m p) = n + of_nat p" "packet_id (q_next q) = n + of_nat p"
    using ids new(1) nx by (auto simp: ids_from_def packet_id_iterate)
  have "set js' = insert p A - {..<p'}"
    unfolding loop(3) q(3) by (rule first_missing_set) (use \<open>p < p'\<close> inv in \<open>simp_all add: delivered_def\<close>)
  moreover have "((\<lambda>q. ppid_add q 1) ^^ (p' - p)) (q_next q) = ((\<lambda>q. ppid_add q 1) ^^ p') (q_next q0)"
    using \<open>p < p'\<close> unfolding nx by (metis comp_apply funpow_add le_add_diff_inverse2 less_imp_le)
  moreover have "act_map (handle_fragment pr dir) (map m [0..<p']) (q_frag q0) = (Ok (rs1 @ rs2), frag2)"
    using rs1(1) rs2 \<open>p < p'\<close> upt_split3 [of p p' p'] by (simp add: act_map_append)
  moreover have "{..<p'} \<subseteq> insert p A" "insert p A \<subseteq> {..<p' + 200}"
    using below inv \<open>p < p'\<close> by (auto simp: delivered_def)
  moreover have "handle_command_queues pr dir (m p) (d_id dir (m p)) q
      = command_loop pr dir (m p) (n + of_nat p) q"
    by (simp add: handle_command_queues_def pid)
  ultimately show ?thesis
    using loop(1,2) p'(1) rs1(2) unfolding delivered_def
    by (intro exI [of _ "outputs rs2"] exI [of _ p']) auto
qed

lemma delivered_out_of_order:
  assumes inv: "delivered pr dir m q0 A p outs q" and new: "p < j" "j < p + 200" "j \<notin> A"
    and ids: "packet_id (q_next q0) = n" "ids_from dir n m {j}"
  shows "\<exists>q'. handle_command_queues pr dir (m j) (d_id dir (m j)) q = (Ok [], q') \<and>
    delivered pr dir m q0 (insert j A) p outs q'"
proof -
  obtain js where q: "q_receive q = map m js" "distinct js" "set js = A - {..<p}"
    using inv unfolding delivered_def by blast
  have rest: "q_next q = ((\<lambda>q. ppid_add q 1) ^^ p) (q_next q0)"
    "\<exists>rs. act_map (handle_fragment pr dir) (map m [0..<p]) (q_frag q0) = (Ok rs, q_frag q) \<and> outs = outputs rs"
    using inv unfolding delivered_def by blast+
  have pid: "d_id dir (m j) = n + of_nat j" "packet_id (q_next q) = n + of_nat p"
    using ids inv by (auto simp: ids_from_def delivered_def packet_id_iterate)
  have "n + of_nat j - (n + of_nat p) = (of_nat (j - p) :: u16)" using new(1) by (simp add: of_nat_diff)
  moreover have "unat (of_nat (j - p) :: u16) = j - p" by (rule of_nat_inverse) (use new in simp_all)
  ultimately have "in_window (n + of_nat p) MAX_QUEUE_LEN (n + of_nat j)"
    using new by (simp add: in_window_iff MAX_QUEUE_LEN_def)
  moreover have "n + of_nat p \<noteq> (n + of_nat j :: u16)"
    using word_of_nat_window [where 'n = 16, of j p] new by auto
  ultimately have "handle_command_queues pr dir (m j) (d_id dir (m j)) q
      = (Ok [], q\<lparr>q_receive := map m (js @ [j])\<rparr>)"
    using q(1) by (simp add: handle_command_queues_def pid Let_def in_window_def split_def)
  moreover have "delivered pr dir m q0 (insert j A) p outs (q\<lparr>q_receive := map m (js @ [j])\<rparr>)"
    unfolding delivered_def
  proof (intro conjI)
    show "{..<p} \<subseteq> insert j A" "p \<notin> insert j A" "insert j A \<subseteq> {..<p + 200}"
      using inv new by (auto simp: delivered_def)
    have "set (js @ [j]) = insert j A - {..<p}" unfolding set_append q(3) using new(1) by auto
    moreover have "distinct (js @ [j])" using q(2,3) new(3) by simp
    ultimately show "\<exists>ks. q_receive (q\<lparr>q_receive := map m (js @ [j])\<rparr>) = map m ks \<and> distinct ks \<and>
        set ks = insert j A - {..<p}"
      by (intro exI [of _ "js @ [j]"]) simp
  qed (simp_all add: rest)
  ultimately show ?thesis by blast
qed

lemma delivered_run:
  assumes "delivered pr dir m q0 A p outs q" "A \<union> set arr = {..<k}" "distinct arr" "A \<inter> set arr = {}"
    and "\<forall>t < length arr. \<forall>i. i + 200 \<le> arr ! t \<longrightarrow> i \<in> A \<union> set (take t arr)"
    and "packet_id (q_next q0) = n" "ids_from dir n m {..<k}"
    and "act_map (handle_fragment pr dir) (map m [0..<k]) (q_frag q0) = (Ok rs, frag)"
  shows "\<exists>os q'. act_map (\<lambda>j. handle_command_queues pr dir (m j) (d_id dir (m j))) arr q = (Ok os, q') \<and>
    delivered pr dir m q0 {..<k} k (outs @ concat os) q'"
  using assms(1-5)
proof (induction arr arbitrary: A p outs q)
  case Nil
  then show ?case using delivered_first_missing [OF Nil.prems(1), of k] by auto
next
  case (Cons j arr)
  have j: "j < k" "j \<notin> A" "A \<subseteq> {..<k}" using Cons.prems(2,4) by auto
  have "p \<notin> A" "{..<p} \<subseteq> A" using Cons.prems(1) by (auto simp: delivered_def)
  have "p \<le> j" using j \<open>{..<p} \<subseteq> A\<close> by (meson lessThan_iff not_less subsetD)
  have "j < p + 200" using spec [OF Cons.prems(5), of 0] \<open>p \<notin> A\<close> by (auto simp: not_less [symmetric])
  have "\<exists>out p' q'. handle_command_queues pr dir (m j) (d_id dir (m j)) q = (Ok out, q') \<and>
      delivered pr dir m q0 (insert j A) p' (outs @ out) q'"
  proof (cases "j = p")
    case True
    then show ?thesis using delivered_in_order [OF Cons.prems(1) _ j(3) assms(6-8)] j by simp
  next
    case False
    then have "p < j" using \<open>p \<le> j\<close> by simp
    then show ?thesis
      using delivered_out_of_order [OF Cons.prems(1) _ \<open>j < p + 200\<close> j(2) assms(6)
          ids_from_subset [OF assms(7)]] j by force
  qed
  then obtain out p' q' where step: "handle_command_queues pr dir (m j) (d_id dir (m j)) q = (Ok out, q')"
    "delivered pr dir m q0 (insert j A) p' (outs @ out) q'" by blast
  have "\<forall>t < length arr. \<forall>i. i + 200 \<le> arr ! t \<longrightarrow> i \<in> insert j A \<union> set (take t arr)"
  proof (intro allI impI)
    fix t i assume "t < length arr" "i + 200 \<le> arr ! t"
    then show "i \<in> insert j A \<union> set (take t arr)" using spec [OF Cons.prems(5), of "Suc t"] by auto
  qed
  then obtain os q'' where "act_map (\<lambda>j. handle_command_queues pr dir (m j) (d_id dir (m j))) arr q' = (Ok os, q'')"
    "delivered pr dir m q0 {..<k} k ((outs @ out) @ concat os) q''"
    using Cons.IH [OF step(2)] Cons.prems(2-4) by auto
  then show ?case
    using step(1) by (intro exI [of _ "out # os"] exI [of _ q'']) (simp add: act_then.simps)
qed

lemma outputs_replicate [simp]: "outputs (replicate k None) = []"
  by (induction k) simp_all

section \<open>The queues of a connection\<close>

definition wf_codec :: "packet_codec \<Rightarrow> bool" where
  "wf_codec c \<longleftrightarrow> length (outgoing_p_ids c) = 8 \<and> length (incoming_p_ids c) = 8 \<and>
     length (receive_queue c) = 2 \<and> length (fragmented_queue c) = 2"

definition cmd_index :: "packet_type \<Rightarrow> nat" where
  "cmd_index t = (if t = Command then 0 else 1)"

definition queues_of :: "packet_type \<Rightarrow> connection \<Rightarrow> command_queues" where
  "queues_of t con =
     \<lparr>q_next = incoming_p_ids (codec con) ! packet_type_index t,
      q_frag = fragmented_queue (codec con) ! cmd_index t,
      q_receive = receive_queue (codec con) ! cmd_index t\<rparr>"

definition with_queues :: "packet_type \<Rightarrow> command_queues \<Rightarrow> connection \<Rightarrow> connection" where
  "with_queues t q con = con\<lparr>codec := (codec con)
     \<lparr>receive_queue := (receive_queue (codec con))[cmd_index t := q_receive q],
      fragmented_queue := (fragmented_queue (codec con))[cmd_index t := q_frag q],
      incoming_p_ids := (incoming_p_ids (codec con))[packet_type_index t := q_next q]\<rparr>\<rparr>"

lemma wf_codec_connection_new [simp]: "wf_codec (codec (connection_new t cl a s))"
  by (simp add: wf_codec_def connection_new_def packet_codec_default_def Let_def)

lemma with_queues_simps [simp]:
  "wf_codec (codec (with_queues t q con)) = wf_codec (codec con)"
  "in_dir (with_queues t q con) = in_dir con"
  "with_queues t q (with_queues t q' con) = with_queues t q con"
  by (simp_all add: with_queues_def wf_codec_def in_dir_def)

lemma queues_of_with_queues [simp]:
  "wf_codec (codec con) \<Longrightarrow> t \<noteq> Init \<Longrightarrow> queues_of t (with_queues t q con) = q"
  by (simp add: queues_of_def with_queues_def wf_codec_def cmd_index_def packet_type_index_less)

lemma with_queues_self [simp]: "with_queues t (queues_of t con) con = con"
  by (simp add: queues_of_def with_queues_def)

lemma handle_command_packet_queues:
  assumes "wf_codec (codec con)" "wf_packet (in_dir con) d" "d_type (in_dir con) d = t" "t \<noteq> Init"
  shows "handle_command_packet pr d con =
    (case handle_command_queues pr (in_dir con) d (d_id (in_dir con) d) (queues_of t con) of
       (r, q) \<Rightarrow> (r, with_queues t q con))"
proof -
  have fields: "h_packet_type (d_header (in_dir con) d) = (Ok t :: (_, tsproto_error) outcome)"
    "h_packet_id (d_header (in_dir con) d) = (Ok (d_id (in_dir con) d) :: (_, tsproto_error) outcome)"
    using assms(2,3) by (simp_all add: d_type_def d_id_def)
  have "cmd_index t < 2" "packet_type_index t < 8"
    using assms(4) by (simp_all add: cmd_index_def packet_type_index_less)
  then show ?thesis
    using assms(1,2) fields
    by (simp add: handle_command_packet_def Let_def wf_codec_def queues_of_def with_queues_def
        cmd_index_def [symmetric] split: prod.splits)
qed

lemma handle_command_packets_queues:
  assumes "wf_codec (codec con)" "t \<noteq> Init"
    and "\<forall>d \<in> set ds. wf_packet (in_dir con) d \<and> d_type (in_dir con) d = t"
  shows "act_map (handle_command_packet pr) ds con =
    (case act_map (\<lambda>d. handle_command_queues pr (in_dir con) d (d_id (in_dir con) d)) ds (queues_of t con) of
       (r, q) \<Rightarrow> (r, with_queues t q con))"
  using assms
proof (induction ds arbitrary: con)
  case (Cons d ds)
  obtain r q where s: "handle_command_queues pr (in_dir con) d (d_id (in_dir con) d) (queues_of t con) = (r, q)"
    by fastforce
  then have "handle_command_packet pr d con = (r, with_queues t q con)"
    using handle_command_packet_queues [of con d t pr] Cons.prems by simp
  then show ?case
    using s Cons.prems Cons.IH [of "with_queues t q con"]
    by (auto simp: act_then.simps split: outcome.splits prod.splits)
qed simp

lemma act_map_map: "act_map f (map g xs) = act_map (\<lambda>x. f (g x)) xs"
  by (induction xs) simp_all

section \<open>Reassembly\<close>

lemma handle_fragment_wf:
  assumes "wf_packet dir d"
  shows "handle_fragment pr dir d frag =
    (if flags_contains (d_flags dir d) FRAGMENTED then
       (case frag of
          Some fr \<Rightarrow> (map_ok Some (decompress_packet pr dir (fr @ d_content dir d)), None)
        | None \<Rightarrow> (Ok None, Some d))
     else
       (case frag of
          Some fr \<Rightarrow>
            if length fr < MAX_FRAGMENTS_LENGTH then (Ok None, Some (fr @ d_content dir d))
            else (Err (MaxLengthExceeded ''fragment queue''), frag)
        | None \<Rightarrow> (map_ok Some (decompress_packet pr dir d), None)))"
proof -
  have fl: "h_flags (d_header dir d) = (Ok (d_flags dir d) :: (_, tsproto_error) outcome)"
    using assms by (simp add: d_flags_def)
  show ?thesis
  proof (cases frag)
    case None
    then show ?thesis
      using assms fl
      by (cases "decompress_packet pr dir d") (simp_all add: handle_fragment_def)
  next
    case (Some fr)
    then show ?thesis
      using assms fl
      by (cases "decompress_packet pr dir (fr @ d_content dir d)") (simp_all add: handle_fragment_def)
  qed
qed

lemma wf_packet_append [simp]: "wf_packet dir d \<Longrightarrow> wf_packet dir (d @ e)"
  by (cases dir) (auto simp: wf_packet_def nth_append)

lemma d_header_append [simp]: "wf_packet dir d \<Longrightarrow> d_header dir (d @ e) = d_header dir d"
  by (simp add: wf_packet_def d_header_def)

lemma d_content_append [simp]: "wf_packet dir d \<Longrightarrow> d_content dir (d @ e) = d_content dir d @ e"
  by (simp add: wf_packet_def d_content_def)

lemma length_wf_packet: "wf_packet dir d \<Longrightarrow> length d = header_len dir + length (d_content dir d)"
  by (simp add: wf_packet_def d_content_def)

lemma decompress_packet_wf:
  assumes "wf_packet dir d"
    and "if flags_contains (d_flags dir d) COMPRESSED
      then qlz_decompress pr (d_content dir d) MAX_DECOMPRESSED_SIZE = Some e else d_content dir d = e"
  shows "decompress_packet pr dir d = Ok (take (header_len dir) d @ e)"
proof -
  have "h_flags (d_header dir d) = (Ok (d_flags dir d) :: (_, tsproto_error) outcome)"
    using assms(1) by (simp add: d_flags_def)
  moreover have "take (header_len dir) d @ d_content dir d = d" by (simp add: d_content_def)
  moreover have "length (ih_data (d_header dir d)) = header_len dir"
    using assms(1) by (simp add: d_header_def wf_packet_def)
  ultimately show ?thesis
    using assms by (auto simp: decompress_packet_def decompress_def split: if_splits)
qed

lemma middle_fragments:
  assumes "\<forall>p \<in> set ps. wf_packet dir p \<and> \<not> flags_contains (d_flags dir p) FRAGMENTED"
    and "length (fr @ concat (map (d_content dir) ps)) \<le> MAX_FRAGMENTS_LENGTH"
    and "\<forall>p \<in> set ps. d_content dir p \<noteq> []"
  shows "act_map (handle_fragment pr dir) ps (Some fr)
    = (Ok (replicate (length ps) None), Some (fr @ concat (map (d_content dir) ps)))"
  using assms
proof (induction ps arbitrary: fr)
  case (Cons p ps)
  have "0 < length (d_content dir p)" using Cons.prems(3) by (simp del: length_greater_0_conv add: length_greater_0_conv [symmetric])
  then have "length fr < MAX_FRAGMENTS_LENGTH"
    using Cons.prems(2) unfolding list.map concat.simps length_append by linarith
  then show ?case
    using Cons.prems Cons.IH [of "fr @ d_content dir p"]
    by (simp add: act_then.simps handle_fragment_wf)
qed simp

lemma reassemble:
  assumes wf: "\<forall>p \<in> set ps. wf_packet dir p" "ps \<noteq> []"
    and flags: "\<forall>k < length ps. flags_contains (d_flags dir (ps ! k)) FRAGMENTED
      \<longleftrightarrow> 1 < length ps \<and> (k = 0 \<or> k = length ps - 1)"
    and size: "header_len dir + length (concat (map (d_content dir) ps)) \<le> MAX_FRAGMENTS_LENGTH"
    and full: "1 < length ps \<longrightarrow> (\<forall>p \<in> set ps. d_content dir p \<noteq> [])"
    and data: "if flags_contains (d_flags dir (hd ps)) COMPRESSED
      then qlz_decompress pr (concat (map (d_content dir) ps)) MAX_DECOMPRESSED_SIZE = Some e
      else concat (map (d_content dir) ps) = e"
  shows "act_map (handle_fragment pr dir) ps None
    = (Ok (replicate (length ps - 1) None @ [Some (take (header_len dir) (hd ps) @ e)]), None)"
proof (cases "length ps = 1")
  case True
  then obtain p where ps: "ps = [p]" by (cases ps) auto
  have "decompress_packet pr dir p = Ok (take (header_len dir) p @ e)"
    by (rule decompress_packet_wf) (use wf data in \<open>simp_all add: ps split: if_splits\<close>)
  with ps show ?thesis
    using wf flags by (simp add: act_then.simps handle_fragment_wf)
next
  case False
  then obtain p qs where "ps = p # qs" "qs \<noteq> []" using wf(2) by (cases ps) auto
  then obtain ms q where ps: "ps = p # ms @ [q]" by (cases qs rule: rev_cases) auto
  let ?c = "concat (map (d_content dir) ms)"
  have wfs: "wf_packet dir p" "wf_packet dir q" "\<forall>r \<in> set ms. wf_packet dir r"
    using wf(1) ps by auto
  have p: "flags_contains (d_flags dir p) FRAGMENTED"
    using spec [OF flags, of 0] ps by simp
  have q: "flags_contains (d_flags dir q) FRAGMENTED"
    using spec [OF flags, of "length ps - 1"] ps by (simp add: nth_append)
  have ms: "\<forall>r \<in> set ms. wf_packet dir r \<and> \<not> flags_contains (d_flags dir r) FRAGMENTED"
  proof
    fix r assume r: "r \<in> set ms"
    then obtain k where k: "k < length ms" "r = ms ! k" by (metis in_set_conv_nth)
    then show "wf_packet dir r \<and> \<not> flags_contains (d_flags dir r) FRAGMENTED"
      using spec [OF flags, of "Suc k"] ps wfs(3) r by (auto simp: nth_append)
  qed
  have "length (p @ ?c) \<le> MAX_FRAGMENTS_LENGTH"
    using size ps length_wf_packet [OF wfs(1)] by simp
  then have mid: "act_map (handle_fragment pr dir) ms (Some p)
      = (Ok (replicate (length ms) None), Some (p @ ?c))"
    using middle_fragments [OF ms, of p pr] full ps by simp
  have "d_flags dir (p @ ?c @ d_content dir q) = d_flags dir p"
    using wfs(1) by (simp add: d_flags_def)
  then have "decompress_packet pr dir (p @ ?c @ d_content dir q)
      = Ok (take (header_len dir) (p @ ?c @ d_content dir q) @ e)"
    by (intro decompress_packet_wf) (use wfs(1) data ps in \<open>simp_all split: if_splits\<close>)
  then have "decompress_packet pr dir (p @ ?c @ d_content dir q) = Ok (take (header_len dir) p @ e)"
    using wfs(1) by (simp add: wf_packet_def)
  then have last: "handle_fragment pr dir q (Some (p @ ?c)) = (Ok (Some (take (header_len dir) p @ e)), None)"
    using q wfs(2) by (simp add: handle_fragment_wf)
  have first: "handle_fragment pr dir p None = (Ok None, Some p)"
    using p wfs(1) by (simp add: handle_fragment_wf)
  show ?thesis
    unfolding ps act_map_Cons_Ok act_map_append
    using first mid last
    by (intro exI conjI) (auto simp: act_then.simps replicate_append_same intro!: exI)
qed

lemma split_data_pieces_not_Nil: "0 < m \<Longrightarrow> m < length d \<Longrightarrow> x \<in> set (split_data m d) \<Longrightarrow> x \<noteq> []"
proof (induction m d rule: split_data.induct)
  case (1 m d)
  then show ?case
    by (cases "m < length (drop m d)") (auto simp: split_data.simps [of m d] split_data.simps [of m "drop m d"])
qed

lemma several_pieces_not_Nil:
  "0 < m \<Longrightarrow> 1 < length (pieces pr m t d) \<Longrightarrow> x \<in> set (pieces pr m t d) \<Longrightarrow> x \<noteq> []"
  using split_data_pieces_not_Nil [of m "snd (packed pr m d)" x]
  by (auto simp: pieces_def Let_def not_le split: if_splits)

lemma commands_delivered:
  assumes con: "wf_codec (codec con)" "t \<noteq> Init"
      "queues_of t con = \<lparr>q_next = nx, q_frag = frag, q_receive = []\<rparr>"
    and ms: "\<forall>j < length ms. wf_packet (in_dir con) (ms ! j) \<and> d_type (in_dir con) (ms ! j) = t \<and>
      d_id (in_dir con) (ms ! j) = packet_id nx + of_nat j"
    and arr: "distinct arr" "set arr = {..<length ms}"
      "\<forall>k < length arr. \<forall>i. i + 200 \<le> arr ! k \<longrightarrow> i \<in> set (take k arr)"
    and ok: "act_map (handle_fragment pr (in_dir con)) ms frag = (Ok rs, frag')"
  shows "\<exists>os con'. act_map (handle_command_packet pr) (map ((!) ms) arr) con = (Ok os, con') \<and>
    concat os = outputs rs \<and>
    queues_of t con' = \<lparr>q_next = ((\<lambda>q. ppid_add q 1) ^^ length ms) nx, q_frag = frag', q_receive = []\<rparr>"
proof -
  let ?q0 = "\<lparr>q_next = nx, q_frag = frag, q_receive = []\<rparr>"
  have start: "delivered pr (in_dir con) ((!) ms) ?q0 {} 0 [] ?q0"
    by (simp add: delivered_def)
  have ids: "ids_from (in_dir con) (packet_id nx) ((!) ms) {..<length ms}"
    using ms by (simp add: ids_from_def)
  have "act_map (handle_fragment pr (in_dir con)) (map ((!) ms) [0..<length ms]) (q_frag ?q0) = (Ok rs, frag')"
    using ok by (simp add: map_nth)
  from delivered_run [OF start _ arr(1) _ _ _ ids this] arr obtain os q' where
    os: "act_map (\<lambda>j. handle_command_queues pr (in_dir con) (ms ! j) (d_id (in_dir con) (ms ! j))) arr ?q0
      = (Ok os, q')" "delivered pr (in_dir con) ((!) ms) ?q0 {..<length ms} (length ms) (concat os) q'"
    by auto
  have "q' = \<lparr>q_next = ((\<lambda>q. ppid_add q 1) ^^ length ms) nx, q_frag = frag', q_receive = []\<rparr>"
    "concat os = outputs rs"
    using os(2) ok by (cases q'; auto simp: delivered_def map_nth)+
  moreover have "\<forall>d \<in> set (map ((!) ms) arr). wf_packet (in_dir con) d \<and> d_type (in_dir con) d = t"
    using ms arr(2) by auto
  ultimately show ?thesis
    using handle_command_packets_queues [OF con(1,2), of "map ((!) ms) arr" pr] os(1) con
    by (simp add: act_map_map)
qed

lemma pieces_arrive:
  assumes laws: "primitives_laws pr"
    and packet: "valid_flags f" "f AND COMPRESSED = 0" "f AND FRAGMENTED = 0" "t = Command \<or> t = CommandLow"
    and ds: "ds = pieces pr (max_content cl) t d"
      "fs = piece_flags f (fst (packed pr (max_content cl) d)) (length ds)"
    and size: "header_len dir + length d \<le> MAX_FRAGMENTS_LENGTH"
    and con: "wf_codec (codec con)" "in_dir con = dir"
      "queues_of t con = \<lparr>q_next = nx, q_frag = None, q_receive = []\<rparr>"
    and macs: "\<forall>k. length (macs k) = 8"
    and arr: "distinct arr" "set arr = {..<length ds}"
      "\<forall>k < length arr. \<forall>i. i + 200 \<le> arr ! k \<longrightarrow> i \<in> set (take k arr)"
  shows "\<exists>os con'. act_map (handle_command_packet pr)
      (map (\<lambda>k. hdr dir (macs k) (packet_id nx + of_nat k) c (fs ! k) t @ ds ! k) arr) con = (Ok os, con') \<and>
    concat os = [hdr dir (macs 0) (packet_id nx) c (fs ! 0) t @ d]"
proof -
  define ms where "ms = map (\<lambda>k. hdr dir (macs k) (packet_id nx + of_nat k) c (fs ! k) t @ ds ! k) [0..<length ds]"
  have m: "0 < max_content cl" by (cases cl) simp_all
  have len: "length fs = length ds" "ds \<noteq> []" "length ms = length ds" by (simp_all add: ds(2) ds(1) ms_def)
  have vf: "valid_flags (fs ! k)" if "k < length ds" for k
    using that packet(1) by (simp add: ds(2) piece_flags_def)
  have nth_ms: "ms ! k = hdr dir (macs k) (packet_id nx + of_nat k) c (fs ! k) t @ ds ! k" if "k < length ds" for k
    using that by (simp add: ms_def)
  have ms: "wf_packet dir (ms ! k)" "d_type dir (ms ! k) = t" "d_id dir (ms ! k) = packet_id nx + of_nat k"
    "d_flags dir (ms ! k) = fs ! k" "d_content dir (ms ! k) = ds ! k" if "k < length ds" for k
    unfolding nth_ms [OF that] using vf [OF that] spec [OF macs, of k] by simp_all
  have cont: "map (d_content dir) ms = ds"
    by (rule nth_equalityI) (simp_all only: length_map len(3) nth_map ms(5))
  have hdms: "hd ms = ms ! 0" "hd fs = fs ! 0" using len by (simp_all add: hd_conv_nth flip: length_greater_0_conv)
  have plen: "length (concat ds) \<le> length d"
    using pieces_concat [of pr "max_content cl" t d] by (simp add: ds(1) packed_def Let_def)
  have "act_map (handle_fragment pr dir) ms None
      = (Ok (replicate (length ms - 1) None @ [Some (take (header_len dir) (hd ms) @ d)]), None)"
  proof (rule reassemble)
    show "\<forall>p \<in> set ms. wf_packet dir p" using ms(1) len by (auto simp: in_set_conv_nth)
    show "ms \<noteq> []" using len by (simp flip: length_greater_0_conv)
    show "\<forall>k < length ms. flags_contains (d_flags dir (ms ! k)) FRAGMENTED
        \<longleftrightarrow> 1 < length ms \<and> (k = 0 \<or> k = length ms - 1)"
      using ms(4) len piece_flags_contain(2) packet(3) by (simp add: ds(2))
    show "header_len dir + length (concat (map (d_content dir) ms)) \<le> MAX_FRAGMENTS_LENGTH"
      using plen size by (simp add: cont)
    have "x \<noteq> []" if "1 < length ds" "x \<in> set ds" for x
      using several_pieces_not_Nil [OF m, of pr t d x] that by (simp add: ds(1))
    then show "1 < length ms \<longrightarrow> (\<forall>p \<in> set ms. d_content dir p \<noteq> [])"
      using cont len by (metis image_eqI list.set_map)
    have "qlz_decompress pr (qlz_compress pr d) MAX_DECOMPRESSED_SIZE = Some d"
      using laws size by (simp add: primitives_laws_def MAX_DECOMPRESSED_SIZE_def MAX_FRAGMENTS_LENGTH_def)
    then show "if flags_contains (d_flags dir (hd ms)) COMPRESSED
        then qlz_decompress pr (concat (map (d_content dir) ms)) MAX_DECOMPRESSED_SIZE = Some d
        else concat (map (d_content dir) ms) = d"
      using concat_pieces [OF packet(2) ds(1) ds(2)] ms(4) [of 0] len hdms by (simp add: cont)
  qed
  moreover have "take (header_len dir) (hd ms) = hdr dir (macs 0) (packet_id nx) c (fs ! 0) t"
    using len macs by (simp add: hdms nth_ms)
  ultimately have re: "act_map (handle_fragment pr (in_dir con)) ms None
      = (Ok (replicate (length ms - 1) None @ [Some (hdr dir (macs 0) (packet_id nx) c (fs ! 0) t @ d)]), None)"
    by (simp only: con(2))
  have hyps: "\<forall>j < length ms. wf_packet (in_dir con) (ms ! j) \<and> d_type (in_dir con) (ms ! j) = t \<and>
      d_id (in_dir con) (ms ! j) = packet_id nx + of_nat j"
    unfolding con(2) len(3) using ms(1-3) by blast
  have arr2: "set arr = {..<length ms}" using arr(2) len by simp
  have "t \<noteq> Init" using packet(4) by auto
  from commands_delivered [OF con(1) this con(3) hyps arr(1) arr2 arr(3) re]
  have "\<exists>os con'. act_map (handle_command_packet pr) (map ((!) ms) arr) con = (Ok os, con') \<and>
      concat os = [hdr dir (macs 0) (packet_id nx) c (fs ! 0) t @ d]"
    by auto
  moreover have "map ((!) ms) arr
      = map (\<lambda>k. hdr dir (macs k) (packet_id nx + of_nat k) c (fs ! k) t @ ds ! k) arr"
    using arr2 len by (intro map_cong refl) (simp add: nth_ms)
  ultimately show ?thesis by simp
qed

section \<open>Properties\<close>

text \<open>
  C7 (commands are delivered in order): let the packets of one command type, well formed, carry
  consecutive ids from the next expected one on, let the receive queue of a well formed codec be empty,
  and let the packets arrive each once, in any order in which a packet arrives only when every packet 200
  or more before it has arrived. If handling their fragments one after the other in the order of their ids
  is free of errors (no fragment fails to decompress and no command is too long), then so is handling them
  in the order of their arrival, and \<open>handle_command_packet\<close> hands on, over all arrivals, exactly what the
  handling in order yields; the receive queue is empty again, the fragments that wait are the same, and the
  next expected id is behind the last packet, also when the ids wrap.
\<close>

theorem commands_in_order:
  assumes con: "wf_codec (codec con)" "t \<noteq> Init"
      "queues_of t con = \<lparr>q_next = nx, q_frag = frag, q_receive = []\<rparr>"
    and ms: "\<forall>j < length ms. wf_packet (in_dir con) (ms ! j) \<and> d_type (in_dir con) (ms ! j) = t \<and>
      d_id (in_dir con) (ms ! j) = packet_id nx + of_nat j"
    and arr: "distinct arr" "set arr = {..<length ms}"
      "\<forall>k < length arr. \<forall>i. i + 200 \<le> arr ! k \<longrightarrow> i \<in> set (take k arr)"
    and ok: "act_map (handle_fragment pr (in_dir con)) ms frag = (Ok rs, frag')"
  shows "\<exists>os con'. act_map (handle_command_packet pr) (map ((!) ms) arr) con = (Ok os, con') \<and>
    concat os = outputs rs \<and>
    queues_of t con' = \<lparr>q_next = ((\<lambda>q. ppid_add q 1) ^^ length ms) nx, q_frag = frag', q_receive = []\<rparr>"
  by (rule commands_delivered [OF assms])

theorem commands_in_order_witness:
  "let p = (\<lambda>k. hdr S2C (replicate 8 0) k 0 NEWPROTOCOL Command @ [65 + ucast k])
   in \<exists>os con'. act_map (handle_command_packet toy_primitives) [p 2, p 0, p 1]
        (connection_new 0 True ''a'' \<lparr>send_answers = [], recv_answers = [], sent_datagrams = []\<rparr>) = (Ok os, con') \<and>
      concat os = [p 0, p 1, p 2]"
proof -
  define p :: "u16 \<Rightarrow> bytes" where "p k = hdr S2C (replicate 8 0) k 0 NEWPROTOCOL Command @ [65 + ucast k]" for k
  define con where "con = connection_new 0 True ''a'' \<lparr>send_answers = [], recv_answers = [], sent_datagrams = []\<rparr>"
  define ms where "ms = [p 0, p 1, p 2]"
  define arr :: "nat list" where "arr = [2, 0, 1]"
  have con: "wf_codec (codec con)" "in_dir con = S2C"
    "queues_of Command con = \<lparr>q_next = ppid_default, q_frag = None, q_receive = []\<rparr>"
    by (simp_all add: con_def in_dir_def queues_of_def connection_new_def packet_codec_default_def Let_def
        cmd_index_def packet_type_index_def wf_codec_def)
  have nf: "\<not> flags_contains NEWPROTOCOL FRAGMENTED" "\<not> flags_contains NEWPROTOCOL COMPRESSED"
    by (simp_all add: flags_contains_def NEWPROTOCOL_def FRAGMENTED_def COMPRESSED_def)
  have one: "handle_fragment toy_primitives S2C (p k) None = (Ok (Some (p k)), None)" for k
    using decompress_packet_wf [of S2C "p k" toy_primitives "[65 + ucast k]"] nf
    by (simp add: handle_fragment_wf p_def)
  have ok: "act_map (handle_fragment toy_primitives (in_dir con)) ms None
      = (Ok [Some (p 0), Some (p 1), Some (p 2)], None)"
    by (simp add: one act_then.simps con(2) ms_def)
  have "\<forall>j < length ms. wf_packet (in_dir con) (ms ! j) \<and> d_type (in_dir con) (ms ! j) = Command \<and>
      d_id (in_dir con) (ms ! j) = packet_id ppid_default + of_nat j"
    by (simp add: All_less_Suc ppid_default_def ms_def p_def con(2))
  moreover have "distinct arr" "set arr = {..<length ms}"
    by (auto simp: lessThan_Suc ms_def arr_def)
  moreover have "\<forall>k < length arr. \<forall>i. i + 200 \<le> arr ! k \<longrightarrow> i \<in> set (take k arr)"
    by (simp add: All_less_Suc arr_def)
  ultimately have "\<exists>os con'. act_map (handle_command_packet toy_primitives) (map ((!) ms) arr) con = (Ok os, con') \<and>
      concat os = [p 0, p 1, p 2]"
    using commands_in_order [OF con(1) _ con(3) _ _ _ _ ok, of arr] by auto
  moreover have "map ((!) ms) arr = [p 2, p 0, p 1]" by (simp add: ms_def arr_def)
  ultimately show ?thesis by (simp add: p_def con_def Let_def)
qed



text \<open>
  C35 (the receive window is exact): for every packet type but init, \<open>in_receive_window\<close> accepts exactly
  the ids at a distance of less than 32767 from the next expected one, also around the wrap, and gives
  them the generation in which that id comes next, so that generation and id count on from the expected
  ones. A rejected id is taken for a past one. It panics exactly when the generation would leave its
  range: for an accepted id behind the last wrap of generation \<open>u32::MAX\<close>, and for a rejected id that is
  not below the expected one while the generation is still 0.
\<close>

theorem receive_window_exact:
  assumes "wf_codec (codec con)" and "t \<noteq> Init" and "incoming_p_ids (codec con) ! packet_type_index t = PartialPacketId gen nx"
  shows "in_receive_window con t i =
      (if unat (i - nx) < 32767 then
         if nx \<le> i then Ok (True, gen, nx, nx + 32767)
         else if gen = - 1 then Panic else Ok (True, gen + 1, nx, nx + 32767)
       else
         if i < nx then Ok (False, gen, nx, nx + 32767)
         else if gen = 0 then Panic else Ok (False, gen - 1, nx, nx + 32767)) \<and>
    (\<forall>g a b. in_receive_window con t i = (Ok (True, g, a, b) :: (_, unit) outcome) \<longrightarrow>
       ppid_nat (PartialPacketId g i) = ppid_nat (PartialPacketId gen nx) + unat (i - nx))"
proof -
  let ?next = "snd (overflowing_add nx (0x7FFF :: u16))"
  let ?w = "in_window nx 0x7FFF i"
  have w: "?w \<longleftrightarrow> unat (i - nx) < 32767" by (simp add: in_window_iff)
  have n: "?next \<longleftrightarrow> 2 ^ 16 \<le> unat nx + 32767" by (simp add: overflowing_add_def)
  have b: "unat nx < 2 ^ 16" "unat i < 2 ^ 16"
    using unsigned_less [of nx, where 'a = nat] unsigned_less [of i, where 'a = nat] by simp_all
  have cross: "?next \<and> i < nx + 0x7FFF \<longleftrightarrow> i < nx" if "?w"
  proof
    assume "?next \<and> i < nx + 0x7FFF"
    moreover from this have "unat (nx + 0x7FFF) = unat nx + 32767 - 2 ^ 16"
      using n b by (simp add: unat_word_ariths le_mod_geq)
    ultimately show "i < nx" using b by (auto simp: word_less_nat_alt)
  next
    assume "i < nx"
    then show "?next \<and> i < nx + 0x7FFF"
      using that by (auto simp: in_window_def overflowing_add_def split_def Let_def)
  qed
  have run: "in_receive_window con t i =
      and_then (if ?w then (if ?next \<and> i < nx + 0x7FFF then checked_plus gen 1 else Ok gen)
        else if i < nx then Ok gen else checked_minus gen 1) (\<lambda>g. Ok (?w, g, nx, nx + 0x7FFF))"
    using assms by (simp add: in_receive_window_def wf_codec_def packet_type_index_less in_window_def
        overflowing_add_def Let_def)
  note up = unat_plus_one_max [of gen]
  have eq: "in_receive_window con t i =
      (if unat (i - nx) < 32767 then
         if nx \<le> i then Ok (True, gen, nx, nx + 32767)
         else if gen = - 1 then Panic else Ok (True, gen + 1, nx, nx + 32767)
       else
         if i < nx then Ok (False, gen, nx, nx + 32767)
         else if gen = 0 then Panic else Ok (False, gen - 1, nx, nx + 32767))"
    unfolding run checked_plus_one checked_minus_one using cross w by (cases ?w) (auto simp: not_less)
  have "ppid_nat (PartialPacketId g i) = ppid_nat (PartialPacketId gen nx) + unat (i - nx)"
    if "in_receive_window con t i = (Ok (True, g, a, b) :: (_, unit) outcome)" for g a b
  proof (cases "nx \<le> i")
    case True
    then show ?thesis using that unfolding eq
      by (auto simp: ppid_nat_def unat_minus_split word_le_nat_alt split: if_splits)
  next
    case False
    then show ?thesis using that b up unfolding eq
      by (auto simp: ppid_nat_def unat_minus_split word_le_nat_alt split: if_splits)
  qed
  with eq show ?thesis by blast
qed

theorem receive_window_exact_witness:
  "in_receive_window (connection_new 0 True ''a'' \<lparr>send_answers = [], recv_answers = [], sent_datagrams = []\<rparr>)
     Voice 40000 = (Panic :: (_, unit) outcome) \<and>
   in_receive_window (connection_new 0 True ''a'' \<lparr>send_answers = [], recv_answers = [], sent_datagrams = []\<rparr>)
     Voice 7 = (Ok (True, 0, 0, 32767) :: (_, unit) outcome)"
proof -
  let ?con = "connection_new 0 True ''a'' \<lparr>send_answers = [], recv_answers = [], sent_datagrams = []\<rparr>"
  have "incoming_p_ids (codec ?con) ! packet_type_index Voice = PartialPacketId 0 0"
    by (simp add: connection_new_def packet_codec_default_def packet_type_index_def ppid_default_def Let_def)
  note exact = receive_window_exact [OF wf_codec_connection_new _ this]
  show ?thesis by (simp add: conjunct1 [OF exact])
qed

lemma handle_fragment_plain:
  assumes "wf_packet dir d" "\<not> flags_contains (d_flags dir d) FRAGMENTED" "\<not> flags_contains (d_flags dir d) COMPRESSED"
  shows "handle_fragment pr dir d None = (Ok (Some d), None)"
  using assms decompress_packet_wf [of dir d pr "d_content dir d"]
  by (simp add: handle_fragment_wf d_content_def)

text \<open>
  C39 (a command that arrives twice out of order is delivered twice): a command that is received twice
  while the one before it is missing is stored twice. When the gap closes, one copy is delivered, the
  other stays in the receive queue. Once the ids have wrapped and the id before it is received again,
  the old copy is handed on as the next command.
\<close>

theorem duplicate_command_delivered_again:
  assumes "\<forall>d \<in> {p, q, r}. wf_packet dir d \<and> \<not> flags_contains (d_flags dir d) FRAGMENTED \<and>
      \<not> flags_contains (d_flags dir d) COMPRESSED"
    and "d_id dir p = n" "d_id dir q = n + 1" "d_id dir r = n"
  shows "act_map (\<lambda>d. handle_command_queues pr dir d (d_id dir d)) [q, q, p]
      \<lparr>q_next = PartialPacketId g n, q_frag = None, q_receive = []\<rparr>
      = (Ok [[], [], [p, q]],
         \<lparr>q_next = ppid_add (ppid_add (PartialPacketId g n) 1) 1, q_frag = None, q_receive = [q]\<rparr>) \<and>
    handle_command_queues pr dir r (d_id dir r)
      \<lparr>q_next = PartialPacketId (g + 1) n, q_frag = None, q_receive = [q]\<rparr>
      = (Ok [r, q], \<lparr>q_next = ppid_add (ppid_add (PartialPacketId (g + 1) n) 1) 1, q_frag = None, q_receive = []\<rparr>)"
proof -
  have ne: "n \<noteq> n + 1" "n + 1 + 1 \<noteq> n + 1" "n \<noteq> n + 1 + 1" by (simp_all add: add.assoc)
  have "in_window n MAX_QUEUE_LEN (n + 1)" by (simp add: in_window_iff MAX_QUEUE_LEN_def)
  then have store: "handle_command_queues pr dir q (n + 1) \<lparr>q_next = PartialPacketId h n, q_frag = None, q_receive = xs\<rparr>
      = (Ok [], \<lparr>q_next = PartialPacketId h n, q_frag = None, q_receive = xs @ [q]\<rparr>)" for h xs
    by (simp add: handle_command_queues_def Let_def in_window_def split_def)
  have take: "handle_command_queues pr dir d n \<lparr>q_next = PartialPacketId h n, q_frag = None, q_receive = q # xs\<rparr>
      = (Ok [d, q], \<lparr>q_next = ppid_add (ppid_add (PartialPacketId h n) 1) 1, q_frag = None, q_receive = xs\<rparr>)"
    if "d \<in> {p, r}" "xs = [] \<or> xs = [q]" for d h xs
    using that assms(1) handle_fragment_plain [of dir d pr] handle_fragment_plain [of dir q pr]
      assms(3) [unfolded d_id_def] ne
    by (auto simp: handle_command_queues_def command_loop.simps [of pr dir d] command_loop.simps [of pr dir q]
        remove_at_def)
  show ?thesis
    using store take assms(2-4) by (simp add: act_then.simps)
qed

theorem duplicate_command_delivered_again_witness:
  "let p = (\<lambda>k b. hdr S2C (replicate 8 0) k 0 NEWPROTOCOL Command @ [b])
   in act_map (\<lambda>d. handle_command_queues toy_primitives S2C d (d_id S2C d)) [p 0 66, p 0 66, p 0xFFFF 65]
        \<lparr>q_next = PartialPacketId 0 0xFFFF, q_frag = None, q_receive = []\<rparr>
      = (Ok [[], [], [p 0xFFFF 65, p 0 66]], \<lparr>q_next = PartialPacketId 1 1, q_frag = None, q_receive = [p 0 66]\<rparr>) \<and>
     fst (handle_command_queues toy_primitives S2C (p 0xFFFF 67) 0xFFFF
        \<lparr>q_next = PartialPacketId 1 0xFFFF, q_frag = None, q_receive = [p 0 66]\<rparr>)
      = Ok [p 0xFFFF 67, p 0 66]"
proof -
  let ?p = "\<lambda>k b. hdr S2C (replicate 8 0) k 0 NEWPROTOCOL Command @ [b]"
  have nf: "\<not> flags_contains NEWPROTOCOL FRAGMENTED" "\<not> flags_contains NEWPROTOCOL COMPRESSED"
    by (simp_all add: flags_contains_def NEWPROTOCOL_def FRAGMENTED_def COMPRESSED_def)
  show ?thesis
    using duplicate_command_delivered_again [where p = "?p 0xFFFF 65" and q = "?p 0 66" and r = "?p 0xFFFF 67"
        and dir = S2C and n = "0xFFFF" and pr = toy_primitives and g = 0] nf
    by (simp del: act_map.simps add: Let_def ppid_add_def overflowing_add_def)
qed

section \<open>Encoding\<close>

text \<open>
  A datagram that seals the content \<open>d\<close> under the header with the id and flags of a packet, for the
  generation of the id: it opens, with any valid key cache of the other side, to that content.
\<close>

definition seals ::
  "primitives \<Rightarrow> bytes \<Rightarrow> direction \<Rightarrow> packet_type \<Rightarrow> u16 \<Rightarrow> flags \<Rightarrow> partial_packet_id \<Rightarrow> bytes \<Rightarrow> out_packet \<Rightarrow> bool" where
  "seals pr iv dir t c f p_id d p \<longleftrightarrow>
     (\<exists>mac e. length mac = 8 \<and> p = \<lparr>op_dir = dir, op_data = hdr dir mac (packet_id p_id) c f t @ e\<rparr> \<and>
        (\<forall>cache. cache_inv pr iv cache \<longrightarrow>
           (\<exists>cache'. decrypt pr \<lparr>ip_header = \<lparr>ih_dir = dir, ih_data = hdr dir mac (packet_id p_id) c f t\<rparr>,
              ip_content = e\<rparr> (generation_id p_id) iv cache = (Ok (Ok d, cache') :: (_, unit) outcome) \<and>
              cache_inv pr iv cache')))"

text \<open>The next outgoing id of a type.\<close>

definition next_out :: "packet_type \<Rightarrow> connection \<Rightarrow> partial_packet_id" where
  "next_out t con = outgoing_p_ids (codec con) ! packet_type_index t"

definition con_cache_ok :: "primitives \<Rightarrow> bytes \<Rightarrow> connection \<Rightarrow> bool" where
  "con_cache_ok pr iv con \<longleftrightarrow>
     (\<exists>ps. params con = Some ps \<and> cp_shared_iv ps = iv \<and> cache_inv pr iv (cp_key_cache ps))"

lemma encrypt_seals:
  assumes "primitives_laws pr" "length mac = 8" "valid_flags f" "t \<noteq> Init" "generation_id p_id \<noteq> - 1"
    "cache_inv pr iv cache"
    "encrypt pr \<lparr>op_dir = dir, op_data = hdr dir mac (packet_id p_id) c f t @ d\<rparr> (generation_id p_id) iv cache
      = (Ok (Ok p, cache2) :: (_, 'e) outcome)"
  shows "seals pr iv dir t c f p_id d p \<and> cache_inv pr iv cache2"
  using encrypt_then_decrypt [OF assms, where 'f = unit] unfolding seals_def by metis

lemma encode_one_seals:
  assumes "primitives_laws pr" "length mac = 8" "valid_flags f" "t \<noteq> Init" "generation_id (next_out t con) \<noteq> - 1"
    and con: "wf_codec (codec con)" "con_cache_ok pr iv con"
    and run: "encode_one pr t False True \<lparr>op_dir = dir, op_data = hdr dir mac i c f t @ d\<rparr> con = (Ok u, con')"
  shows "seals pr iv dir t c f (next_out t con) d (ou_data u) \<and>
    ou_generation_id u = generation_id (ppid_add (next_out t con) 1) \<and>
    next_out t con' = ppid_add (next_out t con) 1 \<and> wf_codec (codec con') \<and> con_cache_ok pr iv con' \<and>
    is_client con' = is_client con"
proof -
  let ?id = "next_out t con"
  let ?p = "\<lparr>op_dir = dir, op_data = hdr dir mac (packet_id ?id) c f t @ d\<rparr>"
  obtain ps where ps: "params con = Some ps" "cp_shared_iv ps = iv" "cache_inv pr iv (cp_key_cache ps)"
    using con(2) by (auto simp: con_cache_ok_def)
  have i: "packet_type_index t < length (outgoing_p_ids (codec con))"
    using assms(4) con(1) by (simp add: wf_codec_def packet_type_index_less)
  obtain r where r: "encrypt pr ?p (generation_id ?id) iv (cp_key_cache ps) = (r :: (_, tsproto_error) outcome)"
    by blast
  from run obtain p cache where "r = Ok (Ok p, cache)"
    and res: "u = \<lparr>ou_generation_id = generation_id (ppid_add ?id 1), ou_data = p\<rparr>"
      "con' = con\<lparr>params := Some (ps\<lparr>cp_key_cache := cache\<rparr>), codec := (codec con)\<lparr>outgoing_p_ids :=
         (outgoing_p_ids (codec con))[packet_type_index t := ppid_add ?id 1]\<rparr>\<rparr>"
    using assms(2,4) i ps(1,2) r
    by (cases r) (auto simp: encode_one_def encrypt_with_params_def next_out_def act_then.simps Let_def
        act_lift_def split: prod.splits outcome.splits)
  with r have "encrypt pr ?p (generation_id ?id) iv (cp_key_cache ps)
      = (Ok (Ok p, cache) :: (_, tsproto_error) outcome)" by simp
  from encrypt_seals [OF assms(1-5) ps(3) this] show ?thesis
    using res ps(2) con(1) i by (simp add: next_out_def wf_codec_def con_cache_ok_def)
qed

definition nth_id :: "partial_packet_id \<Rightarrow> nat \<Rightarrow> partial_packet_id" where
  "nth_id nx k = ((\<lambda>p. ppid_add p 1) ^^ k) nx"

lemma nth_id_simps [simp]:
  "nth_id nx 0 = nx" "nth_id (ppid_add nx 1) k = nth_id nx (Suc k)"
  "packet_id (nth_id nx k) = packet_id nx + of_nat k"
  by (simp_all add: nth_id_def packet_id_iterate ppid_add_iterate del: funpow.simps)

lemma nth_id_one: "nth_id nx (Suc 0) = ppid_add nx 1"
  by (simp add: nth_id_def)

lemma encode_all_seals:
  assumes "primitives_laws pr" "length mac = 8" "t \<noteq> Init" "\<forall>(g, d) \<in> set fds. valid_flags g"
    and "\<forall>k < length fds. generation_id (nth_id (next_out t con) k) \<noteq> - 1"
    and "wf_codec (codec con)" "con_cache_ok pr iv con"
    and "act_map (encode_one pr t False True)
      (map (\<lambda>(g, d). \<lparr>op_dir = dir, op_data = hdr dir mac i c g t @ d\<rparr>) fds) con = (Ok us, con')"
  shows "length us = length fds \<and>
    (\<forall>k < length fds.
       seals pr iv dir t c (fst (fds ! k)) (nth_id (next_out t con) k) (snd (fds ! k)) (ou_data (us ! k)) \<and>
       ou_generation_id (us ! k) = generation_id (nth_id (next_out t con) (Suc k))) \<and>
    next_out t con' = nth_id (next_out t con) (length fds) \<and> wf_codec (codec con') \<and> con_cache_ok pr iv con'"
  using assms(4-)
proof (induction fds arbitrary: con us)
  case (Cons fd fds)
  obtain g d where fd: "fd = (g, d)" by (cases fd)
  from Cons.prems(5) obtain u con1 us1 where step:
    "encode_one pr t False True \<lparr>op_dir = dir, op_data = hdr dir mac i c g t @ d\<rparr> con = (Ok u, con1)"
    "act_map (encode_one pr t False True)
      (map (\<lambda>(g, d). \<lparr>op_dir = dir, op_data = hdr dir mac i c g t @ d\<rparr>) fds) con1 = (Ok us1, con')"
    "us = u # us1"
    unfolding fd list.map prod.case act_map_Cons_Ok by blast
  have "generation_id (next_out t con) \<noteq> - 1" using spec [OF Cons.prems(2), of 0] by simp
  note one = encode_one_seals [OF assms(1,2) _ assms(3) this Cons.prems(3,4) step(1)]
  have vg: "valid_flags g" using Cons.prems(1) fd by simp
  have nx: "next_out t con1 = ppid_add (next_out t con) 1" using one [OF vg] by blast
  have "\<forall>k < length fds. generation_id (nth_id (next_out t con1) k) \<noteq> - 1"
    unfolding nx nth_id_simps(2) using Cons.prems(2) by auto
  with Cons.IH [OF _ this _ _ step(2)] one [OF vg] Cons.prems(1)
  have IH: "length us1 = length fds" "\<forall>k < length fds.
       seals pr iv dir t c (fst (fds ! k)) (nth_id (next_out t con) (Suc k)) (snd (fds ! k)) (ou_data (us1 ! k)) \<and>
       ou_generation_id (us1 ! k) = generation_id (nth_id (next_out t con) (Suc (Suc k)))"
    "next_out t con' = nth_id (next_out t con) (Suc (length fds))" "wf_codec (codec con')" "con_cache_ok pr iv con'"
    unfolding nx nth_id_simps(2) by auto
  have "seals pr iv dir t c (fst ((fd # fds) ! k)) (nth_id (next_out t con) k) (snd ((fd # fds) ! k)) (ou_data (us ! k)) \<and>
      ou_generation_id (us ! k) = generation_id (nth_id (next_out t con) (Suc k))" if "k < length (fd # fds)" for k
  proof (cases k)
    case 0
    then show ?thesis using one [OF vg] by (simp add: step(3) fd nth_id_one)
  next
    case (Suc j)
    then show ?thesis using IH(2) that step(3) by auto
  qed
  with IH step(3) show ?case by auto
qed (auto simp: act_return_def)

definition out_dir :: "connection \<Rightarrow> direction" where
  "out_dir con = (if is_client con then C2S else S2C)"

text \<open>The packets of the handshake that are sealed with the well-known key.\<close>

definition handshake_command :: "connection \<Rightarrow> packet_type \<Rightarrow> bytes \<Rightarrow> bool" where
  "handshake_command con t d \<longleftrightarrow>
     t = Command \<and> generation_id (next_out t con) = 0 \<and>
     (if is_client con then packet_id (next_out t con) = 1 \<and> starts_with d (ascii ''clientek'')
      else packet_id (next_out t con) = 0)"

lemma encode_command_unfold:
  assumes "length mac = 8" "valid_flags f" "t = Command \<or> t = CommandLow" "params con = Some ps"
    "wf_codec (codec con)" "dir = out_dir con" "\<not> handshake_command con t d"
    and "c' = (if is_client con then cp_c_id ps else c)" "f' = (if is_client con then f OR NEWPROTOCOL else f)"
    and "ds = pieces pr (max_content (is_client con)) t d"
    and "fs = piece_flags f' (fst (packed pr (max_content (is_client con)) d)) (length ds)"
  shows "encode_packet pr \<lparr>op_dir = dir, op_data = hdr dir mac i c f t @ d\<rparr> con
    = act_map (encode_one pr t False True)
        (map (\<lambda>(g, d'). \<lparr>op_dir = dir, op_data = hdr dir mac i c' g t @ d'\<rparr>) (zip fs ds)) con"
proof -
  have idx: "index (outgoing_p_ids (codec con)) (packet_type_index t) = (Ok (next_out t con) :: (_, tsproto_error) outcome)"
    using assms(3,5) by (auto simp: wf_codec_def next_out_def packet_type_index_less)
  have nh: "must_fake_encrypt (is_client con) t (next_out t con) \<lparr>op_dir = dir, op_data = hdr dir mac i c g t @ d\<rparr>
      = (Ok False :: (_, tsproto_error) outcome)" if "valid_flags g" for g
    using that assms(1,3,7) by (auto simp: must_fake_encrypt_def handshake_command_def)
  have vf: "valid_flags f'" using assms(2,9) by simp
  have split: "split_packet pr (is_client con) t (outgoing_p_ids (codec con))
      \<lparr>op_dir = dir, op_data = hdr dir mac i c' f' t @ d\<rparr>
      = (Ok (map (\<lambda>(g, d'). \<lparr>op_dir = dir, op_data = hdr dir mac i c' g t @ d'\<rparr>) (zip fs ds)) :: (_, tsproto_error) outcome)"
    using assms(3) compress_and_split_pieces [OF assms(1) vf _ assms(10,11), of dir i c'] assms(6)
    by (auto simp: split_packet_def out_dir_def)
  have enc: "should_encrypt t v" for v using assms(3) by (auto simp: should_encrypt_def)
  have tI: "t \<noteq> Init" using assms(3) by auto
  show ?thesis
  proof (cases "is_client con")
    case True
    then have "add_flags NEWPROTOCOL \<lparr>op_dir = dir, op_data = hdr dir mac i c f t @ d\<rparr>
        = (Ok \<lparr>op_dir = dir, op_data = hdr dir mac i c f' t @ d\<rparr> :: (_, tsproto_error) outcome)"
      using assms(1,2,9) by (simp add: add_flags_def)
    moreover have "dir = C2S" using True assms(6) by (simp add: out_dir_def)
    ultimately show ?thesis
      using True assms nh [OF vf] split enc tI idx unfolding encode_packet_def
      by (simp del: act_map.simps)
  next
    case False
    then have "f' = f" "c' = c" using assms(8,9) by auto
    then show ?thesis
      using False assms(1-5) nh [OF assms(2)] split enc tI idx unfolding encode_packet_def
      by (simp del: act_map.simps)
  qed
qed

text \<open>A datagram after its content is decrypted in place, with a key cache of its own.\<close>

definition open_datagram :: "primitives \<Rightarrow> bytes \<Rightarrow> direction \<Rightarrow> u32 \<Rightarrow> bytes \<Rightarrow> bytes option" where
  "open_datagram pr iv dir g data =
     (case in_packet_try_new dir data of
        Ok q \<Rightarrow>
          (case (decrypt pr q g iv key_cache_default :: (_, unit) outcome) of
             Ok (Ok d, cache) \<Rightarrow> Some (ih_data (ip_header q) @ d)
           | _ \<Rightarrow> None)
      | _ \<Rightarrow> None)"

lemma seals_open:
  assumes "seals pr iv dir t c f p_id d p" "valid_flags f"
  obtains mac where "length mac = 8"
    "open_datagram pr iv dir (generation_id p_id) (op_data p) = Some (hdr dir mac (packet_id p_id) c f t @ d)"
proof -
  obtain mac e cache' where p: "length mac = 8" "p = \<lparr>op_dir = dir, op_data = hdr dir mac (packet_id p_id) c f t @ e\<rparr>"
    "decrypt pr \<lparr>ip_header = \<lparr>ih_dir = dir, ih_data = hdr dir mac (packet_id p_id) c f t\<rparr>, ip_content = e\<rparr>
       (generation_id p_id) iv key_cache_default = (Ok (Ok d, cache') :: (_, unit) outcome)"
    using assms(1) cache_inv_default [of pr iv] unfolding seals_def by blast
  have "wf_packet dir (op_data p)" using p(1,2) assms(2) by simp
  then have "in_packet_try_new dir (op_data p)
      = Ok \<lparr>ip_header = \<lparr>ih_dir = dir, ih_data = hdr dir mac (packet_id p_id) c f t\<rparr>, ip_content = e\<rparr>"
    using p(1,2) by (simp add: wf_packet_def in_packet_try_new_Ok_iff)
  with p(3) have "open_datagram pr iv dir (generation_id p_id) (op_data p)
      = Some (hdr dir mac (packet_id p_id) c f t @ d)" by (simp add: open_datagram_def)
  with p(1) that show ?thesis by blast
qed

lemma encode_command_pieces:
  assumes laws: "primitives_laws pr"
    and packet: "length mac = 8" "valid_flags f" "t = Command \<or> t = CommandLow"
    and con: "wf_codec (codec con)" "con_cache_ok pr iv con" "dir = out_dir con" "\<not> handshake_command con t d"
    and run: "encode_packet pr \<lparr>op_dir = dir, op_data = hdr dir mac i c f t @ d\<rparr> con = (Ok us, con')"
    and gens: "\<forall>k < length us. generation_id (nth_id (next_out t con) k) \<noteq> - 1"
  obtains c' ds fs where "ds = pieces pr (max_content (is_client con)) t d"
    "fs = piece_flags (if is_client con then f OR NEWPROTOCOL else f)
       (fst (packed pr (max_content (is_client con)) d)) (length ds)"
    "length us = length ds"
    "\<forall>k < length ds. seals pr iv dir t c' (fs ! k) (nth_id (next_out t con) k) (ds ! k) (ou_data (us ! k)) \<and>
       ou_generation_id (us ! k) = generation_id (nth_id (next_out t con) (Suc k))"
    "next_out t con' = nth_id (next_out t con) (length ds)"
proof -
  obtain ps where ps: "params con = Some ps" using con(2) by (auto simp: con_cache_ok_def)
  define c' where "c' = (if is_client con then cp_c_id ps else c)"
  define f' where "f' = (if is_client con then f OR NEWPROTOCOL else f)"
  define ds where "ds = pieces pr (max_content (is_client con)) t d"
  define fs where "fs = piece_flags f' (fst (packed pr (max_content (is_client con)) d)) (length ds)"
  have run': "act_map (encode_one pr t False True)
      (map (\<lambda>(g, d'). \<lparr>op_dir = dir, op_data = hdr dir mac i c' g t @ d'\<rparr>) (zip fs ds)) con = (Ok us, con')"
    using encode_command_unfold [OF packet ps con(1,3,4) c'_def f'_def ds_def fs_def] run by simp
  have len: "length (zip fs ds) = length ds" by (simp add: fs_def)
  have "length us = length (zip fs ds)" using run' by (metis act_map_length length_map)
  moreover have "\<forall>(g, d') \<in> set (zip fs ds). valid_flags g"
    using packet(2) by (auto simp: fs_def f'_def piece_flags_def dest!: set_zip_leftD)
  moreover have "t \<noteq> Init" using packet(3) by auto
  ultimately have "length us = length (zip fs ds) \<and>
    (\<forall>k < length (zip fs ds).
       seals pr iv dir t c' (fst (zip fs ds ! k)) (nth_id (next_out t con) k) (snd (zip fs ds ! k)) (ou_data (us ! k)) \<and>
       ou_generation_id (us ! k) = generation_id (nth_id (next_out t con) (Suc k))) \<and>
    next_out t con' = nth_id (next_out t con) (length (zip fs ds)) \<and> wf_codec (codec con') \<and> con_cache_ok pr iv con'"
    using gens by (intro encode_all_seals [OF laws packet(1) _ _ _ con(1,2) run']) simp_all
  then show ?thesis
    using len by (intro that [OF ds_def fs_def [unfolded f'_def], of c']) (simp_all add: fs_def)
qed

text \<open>When the cipher accepts every length, encoding a command of an established connection succeeds.\<close>

definition cipher_total :: "primitives \<Rightarrow> bool" where
  "cipher_total pr \<longleftrightarrow> (\<forall>k n m d. eax_encrypt pr k n m d \<noteq> None)"

lemma encode_one_Ok:
  assumes "primitives_laws pr" "cipher_total pr" "length mac = 8" "valid_flags f" "t \<noteq> Init"
    "generation_id (next_out t con) \<noteq> - 1" "wf_codec (codec con)" "con_cache_ok pr iv con"
  shows "\<exists>u con'. encode_one pr t False True \<lparr>op_dir = dir, op_data = hdr dir mac i c f t @ d\<rparr> con = (Ok u, con')"
proof -
  obtain ps where ps: "params con = Some ps" "cp_shared_iv ps = iv" "cache_inv pr iv (cp_key_cache ps)"
    using assms(8) by (auto simp: con_cache_ok_def)
  let ?p = "\<lparr>op_dir = dir, op_data = hdr dir mac (packet_id (next_out t con)) c f t @ d\<rparr>"
  let ?cid = "if dir = C2S then Some c else None"
  obtain key nonce where kn0: "key_nonce_spec pr t (?cid \<noteq> None) (packet_id (next_out t con))
      (generation_id (next_out t con)) iv = (key, nonce)" by fastforce
  obtain c1 where kn: "create_key_nonce pr t ?cid (packet_id (next_out t con))
      (generation_id (next_out t con)) iv (cp_key_cache ps) = (Ok ((key, nonce), c1) :: (_, tsproto_error) outcome)"
    using create_key_nonce_spec [OF ps(3) assms(5,6), of ?cid "packet_id (next_out t con)"]
    unfolding kn0 by blast
  obtain e m where "eax_encrypt pr key nonce (drop 8 (hdr dir (replicate 8 0) (packet_id (next_out t con)) c f t)) d = Some (e, m)"
    using assms(2) by (fastforce simp: cipher_total_def)
  then obtain q where "encrypt_key_nonce pr key nonce ?p = Ok q"
    using encrypt_key_nonce_hdr [OF assms(1,3)] by blast
  then have "encrypt pr ?p (generation_id (next_out t con)) iv (cp_key_cache ps) = (Ok (Ok q, c1) :: (_, tsproto_error) outcome)"
    using kn assms(3,4) by (simp add: encrypt_def)
  then show ?thesis
    using assms(3-5,7) ps
    by (simp add: encode_one_def encrypt_with_params_def next_out_def wf_codec_def packet_type_index_less
        act_then.simps act_lift_def Let_def)
qed

lemma encode_all_Ok:
  assumes "primitives_laws pr" "cipher_total pr" "length mac = 8" "t \<noteq> Init" "\<forall>(g, d) \<in> set fds. valid_flags g"
    and "\<forall>k < length fds. generation_id (nth_id (next_out t con) k) \<noteq> - 1"
    and "wf_codec (codec con)" "con_cache_ok pr iv con"
  shows "\<exists>us con'. act_map (encode_one pr t False True)
      (map (\<lambda>(g, d). \<lparr>op_dir = dir, op_data = hdr dir mac i c g t @ d\<rparr>) fds) con = (Ok us, con')"
  using assms(5-)
proof (induction fds arbitrary: con)
  case (Cons fd fds)
  obtain g d where fd: "fd = (g, d)" by (cases fd)
  have vg: "valid_flags g" using Cons.prems(1) fd by simp
  have gen: "generation_id (next_out t con) \<noteq> - 1" using spec [OF Cons.prems(2), of 0] by simp
  obtain u con1 where one: "encode_one pr t False True \<lparr>op_dir = dir, op_data = hdr dir mac i c g t @ d\<rparr> con = (Ok u, con1)"
    using encode_one_Ok [OF assms(1-3) vg assms(4) gen Cons.prems(3,4)] by blast
  note step = encode_one_seals [OF assms(1,3) vg assms(4) gen Cons.prems(3,4) one]
  have "\<forall>k < length fds. generation_id (nth_id (next_out t con1) k) \<noteq> - 1"
    using Cons.prems(2) step by auto
  with Cons.IH [OF _ this] Cons.prems(1) step obtain us con' where "act_map (encode_one pr t False True)
      (map (\<lambda>(g, d). \<lparr>op_dir = dir, op_data = hdr dir mac i c g t @ d\<rparr>) fds) con1 = (Ok us, con')"
    by auto
  with one show ?case unfolding fd list.map prod.case act_map_Cons_Ok by blast
qed simp

lemma encode_command_Ok:
  assumes "primitives_laws pr" "cipher_total pr"
    and packet: "length mac = 8" "valid_flags f" "t = Command \<or> t = CommandLow"
    and con: "wf_codec (codec con)" "con_cache_ok pr iv con" "dir = out_dir con" "\<not> handshake_command con t d"
    and gens: "\<forall>k < length (pieces pr (max_content (is_client con)) t d). generation_id (nth_id (next_out t con) k) \<noteq> - 1"
  shows "\<exists>us con'. encode_packet pr \<lparr>op_dir = dir, op_data = hdr dir mac i c f t @ d\<rparr> con = (Ok us, con') \<and>
    length us = length (pieces pr (max_content (is_client con)) t d)"
proof -
  obtain ps where ps: "params con = Some ps" using con(2) by (auto simp: con_cache_ok_def)
  note un = encode_command_unfold [OF packet ps con(1,3,4) refl refl refl refl, of pr i c]
  let ?ds = "pieces pr (max_content (is_client con)) t d"
  let ?fs = "piece_flags (if is_client con then f OR NEWPROTOCOL else f)
    (fst (packed pr (max_content (is_client con)) d)) (length ?ds)"
  have "t \<noteq> Init" using packet(3) by auto
  moreover have "\<forall>(g, d') \<in> set (zip ?fs ?ds). valid_flags g"
    using packet(2) by (auto simp: piece_flags_def dest!: set_zip_leftD)
  ultimately obtain us con' where "encode_packet pr \<lparr>op_dir = dir, op_data = hdr dir mac i c f t @ d\<rparr> con = (Ok us, con')"
    unfolding un using encode_all_Ok [OF assms(1,2) packet(1) _ _ _ con(1,2)] gens by fastforce
  moreover from this have "length us = length ?ds" unfolding un by (auto dest!: act_map_length)
  ultimately show ?thesis by blast
qed

section \<open>Properties of the encoding\<close>

text \<open>
  C13 (commands are sealed and numbered): when \<open>encode_packet\<close> encodes a command of an established
  connection that is not one of the two handshake commands, it yields at least one datagram, none of
  them with the unencrypted flag; the contents of the datagrams are sealed for the generation of their
  ids, which count on from the next outgoing id without a gap, and the next outgoing id is behind the
  last one. The generation that a datagram is filed under is that of the id that follows its own: for
  the id \<open>0xFFFF\<close> it is one too high.
\<close>

theorem encode_command_seals:
  assumes "primitives_laws pr"
    and "length mac = 8" "valid_flags f" "f AND UNENCRYPTED = 0" "t = Command \<or> t = CommandLow"
    and "wf_codec (codec con)" "con_cache_ok pr iv con" "dir = out_dir con" "\<not> handshake_command con t d"
    and "encode_packet pr \<lparr>op_dir = dir, op_data = hdr dir mac i c f t @ d\<rparr> con = (Ok us, con')"
    and "\<forall>k < length us. generation_id (nth_id (next_out t con) k) \<noteq> - 1"
  shows "us \<noteq> [] \<and> next_out t con' = nth_id (next_out t con) (length us) \<and>
    (\<forall>k < length us. \<exists>c' g d'. \<not> flags_contains g UNENCRYPTED \<and>
       seals pr iv dir t c' g (nth_id (next_out t con) k) d' (ou_data (us ! k)) \<and>
       ou_generation_id (us ! k) = generation_id (ppid_add (nth_id (next_out t con) k) 1))"
proof -
  obtain c' ds fs where e: "ds = pieces pr (max_content (is_client con)) t d"
    "fs = piece_flags (if is_client con then f OR NEWPROTOCOL else f)
       (fst (packed pr (max_content (is_client con)) d)) (length ds)" "length us = length ds"
    "\<forall>k < length ds. seals pr iv dir t c' (fs ! k) (nth_id (next_out t con) k) (ds ! k) (ou_data (us ! k)) \<and>
       ou_generation_id (us ! k) = generation_id (nth_id (next_out t con) (Suc k))"
    "next_out t con' = nth_id (next_out t con) (length ds)"
    by (rule encode_command_pieces [OF assms(1-3,5-11)])
  have "\<not> flags_contains (fs ! k) UNENCRYPTED" if "k < length ds" for k
    using that assms(4) by (auto simp: e(2) piece_flags_def frag_flags_def Let_def flags_contains_def
        UNENCRYPTED_def COMPRESSED_def NEWPROTOCOL_def FRAGMENTED_def bit.conj_disj_distrib2)
  moreover have "nth_id p (Suc k) = ppid_add (nth_id p k) 1" for p k by (simp add: nth_id_def)
  ultimately show ?thesis
    using e(1,3-5) by (metis length_0_conv pieces_not_Nil)
qed

text \<open>An established client and a server that expects its first command.\<close>

definition example_socket :: socket where
  "example_socket = \<lparr>send_answers = [], recv_answers = [], sent_datagrams = []\<rparr>"

definition example_client :: connection where
  "example_client = (connection_new 0 True ''server'' example_socket)
     \<lparr>params := Some (connected_params_new [] [1] (replicate 8 0))\<rparr>"

definition example_server :: connection where
  "example_server = (connection_new 0 False ''client'' example_socket)
     \<lparr>params := Some (connected_params_new [] [1] (replicate 8 0))\<rparr>"

lemma example_client_simps:
  "wf_codec (codec example_client)" "con_cache_ok pr [1] example_client" "C2S = out_dir example_client"
  "next_out Command example_client = PartialPacketId 0 1" "\<not> handshake_command example_client Command [65]"
  by (simp_all add: example_client_def connection_new_def wf_codec_def packet_codec_default_def Let_def
      con_cache_ok_def connected_params_new_def out_dir_def next_out_def handshake_command_def
      packet_type_index_def starts_with_def ascii_def)

lemma example_server_simps:
  "wf_codec (codec example_server)" "in_dir example_server = C2S"
  "queues_of Command example_server = \<lparr>q_next = PartialPacketId 0 1, q_frag = None, q_receive = []\<rparr>"
  by (simp_all add: example_server_def connection_new_def wf_codec_def packet_codec_default_def Let_def
      in_dir_def queues_of_def cmd_index_def packet_type_index_def)

lemma toy_cipher_total [simp]: "cipher_total toy_primitives"
  by (simp add: cipher_total_def toy_primitives_def)

lemma example_encoded:
  "\<exists>us con'. encode_packet toy_primitives \<lparr>op_dir = C2S, op_data = hdr C2S (replicate 8 0) 0 0 0 Command @ [65]\<rparr>
     example_client = (Ok us, con') \<and> length us = 1"
proof -
  have one: "length (pieces toy_primitives (max_content (is_client example_client)) Command [65]) = 1"
    by (simp add: pieces_def packed_def Let_def example_client_def connection_new_def)
  show ?thesis
    using encode_command_Ok [OF toy_primitives_laws toy_cipher_total _ _ _ example_client_simps(1,2,3,5),
        of "replicate 8 0" 0 0 0] one
    by (simp add: example_client_simps(4))
qed

theorem encode_command_seals_witness:
  "\<exists>us con'. encode_packet toy_primitives \<lparr>op_dir = C2S, op_data = hdr C2S (replicate 8 0) 0 0 0 Command @ [65]\<rparr>
     example_client = (Ok us, con') \<and> us \<noteq> [] \<and> next_out Command con' = nth_id (PartialPacketId 0 1) (length us)"
proof -
  obtain us con' where us: "encode_packet toy_primitives
      \<lparr>op_dir = C2S, op_data = hdr C2S (replicate 8 0) 0 0 0 Command @ [65]\<rparr> example_client = (Ok us, con')"
    "length us = 1" using example_encoded by blast
  then show ?thesis
    using encode_command_seals [OF toy_primitives_laws _ _ _ _ example_client_simps(1,2,3,5) us(1)]
    by (simp add: example_client_simps(4))
qed

text \<open>
  C6 (a command reaches the other side): a command of an established connection is encoded into
  datagrams, in any size up to the fragment limit, and the other side, which expects the id that the
  command starts with, opens the datagrams, each once, in any order within the queue window, and hands
  on exactly one command: the one that was sent.
\<close>

theorem sent_command_received:
  assumes laws: "primitives_laws pr"
    and packet: "length mac = 8" "valid_flags f" "f AND COMPRESSED = 0" "f AND FRAGMENTED = 0" "t = Command \<or> t = CommandLow"
    and con: "wf_codec (codec con)" "con_cache_ok pr iv con" "dir = out_dir con" "\<not> handshake_command con t d"
    and run: "encode_packet pr \<lparr>op_dir = dir, op_data = hdr dir mac i c f t @ d\<rparr> con = (Ok us, con')"
    and gens: "\<forall>k < length us. generation_id (nth_id (next_out t con) k) \<noteq> - 1"
    and size: "header_len dir + length d \<le> MAX_FRAGMENTS_LENGTH"
    and peer: "wf_codec (codec peer)" "in_dir peer = dir"
      "queues_of t peer = \<lparr>q_next = next_out t con, q_frag = None, q_receive = []\<rparr>"
    and arr: "distinct arr" "set arr = {..<length us}"
      "\<forall>k < length arr. \<forall>i. i + 200 \<le> arr ! k \<longrightarrow> i \<in> set (take k arr)"
  shows "\<exists>os peer' mac' c' g. act_map (handle_command_packet pr)
      (map (\<lambda>k. the (open_datagram pr iv dir (generation_id (nth_id (next_out t con) k))
         (op_data (ou_data (us ! k))))) arr) peer = (Ok os, peer') \<and>
    concat os = [hdr dir mac' (packet_id (next_out t con)) c' g t @ d]"
proof -
  obtain c' ds fs where e: "ds = pieces pr (max_content (is_client con)) t d"
    "fs = piece_flags (if is_client con then f OR NEWPROTOCOL else f)
       (fst (packed pr (max_content (is_client con)) d)) (length ds)" "length us = length ds"
    "\<forall>k < length ds. seals pr iv dir t c' (fs ! k) (nth_id (next_out t con) k) (ds ! k) (ou_data (us ! k)) \<and>
       ou_generation_id (us ! k) = generation_id (nth_id (next_out t con) (Suc k))"
    "next_out t con' = nth_id (next_out t con) (length ds)"
    by (rule encode_command_pieces [OF laws packet(1,2,5) con run gens])
  let ?f = "if is_client con then f OR NEWPROTOCOL else f"
  have f: "valid_flags ?f" using packet(2) by simp
  have f2: "?f AND COMPRESSED = 0" "?f AND FRAGMENTED = 0"
    using packet(3,4) by (auto simp: NEWPROTOCOL_def COMPRESSED_def FRAGMENTED_def bit.conj_disj_distrib2)
  have "\<forall>k. \<exists>m. length m = 8 \<and> (k < length ds \<longrightarrow>
      open_datagram pr iv dir (generation_id (nth_id (next_out t con) k)) (op_data (ou_data (us ! k)))
        = Some (hdr dir m (packet_id (next_out t con) + of_nat k) c' (fs ! k) t @ ds ! k))"
  proof
    fix k
    show "\<exists>m. length m = 8 \<and> (k < length ds \<longrightarrow>
      open_datagram pr iv dir (generation_id (nth_id (next_out t con) k)) (op_data (ou_data (us ! k)))
        = Some (hdr dir m (packet_id (next_out t con) + of_nat k) c' (fs ! k) t @ ds ! k))"
    proof (cases "k < length ds")
      case True
      then have "valid_flags (fs ! k)" using f by (simp add: e(2) piece_flags_def)
      then show ?thesis using seals_open [OF conjunct1 [OF mp [OF spec [OF e(4)] True]]] by (metis nth_id_simps(3))
    next
      case False
      then show ?thesis by (intro exI [of _ "replicate 8 0"]) simp
    qed
  qed
  then obtain macs where macs: "\<forall>k. length (macs k) = 8" "\<forall>k < length ds.
      open_datagram pr iv dir (generation_id (nth_id (next_out t con) k)) (op_data (ou_data (us ! k)))
        = Some (hdr dir (macs k) (packet_id (next_out t con) + of_nat k) c' (fs ! k) t @ ds ! k)"
    by metis
  have "map (\<lambda>k. the (open_datagram pr iv dir (generation_id (nth_id (next_out t con) k))
         (op_data (ou_data (us ! k))))) arr
      = map (\<lambda>k. hdr dir (macs k) (packet_id (next_out t con) + of_nat k) c' (fs ! k) t @ ds ! k) arr"
    using arr(2) macs(2) by (intro map_cong refl) (simp add: e(3))
  moreover note pieces_arrive [OF laws f f2 packet(5) e(1,2) size peer macs(1) arr(1) _ arr(3), of c']
  ultimately show ?thesis using arr(2) e(3) by metis
qed

theorem sent_command_received_witness:
  "\<exists>us con' os peer' mac' c' g. encode_packet toy_primitives
       \<lparr>op_dir = C2S, op_data = hdr C2S (replicate 8 0) 0 0 0 Command @ [65]\<rparr> example_client = (Ok us, con') \<and>
     act_map (handle_command_packet toy_primitives)
       (map (\<lambda>k. the (open_datagram toy_primitives [1] C2S (generation_id (nth_id (PartialPacketId 0 1) k))
          (op_data (ou_data (us ! k))))) [0]) example_server = (Ok os, peer') \<and>
     concat os = [hdr C2S mac' 1 c' g Command @ [65]]"
proof -
  obtain us con' where us: "encode_packet toy_primitives
      \<lparr>op_dir = C2S, op_data = hdr C2S (replicate 8 0) 0 0 0 Command @ [65]\<rparr> example_client = (Ok us, con')"
    "length us = 1" using example_encoded by blast
  have arr: "distinct [0 :: nat]" "set [0 :: nat] = {..<length us}"
    "\<forall>k < length [0 :: nat]. \<forall>i. i + 200 \<le> [0 :: nat] ! k \<longrightarrow> i \<in> set (take k [0])"
    using us(2) by (simp_all add: lessThan_Suc)
  have size: "header_len C2S + length [65 :: u8] \<le> MAX_FRAGMENTS_LENGTH" by (simp add: MAX_FRAGMENTS_LENGTH_def)
  have peer: "queues_of Command example_server
      = \<lparr>q_next = next_out Command example_client, q_frag = None, q_receive = []\<rparr>"
    by (simp add: example_server_simps(3) example_client_simps(4))
  show ?thesis
    using sent_command_received [OF toy_primitives_laws _ _ _ _ _ example_client_simps(1,2,3,5) us(1) _ size
        example_server_simps(1,2) peer arr] us
    by (simp del: act_map.simps list.map add: example_client_simps(4))
qed

end
