(* ===== verification/Resender.thy ===== *)
theory Resender
  imports Connection_State
begin

text \<open>
  The resender (\<open>tsproto/src/resend.rs\<close>): it keeps every init and command packet until it is
  acknowledged, decides which of them are in flight, sends them again after the retransmission timeout
  and keeps the statistics. This theory holds the queues, the acknowledgements, the congestion window and
  \<open>poll_resend\<close>; \<open>poll_ping\<close>, which sends packets, is in the theory \<open>Connection\<close>.

  \<open>full_send_queue\<close> holds all packets that are not acknowledged, per type and ordered by id;
  \<open>send_queue\<close> is a binary heap of the ones in flight, here a list from which the first greatest element
  is taken. The loop of \<open>poll_resend\<close> is a partial function: \<open>None\<close> means that it does not return.
\<close>

section \<open>Statistics\<close>

definition packet_stat_from :: "packet_type \<Rightarrow> bool \<Rightarrow> packet_stat" where
  "packet_stat_from t incoming =
     (case t of
        Voice \<Rightarrow> if incoming then InSpeech else OutSpeech
      | VoiceWhisper \<Rightarrow> if incoming then InSpeech else OutSpeech
      | Command \<Rightarrow> if incoming then InControl else OutControl
      | CommandLow \<Rightarrow> if incoming then InControl else OutControl
      | Ack_T \<Rightarrow> if incoming then InControl else OutControl
      | AckLow \<Rightarrow> if incoming then InControl else OutControl
      | Init \<Rightarrow> if incoming then InControl else OutControl
      | Ping \<Rightarrow> if incoming then InKeepalive else OutKeepalive
      | Pong \<Rightarrow> if incoming then InKeepalive else OutKeepalive)"

text \<open>\<open>xs[i] += d\<close>.\<close>

definition bump :: "nat \<Rightarrow> 'n::len word \<Rightarrow> 'n word list \<Rightarrow> ('n word list, 'e) outcome" where
  "bump i d xs = and_then (index xs i) (\<lambda>x. and_then (checked_plus x d) (\<lambda>y. Ok (xs[i := y])))"

definition count_loss :: "packet_loss_stat \<Rightarrow> u32 \<Rightarrow> stats_counter \<Rightarrow> (stats_counter, 'e) outcome" where
  "count_loss s d c =
     and_then (bump (packet_loss_index s) d (sc_packet_loss c)) (\<lambda>xs. Ok (c\<lparr>sc_packet_loss := xs\<rparr>))"

definition count_bytes :: "packet_stat \<Rightarrow> u32 \<Rightarrow> stats_counter \<Rightarrow> (stats_counter, 'e) outcome" where
  "count_bytes s d c = and_then (bump (packet_stat_index s) d (sc_bytes c)) (\<lambda>xs. Ok (c\<lparr>sc_bytes := xs\<rparr>))"

text \<open>The totals of \<open>ConnectionStats\<close>.\<close>

definition count_total :: "packet_stat \<Rightarrow> u64 \<Rightarrow> connection_stats \<Rightarrow> (connection_stats, 'e) outcome" where
  "count_total s d st =
     and_then (bump (packet_stat_index s) 1 (total_packets st)) (\<lambda>ps.
     and_then (bump (packet_stat_index s) d (total_bytes st)) (\<lambda>bs.
     Ok (st\<lparr>total_packets := ps, total_bytes := bs\<rparr>)))"

text \<open>The length of a datagram with its UDP and IP headers.\<close>

definition datagram_len :: "nat \<Rightarrow> (u32, 'e) outcome" where
  "datagram_len n =
     and_then (checked_plus (of_nat n) UDP_HEADER_SIZE) (\<lambda>x. checked_plus x IPV4_HEADER_SIZE)"

text \<open>The counters for received packets of a type; the third branch is the code's.\<close>

definition loss_stats_in :: "packet_type \<Rightarrow> (packet_loss_stat \<times> packet_loss_stat) option" where
  "loss_stats_in t =
     (if is_voice t then Some (VoiceInCount, VoiceInLost)
      else if is_ack t then Some (AckInCount, AckInLost)
      else if t = Pong then Some (PongInCount, PongInLost)
      else if t = Ping then Some (PingInCount, PingInLost)
      else None)"

definition handle_loss_incoming :: "in_packet \<Rightarrow> bool \<Rightarrow> u16 \<Rightarrow> resender \<Rightarrow> (resender, 'e) outcome" where
  "handle_loss_incoming packet in_recv_win cur_next res =
     and_then (h_packet_type (ip_header packet)) (\<lambda>p_type.
     and_then (h_packet_id (ip_header packet)) (\<lambda>i.
     let id_diff = ucast (i - cur_next) :: u32; p_stat = packet_stat_from p_type True in
     and_then (datagram_len (length (ih_data (ip_header packet)) + length (ip_content packet))) (\<lambda>len.
     and_then (count_bytes p_stat len (stats_counter res)) (\<lambda>counter.
     and_then (count_total p_stat (ucast len) (stats res)) (\<lambda>st.
     and_then
       (case loss_stats_in p_type of
          None \<Rightarrow> Ok counter
        | Some (count, lost) \<Rightarrow>
            if in_recv_win then
              and_then (checked_plus id_diff 1) (\<lambda>d.
              and_then (count_loss count d counter) (count_loss lost id_diff))
            else
              and_then (index (sc_packet_loss counter) (packet_loss_index lost)) (\<lambda>x.
              Ok (counter\<lparr>sc_packet_loss :=
                (sc_packet_loss counter)[packet_loss_index lost := saturating_sub x 1]\<rparr>))) (\<lambda>counter.
     Ok (res\<lparr>stats_counter := counter, stats := st\<rparr>)))))))"

definition counter_loss_outgoing ::
  "packet_type \<Rightarrow> packet_stat \<Rightarrow> u32 \<Rightarrow> stats_counter \<Rightarrow> (stats_counter, 'e) outcome" where
  "counter_loss_outgoing p_type p_stat len c =
     and_then (count_bytes p_stat len c) (\<lambda>c.
     if is_ack p_type then count_loss AckOutCount 1 c
     else if p_type = Ping then count_loss PingOutCount 1 c
     else if is_command p_type then count_loss CommandOutCount 1 c
     else Ok c)"

definition handle_loss_outgoing :: "out_udp_packet \<Rightarrow> resender \<Rightarrow> (resender, 'e) outcome" where
  "handle_loss_outgoing u res =
     and_then (udp_packet_type u) (\<lambda>p_type.
     let p_stat = packet_stat_from p_type False in
     and_then (datagram_len (length (op_data (ou_data u)))) (\<lambda>len.
     and_then (counter_loss_outgoing p_type p_stat len (stats_counter res)) (\<lambda>c.
     and_then (count_total p_stat (ucast len) (stats res)) (\<lambda>st.
     Ok (res\<lparr>stats_counter := c, stats := st\<rparr>)))))"

definition handle_loss_resend_ack :: "resender \<Rightarrow> (resender, 'e) outcome" where
  "handle_loss_resend_ack res =
     and_then (count_loss AckOutLost 1 (stats_counter res)) (\<lambda>c. Ok (res\<lparr>stats_counter := c\<rparr>))"

definition handle_loss_resend_command :: "stats_counter \<Rightarrow> (stats_counter, 'e) outcome" where
  "handle_loss_resend_command = count_loss AckInOrCommandOutLost 1"

definition get_last_second_bytes :: "connection_stats \<Rightarrow> (u32 list, 'e) outcome" where
  "get_last_second_bytes st =
     and_then (checked_plus (next_second_index st) 60) (\<lambda>x.
     and_then (checked_minus x 1) (\<lambda>x.
     index (last_second_bytes st) (unat (x mod 60))))"

definition get_last_minute_bytes :: "connection_stats \<Rightarrow> u64 list" where
  "get_last_minute_bytes st =
     foldl (\<lambda>acc bs. map2 (\<lambda>a b. a + ucast b) acc bs) (replicate 6 0) (last_second_bytes st)"

section \<open>State, timeouts and the window\<close>

definition received_packet :: "env \<Rightarrow> resender \<Rightarrow> resender" where
  "received_packet env res = res\<lparr>last_receive := now env\<rparr>"

definition get_timeout :: "resender \<Rightarrow> nat" where
  "get_timeout res =
     (case res_state res of
        Connecting \<Rightarrow> connecting_timeout (config res)
      | Disconnecting \<Rightarrow> disconnect_timeout (config res)
      | Disconnected \<Rightarrow> disconnect_timeout (config res)
      | Connected \<Rightarrow> normal_timeout (config res))"

definition set_state :: "env \<Rightarrow> resender_state \<Rightarrow> resender \<Rightarrow> resender" where
  "set_state env st res =
     (let res = res\<lparr>res_state := st, last_send := now env\<rparr>
      in res\<lparr>res_timers := (res_timers res)\<lparr>t_state_timeout := last_send res + get_timeout res\<rparr>\<rparr>)"

text \<open>
  The window is the value of the CUBIC expression for the time since the last loss (\<open>cubic\<close>), cut to
  \<open>1 .. u16::MAX / 2\<close>. A value that is not a number passes both comparisons and becomes 0.
\<close>

definition get_window :: "env \<Rightarrow> resender \<Rightarrow> u16" where
  "get_window env res =
     (let time = (case no_congestion_since res of Some t \<Rightarrow> t | None \<Rightarrow> now env) - last_loss res
      in case cubic env time (w_max res) of
           None \<Rightarrow> 0
         | Some r \<Rightarrow> if r > 32767 then 32767 else if r < 1 then 1 else of_int r)"

definition is_full :: "env \<Rightarrow> resender \<Rightarrow> bool" where
  "is_full env res \<longleftrightarrow> unat (get_window env res) \<le> length (full_send_queue res)"

definition is_empty :: "resender \<Rightarrow> bool" where
  "is_empty res \<longleftrightarrow> list_all (\<lambda>q. q = []) (full_send_queue res)"

definition abs_diff :: "nat \<Rightarrow> nat \<Rightarrow> nat" where
  "abs_diff a b = (if a > b then a - b else b - a)"

definition update_srtt :: "nat \<Rightarrow> resender \<Rightarrow> resender" where
  "update_srtt r res =
     (let c = config res;
          d = abs_diff r (srtt c);
          c = c\<lparr>srtt_dev := srtt_dev c * 3 div 4 + d div 4\<rparr>;
          c = c\<lparr>srtt := srtt c * 7 div 8 + r div 8\<rparr>;
          st = stats res;
          d = abs_diff r (rtt st);
          st = st\<lparr>rtt_dev := rtt_dev st * 3 div 4 + d div 4\<rparr>;
          st = st\<lparr>rtt := rtt st div 2 + r div 2\<rparr>
      in res\<lparr>config := c, stats := st\<rparr>)"

section \<open>Queues\<close>

definition packet_type_to_index :: "packet_type \<Rightarrow> (nat, 'e) outcome" where
  "packet_type_to_index t =
     (case t of Init \<Rightarrow> Ok 0 | Command \<Rightarrow> Ok 1 | CommandLow \<Rightarrow> Ok 2 | _ \<Rightarrow> Panic)"

definition rec_part :: "send_record \<Rightarrow> partial_packet_id" where
  "rec_part r = pid_part (sr_id (rec_id r))"

text \<open>The iteration over the heads of the three queues; \<open>min_time\<close> has the code's name.\<close>

fun choose_from :: "send_record list list \<Rightarrow> nat \<Rightarrow> (nat \<times> nat) option \<Rightarrow> nat option" where
  "choose_from [] i best = map_option fst best"
| "choose_from ([] # iters) i best = choose_from iters (Suc i) best"
| "choose_from ((r # rs) # iters) i best =
     choose_from iters (Suc i)
       (case best of
          None \<Rightarrow> Some (i, rec_sent r)
        | Some (max_i, min_time) \<Rightarrow> if min_time < rec_sent r then Some (i, rec_sent r) else best)"

primrec fill_loop ::
  "nat \<Rightarrow> send_record list list \<Rightarrow> partial_packet_id list \<Rightarrow> send_record_id list
     \<Rightarrow> bool \<times> partial_packet_id list \<times> send_record_id list" where
  "fill_loop 0 iters indices queue = (True, indices, queue)"
| "fill_loop (Suc n) iters indices queue =
     (case choose_from iters 0 None of
        None \<Rightarrow> (False, indices, queue)
      | Some i \<Rightarrow>
          let r = hd (iters ! i)
          in fill_loop n (iters[i := tl (iters ! i)]) (indices[i := ppid_add (rec_part r) 1])
               (queue @ [rec_id r]))"

definition queue_iters :: "resender \<Rightarrow> send_record list list" where
  "queue_iters res =
     map (\<lambda>i. dropWhile (\<lambda>r. rec_part r < send_queue_indices res ! i) (map snd (full_send_queue res ! i)))
       [0, 1, 2]"

definition fill_up_send_queue :: "env \<Rightarrow> resender \<Rightarrow> resender" where
  "fill_up_send_queue env res =
     (case fill_loop (unat (get_window env res) - length (send_queue res)) (queue_iters res)
         (send_queue_indices res) (send_queue res) of
        (filled, indices, queue) \<Rightarrow>
          let res = res\<lparr>send_queue_indices := indices, send_queue := queue\<rparr> in
          if filled then
            (case no_congestion_since res of
               Some until \<Rightarrow> res\<lparr>no_congestion_since := None, last_loss := now env - (until - last_loss res)\<rparr>
             | None \<Rightarrow> res)
          else
            (case no_congestion_since res of
               None \<Rightarrow> res\<lparr>no_congestion_since := Some (now env)\<rparr>
             | Some _ \<Rightarrow> res))"

definition rebuild_send_queue :: "env \<Rightarrow> resender \<Rightarrow> resender" where
  "rebuild_send_queue env res =
     fill_up_send_queue env (res\<lparr>send_queue := [], send_queue_indices := replicate 3 ppid_default\<rparr>)"

section \<open>Sending and acknowledging\<close>

definition resender_send :: "env \<Rightarrow> out_udp_packet \<Rightarrow> (resender, unit, 'e) action" where
  "resender_send env packet =
     act_then (act_modify (last_send_update (\<lambda>_. now env))) (\<lambda>_.
     act_then (act_lift (packet_id_of packet)) (\<lambda>pid.
     let rec = \<lparr>rec_sent = now env, rec_id = \<lparr>sr_last = now env, sr_tries = 0, sr_id = pid\<rparr>,
                rec_packet = packet\<rparr> in
     act_then (act_lift (packet_type_to_index (pid_type pid))) (\<lambda>i.
     act_then (act_modify (\<lambda>res.
       if pid_part pid < send_queue_indices res ! i
       then res\<lparr>send_queue_indices := (send_queue_indices res)[i := pid_part pid]\<rparr> else res)) (\<lambda>_.
     act_then (act_modify (\<lambda>res.
       res\<lparr>full_send_queue := (full_send_queue res)[i := bt_insert (pid_part pid) rec (full_send_queue res ! i)]\<rparr>)) (\<lambda>_.
     act_modify (fill_up_send_queue env))))))"

definition ack_ping :: "env \<Rightarrow> u16 \<Rightarrow> resender \<Rightarrow> resender" where
  "ack_ping env p_id res =
     (case binary_search env (map (packet_id \<circ> ping_id) (last_pings res)) p_id of
        None \<Rightarrow> res
      | Some i \<Rightarrow>
          let ping = last_pings res ! i;
              res = res\<lparr>last_pings := take i (last_pings res) @ drop (Suc i) (last_pings res)\<rparr>
          in update_srtt (now env - ping_sent ping) res)"

text \<open>
  An ack for \<open>p_id\<close>: the key to remove, and the id up to which everything is acknowledged when the
  ack is for the first packet of the queue.
\<close>

definition ack_target ::
  "packet_type \<Rightarrow> u16 \<Rightarrow> partial_packet_id list \<Rightarrow> send_map
     \<Rightarrow> ((partial_packet_id \<times> packet_id_t option) option, 'e) outcome" where
  "ack_target p_type p_id outgoing queue =
     (case queue of
        [] \<Rightarrow> Ok None
      | (first, _) # rest \<Rightarrow>
          if packet_id first = p_id then
            and_then
              (case rest of
                 (_, rec2) # _ \<Rightarrow> Ok (rec_part rec2)
               | [] \<Rightarrow>
                   if p_type = Init then and_then (checked_plus p_id 1) (\<lambda>i. Ok (PartialPacketId 0 i))
                   else index outgoing (packet_type_index p_type)) (\<lambda>next.
            Ok (Some (first, Some \<lparr>pid_type = p_type, pid_part = ppid_sub next 1\<rparr>)))
          else
            Ok (Some (PartialPacketId
              (if p_id < packet_id first then generation_id first + 1 else generation_id first) p_id, None)))"

definition ack_removed :: "env \<Rightarrow> nat \<Rightarrow> partial_packet_id \<Rightarrow> resender \<Rightarrow> resender" where
  "ack_removed env i k res =
     (case bt_get (full_send_queue res ! i) k of
        None \<Rightarrow> res
      | Some rec \<Rightarrow>
          let res = res\<lparr>full_send_queue := (full_send_queue res)[i := bt_remove k (full_send_queue res ! i)]\<rparr>
          in if sr_tries (rec_id rec) = 1 then update_srtt (now env - rec_sent rec) res else res)"

definition resender_ack :: "env \<Rightarrow> packet_type \<Rightarrow> u16 \<Rightarrow> unit con_action" where
  "resender_ack env p_type p_id =
     (if p_type = Ping then act_modify (resender_update (ack_ping env p_id))
      else
        act_then (act_lift (packet_type_to_index p_type)) (\<lambda>i.
        act_then (act_read id) (\<lambda>con.
        act_then (act_lift (ack_target p_type p_id (outgoing_p_ids (codec con)) (full_send_queue (resender con) ! i))) (\<lambda>r.
        case r of
          None \<Rightarrow> act_return ()
        | Some (k, item) \<Rightarrow>
            act_then (case item of None \<Rightarrow> act_return () | Some pid \<Rightarrow> push_item (AckPacketItem pid)) (\<lambda>_.
            act_modify (resender_update (ack_removed env i k)))))))"

section \<open>Resending\<close>

text \<open>A call of \<open>poll_send_to\<close>; a datagram that is sent in part is an error.\<close>

definition poll_send_udp_packet :: "out_udp_packet \<Rightarrow> unit poll con_action" where
  "poll_send_udp_packet packet =
     act_then (act_read (send_answers \<circ> udp_socket)) (\<lambda>answers.
     let d = op_data (ou_data packet) in
     case answers of
       [] \<Rightarrow> act_return Pending
     | None # as \<Rightarrow>
         act_then (act_modify (udp_socket_update (send_answers_update (\<lambda>_. as)))) (\<lambda>_. act_fail Network)
     | Some n # as \<Rightarrow>
         act_then (act_modify (udp_socket_update
           (\<lambda>s. s\<lparr>send_answers := as, sent_datagrams := sent_datagrams s @ [d]\<rparr>))) (\<lambda>_.
         act_then (send_event (SendUdpPacket packet)) (\<lambda>_.
         if n \<noteq> length d then act_fail Network else act_return (Ready ()))))"

text \<open>The greatest element of the heap; of several greatest ones, the first.\<close>

definition heap_peek :: "send_record_id list \<Rightarrow> nat option" where
  "heap_peek q =
     (if q = [] then None
      else Some (foldl (\<lambda>best i. if send_record_cmp (q ! i) (q ! best) = Greater then i else best) 0
        [1..<length q]))"

definition max_send_rto :: nat where "max_send_rto = from_secs 1"

definition get_rto :: "resender \<Rightarrow> nat" where
  "get_rto res = min max_send_rto (srtt (config res) + srtt_dev (config res) * 4)"

text \<open>
  After a packet was handed to the socket: the update of its record in both queues, the statistics, and
  when it was a resend, the reaction of the congestion control.
\<close>

definition record_sent :: "env \<Rightarrow> nat \<Rightarrow> nat \<Rightarrow> send_record \<Rightarrow> resender \<Rightarrow> resender" where
  "record_sent env k i full_rec res =
     (let rec = send_queue res ! k;
          rec = rec\<lparr>sr_last := now env, sr_tries := sr_tries rec + 1\<rparr>
      in res\<lparr>send_queue := (send_queue res)[k := rec],
             full_send_queue := (full_send_queue res)
               [i := bt_insert (pid_part (sr_id rec)) (full_rec\<lparr>rec_id := rec\<rparr>) (full_send_queue res ! i)]\<rparr>)"

definition on_packet_loss :: "env \<Rightarrow> nat \<Rightarrow> resender \<Rightarrow> resender" where
  "on_packet_loss env timeout res =
     (let res = res\<lparr>config := (config res)\<lparr>srtt := min timeout (srtt (config res) * 2)\<rparr>\<rparr>;
          res = res\<lparr>w_max := get_window env res, last_loss := now env, no_congestion_since := None\<rparr>
      in rebuild_send_queue env res)"

definition count_resend :: "send_record_id \<Rightarrow> resender \<Rightarrow> (resender, 'e) outcome" where
  "count_resend rec res =
     (if sr_tries rec \<noteq> 0
      then and_then (handle_loss_resend_command (stats_counter res)) (\<lambda>c. Ok (res\<lparr>stats_counter := c\<rparr>))
      else Ok res)"

definition after_send :: "env \<Rightarrow> nat \<Rightarrow> nat \<Rightarrow> nat \<Rightarrow> send_record \<Rightarrow> resender \<Rightarrow> (resender, 'e) outcome" where
  "after_send env timeout k i full_rec res =
     (let rec = send_queue res ! k in
      and_then (count_resend rec res) (\<lambda>res.
      and_then (handle_loss_outgoing (rec_packet full_rec) (record_sent env k i full_rec res)) (\<lambda>res.
      Ok (if sr_tries rec + 1 \<noteq> 1 then on_packet_loss env timeout res else res))))"

text \<open>
  The loop of \<open>poll_resend\<close>. A packet that is not due sets the timer to an instant after the clock,
  so the timer has not fired and the loop is left.
\<close>

partial_function (option) poll_resend_loop ::
  "env \<Rightarrow> nat \<Rightarrow> connection \<Rightarrow> ((unit, tsproto_error) outcome \<times> connection) option" where
  "poll_resend_loop env timeout con =
     (let res = resender con; last_threshold = now env - get_rto res in
      case heap_peek (send_queue res) of
        None \<Rightarrow> Some (Ok (), con)
      | Some k \<Rightarrow>
          let rec = send_queue res ! k in
          case (packet_type_to_index (pid_type (sr_id rec)) :: (nat, tsproto_error) outcome) of
            Err e \<Rightarrow> Some (Err e, con)
          | Panic \<Rightarrow> Some (Panic, con)
          | Ok i \<Rightarrow>
              case bt_get (full_send_queue res ! i) (pid_part (sr_id rec)) of
                None \<Rightarrow>
                  poll_resend_loop env timeout
                    (con\<lparr>resender := fill_up_send_queue env (res\<lparr>send_queue :=
                       take k (send_queue res) @ drop (Suc k) (send_queue res)\<rparr>)\<rparr>)
              | Some full_rec \<Rightarrow>
                  if sr_tries rec \<noteq> 0 \<and> sr_last rec > last_threshold then
                    Some (Ok (), con\<lparr>resender := res\<lparr>res_timers := (res_timers res)
                      \<lparr>t_timeout := now env + (sr_last rec - last_threshold)\<rparr>\<rparr>\<rparr>)
                  else if now env - rec_sent full_rec > timeout then
                    Some (Err (Timeout ''Packet was not acked''), con)
                  else
                    (case poll_send_udp_packet (rec_packet full_rec) con of
                       (Err e, con) \<Rightarrow> Some (Err e, con)
                     | (Panic, con) \<Rightarrow> Some (Panic, con)
                     | (Ok Pending, con) \<Rightarrow> Some (Ok (), con)
                     | (Ok (Ready _), con) \<Rightarrow>
                         (case after_send env timeout k i full_rec (resender con) of
                            Ok res \<Rightarrow> poll_resend_loop env timeout (con\<lparr>resender := res\<rparr>)
                          | Err e \<Rightarrow> Some (Err e, con)
                          | Panic \<Rightarrow> Some (Panic, con))))"

declare poll_resend_loop.simps [code]

definition poll_resend :: "env \<Rightarrow> connection \<Rightarrow> ((unit, tsproto_error) outcome \<times> connection) option" where
  "poll_resend env con = poll_resend_loop env (get_timeout (resender con)) con"

section \<open>The heap\<close>

lemma heap_peek_fold:
  assumes "m < length q"
  shows "foldl (\<lambda>best i. if send_record_cmp (q ! i) (q ! best) = Greater then i else best) 0 [1..<Suc m] \<le> m \<and>
    (\<forall>j \<le> m. send_record_cmp (q ! foldl (\<lambda>best i. if send_record_cmp (q ! i) (q ! best) = Greater then i else best)
       0 [1..<Suc m]) (q ! j) \<noteq> Less)"
  using assms
proof (induction m)
  case (Suc m)
  let ?f = "\<lambda>m. foldl (\<lambda>best i. if send_record_cmp (q ! i) (q ! best) = Greater then i else best) 0 [1..<Suc m]"
  have IH: "?f m \<le> m" "\<forall>j \<le> m. send_record_cmp (q ! ?f m) (q ! j) \<noteq> Less" using Suc by simp_all
  have step: "?f (Suc m) = (if send_record_cmp (q ! Suc m) (q ! ?f m) = Greater then Suc m else ?f m)"
    by simp
  show ?case
  proof (cases "send_record_cmp (q ! Suc m) (q ! ?f m) = Greater")
    case True
    then have "send_record_cmp (q ! Suc m) (q ! j) \<noteq> Less" if "j \<le> m" for j
      using IH(2) that send_record_cmp_trans [of "q ! Suc m" "q ! ?f m" "q ! j"] by simp
    then show ?thesis unfolding step using True by (auto simp: le_Suc_eq)
  next
    case False
    then have "send_record_cmp (q ! ?f m) (q ! Suc m) \<noteq> Less"
      using send_record_cmp_reverse [of "q ! ?f m" "q ! Suc m"] by (cases "send_record_cmp (q ! Suc m) (q ! ?f m)") (auto simp del: upt_Suc)
    then show ?thesis unfolding step using False IH by (auto simp: le_Suc_eq)
  qed
qed simp

interpretation heap: max_heap heap_peek "\<lambda>a b. send_record_cmp a b \<noteq> Less"
proof
  fix q k x
  show "heap_peek q = None \<longleftrightarrow> q = []" by (simp add: heap_peek_def)
  assume peek: "heap_peek q = Some k"
  then have "q \<noteq> []" by (auto simp: heap_peek_def)
  then have q: "q \<noteq> []" "length q - 1 < length q" "Suc (length q - 1) = length q" by (cases q; simp)+
  from heap_peek_fold [OF q(2)] peek q(1) have k: "k \<le> length q - 1" "\<forall>j \<le> length q - 1. send_record_cmp (q ! k) (q ! j) \<noteq> Less"
    unfolding q(3) by (auto simp: heap_peek_def)
  then show "k < length q" using q(2) by simp
  assume "x \<in> set q"
  then obtain j where "j < length q" "x = q ! j" by (auto simp: in_set_conv_nth)
  then show "send_record_cmp (q ! k) x \<noteq> Less" using k(2) by simp
qed

section \<open>The invariant\<close>

definition queue_type :: "nat \<Rightarrow> packet_type" where
  "queue_type i = [Init, Command, CommandLow] ! i"

definition rec_pid :: "send_record \<Rightarrow> packet_id_t" where
  "rec_pid r = sr_id (rec_id r)"

text \<open>A queue of one type: ordered, and every record is filed under its own id.\<close>

definition queue_ok :: "nat \<Rightarrow> send_map \<Rightarrow> bool" where
  "queue_ok i q \<longleftrightarrow> bt_invar q \<and> (\<forall>(k, r) \<in> set q. rec_pid r = \<lparr>pid_type = queue_type i, pid_part = k\<rparr>)"

definition in_flight :: "resender \<Rightarrow> packet_id_t set" where
  "in_flight res = sr_id ` set (send_queue res)"

text \<open>
  No packet is lost: a packet that is not acknowledged is in flight, or its id is not below the index
  of its queue, so that it is still to be taken.
\<close>

definition resender_inv :: "resender \<Rightarrow> bool" where
  "resender_inv res \<longleftrightarrow>
     length (full_send_queue res) = 3 \<and> length (send_queue_indices res) = 3 \<and>
     (\<forall>i < 3. queue_ok i (full_send_queue res ! i)) \<and>
     (\<forall>x \<in> set (send_queue res). pid_type (sr_id x) \<in> {Init, Command, CommandLow}) \<and>
     (\<forall>i < 3. \<forall>(k, r) \<in> set (full_send_queue res ! i).
        k < send_queue_indices res ! i \<longrightarrow> rec_pid r \<in> in_flight res)"

text \<open>The packets that are not acknowledged, with the instant when they were queued.\<close>

definition unacked :: "resender \<Rightarrow> packet_id_t \<Rightarrow> (nat \<times> out_udp_packet) option" where
  "unacked res pid =
     (case (packet_type_to_index (pid_type pid) :: (nat, unit) outcome) of
        Ok i \<Rightarrow> map_option (\<lambda>r. (rec_sent r, rec_packet r)) (bt_get (full_send_queue res ! i) (pid_part pid))
      | _ \<Rightarrow> None)"

lemma queue_type_simps [simp]: "queue_type 0 = Init" "queue_type 1 = Command" "queue_type (Suc 0) = Command" "queue_type 2 = CommandLow"
  by (simp_all add: queue_type_def)

lemma queue_type_cases: "i < 3 \<Longrightarrow> t = queue_type i \<longleftrightarrow> (t = Init \<and> i = 0 \<or> t = Command \<and> i = 1 \<or> t = CommandLow \<and> i = 2)"
  by (auto simp: queue_type_def less_Suc_eq numeral_3_eq_3)

lemma packet_type_to_index_Ok:
  "packet_type_to_index t = Ok i \<longleftrightarrow> i < 3 \<and> t = queue_type i"
  by (cases t) (auto simp: packet_type_to_index_def queue_type_cases)

lemma packet_type_to_index_queue_type [simp]: "i < 3 \<Longrightarrow> packet_type_to_index (queue_type i) = Ok i"
  by (simp add: packet_type_to_index_Ok)

lemma queue_type_in: "i < 3 \<Longrightarrow> queue_type i \<in> {Init, Command, CommandLow}"
  by (auto simp: queue_type_def less_Suc_eq numeral_3_eq_3)

lemma queue_ok_Nil [simp]: "queue_ok i []"
  by (simp add: queue_ok_def bt_invar_def)

lemma resender_inv_default [simp]: "resender_inv (resender_default t)"
  by (simp add: resender_inv_def resender_default_def All_less_Suc numeral_3_eq_3)

section \<open>Filling the send queue\<close>

lemma choose_from_Some:
  "choose_from iters i best = Some j \<Longrightarrow>
     (\<exists>t. best = Some (j, t)) \<or> (i \<le> j \<and> j < i + length iters \<and> iters ! (j - i) \<noteq> [])"
proof (induction iters i best rule: choose_from.induct)
  case (2 iters i best)
  then show ?case by (auto simp: nth_Cons' Suc_diff_le)
next
  case (3 r rs iters i best)
  then show ?case by (auto simp: nth_Cons' split: option.splits if_splits prod.splits)
qed auto

lemma choose_from_None:
  "choose_from iters i best = None \<longleftrightarrow> best = None \<and> (\<forall>rs \<in> set iters. rs = [])"
  by (induction iters i best rule: choose_from.induct) (auto split: option.splits prod.splits)

definition fill_state ::
  "send_map list \<Rightarrow> send_record list list \<Rightarrow> partial_packet_id list \<Rightarrow> send_record_id list \<Rightarrow> bool" where
  "fill_state full iters idx q \<longleftrightarrow>
     length full = 3 \<and> length iters = 3 \<and> length idx = 3 \<and> (\<forall>i < 3. queue_ok i (full ! i)) \<and>
     (\<forall>x \<in> set q. pid_type (sr_id x) \<in> {Init, Command, CommandLow}) \<and>
     (\<forall>i < 3. \<exists>pre. map snd (full ! i) = pre @ iters ! i \<and> (\<forall>r \<in> set pre. rec_pid r \<in> sr_id ` set q) \<and>
        (\<forall>r \<in> set (iters ! i). \<not> rec_part r < idx ! i))"

definition queued :: "send_map list \<Rightarrow> send_record \<Rightarrow> bool" where
  "queued full r \<longleftrightarrow> (\<exists>i < 3. r \<in> snd ` set (full ! i))"

lemma queue_ok_values_ascending:
  "queue_ok i q \<Longrightarrow> map snd q = pre @ r # rs \<Longrightarrow> s \<in> set rs \<Longrightarrow> rec_part r < rec_part s"
proof -
  assume ok: "queue_ok i q" and q: "map snd q = pre @ r # rs" and s: "s \<in> set rs"
  have "map rec_part (map snd q) = map fst q"
    using ok by (auto simp: queue_ok_def rec_pid_def rec_part_def split_def)
  then have "sorted_wrt (<) (map rec_part (pre @ r # rs))"
    using ok q by (simp add: queue_ok_def bt_invar_def)
  then show ?thesis using s by (auto simp: sorted_wrt_append)
qed

lemma queue_ok_record:
  "queue_ok i q \<Longrightarrow> r \<in> snd ` set q \<Longrightarrow> pid_type (rec_pid r) = queue_type i \<and> (rec_part r, r) \<in> set q"
  by (auto simp: queue_ok_def rec_pid_def rec_part_def split_def)

lemma fill_state_take:
  assumes st: "fill_state full iters idx q" and i: "i < 3" "iters ! i = r # rs"
  shows "fill_state full (iters[i := rs]) (idx[i := ppid_add (rec_part r) 1]) (q @ [rec_id r])" "queued full r"
proof -
  obtain pre where pre: "map snd (full ! i) = pre @ r # rs" "\<forall>r \<in> set pre. rec_pid r \<in> sr_id ` set q"
    using st i unfolding fill_state_def by metis
  have ok: "queue_ok i (full ! i)" using st i by (simp add: fill_state_def)
  have r: "r \<in> snd ` set (full ! i)" using pre(1) by (metis in_set_conv_decomp list.set_map)
  then show "queued full r" using i by (auto simp: queued_def)
  have "\<not> rec_part s < ppid_add (rec_part r) 1" if "s \<in> set rs" for s
    using ppid_add_one_le [OF queue_ok_values_ascending [OF ok pre(1) that]] by (simp add: not_less)
  moreover have "map snd (full ! i) = (pre @ [r]) @ rs" "\<forall>s \<in> set (pre @ [r]). rec_pid s \<in> sr_id ` set (q @ [rec_id r])"
    using pre by (auto simp: rec_pid_def)
  ultimately have new: "\<exists>pre. map snd (full ! i) = pre @ rs \<and> (\<forall>s \<in> set pre. rec_pid s \<in> sr_id ` set (q @ [rec_id r])) \<and>
      (\<forall>s \<in> set rs. \<not> rec_part s < ppid_add (rec_part r) 1)" by blast
  have types: "pid_type (sr_id (rec_id r)) \<in> {Init, Command, CommandLow}"
    using queue_ok_record [OF ok r] queue_type_in [OF i(1)] by (simp add: rec_pid_def)
  show "fill_state full (iters[i := rs]) (idx[i := ppid_add (rec_part r) 1]) (q @ [rec_id r])"
    unfolding fill_state_def
  proof (intro conjI allI impI)
    fix j :: nat assume j: "j < 3"
    show "\<exists>pre. map snd (full ! j) = pre @ iters[i := rs] ! j \<and>
        (\<forall>s \<in> set pre. rec_pid s \<in> sr_id ` set (q @ [rec_id r])) \<and>
        (\<forall>s \<in> set (iters[i := rs] ! j). \<not> rec_part s < idx[i := ppid_add (rec_part r) 1] ! j)"
    proof (cases "j = i")
      case True
      then show ?thesis using new i st by (simp add: fill_state_def)
    next
      case False
      then obtain pre' where "map snd (full ! j) = pre' @ iters ! j" "\<forall>r \<in> set pre'. rec_pid r \<in> sr_id ` set q"
        "\<forall>r \<in> set (iters ! j). \<not> rec_part r < idx ! j"
        using st j unfolding fill_state_def by metis
      then show ?thesis using False by (intro exI [of _ pre']) auto
    qed
  next
    show "\<forall>x \<in> set (q @ [rec_id r]). pid_type (sr_id x) \<in> {Init, Command, CommandLow}"
      using st types by (auto simp: fill_state_def)
  qed (use st in \<open>auto simp: fill_state_def\<close>)
qed

lemma fill_loop_state:
  assumes "fill_state full iters idx q" "fill_loop n iters idx q = (b, idx', q')"
  shows "\<exists>iters' rs. fill_state full iters' idx' q' \<and> q' = q @ map rec_id rs \<and> (\<forall>r \<in> set rs. queued full r) \<and>
    length rs \<le> n \<and> (b \<longrightarrow> length rs = n) \<and> (\<not> b \<longrightarrow> (\<forall>i < 3. iters' ! i = []))"
  using assms
proof (induction n arbitrary: iters idx q)
  case 0
  then show ?case by (intro exI [of _ iters] exI [of _ "[]"]) auto
next
  case (Suc n)
  show ?case
  proof (cases "choose_from iters 0 None")
    case None
    then have "\<forall>i < 3. iters ! i = []" using Suc.prems(1) by (simp add: choose_from_None fill_state_def)
    with None Suc.prems show ?thesis by (intro exI [of _ iters] exI [of _ "[]"]) auto
  next
    case (Some i)
    have "i < length iters" "iters ! i \<noteq> []" using choose_from_Some [OF Some] by auto
    then obtain r rs where i: "i < 3" "iters ! i = r # rs"
      using Suc.prems(1) by (cases "iters ! i") (auto simp: fill_state_def)
    from fill_state_take [OF Suc.prems(1) i]
    have st: "fill_state full (iters[i := rs]) (idx[i := ppid_add (rec_part r) 1]) (q @ [rec_id r])" "queued full r" .
    from Suc.prems(2) have "fill_loop n (iters[i := rs]) (idx[i := ppid_add (rec_part r) 1]) (q @ [rec_id r]) = (b, idx', q')"
      using Some i by simp
    from Suc.IH [OF st(1) this] obtain iters' rs' where
      "fill_state full iters' idx' q'" "q' = (q @ [rec_id r]) @ map rec_id rs'" "\<forall>r \<in> set rs'. queued full r"
      "length rs' \<le> n" "b \<longrightarrow> length rs' = n" "\<not> b \<longrightarrow> (\<forall>i < 3. iters' ! i = [])" by blast
    then show ?thesis using st(2) by (intro exI [of _ iters'] exI [of _ "r # rs'"]) auto
  qed
qed

lemma fill_state_start:
  assumes "resender_inv res"
  shows "fill_state (full_send_queue res) (queue_iters res) (send_queue_indices res) (send_queue res)"
proof -
  have iters: "queue_iters res ! i = dropWhile (\<lambda>r. rec_part r < send_queue_indices res ! i) (map snd (full_send_queue res ! i))"
    if "i < 3" for i
    using that by (auto simp: queue_iters_def less_Suc_eq numeral_3_eq_3 numeral_2_eq_2)
  have "\<exists>pre. map snd (full_send_queue res ! i) = pre @ queue_iters res ! i \<and>
      (\<forall>r \<in> set pre. rec_pid r \<in> sr_id ` set (send_queue res)) \<and>
      (\<forall>r \<in> set (queue_iters res ! i). \<not> rec_part r < send_queue_indices res ! i)" if i: "i < 3" for i
  proof -
    let ?vs = "map snd (full_send_queue res ! i)" and ?idx = "send_queue_indices res ! i"
    let ?pre = "takeWhile (\<lambda>r. rec_part r < ?idx) ?vs" and ?it = "dropWhile (\<lambda>r. rec_part r < ?idx) ?vs"
    have ok: "queue_ok i (full_send_queue res ! i)" using assms i by (simp add: resender_inv_def)
    have "rec_pid r \<in> sr_id ` set (send_queue res)" if "r \<in> set ?pre" for r
    proof -
      have "r \<in> snd ` set (full_send_queue res ! i)" "rec_part r < ?idx"
        using set_takeWhileD [OF that] by auto
      then show ?thesis
        using queue_ok_record [OF ok] assms i unfolding resender_inv_def in_flight_def by blast
    qed
    moreover have "\<not> rec_part s < ?idx" if "s \<in> set ?it" for s
    proof (cases ?it)
      case Nil
      then show ?thesis using that by (simp only: list.set(1) empty_iff)
    next
      case (Cons r rs)
      have "\<not> rec_part r < ?idx" using hd_dropWhile [of "\<lambda>r. rec_part r < ?idx" ?vs] Cons by simp
      moreover have "rec_part r < rec_part s" if "s \<in> set rs"
        using queue_ok_values_ascending [OF ok _ that, of ?pre r] takeWhile_dropWhile_id [of "\<lambda>r. rec_part r < ?idx" ?vs] Cons
        by metis
      ultimately show ?thesis using that Cons by force
    qed
    ultimately show ?thesis unfolding iters [OF i] by (intro exI [of _ ?pre]) (simp only: takeWhile_dropWhile_id; blast)
  qed
  then show ?thesis
    using assms by (simp add: fill_state_def resender_inv_def queue_iters_def)
qed

lemma fill_state_inv:
  assumes "fill_state full iters idx q" "full_send_queue res = full" "send_queue_indices res = idx" "send_queue res = q"
  shows "resender_inv res"
proof -
  have "rec_pid r \<in> in_flight res" if i: "i < 3" and r: "(k, r) \<in> set (full ! i)" "k < idx ! i" for i k r
  proof -
    obtain pre where pre: "map snd (full ! i) = pre @ iters ! i" "\<forall>r \<in> set pre. rec_pid r \<in> sr_id ` set q"
      "\<forall>r \<in> set (iters ! i). \<not> rec_part r < idx ! i"
      using assms(1) i unfolding fill_state_def by metis
    have "queue_ok i (full ! i)" using assms(1) i by (simp add: fill_state_def)
    then have "rec_part r = k" using r by (auto simp: queue_ok_def rec_part_def rec_pid_def split_def)
    moreover have "r \<in> set pre \<union> set (iters ! i)" using r(1) pre(1) by (metis image_eqI list.set_map set_append snd_conv)
    ultimately show ?thesis using pre(2,3) r(2) assms(4) by (auto simp: in_flight_def)
  qed
  then show ?thesis using assms by (auto simp: resender_inv_def fill_state_def)
qed

lemma fill_up_send_queue:
  assumes "resender_inv res"
  obtains rs where "resender_inv (fill_up_send_queue env res)"
    "full_send_queue (fill_up_send_queue env res) = full_send_queue res"
    "send_queue (fill_up_send_queue env res) = send_queue res @ map rec_id rs"
    "\<forall>r \<in> set rs. queued (full_send_queue res) r"
    "length rs \<le> unat (get_window env res) - length (send_queue res)"
    "length rs = unat (get_window env res) - length (send_queue res) \<or>
     (\<forall>i < 3. \<forall>(k, r) \<in> set (full_send_queue res ! i). rec_pid r \<in> in_flight (fill_up_send_queue env res))"
proof -
  let ?n = "unat (get_window env res) - length (send_queue res)"
  obtain b idx q where loop: "fill_loop ?n (queue_iters res) (send_queue_indices res) (send_queue res) = (b, idx, q)"
    by (cases "fill_loop ?n (queue_iters res) (send_queue_indices res) (send_queue res)")
  from fill_loop_state [OF fill_state_start [OF assms] loop] obtain iters rs where
    st: "fill_state (full_send_queue res) iters idx q" "q = send_queue res @ map rec_id rs"
      "\<forall>r \<in> set rs. queued (full_send_queue res) r" "length rs \<le> ?n" "b \<longrightarrow> length rs = ?n"
      "\<not> b \<longrightarrow> (\<forall>i < 3. iters ! i = [])" by blast
  let ?res = "fill_up_send_queue env res"
  have f: "full_send_queue ?res = full_send_queue res" "send_queue_indices ?res = idx" "send_queue ?res = q"
    using loop by (auto simp: fill_up_send_queue_def Let_def split: option.splits)
  have "rec_pid r \<in> in_flight ?res" if "\<not> b" "i < 3" "(k, r) \<in> set (full_send_queue res ! i)" for i k r
  proof -
    obtain pre where "map snd (full_send_queue res ! i) = pre @ iters ! i" "\<forall>r \<in> set pre. rec_pid r \<in> sr_id ` set q"
      using st(1) \<open>i < 3\<close> unfolding fill_state_def by metis
    then show ?thesis
      using that st(6) f(3) unfolding in_flight_def by (metis append_Nil2 image_eqI list.set_map snd_conv)
  qed
  then have "length rs = ?n \<or> (\<forall>i < 3. \<forall>(k, r) \<in> set (full_send_queue res ! i). rec_pid r \<in> in_flight ?res)"
    using st(5) by blast
  with fill_state_inv [OF st(1) f] f st show ?thesis by (intro that) simp_all
qed

lemma fill_up_full [simp]: "full_send_queue (fill_up_send_queue env res) = full_send_queue res"
  by (simp add: fill_up_send_queue_def Let_def split: prod.split option.split)

lemma fill_up_inv: "resender_inv res \<Longrightarrow> resender_inv (fill_up_send_queue env res)"
  by (rule fill_up_send_queue)

section \<open>The operations keep the invariant\<close>

lemma resender_inv_cong:
  "full_send_queue res' = full_send_queue res \<Longrightarrow> send_queue_indices res' = send_queue_indices res \<Longrightarrow>
   send_queue res' = send_queue res \<Longrightarrow> resender_inv res' \<longleftrightarrow> resender_inv res"
  by (simp add: resender_inv_def in_flight_def)

lemma update_srtt_queues [simp]:
  "full_send_queue (update_srtt d res) = full_send_queue res"
  "send_queue_indices (update_srtt d res) = send_queue_indices res"
  "send_queue (update_srtt d res) = send_queue res"
  "resender_inv (update_srtt d res) = resender_inv res"
  by (simp_all add: update_srtt_def Let_def resender_inv_def in_flight_def)

lemma queue_ok_insert:
  assumes "queue_ok i q" "rec_pid r = \<lparr>pid_type = queue_type i, pid_part = k\<rparr>"
  shows "queue_ok i (bt_insert k r q)"
proof -
  have "rec_pid r' = \<lparr>pid_type = queue_type i, pid_part = k'\<rparr>" if "(k', r') \<in> set (bt_insert k r q)" for k' r'
  proof -
    have "bt_get (bt_insert k r q) k' = Some r'"
      using that assms(1) bt.entries_iff [of "bt_insert k r q"] by (simp add: queue_ok_def bt_invar_insert)
    then show ?thesis
      using assms bt.entries_iff [of q k' r'] by (auto simp: bt_get_insert queue_ok_def split: if_splits)
  qed
  then show ?thesis using assms(1) by (auto simp: queue_ok_def bt_invar_insert)
qed

lemma queue_ok_remove: "queue_ok i q \<Longrightarrow> queue_ok i (bt_remove k q)"
  using set_bt_remove [of k q] by (auto simp: queue_ok_def bt_invar_remove)

lemma queue_ok_get: "queue_ok i q \<Longrightarrow> bt_get q k = Some r \<longleftrightarrow> (k, r) \<in> set q"
  using bt.entries_iff [of q k r] by (simp add: queue_ok_def)

lemma set_bt_insert:
  assumes "queue_ok i q"
  shows "(k', r') \<in> set (bt_insert k r q) \<longleftrightarrow> (if k' = k then r' = r else (k', r') \<in> set q)"
  using assms bt.entries_iff [of q k' r'] bt.entries_iff [of "bt_insert k r q" k' r']
  by (auto simp: queue_ok_def bt_invar_insert bt_get_insert)

lemma set_bt_remove_iff:
  assumes "queue_ok i q"
  shows "(k', r') \<in> set (bt_remove k q) \<longleftrightarrow> k' \<noteq> k \<and> (k', r') \<in> set q"
  using assms bt.entries_iff [of q k' r'] bt.entries_iff [of "bt_remove k q" k' r']
  by (auto simp: queue_ok_def bt_invar_remove bt_get_remove)

text \<open>Exchanging one queue and its index.\<close>

lemma resender_inv_queue:
  assumes "resender_inv res" "i < 3" "queue_ok i q"
    and "\<And>k r. (k, r) \<in> set q \<Longrightarrow> k < idx \<Longrightarrow> rec_pid r \<in> in_flight res"
  shows "resender_inv (res\<lparr>full_send_queue := (full_send_queue res)[i := q],
    send_queue_indices := (send_queue_indices res)[i := idx]\<rparr>)"
  using assms by (auto simp: resender_inv_def in_flight_def nth_list_update)

lemma ack_removed_inv: "resender_inv res \<Longrightarrow> i < 3 \<Longrightarrow> resender_inv (ack_removed env i k res)"
proof -
  assume inv: "resender_inv res" and i: "i < 3"
  let ?q = "bt_remove k (full_send_queue res ! i)"
  have "queue_ok i (full_send_queue res ! i)" using inv i by (simp add: resender_inv_def)
  then have "resender_inv (res\<lparr>full_send_queue := (full_send_queue res)[i := ?q],
      send_queue_indices := (send_queue_indices res)[i := send_queue_indices res ! i]\<rparr>)"
    using inv i by (intro resender_inv_queue) (auto simp: queue_ok_remove set_bt_remove_iff resender_inv_def)
  then have "resender_inv (res\<lparr>full_send_queue := (full_send_queue res)[i := ?q]\<rparr>)"
    by (simp add: resender_inv_def in_flight_def)
  then show ?thesis using inv by (auto simp: ack_removed_def Let_def split: option.splits)
qed

lemma indices_full_comm:
  "res\<lparr>last_send := t, send_queue_indices := is, full_send_queue := qs\<rparr>
    = res\<lparr>last_send := t, full_send_queue := qs, send_queue_indices := is\<rparr>"
  by (cases res) simp

lemma resender_send_steps:
  assumes inv: "resender_inv res" and pid: "packet_id_of packet = (Ok pid :: (_, 'e) outcome)"
    and i: "i < 3" "pid_type pid = queue_type i"
  shows "\<exists>mid. (resender_send env packet res :: (unit, 'e) outcome \<times> resender) = (Ok (), fill_up_send_queue env mid) \<and>
    resender_inv mid \<and> send_queue mid = send_queue res \<and>
    full_send_queue mid = (full_send_queue res)[i := bt_insert (pid_part pid)
      \<lparr>rec_sent = now env, rec_id = \<lparr>sr_last = now env, sr_tries = 0, sr_id = pid\<rparr>, rec_packet = packet\<rparr>
      (full_send_queue res ! i)]"
proof -
  let ?r = "\<lparr>rec_sent = now env, rec_id = \<lparr>sr_last = now env, sr_tries = 0, sr_id = pid\<rparr>, rec_packet = packet\<rparr>"
  let ?q = "bt_insert (pid_part pid) ?r (full_send_queue res ! i)"
  let ?idx = "if pid_part pid < send_queue_indices res ! i then pid_part pid else send_queue_indices res ! i"
  let ?mid = "res\<lparr>last_send := now env, full_send_queue := (full_send_queue res)[i := ?q],
    send_queue_indices := (send_queue_indices res)[i := ?idx]\<rparr>"
  have ok: "queue_ok i (full_send_queue res ! i)" using inv i by (simp add: resender_inv_def)
  have rp: "rec_pid ?r = \<lparr>pid_type = queue_type i, pid_part = pid_part pid\<rparr>" using i(2) by (simp add: rec_pid_def)
  have "resender_inv (res\<lparr>full_send_queue := (full_send_queue res)[i := ?q],
      send_queue_indices := (send_queue_indices res)[i := ?idx]\<rparr>)"
  proof (rule resender_inv_queue [OF inv i(1) queue_ok_insert [OF ok rp]])
    fix k r assume k: "(k, r) \<in> set ?q" "k < ?idx"
    then have "k \<noteq> pid_part pid" "k < send_queue_indices res ! i" by (auto split: if_splits)
    then show "rec_pid r \<in> in_flight res"
      using k(1) inv i(1) by (auto simp: set_bt_insert [OF ok] resender_inv_def)
  qed
  then have mid: "resender_inv ?mid" by (simp add: resender_inv_def in_flight_def)
  have run: "(resender_send env packet res :: (unit, 'e) outcome \<times> resender) = (Ok (), fill_up_send_queue env ?mid)"
    using pid i by (simp add: resender_send_def Let_def indices_full_comm)
  show ?thesis by (intro exI [of _ ?mid]) (simp add: run mid)
qed

section \<open>The loop of \<open>poll_resend\<close>\<close>

lemma unacked_cong: "full_send_queue res' = full_send_queue res \<Longrightarrow> unacked res' = unacked res"
  by (rule ext) (simp add: unacked_def split: outcome.split)

lemma unacked_queue_type:
  "i < 3 \<Longrightarrow> unacked res \<lparr>pid_type = queue_type i, pid_part = k\<rparr>
     = map_option (\<lambda>r. (rec_sent r, rec_packet r)) (bt_get (full_send_queue res ! i) k)"
  by (simp add: unacked_def)

text \<open>Entries of the heap whose packet was acknowledged.\<close>

definition stale :: "resender \<Rightarrow> nat" where
  "stale res = length (filter (\<lambda>x. unacked res (sr_id x) = None) (send_queue res))"

lemma queued_unacked:
  assumes "resender_inv res" "queued (full_send_queue res) r"
  shows "unacked res (sr_id (rec_id r)) \<noteq> None"
proof -
  obtain i where i: "i < 3" "r \<in> snd ` set (full_send_queue res ! i)" using assms(2) by (auto simp: queued_def)
  have ok: "queue_ok i (full_send_queue res ! i)" using assms(1) i(1) by (simp add: resender_inv_def)
  from queue_ok_record [OF ok i(2)] have "bt_get (full_send_queue res ! i) (rec_part r) = Some r"
    "pid_type (rec_pid r) = queue_type i" using queue_ok_get [OF ok] by auto
  then show ?thesis using i(1) by (simp add: unacked_def rec_pid_def rec_part_def)
qed

lemma fill_up_stale:
  assumes "resender_inv res"
  shows "stale (fill_up_send_queue env res) = stale res"
proof (rule fill_up_send_queue [OF assms, of env])
  fix rs
  assume rs: "send_queue (fill_up_send_queue env res) = send_queue res @ map rec_id rs"
    "\<forall>r \<in> set rs. queued (full_send_queue res) r"
  have "filter (\<lambda>x. unacked res (sr_id x) = None) (map rec_id rs) = []"
    using queued_unacked [OF assms] rs(2) unfolding filter_empty_conv by auto
  then show ?thesis
    unfolding stale_def rs(1) unacked_cong [OF fill_up_full] filter_append by (simp only: append_Nil2)
qed

lemma pop_stale:
  assumes inv: "resender_inv res" and k: "k < length (send_queue res)"
    and gone: "unacked res (sr_id (send_queue res ! k)) = None"
  defines "res' \<equiv> res\<lparr>send_queue := take k (send_queue res) @ drop (Suc k) (send_queue res)\<rparr>"
  shows "resender_inv res'" "stale res' < stale res" "unacked res' = unacked res"
proof -
  let ?q = "send_queue res"
  have q: "?q = take k ?q @ ?q ! k # drop (Suc k) ?q" using k by (rule id_take_nth_drop)
  show un: "unacked res' = unacked res" by (rule unacked_cong) (simp add: res'_def)
  have "rec_pid r \<in> in_flight res'" if "i < 3" "(j, r) \<in> set (full_send_queue res ! i)" "j < send_queue_indices res ! i" for i j r
  proof -
    have ok: "queue_ok i (full_send_queue res ! i)" using inv that(1) by (simp add: resender_inv_def)
    have r: "rec_pid r = \<lparr>pid_type = queue_type i, pid_part = j\<rparr>" using ok that(2) by (auto simp: queue_ok_def)
    have "unacked res (rec_pid r) \<noteq> None"
      using that(1,2) queue_ok_get [OF ok, of j r] by (simp add: r unacked_queue_type)
    moreover have "rec_pid r \<in> in_flight res" using inv that unfolding resender_inv_def by blast
    ultimately show ?thesis
      using gone unfolding in_flight_def res'_def by (subst (asm) q) auto
  qed
  moreover have "set (take k ?q @ drop (Suc k) ?q) \<subseteq> set ?q" by (auto dest: in_set_takeD in_set_dropD)
  ultimately show "resender_inv res'"
    using inv unfolding resender_inv_def res'_def by auto
  have "stale res = length (filter (\<lambda>x. unacked res (sr_id x) = None) (take k ?q @ ?q ! k # drop (Suc k) ?q))"
    unfolding stale_def by (subst q) (rule refl)
  then show "stale res' < stale res"
    unfolding stale_def un using gone by (simp add: res'_def)
qed

lemma handle_loss_outgoing_queues:
  assumes "handle_loss_outgoing u res = Ok res'"
  shows "full_send_queue res' = full_send_queue res" "send_queue res' = send_queue res"
    "send_queue_indices res' = send_queue_indices res"
  using assms by (auto simp: handle_loss_outgoing_def Let_def outcome_simps)

lemma on_packet_loss_inv:
  assumes "resender_inv res"
  shows "resender_inv (on_packet_loss env timeout res)" "unacked (on_packet_loss env timeout res) = unacked res"
proof -
  let ?r1 = "res\<lparr>config := (config res)\<lparr>srtt := min timeout (srtt (config res) * 2)\<rparr>\<rparr>"
  let ?r2 = "?r1\<lparr>w_max := get_window env ?r1, last_loss := now env, no_congestion_since := None,
    send_queue := [], send_queue_indices := replicate 3 ppid_default\<rparr>"
  have "\<not> p < ppid_default" for p by (simp add: ppid_less_nat ppid_default_def ppid_nat_def)
  then have inv: "resender_inv ?r2" using assms by (auto simp: resender_inv_def)
  have eq: "on_packet_loss env timeout res = fill_up_send_queue env ?r2"
    by (simp add: on_packet_loss_def rebuild_send_queue_def Let_def)
  show "resender_inv (on_packet_loss env timeout res)"
    unfolding eq by (rule fill_up_inv [OF inv])
  show "unacked (on_packet_loss env timeout res) = unacked res"
    unfolding eq by (rule unacked_cong) simp
qed

lemma after_send_inv:
  assumes inv: "resender_inv res" and k: "k < length (send_queue res)"
    and i: "packet_type_to_index (pid_type (sr_id (send_queue res ! k))) = (Ok i :: (nat, tsproto_error) outcome)"
    and full: "bt_get (full_send_queue res ! i) (pid_part (sr_id (send_queue res ! k))) = Some full_rec"
    and run: "after_send env timeout k i full_rec res = (Ok res' :: (resender, 'e) outcome)"
  shows "resender_inv res'" "unacked res' = unacked res"
proof -
  let ?rec = "send_queue res ! k"
  let ?new = "?rec\<lparr>sr_last := now env, sr_tries := sr_tries ?rec + 1\<rparr>"
  let ?q = "(send_queue res)[k := ?new]"
  let ?m = "bt_insert (pid_part (sr_id ?rec)) (full_rec\<lparr>rec_id := ?new\<rparr>) (full_send_queue res ! i)"
  let ?full = "(full_send_queue res)[i := ?m]"
  have i3: "i < 3" "pid_type (sr_id ?rec) = queue_type i" using i by (simp_all add: packet_type_to_index_Ok)
  have ok: "queue_ok i (full_send_queue res ! i)" using inv i3 by (simp add: resender_inv_def)
  have id: "sr_id ?rec = \<lparr>pid_type = queue_type i, pid_part = pid_part (sr_id ?rec)\<rparr>" using i3(2) by simp
  have m: "queue_ok i ?m" by (rule queue_ok_insert [OF ok]) (use id in \<open>simp add: rec_pid_def\<close>)
  have flight: "sr_id ` set ?q = sr_id ` set (send_queue res)"
  proof -
    have "map sr_id ?q = map sr_id (send_queue res)" using k by (simp add: map_update list_update_same_conv)
    then show ?thesis by (metis list.set_map)
  qed
  have mid: "resender_inv r \<and> unacked r = unacked res" if r: "full_send_queue r = ?full" "send_queue r = ?q"
    "send_queue_indices r = send_queue_indices res" for r
  proof
    have fl: "in_flight r = in_flight res" using flight r(2) by (simp add: in_flight_def)
    have "rec_pid s \<in> in_flight res" if "j < 3" "(p, s) \<in> set (?full ! j)" "p < send_queue_indices res ! j" for j p s
    proof (cases "j = i \<and> p = pid_part (sr_id ?rec)")
      case True
      then have "s = full_rec\<lparr>rec_id := ?new\<rparr>"
        using that(2) inv i3(1) set_bt_insert [OF ok] by (auto simp: resender_inv_def)
      moreover have "sr_id ?rec \<in> in_flight res" using k by (simp add: in_flight_def)
      ultimately show ?thesis by (simp add: rec_pid_def)
    next
      case False
      then have "(p, s) \<in> set (full_send_queue res ! j)"
        using that inv i3(1) set_bt_insert [OF ok] by (cases "j = i") (auto simp: resender_inv_def)
      then show ?thesis using that inv unfolding resender_inv_def by blast
    qed
    moreover have "\<forall>x \<in> set ?q. pid_type (sr_id x) \<in> {Init, Command, CommandLow}"
    proof -
      have "\<forall>p \<in> sr_id ` set ?q. pid_type p \<in> {Init, Command, CommandLow}"
        unfolding flight using inv by (auto simp: resender_inv_def)
      then show ?thesis by auto
    qed
    ultimately show "resender_inv r"
      using inv m i3(1) unfolding resender_inv_def fl r by (auto simp: nth_list_update)
    show "unacked r = unacked res"
    proof (rule ext)
      fix pid :: packet_id_t
      show "unacked r pid = unacked res pid"
        using r(1) full inv i3(1) by (auto simp: unacked_def packet_type_to_index_Ok resender_inv_def nth_list_update
            bt_get_insert split: outcome.splits)
    qed
  qed
  obtain res1 res2 where r1: "count_resend ?rec res = (Ok res1 :: (resender, 'e) outcome)"
    "handle_loss_outgoing (rec_packet full_rec) (record_sent env k i full_rec res1) = (Ok res2 :: (resender, 'e) outcome)"
    "res' = (if sr_tries ?rec + 1 \<noteq> 1 then on_packet_loss env timeout res2 else res2)"
    using run unfolding after_send_def Let_def and_then_Ok_iff outcome.inject by blast
  have same: "full_send_queue res1 = full_send_queue res" "send_queue res1 = send_queue res"
    "send_queue_indices res1 = send_queue_indices res"
    using r1(1) by (auto simp: count_resend_def outcome_simps split: if_splits)
  have r2: "full_send_queue res2 = ?full" "send_queue res2 = ?q" "send_queue_indices res2 = send_queue_indices res"
    using handle_loss_outgoing_queues [OF r1(2)] same by (simp_all add: record_sent_def Let_def)
  have "resender_inv res' \<and> unacked res' = unacked res"
  proof (cases "sr_tries ?rec = 0")
    case True
    then show ?thesis using mid [OF r2] r1(3) by simp
  next
    case False
    then have "res' = on_packet_loss env timeout res2" using r1(3) by simp
    with on_packet_loss_inv [of res2 env timeout] mid [OF r2] show ?thesis by simp
  qed
  then show "resender_inv res'" "unacked res' = unacked res" by blast+
qed

lemma bump_not_Err: "bump i d xs \<noteq> Err e"
  by (auto simp: bump_def index_def checked_plus_def)

lemma unwrap_opt_not_Err: "unwrap_opt x \<noteq> Err e"
  by (cases x) simp_all

lemma udp_packet_type_not_Err: "udp_packet_type u \<noteq> Err e"
  by (auto simp: udp_packet_type_def out_header_def header_bytes_def in_header_new_def h_packet_type_def
      slice_to_def index_def and_then_Err_iff unwrap_opt_not_Err split: if_splits option.splits)

lemmas count_defs = count_loss_def count_bytes_def count_total_def counter_loss_outgoing_def datagram_len_def
  handle_loss_resend_command_def count_resend_def

lemma checked_plus_not_Err: "checked_plus a b \<noteq> Err e"
  by (simp add: checked_plus_def)

lemma handle_loss_outgoing_not_Err: "handle_loss_outgoing u res \<noteq> Err e"
  by (simp add: handle_loss_outgoing_def count_defs Let_def and_then_Err_iff bump_not_Err
      udp_packet_type_not_Err checked_plus_not_Err)

lemma after_send_not_Err: "after_send env timeout k i full_rec res \<noteq> Err e"
  by (simp add: after_send_def count_defs Let_def and_then_Err_iff bump_not_Err handle_loss_outgoing_not_Err)

lemma poll_send_cases:
  assumes "poll_send_udp_packet u con = (r, con')"
  shows "r \<noteq> Panic" "resender con' = resender con"
    "r = Ok Pending \<Longrightarrow> con' = con \<and> send_answers (udp_socket con) = []"
    "r = Err e \<Longrightarrow> e = Network"
    "r = Ok (Ready x) \<Longrightarrow> length (send_answers (udp_socket con')) < length (send_answers (udp_socket con)) \<and>
       sent_datagrams (udp_socket con') = sent_datagrams (udp_socket con) @ [op_data (ou_data u)]"
    "sent_datagrams (udp_socket con') = sent_datagrams (udp_socket con) \<or>
       sent_datagrams (udp_socket con') = sent_datagrams (udp_socket con) @ [op_data (ou_data u)]"
  using assms
  by (auto simp: poll_send_udp_packet_def send_event_def Let_def split: list.splits option.splits if_splits)

text \<open>An entry that is due: it was never sent, or the retransmission timeout has passed.\<close>

definition due :: "nat \<Rightarrow> send_record_id \<Rightarrow> bool" where
  "due threshold x \<longleftrightarrow> sr_tries x = 0 \<or> sr_last x \<le> threshold"

lemma due_upwards: "send_record_cmp a b \<noteq> Less \<Longrightarrow> due th b \<Longrightarrow> due th a"
  by (auto simp: due_def send_record_cmp_def cmp_def split: if_splits)

definition resend_result :: "env \<Rightarrow> nat \<Rightarrow> connection \<Rightarrow> (unit, tsproto_error) outcome \<times> connection \<Rightarrow> bool" where
  "resend_result env timeout con rc \<longleftrightarrow>
     (case rc of (r, con') \<Rightarrow>
        (r \<noteq> Panic \<longrightarrow> resender_inv (resender con') \<and> unacked (resender con') = unacked (resender con)) \<and>
        (\<exists>ds. sent_datagrams (udp_socket con') = sent_datagrams (udp_socket con) @ ds \<and>
           (\<forall>d \<in> set ds. \<exists>pid t u. unacked (resender con) pid = Some (t, u) \<and> d = op_data (ou_data u) \<and>
              now env - t \<le> timeout)) \<and>
        (r = Ok () \<longrightarrow> send_answers (udp_socket con') \<noteq> [] \<longrightarrow>
           (\<forall>x \<in> set (send_queue (resender con')). \<not> due (now env - get_rto (resender con')) x)) \<and>
        (\<forall>s. r = Err (Timeout s) \<longrightarrow>
           (\<exists>pid t u. unacked (resender con) pid = Some (t, u) \<and> timeout < now env - t)))"

lemma resend_result_step:
  assumes "resend_result env timeout con1 rc" "unacked (resender con1) = unacked (resender con)"
    and "sent_datagrams (udp_socket con1) = sent_datagrams (udp_socket con) @ ds"
    and "\<forall>d \<in> set ds. \<exists>pid t u. unacked (resender con) pid = Some (t, u) \<and> d = op_data (ou_data u) \<and> now env - t \<le> timeout"
  shows "resend_result env timeout con rc"
proof -
  obtain r con' where rc: "rc = (r, con')" by (cases rc)
  obtain ds' where ds': "sent_datagrams (udp_socket con') = sent_datagrams (udp_socket con1) @ ds'"
    "\<forall>d \<in> set ds'. \<exists>pid t u. unacked (resender con1) pid = Some (t, u) \<and> d = op_data (ou_data u) \<and> now env - t \<le> timeout"
    using assms(1) by (auto simp: resend_result_def rc)
  have "\<exists>ds. sent_datagrams (udp_socket con') = sent_datagrams (udp_socket con) @ ds \<and>
      (\<forall>d \<in> set ds. \<exists>pid t u. unacked (resender con) pid = Some (t, u) \<and> d = op_data (ou_data u) \<and> now env - t \<le> timeout)"
    by (rule exI [of _ "ds @ ds'"]) (use ds' assms(2-4) in auto)
  then show ?thesis
    using assms(1,2) by (simp add: resend_result_def rc)
qed

lemma poll_resend_loop_result:
  assumes "resender_inv (resender con)"
  shows "\<exists>rc. poll_resend_loop env timeout con = Some rc \<and> resend_result env timeout con rc"
  using assms
proof (induction "(length (send_answers (udp_socket con)), stale (resender con))" arbitrary: con
    rule: wf_induct_rule [OF wf_lex_prod [OF wf_less wf_less]])
  case 1
  note IH = 1(1)
  let ?res = "resender con"
  let ?th = "now env - get_rto ?res"
  show ?case
  proof (cases "heap_peek (send_queue ?res)")
    case None
    then have "send_queue ?res = []" by (simp add: heap.peek_None)
    then have "resend_result env timeout con (Ok (), con)"
      using 1(2) by (simp add: resend_result_def)
    with None show ?thesis by (subst poll_resend_loop.simps) (simp add: Let_def)
  next
    case (Some k)
    let ?rec = "send_queue ?res ! k"
    have k: "k < length (send_queue ?res)" by (rule heap.peek_less [OF Some])
    have "pid_type (sr_id ?rec) \<in> {Init, Command, CommandLow}"
      using 1(2) k unfolding resender_inv_def by (metis nth_mem)
    then obtain i where i: "packet_type_to_index (pid_type (sr_id ?rec)) = (Ok i :: (nat, tsproto_error) outcome)"
      "i < 3" "pid_type (sr_id ?rec) = queue_type i" by (auto simp: packet_type_to_index_def)
    have un: "unacked ?res (sr_id ?rec)
        = map_option (\<lambda>r. (rec_sent r, rec_packet r)) (bt_get (full_send_queue ?res ! i) (pid_part (sr_id ?rec)))"
      using i(2,3) by (simp add: unacked_def)
    note unfold = poll_resend_loop.simps [of env timeout con] Let_def
    show ?thesis
    proof (cases "bt_get (full_send_queue ?res ! i) (pid_part (sr_id ?rec))")
      case gone: None
      let ?popped = "?res\<lparr>send_queue := take k (send_queue ?res) @ drop (Suc k) (send_queue ?res)\<rparr>"
      let ?con = "con\<lparr>resender := fill_up_send_queue env ?popped\<rparr>"
      have "unacked ?res (sr_id ?rec) = None" using un gone by simp
      note pop = pop_stale [OF 1(2) k this]
      have step: "poll_resend_loop env timeout con = poll_resend_loop env timeout ?con"
        using Some i(1) gone by (subst poll_resend_loop.simps) (simp add: Let_def)
      have "stale (resender ?con) < stale ?res" using fill_up_stale [OF pop(1)] pop(2) by simp
      then have "((length (send_answers (udp_socket ?con)), stale (resender ?con)),
          (length (send_answers (udp_socket con)), stale ?res)) \<in> {(x, y). x < y} <*lex*> {(x, y). x < y}" by simp
      moreover have "resender_inv (resender ?con)" using fill_up_inv [OF pop(1)] by simp
      ultimately obtain rc where rc: "poll_resend_loop env timeout ?con = Some rc" "resend_result env timeout ?con rc"
        using IH [of ?con] by blast
      have "unacked (resender ?con) = unacked ?res"
        using pop(3) unacked_cong [OF fill_up_full, of env ?popped] by simp
      from resend_result_step [OF rc(2) this, of "[]"] rc(1) step show ?thesis by simp
    next
      case full: (Some full_rec)
      then have un_rec: "unacked ?res (sr_id ?rec) = Some (rec_sent full_rec, rec_packet full_rec)" using un by simp
      consider (wait) "sr_tries ?rec \<noteq> 0 \<and> sr_last ?rec > ?th"
        | (late) "\<not> (sr_tries ?rec \<noteq> 0 \<and> sr_last ?rec > ?th)" "now env - rec_sent full_rec > timeout"
        | (send) "\<not> (sr_tries ?rec \<noteq> 0 \<and> sr_last ?rec > ?th)" "\<not> now env - rec_sent full_rec > timeout" by blast
      then show ?thesis
      proof cases
        case wait
        let ?con = "con\<lparr>resender := ?res\<lparr>res_timers := (res_timers ?res)
          \<lparr>t_timeout := now env + (sr_last ?rec - ?th)\<rparr>\<rparr>\<rparr>"
        have "poll_resend_loop env timeout con = Some (Ok (), ?con)"
          using Some i(1) full wait by (subst poll_resend_loop.simps) (simp add: Let_def)
        moreover have "\<forall>x \<in> set (send_queue ?res). \<not> due ?th x"
          by (rule heap.peek_none_below [OF Some, where P = "due ?th", OF _ due_upwards])
            (use wait in \<open>simp_all add: due_def\<close>)
        ultimately show ?thesis
          using 1(2) resender_inv_cong [of "resender ?con" ?res] unacked_cong [of "resender ?con" ?res]
          by (simp add: resend_result_def get_rto_def)
      next
        case late
        have "poll_resend_loop env timeout con = Some (Err (Timeout ''Packet was not acked''), con)"
          using Some i(1) full late by (subst poll_resend_loop.simps) (auto simp: Let_def)
        then show ?thesis
          using 1(2) un_rec late(2) unfolding resend_result_def by auto
      next
        case send
        obtain pr con1 where ps: "poll_send_udp_packet (rec_packet full_rec) con = (pr, con1)" by fastforce
        note facts = poll_send_cases [OF ps]
        have sent: "\<exists>ds. sent_datagrams (udp_socket con1) = sent_datagrams (udp_socket con) @ ds \<and>
            (\<forall>d \<in> set ds. \<exists>pid t u. unacked ?res pid = Some (t, u) \<and> d = op_data (ou_data u) \<and> now env - t \<le> timeout)"
          using facts(6) un_rec send(2) by (fastforce simp: not_less)
        have step: "poll_resend_loop env timeout con =
            (case pr of Err e \<Rightarrow> Some (Err e, con1) | Panic \<Rightarrow> Some (Panic, con1)
             | Ok Pending \<Rightarrow> Some (Ok (), con1)
             | Ok (Ready _) \<Rightarrow>
                 (case after_send env timeout k i full_rec (resender con1) of
                    Ok res \<Rightarrow> poll_resend_loop env timeout (con1\<lparr>resender := res\<rparr>)
                  | Err e \<Rightarrow> Some (Err e, con1)
                  | Panic \<Rightarrow> Some (Panic, con1)))"
          using Some i(1) full send ps
          by (subst poll_resend_loop.simps) (auto simp: Let_def split: outcome.split poll.split)
        show ?thesis
        proof (cases pr)
          case (Err e)
          then show ?thesis
            using step sent 1(2) facts(2,4) by (simp add: resend_result_def)
        next
          case Panic
          then show ?thesis using facts(1) by simp
        next
          case (Ok x)
          show ?thesis
          proof (cases x)
            case Pending
            then show ?thesis
              using step sent 1(2) facts(3) Ok by (simp add: resend_result_def)
          next
            case (Ready y)
            have less: "length (send_answers (udp_socket con1)) < length (send_answers (udp_socket con))"
              using facts(5) Ok Ready by blast
            show ?thesis
            proof (cases "after_send env timeout k i full_rec (resender con1) :: (resender, tsproto_error) outcome")
              case as: (Ok res)
              let ?con = "con1\<lparr>resender := res\<rparr>"
              have k': "k < length (send_queue (resender con1))" using k facts(2) by simp
              note inv' = after_send_inv [OF _ k' _ _ as, unfolded facts(2), OF 1(2) i(1) full]
              have "((length (send_answers (udp_socket ?con)), stale (resender ?con)),
                  (length (send_answers (udp_socket con)), stale ?res)) \<in> {(x, y). x < y} <*lex*> {(x, y). x < y}"
                using less by simp
              moreover have "resender_inv (resender ?con)" using inv'(1) by simp
              ultimately obtain rc where rc: "poll_resend_loop env timeout ?con = Some rc" "resend_result env timeout ?con rc"
                using IH [of ?con] by blast
              obtain ds where ds: "sent_datagrams (udp_socket con1) = sent_datagrams (udp_socket con) @ ds"
                "\<forall>d \<in> set ds. \<exists>pid t u. unacked ?res pid = Some (t, u) \<and> d = op_data (ou_data u) \<and> now env - t \<le> timeout"
                using sent by blast
              have "resend_result env timeout con rc"
                by (rule resend_result_step [OF rc(2) _ _ ds(2)]) (use inv'(2) ds(1) in simp_all)
              then show ?thesis using step rc(1) as Ok Ready by simp
            next
              case (Err e)
              then show ?thesis by (simp add: after_send_not_Err)
            next
              case Panic
              then show ?thesis
                using step sent Ok Ready by (simp add: resend_result_def)
            qed
          qed
        qed
      qed
    qed
  qed
qed

section \<open>Runs of the resender\<close>

lemma ack_ping_queues [simp]:
  "full_send_queue (ack_ping env p res) = full_send_queue res"
  "send_queue_indices (ack_ping env p res) = send_queue_indices res"
  "send_queue (ack_ping env p res) = send_queue res"
  by (simp_all add: ack_ping_def Let_def split: option.split)

lemma handle_loss_incoming_queues:
  assumes "handle_loss_incoming packet w n res = Ok res'"
  shows "full_send_queue res' = full_send_queue res" "send_queue res' = send_queue res"
    "send_queue_indices res' = send_queue_indices res"
  using assms by (auto simp: handle_loss_incoming_def Let_def outcome_simps)

lemma handle_loss_resend_ack_queues:
  assumes "handle_loss_resend_ack res = Ok res'"
  shows "full_send_queue res' = full_send_queue res" "send_queue res' = send_queue res"
    "send_queue_indices res' = send_queue_indices res"
  using assms by (auto simp: handle_loss_resend_ack_def outcome_simps)

lemma resender_send_inv:
  assumes "resender_inv res" "(resender_send env packet res :: (unit, 'e) outcome \<times> resender) = (Ok (), res')"
  shows "resender_inv res'"
proof -
  obtain pid where pid: "packet_id_of packet = (Ok pid :: (_, 'e) outcome)"
    using assms(2) by (cases "packet_id_of packet :: (_, 'e) outcome") (simp_all add: resender_send_def)
  obtain i where "packet_type_to_index (pid_type pid) = (Ok i :: (_, 'e) outcome)"
    using assms(2) pid
    by (cases "packet_type_to_index (pid_type pid) :: (_, 'e) outcome") (simp_all add: resender_send_def Let_def)
  then have i: "i < 3" "pid_type pid = queue_type i" by (simp_all add: packet_type_to_index_Ok)
  obtain mid where "(Ok (), res') = ((Ok (), fill_up_send_queue env mid) :: (unit, 'e) outcome \<times> resender)" "resender_inv mid"
    using resender_send_steps [OF assms(1) pid i, of env] assms(2) by metis
  then show ?thesis by (simp add: fill_up_inv)
qed

text \<open>
  What can happen to a resender: packets are queued, acks and pongs arrive, received and sent
  datagrams are counted, the state is set, the queue is polled.
\<close>

inductive resender_step :: "resender \<Rightarrow> resender \<Rightarrow> bool" where
  step_send: "(resender_send env packet res :: (unit, tsproto_error) outcome \<times> resender) = (Ok (), res') \<Longrightarrow>
     resender_step res res'"
| step_ack: "i < 3 \<Longrightarrow> resender_step res (ack_removed env i k res)"
| step_pong: "resender_step res (ack_ping env p res)"
| step_received: "resender_step res (received_packet env res)"
| step_loss_in: "handle_loss_incoming packet w n res = (Ok res' :: (_, tsproto_error) outcome) \<Longrightarrow> resender_step res res'"
| step_loss_out: "handle_loss_outgoing u res = (Ok res' :: (_, tsproto_error) outcome) \<Longrightarrow> resender_step res res'"
| step_loss_ack: "handle_loss_resend_ack res = (Ok res' :: (_, tsproto_error) outcome) \<Longrightarrow> resender_step res res'"
| step_state: "resender_step res (set_state env st res)"
| step_poll: "poll_resend env con = Some (r, con') \<Longrightarrow> r \<noteq> Panic \<Longrightarrow>
     resender_step (resender con) (resender con')"

inductive resender_reachable :: "resender \<Rightarrow> bool" where
  start: "resender_reachable (resender_default t)"
| step: "resender_reachable res \<Longrightarrow> resender_step res res' \<Longrightarrow> resender_reachable res'"

inductive_cases resender_stepE: "resender_step res res'"

lemma resender_step_inv: "resender_step res res' \<Longrightarrow> resender_inv res \<Longrightarrow> resender_inv res'"
proof (induction rule: resender_step.induct)
  case (step_send env packet res res')
  then show ?case using resender_send_inv by blast
next
  case (step_ack i res env k)
  then show ?case by (simp add: ack_removed_inv)
next
  case (step_pong res env p)
  then show ?case using resender_inv_cong [of "ack_ping env p res" res] by simp
next
  case (step_received res env)
  then show ?case using resender_inv_cong [of "received_packet env res" res] by (simp add: received_packet_def)
next
  case (step_loss_in packet w n res res')
  then show ?case using resender_inv_cong [of res' res] handle_loss_incoming_queues by metis
next
  case (step_loss_out u res res')
  then show ?case using resender_inv_cong [of res' res] handle_loss_outgoing_queues by metis
next
  case (step_loss_ack res res')
  then show ?case using resender_inv_cong [of res' res] handle_loss_resend_ack_queues by metis
next
  case (step_state res env st)
  then show ?case using resender_inv_cong [of "set_state env st res" res] by (simp add: set_state_def Let_def)
next
  case (step_poll env con r con')
  then show ?case
    using poll_resend_loop_result [OF step_poll(3), of env "get_timeout (resender con)"]
    by (auto simp: poll_resend_def resend_result_def)
qed

lemma resender_reachable_inv: "resender_reachable res \<Longrightarrow> resender_inv res"
  by (induction rule: resender_reachable.induct) (auto intro: resender_step_inv)

lemma unacked_Some_iff:
  assumes "resender_inv res" "i < 3"
  shows "unacked res \<lparr>pid_type = queue_type i, pid_part = k\<rparr> \<noteq> None
    \<longleftrightarrow> (\<exists>r. (k, r) \<in> set (full_send_queue res ! i))"
proof -
  have ok: "queue_ok i (full_send_queue res ! i)" using assms by (simp add: resender_inv_def)
  show ?thesis using assms(2) queue_ok_get [OF ok, of k] by (auto simp: unacked_queue_type)
qed

lemma unacked_in_flight:
  assumes inv: "resender_inv res" and i: "i < 3"
    and waits: "unacked res \<lparr>pid_type = queue_type i, pid_part = k\<rparr> \<noteq> None"
  shows "\<lparr>pid_type = queue_type i, pid_part = k\<rparr> \<in> in_flight res \<or> send_queue_indices res ! i \<le> k"
proof -
  obtain r where r: "(k, r) \<in> set (full_send_queue res ! i)" using unacked_Some_iff [OF inv i] waits by blast
  have "rec_pid r = \<lparr>pid_type = queue_type i, pid_part = k\<rparr>"
    using inv i r by (auto simp: resender_inv_def queue_ok_def)
  then show ?thesis
    using inv i r unfolding resender_inv_def by (metis (no_types, lifting) case_prodD not_less)
qed

section \<open>Examples\<close>

lemma resender_send_reachable:
  fixes env :: env
  assumes "resender_reachable res" "packet_id_of u = (Ok pid :: (_, tsproto_error) outcome)" "i < 3"
    "pid_type pid = queue_type i"
  defines "res' \<equiv> snd (resender_send env u res :: (unit, tsproto_error) outcome \<times> resender)"
  shows "resender_reachable res'"
    "full_send_queue res' = (full_send_queue res)[i := bt_insert (pid_part pid)
      \<lparr>rec_sent = now env, rec_id = \<lparr>sr_last = now env, sr_tries = 0, sr_id = pid\<rparr>, rec_packet = u\<rparr>
      (full_send_queue res ! i)]"
proof -
  obtain mid where mid: "(resender_send env u res :: (unit, tsproto_error) outcome \<times> resender)
      = (Ok (), fill_up_send_queue env mid)"
    "full_send_queue mid = (full_send_queue res)[i := bt_insert (pid_part pid)
      \<lparr>rec_sent = now env, rec_id = \<lparr>sr_last = now env, sr_tries = 0, sr_id = pid\<rparr>, rec_packet = u\<rparr>
      (full_send_queue res ! i)]"
    using resender_send_steps [OF resender_reachable_inv [OF assms(1)] assms(2-4), of env] by blast
  show "resender_reachable res'"
    unfolding res'_def mid(1) snd_conv by (rule resender_reachable.step [OF assms(1) step_send [OF mid(1)]])
  show "full_send_queue res' = (full_send_queue res)[i := bt_insert (pid_part pid)
      \<lparr>rec_sent = now env, rec_id = \<lparr>sr_last = now env, sr_tries = 0, sr_id = pid\<rparr>, rec_packet = u\<rparr>
      (full_send_queue res ! i)]"
    unfolding res'_def mid(1) snd_conv fill_up_full by (rule mid(2))
qed

definition example_env :: env where
  "example_env = \<lparr>now = 7, cubic = \<lambda>_ _. Some 3, binary_search = \<lambda>_ _. None, prims = toy_primitives\<rparr>"

text \<open>A command datagram, and a resender after some of them were queued.\<close>

definition example_datagram :: "u32 \<Rightarrow> u16 \<Rightarrow> out_udp_packet" where
  "example_datagram g i = \<lparr>ou_generation_id = g,
     ou_data = \<lparr>op_dir = S2C, op_data = hdr S2C (replicate 8 0) i 0 0 Command @ [97]\<rparr>\<rparr>"

definition example_record :: "u32 \<Rightarrow> u16 \<Rightarrow> send_record" where
  "example_record g i = \<lparr>rec_sent = 7, rec_id = \<lparr>sr_last = 7, sr_tries = 0,
     sr_id = \<lparr>pid_type = Command, pid_part = PartialPacketId g i\<rparr>\<rparr>, rec_packet = example_datagram g i\<rparr>"

fun example_sends :: "(u32 \<times> u16) list \<Rightarrow> resender" where
  "example_sends [] = resender_default 0"
| "example_sends ((g, i) # ps) =
     snd (resender_send example_env (example_datagram g i) (example_sends ps) :: (unit, tsproto_error) outcome \<times> resender)"

lemma example_sends:
  "resender_reachable (example_sends ps) \<and> length (full_send_queue (example_sends ps)) = 3 \<and>
   full_send_queue (example_sends ps) ! 1 =
     foldr (\<lambda>(g, i) q. bt_insert (PartialPacketId g i) (example_record g i) q) ps []"
proof (induction ps)
  case Nil
  show ?case by (simp add: start) (simp add: resender_default_def)
next
  case (Cons p ps)
  obtain g i where p: "p = (g, i)" by (cases p)
  have pid: "packet_id_of (example_datagram g i) = (Ok \<lparr>pid_type = Command, pid_part = PartialPacketId g i\<rparr> :: (_, tsproto_error) outcome)"
    by (simp add: example_datagram_def)
  have now: "now example_env = 7" by (simp add: example_env_def)
  show ?case
    using Cons resender_send_reachable [of "example_sends ps" _ _ 1 example_env, OF _ pid] unfolding p now
    by (simp add: example_record_def)
qed

abbreviation example_resender :: resender where
  "example_resender \<equiv> example_sends [(0, 5)]"

lemma example_resender:
  "resender_reachable example_resender"
  "full_send_queue example_resender ! 1 = [(PartialPacketId 0 5, example_record 0 5)]"
  using example_sends [of "[(0, 5)]"] by (simp_all del: example_sends.simps)

abbreviation example_connection :: "resender \<Rightarrow> connection" where
  "example_connection res \<equiv>
     (connection_new 0 True ''a'' \<lparr>send_answers = [], recv_answers = [], sent_datagrams = []\<rparr>)\<lparr>resender := res\<rparr>"

section \<open>What was queued and what was acknowledged\<close>

lemma unacked_ack_removed:
  assumes "resender_inv res" "i < 3"
  shows "unacked (ack_removed env i k res) = (unacked res) (\<lparr>pid_type = queue_type i, pid_part = k\<rparr> := None)"
proof (rule ext)
  fix pid :: packet_id_t
  have len: "length (full_send_queue res) = 3" using assms by (simp add: resender_inv_def)
  have ok: "queue_ok i (full_send_queue res ! i)" using assms by (simp add: resender_inv_def)
  have "full_send_queue (ack_removed env i k res) =
      (full_send_queue res)[i := if bt_get (full_send_queue res ! i) k = None then full_send_queue res ! i
        else bt_remove k (full_send_queue res ! i)]"
    by (auto simp: ack_removed_def Let_def split: option.split)
  then show "unacked (ack_removed env i k res) pid
      = ((unacked res) (\<lparr>pid_type = queue_type i, pid_part = k\<rparr> := None)) pid"
    using ok len assms(2)
    by (cases pid) (auto simp: unacked_def packet_type_to_index_Ok nth_list_update bt_get_remove queue_ok_def
        split: outcome.split)
qed

lemma resender_ack_run:
  assumes "i < 3"
  shows "resender_ack env (queue_type i) p con =
    (case ack_target (queue_type i) p (outgoing_p_ids (codec con)) (full_send_queue (resender con) ! i) of
       Ok None \<Rightarrow> (Ok (), con)
     | Ok (Some (k, item)) \<Rightarrow> (Ok (), resender_update (ack_removed env i k) (con\<lparr>stream_items := stream_items con @
         (case item of None \<Rightarrow> [] | Some a \<Rightarrow> [AckPacketItem a])\<rparr>))
     | Err e \<Rightarrow> (Err e, con)
     | Panic \<Rightarrow> (Panic, con))"
proof -
  have "queue_type i \<noteq> Ping" using assms queue_type_in by fastforce
  then show ?thesis
    using assms by (simp add: resender_ack_def act_then.simps act_lift_def act_read_def act_return_def
        act_modify_def push_item_def split: outcome.split option.split)
qed

text \<open>An ack that is handled removes at most one packet, which has its type and its 16 bit id.\<close>

lemma resender_ack_unacked:
  assumes "resender_inv (resender con)" "t \<noteq> Ping" "resender_ack env t p con = (Ok (), con')"
  obtains "resender con' = resender con"
  | i k where "i < 3" "t = queue_type i" "packet_id k = p" "resender con' = ack_removed env i k (resender con)"
proof -
  obtain i where "packet_type_to_index t = (Ok i :: (_, tsproto_error) outcome)"
    using assms(2,3) by (cases "packet_type_to_index t :: (_, tsproto_error) outcome") (simp_all add: resender_ack_def)
  then have i: "i < 3" "t = queue_type i" by (simp_all add: packet_type_to_index_Ok)
  obtain x where x: "ack_target t p (outgoing_p_ids (codec con)) (full_send_queue (resender con) ! i)
      = (Ok x :: (_, tsproto_error) outcome)"
    using assms(3) unfolding i(2) resender_ack_run [OF i(1)] by (auto split: outcome.splits)
  show ?thesis
  proof (cases x)
    case None
    then have "resender con' = resender con"
      using assms(3) x unfolding i(2) resender_ack_run [OF i(1)] by simp
    then show ?thesis by (rule that(1))
  next
    case (Some ka)
    obtain k a where ka: "ka = (k, a)" by fastforce
    have "resender con' = ack_removed env i k (resender con)"
      using assms(3) x Some ka unfolding i(2) resender_ack_run [OF i(1)] by auto
    moreover have "packet_id k = p"
      using x Some ka by (auto simp: ack_target_def and_then_Ok_iff split: list.splits if_splits)
    ultimately show ?thesis using that(2) i by blast
  qed
qed

lemma resender_send_unacked:
  assumes "resender_inv res" "packet_id_of packet = (Ok pid :: (_, 'e) outcome)"
    and "(resender_send env packet res :: (unit, 'e) outcome \<times> resender) = (Ok (), res')"
  shows "resender_inv res'" "unacked res' = (unacked res)(pid \<mapsto> (now env, packet))"
proof -
  show "resender_inv res'" by (rule resender_send_inv [OF assms(1,3)])
  obtain i where "packet_type_to_index (pid_type pid) = (Ok i :: (_, 'e) outcome)"
    using assms(2,3) by (cases "packet_type_to_index (pid_type pid) :: (_, 'e) outcome") (simp_all add: resender_send_def Let_def)
  then have i: "i < 3" "pid_type pid = queue_type i" by (simp_all add: packet_type_to_index_Ok)
  let ?r = "\<lparr>rec_sent = now env, rec_id = \<lparr>sr_last = now env, sr_tries = 0, sr_id = pid\<rparr>, rec_packet = packet\<rparr>"
  obtain mid where "res' = fill_up_send_queue env mid"
    "full_send_queue mid = (full_send_queue res)[i := bt_insert (pid_part pid) ?r (full_send_queue res ! i)]"
    using resender_send_steps [OF assms(1,2) i, of env] assms(3) by auto
  then have full: "full_send_queue res' = (full_send_queue res)[i := bt_insert (pid_part pid) ?r (full_send_queue res ! i)]"
    by simp
  show "unacked res' = (unacked res)(pid \<mapsto> (now env, packet))"
  proof (rule ext)
    fix q :: packet_id_t
    show "unacked res' q = ((unacked res)(pid \<mapsto> (now env, packet))) q"
      using full assms(1) i by (cases q; cases pid)
        (auto simp: unacked_def packet_type_to_index_Ok resender_inv_def queue_ok_def nth_list_update bt_get_insert
          split: outcome.split)
  qed
qed

text \<open>
  The history of a resender, the newest event first: which packets were queued, with the instant and the
  datagram, and which ids were acknowledged. All other operations leave no event.
\<close>

datatype resender_event = Queued packet_id_t nat out_udp_packet | AckFor packet_type u16

inductive resender_history :: "resender_event list \<Rightarrow> resender \<Rightarrow> bool" where
  hist_new: "resender_history [] (resender_default t)"
| hist_send: "resender_history h res \<Longrightarrow> packet_id_of packet = (Ok pid :: (_, tsproto_error) outcome) \<Longrightarrow>
     (resender_send env packet res :: (unit, tsproto_error) outcome \<times> resender) = (Ok (), res') \<Longrightarrow>
     resender_history (Queued pid (now env) packet # h) res'"
| hist_ack: "resender_history h (resender con) \<Longrightarrow> t \<noteq> Ping \<Longrightarrow> resender_ack env t p con = (Ok (), con') \<Longrightarrow>
     resender_history (AckFor t p # h) (resender con')"
| hist_pong: "resender_history h res \<Longrightarrow> resender_history h (ack_ping env p res)"
| hist_received: "resender_history h res \<Longrightarrow> resender_history h (received_packet env res)"
| hist_loss_in: "resender_history h res \<Longrightarrow> handle_loss_incoming packet w n res = (Ok res' :: (_, tsproto_error) outcome) \<Longrightarrow>
     resender_history h res'"
| hist_loss_out: "resender_history h res \<Longrightarrow> handle_loss_outgoing packet res = (Ok res' :: (_, tsproto_error) outcome) \<Longrightarrow>
     resender_history h res'"
| hist_loss_ack: "resender_history h res \<Longrightarrow> handle_loss_resend_ack res = (Ok res' :: (_, tsproto_error) outcome) \<Longrightarrow>
     resender_history h res'"
| hist_state: "resender_history h res \<Longrightarrow> resender_history h (set_state env st res)"
| hist_poll: "resender_history h (resender con) \<Longrightarrow> poll_resend env con = Some (r, con') \<Longrightarrow> r \<noteq> Panic \<Longrightarrow>
     resender_history h (resender con')"

text \<open>The packets of a history whose type and 16 bit id were not acknowledged since.\<close>

fun still_queued :: "resender_event list \<Rightarrow> packet_id_t \<Rightarrow> (nat \<times> out_udp_packet) option" where
  "still_queued [] pid = None"
| "still_queued (Queued q t u # h) pid = (if q = pid then Some (t, u) else still_queued h pid)"
| "still_queued (AckFor t p # h) pid =
     (if pid_type pid = t \<and> packet_id (pid_part pid) = p then None else still_queued h pid)"

lemma resender_history_unacked:
  "resender_history h res \<Longrightarrow> resender_inv res \<and>
     (\<forall>pid x. still_queued h pid = Some x \<longrightarrow> unacked res pid = Some x) \<and>
     (\<forall>pid t u. unacked res pid = Some (t, u) \<longrightarrow> Queued pid t u \<in> set h)"
proof (induction rule: resender_history.induct)
  case (hist_new t)
  have "unacked (resender_default t) pid = None" for pid
    by (auto simp: unacked_def resender_default_def packet_type_to_index_Ok less_Suc_eq numeral_3_eq_3 split: outcome.split)
  then show ?case by simp
next
  case (hist_send h res packet pid env res')
  then show ?case using resender_send_unacked [OF _ hist_send.hyps(2,3)] by auto
next
  case (hist_ack h con t env p con')
  have inv: "resender_inv (resender con)" using hist_ack.IH by simp
  show ?case
  proof (rule resender_ack_unacked [OF inv hist_ack.hyps(2,3)])
    assume "resender con' = resender con"
    then show ?thesis using hist_ack.IH by auto
  next
    fix i k assume ack: "i < 3" "t = queue_type i" "packet_id k = p" "resender con' = ack_removed env i k (resender con)"
    show ?thesis
      using hist_ack.IH ack ack_removed_inv [OF inv ack(1)] unacked_ack_removed [OF inv ack(1)] by auto
  qed
next
  case (hist_pong h res env p)
  then show ?case using resender_inv_cong [of "ack_ping env p res" res] unacked_cong [of "ack_ping env p res" res] by simp
next
  case (hist_received h res env)
  then show ?case
    using resender_inv_cong [of "received_packet env res" res] unacked_cong [of "received_packet env res" res]
    by (simp add: received_packet_def)
next
  case (hist_loss_in h res packet w n res')
  then show ?case
    using resender_inv_cong [of res' res] unacked_cong [of res' res] handle_loss_incoming_queues [OF hist_loss_in.hyps(2)] by simp
next
  case (hist_loss_out h res packet res')
  then show ?case
    using resender_inv_cong [of res' res] unacked_cong [of res' res] handle_loss_outgoing_queues [OF hist_loss_out.hyps(2)] by simp
next
  case (hist_loss_ack h res res')
  then show ?case
    using resender_inv_cong [of res' res] unacked_cong [of res' res] handle_loss_resend_ack_queues [OF hist_loss_ack.hyps(2)] by simp
next
  case (hist_state h res env st)
  then show ?case
    using resender_inv_cong [of "set_state env st res" res] unacked_cong [of "set_state env st res" res]
    by (simp add: set_state_def Let_def)
next
  case (hist_poll h con env r con')
  then show ?case
    using poll_resend_loop_result [of con env "get_timeout (resender con)"]
    by (auto simp: poll_resend_def resend_result_def)
qed

section \<open>Properties\<close>

text \<open>
  C9 (no packet is lost): let a resender run through any sequence of queued packets, acks, pongs, counted
  datagrams, polls and changes of state, none of which panics. A packet that was queued, and since
  when neither an ack for its type and 16 bit id came nor a packet with the same full id was queued, still waits for its ack, with the bytes and the instant it was queued with, and it is in
  flight or its id is not below the index of its queue, so that the next refill of the send queue takes it.
  No other packets wait than those that were queued.
\<close>

theorem resender_keeps_packets:
  assumes "resender_history h res" and "still_queued h pid = Some (t, u)"
  shows "unacked res pid = Some (t, u) \<and>
    (\<exists>i < 3. pid_type pid = queue_type i \<and> (pid \<in> in_flight res \<or> send_queue_indices res ! i \<le> pid_part pid)) \<and>
    (\<forall>pid' t' u'. unacked res pid' = Some (t', u') \<longrightarrow> Queued pid' t' u' \<in> set h)"
proof -
  note hist = resender_history_unacked [OF assms(1)]
  have un: "unacked res pid = Some (t, u)" using hist assms(2) by blast
  then obtain i where i: "i < 3" "pid_type pid = queue_type i"
    by (auto simp: unacked_def packet_type_to_index_Ok split: outcome.splits)
  then have pid: "pid = \<lparr>pid_type = queue_type i, pid_part = pid_part pid\<rparr>" by simp
  have "unacked res \<lparr>pid_type = queue_type i, pid_part = pid_part pid\<rparr> \<noteq> None" using un pid by simp
  from unacked_in_flight [OF _ i(1) this] have "pid \<in> in_flight res \<or> send_queue_indices res ! i \<le> pid_part pid"
    using hist pid by simp
  then have "\<exists>i < 3. pid_type pid = queue_type i \<and> (pid \<in> in_flight res \<or> send_queue_indices res ! i \<le> pid_part pid)"
    using i by blast
  then show ?thesis using un hist by simp
qed

theorem resender_keeps_packets_witness:
  "unacked (set_state example_env Connected example_resender) \<lparr>pid_type = Command, pid_part = PartialPacketId 0 5\<rparr>
     = Some (7, example_datagram 0 5)"
proof -
  let ?pid = "\<lparr>pid_type = Command, pid_part = PartialPacketId 0 5\<rparr>"
  have pid: "packet_id_of (example_datagram 0 5) = (Ok ?pid :: (_, tsproto_error) outcome)"
    by (simp add: example_datagram_def)
  obtain mid where "(resender_send example_env (example_datagram 0 5) (resender_default 0)
      :: (unit, tsproto_error) outcome \<times> resender) = (Ok (), fill_up_send_queue example_env mid)"
    using resender_send_steps [OF resender_inv_default pid, of 1 example_env 0] by auto
  then have "(resender_send example_env (example_datagram 0 5) (resender_default 0)
      :: (unit, tsproto_error) outcome \<times> resender) = (Ok (), example_resender)" by simp
  from hist_state [OF hist_send [OF hist_new pid this], of example_env Connected]
  have "resender_history [Queued ?pid 7 (example_datagram 0 5)] (set_state example_env Connected example_resender)"
    by (simp add: example_env_def)
  from resender_keeps_packets [OF this, of ?pid] show ?thesis by simp
qed

text \<open>
  C10 (polling the send queue): \<open>poll_resend\<close> always returns. Unless a statistics counter overflows, it
  changes nothing about which packets wait for an ack; it only hands datagrams to the socket that
  belong to packets that wait and are younger than the timeout of the state; when it is done and the
  socket would still take a datagram, nothing in flight is due, neither unsent nor past the
  retransmission timeout; and a timeout is reported only when some packet waited for too long.
\<close>

theorem poll_resend_total:
  assumes "resender_reachable (resender con)"
  shows "\<exists>r con'. poll_resend env con = Some (r, con') \<and>
    (r \<noteq> Panic \<longrightarrow> unacked (resender con') = unacked (resender con)) \<and>
    (\<exists>ds. sent_datagrams (udp_socket con') = sent_datagrams (udp_socket con) @ ds \<and>
       (\<forall>d \<in> set ds. \<exists>pid t u. unacked (resender con) pid = Some (t, u) \<and> d = op_data (ou_data u) \<and>
          now env - t \<le> get_timeout (resender con))) \<and>
    (r = Ok () \<longrightarrow> send_answers (udp_socket con') \<noteq> [] \<longrightarrow>
       (\<forall>x \<in> set (send_queue (resender con')).
          sr_tries x \<noteq> 0 \<and> now env - get_rto (resender con') < sr_last x)) \<and>
    (\<forall>s. r = Err (Timeout s) \<longrightarrow>
       (\<exists>pid t u. unacked (resender con) pid = Some (t, u) \<and> get_timeout (resender con) < now env - t))"
proof -
  obtain r con' where run: "poll_resend_loop env (get_timeout (resender con)) con = Some (r, con')"
    "resend_result env (get_timeout (resender con)) con (r, con')"
    using poll_resend_loop_result [OF resender_reachable_inv [OF assms], of env "get_timeout (resender con)"] by fastforce
  show ?thesis
    by (rule exI [of _ r], rule exI [of _ con'])
      (use run in \<open>auto simp: poll_resend_def resend_result_def due_def not_le\<close>)
qed

theorem poll_resend_total_witness:
  "\<exists>r con'. poll_resend \<lparr>now = 7, cubic = \<lambda>_ _. Some 3, binary_search = \<lambda>_ _. None, prims = toy_primitives\<rparr>
     (connection_new 0 True ''a'' \<lparr>send_answers = [], recv_answers = [], sent_datagrams = []\<rparr>) = Some (r, con')"
proof -
  let ?con = "connection_new 0 True ''a'' \<lparr>send_answers = [], recv_answers = [], sent_datagrams = []\<rparr>"
  have "resender_reachable (resender ?con)" by (simp add: connection_new_def Let_def start)
  from poll_resend_total [OF this] show ?thesis by blast
qed

text \<open>The key that an ack names, given the first packet of the queue.\<close>

lemma ack_key_unique:
  assumes "ppid_nat first \<le> ppid_nat k" "ppid_nat k < ppid_nat first + 2 ^ 16"
  shows "k = PartialPacketId
    (if packet_id k < packet_id first then generation_id first + 1 else generation_id first) (packet_id k)"
proof -
  let ?g = "unat (generation_id k)" and ?f = "unat (generation_id first)"
  have b: "unat (packet_id k) < 65536" "unat (packet_id first) < 65536"
    using packet_id_bound [of k] packet_id_bound [of first] by simp_all
  have g: "?g < 4294967296" using unsigned_less [of "generation_id k", where 'a = nat] by simp
  have n: "?f * 65536 + unat (packet_id first) \<le> ?g * 65536 + unat (packet_id k)"
    "?g * 65536 + unat (packet_id k) < ?f * 65536 + unat (packet_id first) + 65536"
    using assms by (simp_all add: ppid_nat_def)
  show ?thesis
  proof (cases "packet_id k < packet_id first")
    case True
    then have "unat (packet_id k) < unat (packet_id first)" by (simp add: word_less_nat_alt)
    then have "?g = ?f + 1" using n b by linarith
    then have "generation_id k = generation_id first + 1"
      using g by (intro word_unat_eq_iff [THEN iffD2]) (simp add: unat_plus_no_carry)
    with True show ?thesis by (cases k) simp
  next
    case False
    then have "unat (packet_id first) \<le> unat (packet_id k)" by (simp add: word_less_nat_alt)
    then have "?g = ?f" using n b by linarith
    then have "generation_id k = generation_id first" by (simp add: word_unat_eq_iff)
    with False show ?thesis by (cases k) simp
  qed
qed

lemma ppid_pred_less: "p < q \<Longrightarrow> ppid_sub q 1 < q"
proof -
  assume "p < q"
  then have "packet_id q \<noteq> 0 \<or> generation_id q \<noteq> 0" by (auto simp: ppid_order_defs)
  moreover have pred: "w - 1 < w" if "w \<noteq> 0" for w :: "'n::len word"
    using that unat_minus_one [OF that] unat_gt_0 [of w] by (simp add: word_less_nat_alt)
  ultimately show ?thesis
    using pred [of "packet_id q"] pred [of "generation_id q"]
    by (cases q) (auto simp: ppid_order_defs ppid_sub_def overflowing_sub_def)
qed

text \<open>A call of \<open>resender_ack\<close> for a queued packet type that returns.\<close>

lemma resender_ack_cases:
  assumes i: "i < 3" and q: "full_send_queue (resender con) ! i = (first, r) # rest"
    and run: "resender_ack env (queue_type i) p con = (Ok (), con')"
  obtains item where
    "resender con' = ack_removed env i (PartialPacketId
       (if p < packet_id first then generation_id first + 1 else generation_id first) p) (resender con)"
    "stream_items con' = stream_items con @ (case item of None \<Rightarrow> [] | Some a \<Rightarrow> [AckPacketItem a])"
    "\<forall>a. item = Some a \<longrightarrow> p = packet_id first \<and> pid_type a = queue_type i \<and>
       (\<forall>k2 r2 rest2. rest = (k2, r2) # rest2 \<longrightarrow> pid_part a = ppid_sub (rec_part r2) 1)"
proof -
  obtain x where t: "ack_target (queue_type i) p (outgoing_p_ids (codec con)) ((first, r) # rest)
      = (Ok x :: (_, tsproto_error) outcome)"
    using run unfolding resender_ack_run [OF i] q by (simp split: outcome.splits)
  then have "x \<noteq> None" by (auto simp: ack_target_def and_then_Ok_iff split: if_splits)
  then obtain k item where x: "x = Some (k, item)" by auto
  note t = t [unfolded x]
  have con': "con' = resender_update (ack_removed env i k) (con\<lparr>stream_items := stream_items con @
      (case item of None \<Rightarrow> [] | Some a \<Rightarrow> [AckPacketItem a])\<rparr>)"
    using run unfolding resender_ack_run [OF i] q t by simp
  have k: "k = PartialPacketId (if p < packet_id first then generation_id first + 1 else generation_id first) p"
    using t by (cases first) (auto simp: ack_target_def and_then_Ok_iff split: if_splits)
  have item: "p = packet_id first \<and> pid_type a = queue_type i \<and>
       (\<forall>k2 r2 rest2. rest = (k2, r2) # rest2 \<longrightarrow> pid_part a = ppid_sub (rec_part r2) 1)" if "item = Some a" for a
    using t that by (auto simp: ack_target_def and_then_Ok_iff split: if_splits)
  show ?thesis by (rule that [of item]) (use item in \<open>simp_all add: con' k\<close>)
qed

lemma packet_id_t_eq: "pid_type a = pid_type b \<Longrightarrow> pid_part a = pid_part b \<Longrightarrow> a = (b :: packet_id_t)"
  by (cases a; cases b) simp

lemma ack_remaining_later:
  assumes ok: "queue_ok i ((first, r) # rest)" and k: "(k, r') \<in> set rest" "rest = (k2, r2) # rest2"
  shows "ppid_sub (rec_part r2) 1 < k"
proof -
  have "rec_part r2 = k2" using ok k(2) by (simp add: queue_ok_def rec_part_def rec_pid_def)
  moreover have "first < k2" "k2 \<le> k" using ok k by (auto simp: queue_ok_def bt_invar_def)
  ultimately show ?thesis using ppid_pred_less [of first k2] by simp
qed

text \<open>
  C11 (acks): an ack for the 16 bit id \<open>p\<close> removes the packet with this id from the packets that wait for
  an ack, and no other, as long as the ids that wait span less than one generation. When an
  acknowledged id is reported, no packet of its type up to this id waits any more.
\<close>

theorem ack_removes_one_packet:
  assumes "resender_reachable (resender con)" "i < 3"
    and "full_send_queue (resender con) ! i = (first, r) # rest"
    and "\<forall>(k, _) \<in> set rest. ppid_nat k < ppid_nat first + 2 ^ 16"
    and "resender_ack env (queue_type i) p con = (Ok (), con')"
  shows "(\<forall>pid. unacked (resender con') pid =
      (if pid_type pid = queue_type i \<and> packet_id (pid_part pid) = p then None else unacked (resender con) pid)) \<and>
    (stream_items con' = stream_items con \<or>
     (\<exists>a. stream_items con' = stream_items con @ [AckPacketItem \<lparr>pid_type = queue_type i, pid_part = a\<rparr>] \<and>
        (\<forall>k \<le> a. unacked (resender con') \<lparr>pid_type = queue_type i, pid_part = k\<rparr> = None)))"
proof -
  let ?q = "full_send_queue (resender con) ! i"
  let ?key = "PartialPacketId (if p < packet_id first then generation_id first + 1 else generation_id first) p"
  have inv: "resender_inv (resender con)" using assms(1) by (rule resender_reachable_inv)
  have ok: "queue_ok i ((first, r) # rest)" using inv assms(2,3) by (metis resender_inv_def)
  obtain item where res': "resender con' = ack_removed env i ?key (resender con)"
    and items: "stream_items con' = stream_items con @ (case item of None \<Rightarrow> [] | Some a \<Rightarrow> [AckPacketItem a])"
    and items_of: "\<forall>a. item = Some a \<longrightarrow> p = packet_id first \<and> pid_type a = queue_type i \<and>
       (\<forall>k2 r2 rest2. rest = (k2, r2) # rest2 \<longrightarrow> pid_part a = ppid_sub (rec_part r2) 1)"
    by (rule resender_ack_cases [OF assms(2,3,5)])
  note item = items_of [rule_format]
  have waits: "unacked (resender con) \<lparr>pid_type = queue_type i, pid_part = k\<rparr> = None"
    if "\<forall>r'. (k, r') \<notin> set ((first, r) # rest)" for k
    using unacked_Some_iff [OF inv assms(2), of k] that unfolding assms(3) by blast
  have gone: "unacked (resender con') pid =
      (if pid = \<lparr>pid_type = queue_type i, pid_part = ?key\<rparr> then None else unacked (resender con) pid)" for pid
    unfolding res' unacked_ack_removed [OF inv assms(2)] by simp
  have key: "k = ?key" if k: "(k, r') \<in> set ((first, r) # rest)" "packet_id k = p" for k r'
  proof -
    have "ppid_nat first \<le> ppid_nat k" "ppid_nat k < ppid_nat first + 2 ^ 16"
      using k(1) ok assms(4) by (auto simp: queue_ok_def bt_invar_def ppid_less_nat order_less_imp_le)
    from ack_key_unique [OF this] show ?thesis using k(2) by simp
  qed
  have "unacked (resender con') pid =
      (if pid_type pid = queue_type i \<and> packet_id (pid_part pid) = p then None else unacked (resender con) pid)" for pid
  proof (cases "pid_type pid = queue_type i \<and> packet_id (pid_part pid) = p \<and> pid_part pid \<noteq> ?key")
    case True
    then have "\<forall>r'. (pid_part pid, r') \<notin> set ((first, r) # rest)" using key by blast
    from waits [OF this] True show ?thesis unfolding gone by (cases pid) simp
  next
    case False
    have "packet_id ?key = p" by simp
    then have "pid = \<lparr>pid_type = queue_type i, pid_part = ?key\<rparr> \<longleftrightarrow>
        pid_type pid = queue_type i \<and> packet_id (pid_part pid) = p"
      using False by (metis packet_id_t.select_convs(1,2) packet_id_t_eq)
    then show ?thesis unfolding gone by simp
  qed
  moreover have "unacked (resender con') \<lparr>pid_type = queue_type i, pid_part = k\<rparr> = None"
    if "item = Some a" "k \<le> pid_part a" for a k
  proof (cases "k = first")
    case True
    then have "k = ?key" using item [OF that(1)] by (cases first) simp
    then show ?thesis unfolding gone by simp
  next
    case False
    have "(k, r') \<notin> set rest" for r'
    proof
      assume r': "(k, r') \<in> set rest"
      then obtain k2 r2 rest2 where rest: "rest = (k2, r2) # rest2" by (cases rest) auto
      then show False using ack_remaining_later [OF ok r' rest] item [OF that(1)] that(2) by simp
    qed
    then have "\<forall>r'. (k, r') \<notin> set ((first, r) # rest)" using False by simp
    from waits [OF this] show ?thesis unfolding gone by simp
  qed
  ultimately have "\<forall>a. item = Some a \<longrightarrow> (\<forall>k \<le> pid_part a. unacked (resender con') \<lparr>pid_type = queue_type i, pid_part = k\<rparr> = None)"
    "\<forall>pid. unacked (resender con') pid =
      (if pid_type pid = queue_type i \<and> packet_id (pid_part pid) = p then None else unacked (resender con) pid)"
    by blast+
  then show ?thesis
    using items item by (cases item) (simp, intro conjI disjI2, simp, cases "the item", auto)
qed

theorem ack_removes_one_packet_witness:
  "let con = example_connection example_resender; con' = snd (resender_ack example_env Command 5 con)
   in unacked (resender con) \<lparr>pid_type = Command, pid_part = PartialPacketId 0 5\<rparr> \<noteq> None \<and>
     unacked (resender con') \<lparr>pid_type = Command, pid_part = PartialPacketId 0 5\<rparr> = None"
proof -
  let ?con = "example_connection example_resender"
  have q: "full_send_queue (resender ?con) ! 1 = (PartialPacketId 0 5, example_record 0 5) # []"
    using example_resender(2) by simp
  have r: "resender_reachable (resender ?con)" using example_resender(1) by simp
  have "fst (resender_ack example_env (queue_type 1) 5 ?con) = Ok ()"
    using resender_ack_run [of 1 example_env 5 ?con] q
    by (simp add: ack_target_def connection_new_def packet_codec_default_def Let_def index_def packet_type_index_def)
  then obtain con' where run: "resender_ack example_env (queue_type 1) 5 ?con = (Ok (), con')"
    by (metis prod.collapse)
  from ack_removes_one_packet [OF r _ q _ run]
  have "unacked (resender con') \<lparr>pid_type = Command, pid_part = PartialPacketId 0 5\<rparr> = None" by simp
  moreover have "unacked (resender ?con) \<lparr>pid_type = Command, pid_part = PartialPacketId 0 5\<rparr> \<noteq> None"
    using q by (simp add: unacked_def packet_type_to_index_def)
  ultimately show ?thesis using run by (simp add: Let_def)
qed

lemma unat_window: "\<not> 32767 < r \<Longrightarrow> \<not> r < 1 \<Longrightarrow> unat (of_int r :: u16) \<le> 32767 \<and> 0 < unat (of_int r :: u16)"
  by (simp add: unat_eq_nat_uint uint_word_of_int take_bit_eq_mod)

text \<open>
  The congestion window bounds what is in flight: whatever the CUBIC expression yields, the window
  is at most 32767, and at least 1 when it is a number. Refilling the send queue never takes it above
  the window, and fills the window unless every packet that waits for an ack is in flight.
\<close>

theorem send_window_respected:
  assumes "resender_reachable res"
  shows "unat (get_window env res) \<le> 32767 \<and>
    ((\<forall>t. cubic env t (w_max res) \<noteq> None) \<longrightarrow> 0 < get_window env res) \<and>
    length (send_queue (fill_up_send_queue env res)) \<le> max (length (send_queue res)) (unat (get_window env res)) \<and>
    (unat (get_window env res) \<le> length (send_queue (fill_up_send_queue env res)) \<or>
     (\<forall>i < 3. \<forall>k. unacked res \<lparr>pid_type = queue_type i, pid_part = k\<rparr> \<noteq> None \<longrightarrow>
        \<lparr>pid_type = queue_type i, pid_part = k\<rparr> \<in> in_flight (fill_up_send_queue env res)))"
proof (rule fill_up_send_queue [OF resender_reachable_inv [OF assms], of env])
  fix rs
  let ?res = "fill_up_send_queue env res" and ?w = "get_window env res"
  assume q: "send_queue ?res = send_queue res @ map rec_id rs" "length rs \<le> unat ?w - length (send_queue res)"
    and full: "length rs = unat ?w - length (send_queue res) \<or>
      (\<forall>i < 3. \<forall>(k, r) \<in> set (full_send_queue res ! i). rec_pid r \<in> in_flight ?res)"
  have inv: "resender_inv res" by (rule resender_reachable_inv [OF assms])
  have flight: "\<lparr>pid_type = queue_type i, pid_part = k\<rparr> \<in> in_flight ?res"
    if all: "\<forall>i < 3. \<forall>(k, r) \<in> set (full_send_queue res ! i). rec_pid r \<in> in_flight ?res" and i: "i < 3"
      and waits: "unacked res \<lparr>pid_type = queue_type i, pid_part = k\<rparr> \<noteq> None" for i k
  proof -
    obtain r where r: "(k, r) \<in> set (full_send_queue res ! i)" using unacked_Some_iff [OF inv i] waits by blast
    then have "rec_pid r = \<lparr>pid_type = queue_type i, pid_part = k\<rparr>"
      using inv i by (auto simp: resender_inv_def queue_ok_def)
    then show ?thesis using all i r by fastforce
  qed
  have "unat ?w \<le> 32767 \<and> ((\<forall>t. cubic env t (w_max res) \<noteq> None) \<longrightarrow> 0 < ?w)"
    using unat_window by (auto simp: get_window_def Let_def word_gt_0 unat_eq_0 [symmetric] simp del: unat_eq_0 split: option.split)
  then show ?thesis using q full flight by auto
qed

theorem send_window_respected_witness:
  "unat (get_window example_env example_resender) = 3 \<and>
   length (send_queue (fill_up_send_queue example_env example_resender)) \<le> max (length (send_queue example_resender)) 3"
proof -
  have "get_window example_env example_resender = 3" by (simp add: get_window_def example_env_def)
  with send_window_respected [OF example_resender(1), of example_env] show ?thesis by simp
qed

text \<open>
  The send window counts queues: \<open>is_full\<close>, which tells the client whether it may send more,
  compares the window with the number of queues, of which there are always three, and not with the
  number of packets; it says that the send queue is full exactly when the window is at most three,
  however many packets wait.
\<close>

theorem is_full_counts_queues:
  assumes "resender_reachable res"
  shows "is_full env res \<longleftrightarrow> unat (get_window env res) \<le> 3"
  using resender_reachable_inv [OF assms] by (simp add: is_full_def resender_inv_def)

theorem is_full_counts_queues_witness:
  "is_full example_env example_resender \<longleftrightarrow> unat (get_window example_env example_resender) \<le> 3"
  by (rule is_full_counts_queues [OF example_resender(1)])

lemma choose_from_newest:
  assumes "choose_from (drop n iters) n best = Some j"
    and "best = None \<Longrightarrow> \<forall>m < n. m < length iters \<longrightarrow> iters ! m = []"
    and "\<And>b t. best = Some (b, t) \<Longrightarrow> b < length iters \<and> iters ! b \<noteq> [] \<and> t = rec_sent (hd (iters ! b)) \<and>
      (\<forall>m < n. m < length iters \<longrightarrow> iters ! m \<noteq> [] \<longrightarrow> rec_sent (hd (iters ! m)) \<le> t)"
  shows "j < length iters \<and> iters ! j \<noteq> [] \<and>
    (\<forall>m < length iters. iters ! m \<noteq> [] \<longrightarrow> rec_sent (hd (iters ! m)) \<le> rec_sent (hd (iters ! j)))"
  using assms
proof (induction "length iters - n" arbitrary: n best)
  case 0
  then show ?case by auto
next
  case (Suc k)
  have n: "n < length iters" "k = length iters - Suc n" using Suc.hyps(2) by simp_all
  have split: "drop n iters = iters ! n # drop (Suc n) iters" using n(1) by (rule Cons_nth_drop_Suc [symmetric])
  let ?next = "case iters ! n of [] \<Rightarrow> best
    | r # rs \<Rightarrow> (case best of None \<Rightarrow> Some (n, rec_sent r)
        | Some (max_i, min_time) \<Rightarrow> if min_time < rec_sent r then Some (n, rec_sent r) else best)"
  have run: "choose_from (drop (Suc n) iters) (Suc n) ?next = Some j"
    using Suc.prems(1) unfolding split by (cases "iters ! n") simp_all
  show ?case
  proof (rule Suc.hyps(1) [OF n(2) run])
    show "\<forall>m < Suc n. m < length iters \<longrightarrow> iters ! m = []" if "?next = None"
      using that Suc.prems(2) by (auto simp: less_Suc_eq split: list.splits option.splits if_splits)
    show "b < length iters \<and> iters ! b \<noteq> [] \<and> t = rec_sent (hd (iters ! b)) \<and>
      (\<forall>m < Suc n. m < length iters \<longrightarrow> iters ! m \<noteq> [] \<longrightarrow> rec_sent (hd (iters ! m)) \<le> t)" if "?next = Some (b, t)" for b t
    proof (cases best)
      case None
      then show ?thesis using that Suc.prems(2) n(1) by (auto simp: less_Suc_eq split: list.splits)
    next
      case (Some p)
      obtain b' t' where p: "best = Some (b', t')" using Some by (cases p) auto
      show ?thesis
        using that Suc.prems(3) [OF p] n(1) unfolding p
        by (force simp: less_Suc_eq split: list.splits if_splits)
    qed
  qed
qed

text \<open>
  The newest packet goes first: of the packets at the heads of the three queues, the refill of the
  send queue takes the one that was queued last, although the code calls the value that it compares
  with \<open>min_time\<close>; a packet that is queued continuously in one queue can keep the others back.
\<close>

theorem refill_takes_newest_head:
  assumes "choose_from iters 0 None = Some i"
  shows "i < length iters \<and> iters ! i \<noteq> [] \<and>
    (\<forall>j < length iters. iters ! j \<noteq> [] \<longrightarrow> rec_sent (hd (iters ! j)) \<le> rec_sent (hd (iters ! i)))"
  by (rule choose_from_newest [of 0 iters None]) (use assms in simp_all)

theorem refill_takes_newest_head_witness:
  "\<exists>r. full_send_queue example_resender ! 1 = [r] \<and> choose_from [[], [snd r], []] 0 None = Some 1 \<and>
     (\<forall>j < 3. [[], [snd r], []] ! j \<noteq> [] \<longrightarrow> rec_sent (hd ([[], [snd r], []] ! j)) \<le> rec_sent (snd r))"
proof -
  obtain r where r: "full_send_queue example_resender ! 1 = [r]" using example_resender(2) by blast
  have c: "choose_from [[], [snd r], []] 0 None = Some 1" by simp
  show ?thesis by (rule exI [of _ r]) (use r c refill_takes_newest_head [OF c] in simp)
qed

text \<open>
  A queue whose record of the id 65535 is filed one generation too late: an ack for the id before it
  reports this id, too, and an ack for it is lost.
\<close>

lemma ack_at_wrap:
  assumes inv: "resender_inv (resender con)"
    and "full_send_queue (resender con) ! 1 = (PartialPacketId g 0xFFFE, r) # (PartialPacketId (g + 1) 0, r2) # rest"
    and "unacked (resender con) \<lparr>pid_type = Command, pid_part = PartialPacketId (g + 1) 0xFFFF\<rparr> = Some x"
  shows "(\<exists>con'. resender_ack env Command 0xFFFE con = (Ok (), con') \<and>
      stream_items con' = stream_items con @ [AckPacketItem \<lparr>pid_type = Command, pid_part = PartialPacketId g 0xFFFF\<rparr>] \<and>
      unacked (resender con') \<lparr>pid_type = Command, pid_part = PartialPacketId (g + 1) 0xFFFF\<rparr> = Some x) \<and>
    (\<exists>con'. resender_ack env Command 0xFFFF con = (Ok (), con') \<and>
      unacked (resender con') \<lparr>pid_type = Command, pid_part = PartialPacketId (g + 1) 0xFFFF\<rparr> = Some x)"
proof -
  have ok: "queue_ok 1 (full_send_queue (resender con) ! 1)" using inv by (simp add: resender_inv_def)
  have r2: "rec_part r2 = PartialPacketId (g + 1) 0"
    using ok unfolding assms(2) by (simp add: queue_ok_def rec_part_def rec_pid_def)
  have sub: "ppid_sub (PartialPacketId (g + 1) 0) 1 = PartialPacketId g 0xFFFF"
    by (simp add: ppid_sub_def overflowing_sub_def)
  have "g \<noteq> g + 1" by simp
  then show ?thesis
    using resender_ack_run [of 1 env "0xFFFE" con] resender_ack_run [of 1 env "0xFFFF" con] assms(2,3) r2 sub
      unacked_ack_removed [OF inv, of 1]
    by (simp add: ack_target_def)
qed


end
