(* ===== verification/Connection.thy ===== *)
theory Connection
  imports Packet_Codec Resender
begin

text \<open>
  The operations of \<open>Connection\<close> (\<open>tsproto/src/connection.rs\<close>) that join the codec and the resender:
  sending packets and acks, handling a received datagram (\<open>PacketCodec::handle_udp_packet\<close> in
  \<open>packet_codec.rs\<close>), pings and statistics (\<open>Resender::poll_ping\<close> in \<open>resend.rs\<close>), and the poll function
  of the stream that runs all of them.

  An \<open>Err\<close> of an action is an error that ends the stream of the connection; recoverable errors are
  stream items. A handler that returns early with \<open>Ok(())\<close> yields \<open>Stop\<close>.
\<close>

section \<open>Sending\<close>

text \<open>A method of the resender that is called through the connection.\<close>

definition res_try :: "(resender \<Rightarrow> (resender, tsproto_error) outcome) \<Rightarrow> unit con_action" where
  "res_try f =
     act_then (act_read resender) (\<lambda>res.
     act_then (act_lift (f res)) (\<lambda>res.
     act_modify (resender_update (\<lambda>_. res))))"

definition send_udp_packet :: "env \<Rightarrow> out_udp_packet \<Rightarrow> unit con_action" where
  "send_udp_packet env packet =
     act_then (act_lift (udp_packet_type packet)) (\<lambda>t.
     if t = Init \<or> t = Command \<or> t = CommandLow
     then on_resender (resender_send env packet)
     else act_modify (acks_to_send_update (\<lambda>ps. ps @ [packet])))"

definition send_packet :: "env \<Rightarrow> out_packet \<Rightarrow> packet_id_t con_action" where
  "send_packet env packet =
     act_then (send_event (SendPacket packet)) (\<lambda>_.
     act_then (encode_packet (prims env) packet) (\<lambda>udp_packets.
     act_then (act_lift (if udp_packets = [] then Panic else packet_id_of (last udp_packets))) (\<lambda>i.
     act_then (act_for udp_packets (send_udp_packet env)) (\<lambda>_.
     act_return i))))"

definition send_ack_packet :: "env \<Rightarrow> out_packet \<Rightarrow> unit con_action" where
  "send_ack_packet env packet =
     act_then (send_event (SendPacket packet)) (\<lambda>_.
     act_then (encode_packet (prims env) packet) (\<lambda>udp_packets.
     case udp_packets of
       [packet] \<Rightarrow>
         act_then (poll_send_udp_packet packet) (\<lambda>r.
         case r of
           Ready _ \<Rightarrow> res_try (handle_loss_outgoing packet)
         | Pending \<Rightarrow> act_modify (acks_to_send_update (\<lambda>ps. ps @ [packet])))
     | _ \<Rightarrow> act_lift Panic))"

text \<open>\<open>poll_send_acks\<close>: the loop runs over the queue of acks, which it pops from the front.\<close>

fun poll_acks :: "out_udp_packet list \<Rightarrow> unit con_action" where
  "poll_acks [] = act_return ()"
| "poll_acks (packet # packets) =
     act_then (poll_send_udp_packet packet) (\<lambda>r.
     case r of
       Pending \<Rightarrow> act_return ()
     | Ready _ \<Rightarrow>
         act_then (res_try (handle_loss_outgoing packet)) (\<lambda>_.
         act_then (act_modify (acks_to_send_update tl)) (\<lambda>_.
         poll_acks packets)))"

definition poll_send_acks :: "unit con_action" where
  "poll_send_acks = act_then (act_read acks_to_send) poll_acks"

section \<open>Handling a datagram\<close>

datatype 'a step = Stop | Go 'a

definition step_then :: "'a step con_action \<Rightarrow> ('a \<Rightarrow> 'b step con_action) \<Rightarrow> 'b step con_action" where
  "step_then m f = act_then m (\<lambda>r. case r of Stop \<Rightarrow> act_return Stop | Go x \<Rightarrow> f x)"

text \<open>Report a recoverable error and return.\<close>

definition reject :: "tsproto_error \<Rightarrow> 'a step con_action" where
  "reject e = act_then (push_item (ErrorItem e)) (\<lambda>_. act_return Stop)"

text \<open>The checks of an established connection: no init packets, and the client id.\<close>

definition check_established :: "in_packet \<Rightarrow> packet_type \<Rightarrow> u16 \<Rightarrow> u32 \<Rightarrow> unit step con_action" where
  "check_established packet p_type i gen_id =
     act_then (act_read id) (\<lambda>con.
     case params con of
       None \<Rightarrow> act_return (Go ())
     | Some ps \<Rightarrow>
         if p_type = Init then reject UnexpectedInitPacket
         else if \<not> is_client con then
           act_then (act_lift (and_then (h_client_id (ip_header packet)) unwrap_opt)) (\<lambda>c_id.
           let is_first_ack = gen_id = 0 \<and> i \<le> 3 \<and> p_type = Ack_T in
           if c_id \<noteq> cp_c_id ps \<and> \<not> is_first_ack then reject (WrongClientId c_id)
           else act_return (Go ()))
         else act_return (Go ()))"

text \<open>Decryption with the parameters; a failure is a recoverable error, the key cache is updated.\<close>

definition decrypt_with_params :: "primitives \<Rightarrow> in_packet \<Rightarrow> u32 \<Rightarrow> (bytes, tsproto_error) outcome con_action" where
  "decrypt_with_params pr packet gen_id =
     act_then (act_read params) (\<lambda>ps.
     act_then (act_lift (unwrap_opt ps)) (\<lambda>ps.
     act_then (act_lift (decrypt pr packet gen_id (cp_shared_iv ps) (cp_key_cache ps))) (\<lambda>(r, cache).
     act_then (act_modify (params_update (\<lambda>_. Some (ps\<lparr>cp_key_cache := cache\<rparr>)))) (\<lambda>_.
     act_return r))))"

text \<open>\<open>match .. { Ok(r) => r, Err(e) => { push; return Ok(()) } }\<close>.\<close>

definition or_reject :: "('a, tsproto_error) outcome \<Rightarrow> 'a step con_action" where
  "or_reject r = (case r of Ok x \<Rightarrow> act_return (Go x) | Err e \<Rightarrow> reject e | Panic \<Rightarrow> act_lift Panic)"

definition unseal :: "primitives \<Rightarrow> in_packet \<Rightarrow> packet_type \<Rightarrow> u16 \<Rightarrow> u32 \<Rightarrow> bytes step con_action" where
  "unseal pr packet p_type i gen_id =
     act_then (act_read id) (\<lambda>con.
     if p_type = Ack_T \<and> i = 1 \<and> is_client con then act_return Stop
     else if (p_type = Ack_T \<and> i \<le> 1 \<and> is_client con) \<or> params con = None then
       (case decrypt_fake pr packet of
          Ok r \<Rightarrow> act_return (Go r)
        | Panic \<Rightarrow> act_lift Panic
        | Err _ \<Rightarrow>
            if params con \<noteq> None then act_then (decrypt_with_params pr packet gen_id) or_reject
            else reject (WrongMac p_type gen_id i))
     else act_then (decrypt_with_params pr packet gen_id) or_reject)"

text \<open>\<open>packet_data[start..].copy_from_slice(&new_content)\<close>: both have the same length, or it panics.\<close>

definition replace_content :: "nat \<Rightarrow> bytes \<Rightarrow> bytes \<Rightarrow> (bytes, 'e) outcome" where
  "replace_content start content data =
     (if start \<le> length data \<and> length content = length data - start then Ok (take start data @ content) else Panic)"

text \<open>The datagram with its content in clear.\<close>

definition open_content :: "primitives \<Rightarrow> bytes \<Rightarrow> in_packet \<Rightarrow> packet_type \<Rightarrow> u16 \<Rightarrow> u32 \<Rightarrow> bytes step con_action" where
  "open_content pr data packet p_type i gen_id =
     act_then (act_lift (h_flags (ip_header packet))) (\<lambda>flags.
     if \<not> flags_contains flags UNENCRYPTED then
       step_then (unseal pr packet p_type i gen_id) (\<lambda>content.
       act_then (act_lift (replace_content (length (ih_data (ip_header packet))) content data)) (\<lambda>data.
       act_return (Go data)))
     else if must_encrypt p_type then reject UnallowedUnencryptedPacket
     else act_return (Go data))"

text \<open>A command that came out of the queue; three commands acknowledge the packet that they answer.\<close>

definition implied_ack :: "bool \<Rightarrow> bytes \<Rightarrow> (packet_type \<times> u16) option" where
  "implied_ack client content =
     (if client \<and> starts_with content (ascii ''initivexpand2 '') then Some (Init, 4)
      else if client \<and> starts_with content (ascii ''initserver '') then Some (Command, 2)
      else if \<not> client \<and> starts_with content (ascii ''clientek '') then Some (Command, 0)
      else None)"

definition handle_command :: "env \<Rightarrow> bytes \<Rightarrow> unit con_action" where
  "handle_command env c =
     act_then (act_read id) (\<lambda>con.
     act_then (act_lift (in_packet_new (in_dir con) c)) (\<lambda>packet.
     act_then (send_event (ReceivePacket packet)) (\<lambda>_.
     act_then
       (case implied_ack (is_client con) (ip_content packet) of
          Some (p_type, i) \<Rightarrow> resender_ack env p_type i
        | None \<Rightarrow> act_return ()) (\<lambda>_.
     push_item (CommandItem packet)))))"

text \<open>The packets other than commands: the next id, what the packet acknowledges, and its item.\<close>

definition update_next_id :: "packet_type \<Rightarrow> u16 \<Rightarrow> u32 \<Rightarrow> unit con_action" where
  "update_next_id p_type i gen_id =
     (if p_type \<noteq> Init then
        let (i, next_gen) = overflowing_add i 1 in
        act_then (act_lift (if next_gen then checked_plus gen_id 1 else Ok gen_id)) (\<lambda>generation.
        act_modify (codec_update (incoming_p_ids_update
          (\<lambda>ids. ids[packet_type_index p_type := PartialPacketId generation i]))))
      else act_return ())"

definition acked_type :: "packet_type \<Rightarrow> packet_type" where
  "acked_type p_type =
     (if p_type = Ack_T then Command else if p_type = AckLow then CommandLow
      else if p_type = Pong then Ping else p_type)"

definition parsed_item :: "string \<Rightarrow> ('a \<Rightarrow> stream_item) \<Rightarrow> ('a, packets_error) outcome \<Rightarrow> unit con_action" where
  "parsed_item what item r =
     (case r of
        Ok x \<Rightarrow> push_item (item x)
      | Err e \<Rightarrow> push_item (ErrorItem (PacketParse what e))
      | Panic \<Rightarrow> act_lift Panic)"

definition handle_other :: "env \<Rightarrow> in_packet \<Rightarrow> packet_type \<Rightarrow> u16 \<Rightarrow> u32 \<Rightarrow> unit step con_action" where
  "handle_other env packet p_type i gen_id =
     act_then (update_next_id p_type i gen_id) (\<lambda>_.
     step_then
       (case ack_packet packet of
          Ok (Some ack_id) \<Rightarrow> act_then (resender_ack env (acked_type p_type) ack_id) (\<lambda>_. act_return (Go ()))
        | Ok None \<Rightarrow> act_return (Go ())
        | Err e \<Rightarrow> reject (CreateAck e)
        | Panic \<Rightarrow> act_lift Panic) (\<lambda>_.
     act_then (send_event (ReceivePacket packet)) (\<lambda>_.
     act_then (act_read is_client) (\<lambda>client.
     act_then
       (if is_voice p_type then parsed_item ''audio'' AudioItem (into_audio packet)
        else if p_type = Init then
          (if client then parsed_item ''s2cinit'' S2CInitItem (into_s2cinit packet)
           else parsed_item ''c2sinit'' C2SInitItem (into_c2sinit packet))
        else act_return ()) (\<lambda>_.
     act_return (Go ()))))))"

text \<open>\<open>PacketCodec::handle_udp_packet\<close>. The step holds whether an ack is to be sent.\<close>

definition dispatch :: "env \<Rightarrow> bytes \<Rightarrow> packet_type \<Rightarrow> u16 \<Rightarrow> u32 \<Rightarrow> bool step con_action" where
  "dispatch env data p_type i gen_id =
     act_then (act_read id) (\<lambda>con.
     act_then (act_lift (in_packet_new (in_dir con) data)) (\<lambda>packet.
     if p_type = Command \<or> p_type = CommandLow then
       act_then (handle_command_packet (prims env) data) (\<lambda>commands.
       act_then (act_for commands (handle_command env)) (\<lambda>_.
       act_return (Go True)))
     else
       step_then (handle_other env packet p_type i gen_id) (\<lambda>_.
       act_return (Go (p_type = Ping)))))"

definition ignores_window :: "packet_type \<Rightarrow> bool" where
  "ignores_window p_type \<longleftrightarrow> p_type = Ack_T \<or> p_type = AckLow \<or> p_type = Voice \<or> p_type = VoiceWhisper"

definition out_of_window :: "packet_type \<Rightarrow> u16 \<Rightarrow> u16 \<Rightarrow> u16 \<Rightarrow> bool step con_action" where
  "out_of_window p_type i cur_next limit =
     (let ack = (p_type = Command \<or> p_type = CommandLow) in
      act_then (if ack then res_try handle_loss_resend_ack else act_return ()) (\<lambda>_.
      act_then (push_item (ErrorItem (NotInReceiveWindow i cur_next limit p_type))) (\<lambda>_.
      act_return (Go ack))))"

definition codec_handle_udp_packet :: "env \<Rightarrow> bytes \<Rightarrow> unit con_action" where
  "codec_handle_udp_packet env data =
     act_then (act_read id) (\<lambda>con.
     act_then (act_lift (in_packet_new (in_dir con) data)) (\<lambda>packet.
     act_then (act_lift (h_packet_type (ip_header packet))) (\<lambda>p_type.
     act_then (act_lift (h_packet_id (ip_header packet))) (\<lambda>i.
     act_then (act_lift (in_receive_window con p_type i)) (\<lambda>(in_recv_win, gen_id, cur_next, limit).
     act_then (res_try (handle_loss_incoming packet in_recv_win cur_next)) (\<lambda>_.
     act_then
       (step_then (check_established packet p_type i gen_id) (\<lambda>_.
        if ignores_window p_type \<or> in_recv_win then
          step_then (open_content (prims env) data packet p_type i gen_id) (\<lambda>data.
          dispatch env data p_type i gen_id)
        else out_of_window p_type i cur_next limit)) (\<lambda>r.
     case r of
       Go True \<Rightarrow>
         act_then (act_lift (out_ack (reverse (in_dir con)) p_type i)) (send_ack_packet env)
     | _ \<Rightarrow> act_return ())))))))"

definition handle_udp_packet :: "env \<Rightarrow> bytes \<Rightarrow> address \<Rightarrow> unit con_action" where
  "handle_udp_packet env udp_buffer addr =
     act_then (act_read id) (\<lambda>con.
     if addr \<noteq> con_address con then push_item (ErrorItem WrongAddress)
     else
       (case in_packet_try_new (in_dir con) udp_buffer of
          Err e \<Rightarrow> push_item (ErrorItem (PacketParse ''udp'' e))
        | Panic \<Rightarrow> act_lift Panic
        | Ok packet \<Rightarrow>
            act_then (send_event (ReceiveUdpPacket packet)) (\<lambda>_.
            act_then (act_modify (resender_update (received_packet env))) (\<lambda>_.
            codec_handle_udp_packet env udp_buffer))))"

section \<open>Statistics, pings and timeouts\<close>

text \<open>
  One turn of the statistics loop: the counters become the entry of the current second. The turn sets
  \<open>last_stat\<close> to the clock, so with a clock that is read once per call there is no second turn.
\<close>

definition rotate_stats :: "env \<Rightarrow> resender \<Rightarrow> (resender, 'e) outcome" where
  "rotate_stats env res =
     (let res = res\<lparr>last_stat := now env\<rparr>; st = stats res; counter = stats_counter res;
          second_index = next_second_index st in
      if unat second_index < length (last_second_bytes st) then
        and_then (checked_plus second_index 1) (\<lambda>next.
        Ok (res\<lparr>stats := st
              \<lparr>last_second_bytes := (last_second_bytes st)[unat second_index := sc_bytes counter],
               next_second_index := next mod of_nat (length (last_second_bytes st)),
               packet_loss := sc_packet_loss counter\<rparr>,
            stats_counter := stats_counter_default\<rparr>))
      else Panic)"

function update_stats :: "env \<Rightarrow> unit con_action" where
  "update_stats env con =
     (let next_reset = last_stat (resender con) + from_secs STAT_SECONDS;
          con = resender_update (res_timers_update (t_stats_timeout_update (\<lambda>_. next_reset))) con in
      if next_reset \<le> now env then
        (case rotate_stats env (resender con) of
           Ok res \<Rightarrow> update_stats env
             (stream_items_update (\<lambda>xs. xs @ [NetworkStatsUpdated]) (con\<lparr>resender := res\<rparr>))
         | Err e \<Rightarrow> (Err e, con)
         | Panic \<Rightarrow> (Panic, con))
      else (Ok (), con))"
  by pat_completeness auto

termination
  by (relation "measure (\<lambda>(env, con). Suc (now env) - last_stat (resender con))")
    (auto simp: rotate_stats_def Let_def STAT_SECONDS_def from_secs_def and_then_Ok_iff split: if_splits)

text \<open>
  When the next ping is due. A ping that is newer than the last received packet delays the next one; a
  received packet that is newer than the last ping clears the list.
\<close>

definition next_ping :: "resender \<Rightarrow> nat \<times> resender" where
  "next_ping res =
     (let first = last_receive res + from_secs PING_SECONDS in
      if last_pings res = [] then (first, res)
      else if last_receive res < ping_sent (last (last_pings res))
           then (ping_sent (last (last_pings res)) + from_secs PING_SECONDS, res)
      else (first, res\<lparr>last_pings := []\<rparr>))"

text \<open>
  No pong arrived in between the last pings: the difference of the ids, converted to \<open>usize\<close>, is one
  less than the number of pings.
\<close>

definition pings_unanswered :: "ping list \<Rightarrow> bool" where
  "pings_unanswered ps \<longleftrightarrow>
     PING_COUNT \<le> length ps \<and>
     ppid_diff (ping_id (last ps)) (ping_id (hd ps)) mod 2 ^ 64 = int (length ps - 1)"

definition send_ping :: "env \<Rightarrow> unit con_action" where
  "send_ping env =
     act_then (act_read (\<lambda>con. if is_client con then C2S else S2C)) (\<lambda>dir.
     act_then (act_lift (new_with_dir dir 0 Ping)) (\<lambda>packet.
     act_then (send_packet env packet) (\<lambda>p_id.
     act_modify (resender_update (last_pings_update (\<lambda>ps.
       let ps = ps @ [\<lparr>ping_id = pid_part p_id, ping_sent = now env\<rparr>]
       in if PING_COUNT < length ps then tl ps else ps))))))"

partial_function (option) ping_loop ::
  "env \<Rightarrow> connection \<Rightarrow> ((unit, tsproto_error) outcome \<times> connection) option" where
  "ping_loop env con =
     (let (due_at, res) = next_ping (resender con);
          con = con\<lparr>resender := res\<lparr>res_timers := (res_timers res)\<lparr>t_ping_timeout := due_at\<rparr>\<rparr>\<rparr> in
      if due_at \<le> now env then
        (if pings_unanswered (last_pings (resender con))
         then Some (Err (Timeout ''Server did not respond to pings''), con)
         else
           (case send_ping env con of
              (Ok _, con) \<Rightarrow> ping_loop env con
            | (Err e, con) \<Rightarrow> Some (Err e, con)
            | (Panic, con) \<Rightarrow> Some (Panic, con)))
      else Some (Ok (), con))"

declare ping_loop.simps [code]

text \<open>The check for the answer to a disconnect; the timer may also fire by itself.\<close>

definition check_disconnecting :: "env \<Rightarrow> unit con_action" where
  "check_disconnecting env =
     act_then (act_read resender) (\<lambda>res.
     if res_state res = Disconnecting then
       (if get_timeout res \<le> now env - last_send res then act_fail (Timeout ''No disconnect ack received'')
        else
          act_then (act_modify (resender_update (res_timers_update
            (t_state_timeout_update (\<lambda>_. last_send res + get_timeout res))))) (\<lambda>_.
          if last_send res + get_timeout res \<le> now env
          then act_fail (Timeout ''No disconnect ack received'') else act_return ()))
     else act_return ())"

definition poll_ping :: "env \<Rightarrow> connection \<Rightarrow> ((unit, tsproto_error) outcome \<times> connection) option" where
  "poll_ping env con =
     (case act_then (check_disconnecting env) (\<lambda>_. update_stats env) con of
        (Ok _, con) \<Rightarrow>
          if res_state (resender con) = Connected \<and> is_empty (resender con)
          then ping_loop env con else Some (Ok (), con)
      | (Err e, con) \<Rightarrow> Some (Err e, con)
      | (Panic, con) \<Rightarrow> Some (Panic, con))"

section \<open>Polling\<close>

definition pop_item :: "stream_item option con_action" where
  "pop_item =
     act_then (act_read stream_items) (\<lambda>items.
     case items of
       [] \<Rightarrow> act_return None
     | x # xs \<Rightarrow> act_then (act_modify (stream_items_update (\<lambda>_. xs))) (\<lambda>_. act_return (Some x)))"

text \<open>The loop runs over the answers of the socket; a long datagram is cut to the buffer.\<close>

fun receive_loop :: "env \<Rightarrow> (bytes \<times> address) option list \<Rightarrow> stream_item poll con_action" where
  "receive_loop env [] = act_return Pending"
| "receive_loop env (None # answers) =
     act_then (act_modify (udp_socket_update (recv_answers_update (\<lambda>_. answers)))) (\<lambda>_. act_fail Network)"
| "receive_loop env (Some (d, addr) # answers) =
     act_then (act_modify (udp_socket_update (recv_answers_update (\<lambda>_. answers)))) (\<lambda>_.
     act_then (handle_udp_packet env (take MAX_UDP_PACKET_LENGTH d) addr) (\<lambda>_.
     act_then pop_item (\<lambda>item.
     case item of
       Some x \<Rightarrow> act_return (Ready x)
     | None \<Rightarrow> receive_loop env answers)))"

definition poll_incoming_udp_packet :: "env \<Rightarrow> stream_item poll con_action" where
  "poll_incoming_udp_packet env =
     act_then (act_read id) (\<lambda>con.
     if UDP_SINK_CAPACITY \<le> length (acks_to_send con) then act_return Pending
     else receive_loop env (recv_answers (udp_socket con)))"

text \<open>Operations that may not return, in sequence.\<close>

definition opt_then ::
  "(('a, 'e) outcome \<times> 's) option \<Rightarrow> ('a \<Rightarrow> 's \<Rightarrow> (('b, 'e) outcome \<times> 's) option)
     \<Rightarrow> (('b, 'e) outcome \<times> 's) option" where
  "opt_then r f =
     (case r of
        None \<Rightarrow> None
      | Some (Ok x, s) \<Rightarrow> f x s
      | Some (Err e, s) \<Rightarrow> Some (Err e, s)
      | Some (Panic, s) \<Rightarrow> Some (Panic, s))"

text \<open>\<open>Ok (Ready None)\<close> is the end of the stream.\<close>

definition poll_next ::
  "env \<Rightarrow> connection \<Rightarrow> ((stream_item option poll, tsproto_error) outcome \<times> connection) option" where
  "poll_next env con =
     opt_then (Some (poll_send_acks con)) (\<lambda>_ con.
     if res_state (resender con) = Disconnected \<and> acks_to_send con = []
     then Some (Ok (Ready None), con)
     else
       opt_then (poll_resend env con) (\<lambda>_ con.
       opt_then (poll_ping env con) (\<lambda>_ con.
       opt_then (Some (pop_item con)) (\<lambda>item con.
       case item of
         Some x \<Rightarrow> Some (Ok (Ready (Some x)), con)
       | None \<Rightarrow>
           opt_then (Some (poll_incoming_udp_packet env con)) (\<lambda>r con.
           case r of
             Ready x \<Rightarrow> Some (Ok (Ready (Some x)), con)
           | Pending \<Rightarrow> Some (Ok Pending, con))))))"

definition is_send_queue_full :: "env \<Rightarrow> connection \<Rightarrow> bool" where
  "is_send_queue_full env con = is_full env (resender con)"

definition is_send_queue_empty :: "connection \<Rightarrow> bool" where
  "is_send_queue_empty con = is_empty (resender con)"

end
