(* ===== verification/Action_Logic.thy ===== *)
theory Action_Logic
  imports Rust_Prelude
begin

text \<open>
  Specifications of state actions. \<open>act_spec may P m Q E\<close> says of an action that starts in a state with
  \<open>P\<close>: when it returns a value, the value and the state satisfy \<open>Q\<close>; when it fails, the state satisfies
  \<open>E\<close>; it panics only when \<open>may\<close> is true. With \<open>may = True\<close> this is the preservation of an invariant,
  with \<open>may = False\<close> also the absence of panics.
\<close>

named_theorems keeps_intros \<open>rules that show that an action keeps an invariant\<close>

definition act_spec ::
  "bool \<Rightarrow> ('s \<Rightarrow> bool) \<Rightarrow> ('s, 'a, 'e) action \<Rightarrow> ('a \<Rightarrow> 's \<Rightarrow> bool) \<Rightarrow> ('s \<Rightarrow> bool) \<Rightarrow> bool" where
  "act_spec may P m Q E \<longleftrightarrow>
     (\<forall>s. P s \<longrightarrow> (case m s of (Ok x, t) \<Rightarrow> Q x t | (Err e, t) \<Rightarrow> E t | (Panic, t) \<Rightarrow> may))"

abbreviation keeps :: "bool \<Rightarrow> ('s \<Rightarrow> bool) \<Rightarrow> ('s, 'a, 'e) action \<Rightarrow> bool" where
  "keeps may I m \<equiv> act_spec may I m (\<lambda>_. I) I"

section \<open>Use\<close>

lemma act_spec_Ok: "act_spec may P m Q E \<Longrightarrow> P s \<Longrightarrow> m s = (Ok x, t) \<Longrightarrow> Q x t"
  by (force simp: act_spec_def)

lemma act_spec_Err: "act_spec may P m Q E \<Longrightarrow> P s \<Longrightarrow> m s = (Err e, t) \<Longrightarrow> E t"
  by (force simp: act_spec_def)

lemma act_spec_Panic: "act_spec False P m Q E \<Longrightarrow> P s \<Longrightarrow> m s \<noteq> (Panic, t)"
  by (force simp: act_spec_def)

lemma keeps_use: "keeps may I m \<Longrightarrow> I s \<Longrightarrow> m s = (r, t) \<Longrightarrow> r \<noteq> Panic \<Longrightarrow> I t"
  by (cases r) (force simp: act_spec_def)+

lemma act_specI:
  assumes "\<And>s x t. P s \<Longrightarrow> m s = (Ok x, t) \<Longrightarrow> Q x t" "\<And>s e t. P s \<Longrightarrow> m s = (Err e, t) \<Longrightarrow> E t"
    "\<And>s t. P s \<Longrightarrow> m s = (Panic, t) \<Longrightarrow> may"
  shows "act_spec may P m Q E"
  using assms by (auto simp: act_spec_def split: prod.split outcome.split)

lemma keepsI:
  "(\<And>s r t. I s \<Longrightarrow> m s = (r, t) \<Longrightarrow> r \<noteq> Panic \<Longrightarrow> I t) \<Longrightarrow> keeps True I m"
  by (rule act_specI) auto

section \<open>Rules\<close>

lemma act_spec_weaken:
  assumes "act_spec may P m Q E" "\<And>s. P' s \<Longrightarrow> P s" "\<And>x s. Q x s \<Longrightarrow> Q' x s" "\<And>s. E s \<Longrightarrow> E' s" "may \<Longrightarrow> may'"
  shows "act_spec may' P' m Q' E'"
proof (rule act_specI)
  fix s assume P: "P' s"
  show "Q' x t" if "m s = (Ok x, t)" for x t
    using assms(3) act_spec_Ok [OF assms(1) _ that] assms(2) [OF P] by blast
  show "E' t" if "m s = (Err e, t)" for e t
    using assms(4) act_spec_Err [OF assms(1) _ that] assms(2) [OF P] by blast
  show may' if "m s = (Panic, t)" for t
    using assms(1,2,5) P that by (force simp: act_spec_def)
qed

lemma act_spec_then:
  assumes "act_spec may P m Q E" "\<And>x. act_spec may (Q x) (f x) R E"
  shows "act_spec may P (act_then m f) R E"
proof (rule act_specI)
  fix s assume P: "P s"
  show "R x t" if "act_then m f s = (Ok x, t)" for x t
    using that by (rule act_then_cases) (use P act_spec_Ok [OF assms(1)] act_spec_Ok [OF assms(2)] in blast)+
  show "E t" if "act_then m f s = (Err e, t)" for e t
    using that by (rule act_then_cases)
      (use P act_spec_Ok [OF assms(1)] act_spec_Err [OF assms(1)] act_spec_Err [OF assms(2)] in blast)+
  show may if "act_then m f s = (Panic, t)" for t
    using that
  proof (rule act_then_cases)
    show "m s = (Ok x, s') \<Longrightarrow> f x s' = (Panic, t) \<Longrightarrow> may" for x s'
      using assms(2) [of x] act_spec_Ok [OF assms(1) P] by (force simp: act_spec_def)
    show "m s = (Panic, t) \<Longrightarrow> may" using assms(1) P by (force simp: act_spec_def)
  qed simp
qed

lemma act_spec_return: "(\<And>s. P s \<Longrightarrow> Q x s) \<Longrightarrow> act_spec may P (act_return x) Q E"
  by (simp add: act_spec_def)

lemma act_spec_fail: "(\<And>s. P s \<Longrightarrow> E s) \<Longrightarrow> act_spec may P (act_fail e) Q E"
  by (simp add: act_spec_def)

lemma act_spec_modify: "(\<And>s. P s \<Longrightarrow> Q () (f s)) \<Longrightarrow> act_spec may P (act_modify f) Q E"
  by (simp add: act_spec_def)

lemma act_spec_lift:
  "(\<And>s. P s \<Longrightarrow> case r of Ok x \<Rightarrow> Q x s | Err e \<Rightarrow> E s | Panic \<Rightarrow> may) \<Longrightarrow> act_spec may P (act_lift r) Q E"
  by (simp add: act_spec_def split: outcome.split)

text \<open>A value that is read is known to be the one of the state.\<close>

lemma act_spec_read:
  "(\<And>s. P s \<Longrightarrow> act_spec may (\<lambda>t. t = s) (g (f s)) Q E) \<Longrightarrow> act_spec may P (act_then (act_read f) g) Q E"
  by (simp add: act_spec_def)

lemma act_spec_lifted:
  "(\<And>s. P s \<Longrightarrow> r = Ok x) \<Longrightarrow> act_spec may P (f x) Q E \<Longrightarrow> act_spec may P (act_then (act_lift r) f) Q E"
  by (auto simp: act_spec_def)

lemma act_spec_singleton:
  "act_spec may (\<lambda>t. t = s) m Q E \<longleftrightarrow> (case m s of (Ok x, t) \<Rightarrow> Q x t | (Err e, t) \<Rightarrow> E t | (Panic, t) \<Rightarrow> may)"
  by (simp add: act_spec_def)

lemma act_spec_at: "act_spec may P m Q E \<Longrightarrow> P s \<Longrightarrow> act_spec may (\<lambda>t. t = s) m Q E"
  by (simp add: act_spec_def)

lemma act_spec_for:
  "(\<And>x. x \<in> set xs \<Longrightarrow> act_spec may P (f x) (\<lambda>_. P) E) \<Longrightarrow> act_spec may P (act_for xs f) (\<lambda>_. P) E"
  by (induction xs) (auto intro: act_spec_return act_spec_then)

section \<open>Invariants\<close>

lemma keeps_basic [keeps_intros]:
  "keeps may I (act_return x)" "keeps may I (act_fail e)" "keeps may I (act_read f)"
  by (simp_all add: act_spec_def)

lemma keeps_lift [keeps_intros]: "keeps True I (act_lift r)"
  by (simp add: act_spec_def split: outcome.split)

lemma keeps_modify [keeps_intros]: "(\<And>s. I s \<Longrightarrow> I (f s)) \<Longrightarrow> keeps may I (act_modify f)"
  by (simp add: act_spec_def)

lemma keeps_then [keeps_intros]:
  "keeps may I m \<Longrightarrow> (\<And>x. keeps may I (f x)) \<Longrightarrow> keeps may I (act_then m f)"
  by (rule act_spec_then)

lemma keeps_for [keeps_intros]: "(\<And>x. keeps may I (f x)) \<Longrightarrow> keeps may I (act_for xs f)"
  by (rule act_spec_for)

lemma keeps_map [keeps_intros]: "(\<And>x. keeps may I (f x)) \<Longrightarrow> keeps may I (act_map f xs)"
  by (induction xs) (auto intro!: keeps_intros)

lemma keeps_if [keeps_intros]:
  "(b \<Longrightarrow> keeps may I m) \<Longrightarrow> (\<not> b \<Longrightarrow> keeps may I n) \<Longrightarrow> keeps may I (if b then m else n)"
  by simp

lemma keeps_option [keeps_intros]:
  "keeps may I m \<Longrightarrow> (\<And>x. keeps may I (f x)) \<Longrightarrow> keeps may I (case v of None \<Rightarrow> m | Some x \<Rightarrow> f x)"
  by (simp split: option.split)

lemma keeps_list [keeps_intros]:
  "keeps may I m \<Longrightarrow> (\<And>x xs. keeps may I (f x xs)) \<Longrightarrow> keeps may I (case v of [] \<Rightarrow> m | x # xs \<Rightarrow> f x xs)"
  by (simp split: list.split)

lemma keeps_prod [keeps_intros]: "(\<And>x y. keeps may I (f x y)) \<Longrightarrow> keeps may I (case v of (x, y) \<Rightarrow> f x y)"
  by (simp split: prod.split)

lemma keeps_outcome [keeps_intros]:
  "(\<And>x. keeps may I (f x)) \<Longrightarrow> (\<And>e. keeps may I (g e)) \<Longrightarrow> keeps may I p \<Longrightarrow>
   keeps may I (case v of Ok x \<Rightarrow> f x | Err e \<Rightarrow> g e | Panic \<Rightarrow> p)"
  by (simp split: outcome.split)

end
