(* ===== verification/Connection_Inv.thy ===== *)
theory Connection_Inv
  imports Connection Action_Logic
begin

text \<open>
  The invariant of a connection: the arrays of the codec and of the statistics have their fixed lengths,
  everything that waits in the queues of the codec was accepted as a packet, the resender loses no
  packet, at most thirty pings are remembered. Every operation keeps it.
\<close>

section \<open>The shape of the statistics\<close>

definition stats_wf :: "resender \<Rightarrow> bool" where
  "stats_wf res \<longleftrightarrow>
     length (sc_bytes (stats_counter res)) = 6 \<and> length (sc_packet_loss (stats_counter res)) = 13 \<and>
     length (total_packets (stats res)) = 6 \<and> length (total_bytes (stats res)) = 6 \<and>
     length (last_second_bytes (stats res)) = 60 \<and> unat (next_second_index (stats res)) < 60"

lemma stats_wf_default [simp]: "stats_wf (resender_default t)"
  by (simp add: stats_wf_def resender_default_def stats_counter_default_def connection_stats_default_def)

text \<open>What most operations of the resender leave alone.\<close>

definition res_frame :: "resender \<Rightarrow> resender \<Rightarrow> bool" where
  "res_frame r r' \<longleftrightarrow>
     last_pings r' = last_pings r \<and> last_receive r' = last_receive r \<and> res_state r' = res_state r \<and>
     last_stat r' = last_stat r \<and> (stats_wf r \<longrightarrow> stats_wf r')"

lemma res_frame_refl [simp]: "res_frame r r"
  by (simp add: res_frame_def)

lemma res_frame_trans: "res_frame r r' \<Longrightarrow> res_frame r' r'' \<Longrightarrow> res_frame r r''"
  by (auto simp: res_frame_def)

lemma res_frame_same:
  "last_pings r' = last_pings r \<Longrightarrow> last_receive r' = last_receive r \<Longrightarrow> res_state r' = res_state r \<Longrightarrow>
   last_stat r' = last_stat r \<Longrightarrow> stats_counter r' = stats_counter r \<Longrightarrow> stats r' = stats r \<Longrightarrow> res_frame r r'"
  by (simp add: res_frame_def stats_wf_def)

lemma fill_up_frame [simp]: "res_frame r (fill_up_send_queue env r)"
  by (rule res_frame_same) (simp_all add: fill_up_send_queue_def Let_def split: prod.split option.split)

lemma update_srtt_frame [simp]: "res_frame r (update_srtt d r)"
  by (simp add: res_frame_def update_srtt_def Let_def stats_wf_def)

lemma ack_removed_frame: "res_frame r (ack_removed env i k r)"
proof -
  have "res_frame r (r\<lparr>full_send_queue := q\<rparr>)" for q by (rule res_frame_same) simp_all
  moreover from this have "res_frame r (update_srtt d (r\<lparr>full_send_queue := q\<rparr>))" for d q
    using update_srtt_frame res_frame_trans by blast
  ultimately show ?thesis by (simp add: ack_removed_def Let_def split: option.split)
qed

lemma bump_Ok: "bump i d xs = Ok ys \<Longrightarrow> length ys = length xs"
  by (auto simp: bump_def and_then_Ok_iff)

definition same_shape :: "stats_counter \<Rightarrow> stats_counter \<Rightarrow> bool" where
  "same_shape c c' \<longleftrightarrow> length (sc_bytes c') = length (sc_bytes c) \<and>
     length (sc_packet_loss c') = length (sc_packet_loss c)"

lemma same_shape_trans: "same_shape a b \<Longrightarrow> same_shape b c \<Longrightarrow> same_shape a c"
  by (simp add: same_shape_def)

lemma same_shape_refl [simp]: "same_shape c c"
  by (simp add: same_shape_def)

lemma count_shape:
  "count_loss s d c = Ok c' \<Longrightarrow> same_shape c c'" "count_bytes ps d c = Ok c' \<Longrightarrow> same_shape c c'"
  by (auto simp: count_loss_def count_bytes_def and_then_Ok_iff same_shape_def dest: bump_Ok)

lemma counter_loss_outgoing_shape: "counter_loss_outgoing t ps len c = Ok c' \<Longrightarrow> same_shape c c'"
  by (auto simp: counter_loss_outgoing_def and_then_Ok_iff dest!: count_shape intro: same_shape_trans split: if_splits)

lemma count_total_shape:
  "count_total ps d st = Ok st' \<Longrightarrow> length (total_packets st') = length (total_packets st) \<and>
     length (total_bytes st') = length (total_bytes st) \<and> last_second_bytes st' = last_second_bytes st \<and>
     next_second_index st' = next_second_index st"
  by (auto simp: count_total_def and_then_Ok_iff dest: bump_Ok)

lemma stats_frame:
  assumes "same_shape (stats_counter r) c" "count_total ps d (stats r) = (Ok st :: (_, 'e) outcome)"
  shows "res_frame r (r\<lparr>stats_counter := c, stats := st\<rparr>)"
  using assms count_total_shape [OF assms(2)] by (simp add: res_frame_def stats_wf_def same_shape_def)

lemma loss_in_shape:
  assumes "((case x of
      None \<Rightarrow> Ok counter
    | Some (count, lost) \<Rightarrow>
        if w then and_then (checked_plus d 1) (\<lambda>d'. and_then (count_loss count d' counter) (count_loss lost d))
        else and_then (index (sc_packet_loss counter) (packet_loss_index lost)) (\<lambda>x.
          Ok (counter\<lparr>sc_packet_loss := (sc_packet_loss counter)[packet_loss_index lost := saturating_sub x 1]\<rparr>)))
    :: (_, 'e) outcome) = Ok c"
  shows "same_shape counter c"
proof (cases x)
  case None
  then show ?thesis using assms by simp
next
  case (Some cl)
  obtain count lost where "cl = (count, lost)" by (cases cl)
  with Some assms have "((if w then and_then (checked_plus d 1) (\<lambda>d'. and_then (count_loss count d' counter) (count_loss lost d))
        else and_then (index (sc_packet_loss counter) (packet_loss_index lost)) (\<lambda>x.
          Ok (counter\<lparr>sc_packet_loss := (sc_packet_loss counter)[packet_loss_index lost := saturating_sub x 1]\<rparr>))) :: (_, 'e) outcome) = Ok c"
    by simp
  then show ?thesis
    by (auto simp: and_then_Ok_iff same_shape_def dest!: count_shape split: if_splits)
qed

lemma handle_loss_incoming_frame:
  assumes "handle_loss_incoming p w n r = (Ok r' :: (_, 'e) outcome)"
  shows "res_frame r r'"
proof -
  obtain t i len counter st c where run:
    "count_bytes (packet_stat_from t True) len (stats_counter r) = (Ok counter :: (_, 'e) outcome)"
    "count_total (packet_stat_from t True) (ucast len) (stats r) = (Ok st :: (_, 'e) outcome)"
    "(case loss_stats_in t of
       None \<Rightarrow> Ok counter
     | Some (count, lost) \<Rightarrow>
        if w then and_then (checked_plus (ucast (i - n)) 1) (\<lambda>d'. and_then (count_loss count d' counter) (count_loss lost (ucast (i - n))))
        else and_then (index (sc_packet_loss counter) (packet_loss_index lost)) (\<lambda>x.
          Ok (counter\<lparr>sc_packet_loss := (sc_packet_loss counter)[packet_loss_index lost := saturating_sub x 1]\<rparr>)))
     = (Ok c :: (_, 'e) outcome)"
    "r\<lparr>stats_counter := c, stats := st\<rparr> = r'"
    using assms unfolding handle_loss_incoming_def Let_def and_then_Ok_iff outcome.inject
    by (elim exE conjE) (rule that)
  show ?thesis
    unfolding run(4) [symmetric]
    by (rule stats_frame [OF same_shape_trans [OF count_shape(2) [OF run(1)] loss_in_shape [OF run(3)]] run(2)])
qed

lemma handle_loss_outgoing_frame:
  assumes "handle_loss_outgoing u r = (Ok r' :: (_, 'e) outcome)"
  shows "res_frame r r'"
proof -
  obtain t len c st where run: "counter_loss_outgoing t (packet_stat_from t False) len (stats_counter r) = (Ok c :: (_, 'e) outcome)"
    "count_total (packet_stat_from t False) (ucast len) (stats r) = (Ok st :: (_, 'e) outcome)"
    "r\<lparr>stats_counter := c, stats := st\<rparr> = r'"
    using assms unfolding handle_loss_outgoing_def Let_def and_then_Ok_iff outcome.inject
    by (elim exE conjE) (rule that)
  show ?thesis unfolding run(3) [symmetric] by (rule stats_frame [OF counter_loss_outgoing_shape [OF run(1)] run(2)])
qed

lemma handle_loss_resend_ack_frame: "handle_loss_resend_ack r = Ok r' \<Longrightarrow> res_frame r r'"
  by (auto simp: handle_loss_resend_ack_def and_then_Ok_iff count_defs res_frame_def stats_wf_def dest!: bump_Ok)

lemma on_packet_loss_frame: "res_frame r (on_packet_loss env timeout r)"
  unfolding on_packet_loss_def rebuild_send_queue_def Let_def
  by (rule res_frame_trans [OF _ fill_up_frame]) (rule res_frame_same; simp)

lemma after_send_frame:
  assumes "after_send env timeout k i full_rec r = Ok r'"
  shows "res_frame r r'"
proof -
  let ?rec = "send_queue r ! k"
  obtain r1 r2 where r1: "count_resend ?rec r = (Ok r1 :: (resender, 'a) outcome)"
    "handle_loss_outgoing (rec_packet full_rec) (record_sent env k i full_rec r1) = (Ok r2 :: (resender, 'a) outcome)"
    "r' = (if sr_tries ?rec + 1 \<noteq> 1 then on_packet_loss env timeout r2 else r2)"
    using assms unfolding after_send_def Let_def and_then_Ok_iff outcome.inject by blast
  have "res_frame r r1"
    using r1(1) by (auto simp: count_resend_def and_then_Ok_iff count_defs res_frame_def stats_wf_def
        dest!: bump_Ok split: if_splits)
  moreover have "res_frame r1 (record_sent env k i full_rec r1)"
    by (rule res_frame_same) (simp_all add: record_sent_def Let_def)
  moreover have "res_frame (record_sent env k i full_rec r1) r2" by (rule handle_loss_outgoing_frame [OF r1(2)])
  ultimately have "res_frame r r2" using res_frame_trans by blast
  then show ?thesis using r1(3) on_packet_loss_frame res_frame_trans by auto
qed

lemma resender_send_frame:
  assumes "resender_send env u r = (res, r')"
  shows "res_frame r r'"
proof -
  have upd: "res_frame r (r\<lparr>last_send := t\<rparr>)" "res_frame r (r\<lparr>last_send := t, send_queue_indices := is, full_send_queue := q\<rparr>)"
    "res_frame r (r\<lparr>last_send := t, full_send_queue := q\<rparr>)" for t "is" q
    by (rule res_frame_same; simp)+
  show ?thesis
    using assms
    by (auto simp: resender_send_def act_then.simps act_lift_def act_modify_def Let_def
        intro!: upd res_frame_trans [OF upd(2) fill_up_frame] res_frame_trans [OF upd(3) fill_up_frame]
        split: outcome.splits prod.splits if_splits)
qed

section \<open>What polling the send queue leaves alone\<close>

definition con_frame :: "connection \<Rightarrow> connection \<Rightarrow> bool" where
  "con_frame con con' \<longleftrightarrow>
     is_client con' = is_client con \<and> params con' = params con \<and> con_address con' = con_address con \<and>
     codec con' = codec con \<and> acks_to_send con' = acks_to_send con \<and> res_frame (resender con) (resender con') \<and>
     recv_answers (udp_socket con') = recv_answers (udp_socket con)"

lemma con_frame_refl [simp]: "con_frame con con"
  by (simp add: con_frame_def)

lemma con_frame_trans: "con_frame a b \<Longrightarrow> con_frame b c \<Longrightarrow> con_frame a c"
  by (auto simp: con_frame_def intro: res_frame_trans)

lemma con_frame_resender: "res_frame (resender con) res \<Longrightarrow> con_frame con (con\<lparr>resender := res\<rparr>)"
  by (simp add: con_frame_def)

lemma poll_send_udp_packet_frame:
  assumes "poll_send_udp_packet u con = (r, con')"
  shows "con_frame con con'" "stream_items con' = stream_items con"
  using assms
  by (auto simp: poll_send_udp_packet_def send_event_def Let_def con_frame_def split: list.splits option.splits if_splits)

lemma con_frame_step:
  "con_frame con con1 \<and> stream_items con1 = stream_items con \<Longrightarrow>
   con_frame con1 (snd rc) \<and> stream_items (snd rc) = stream_items con1 \<Longrightarrow>
   con_frame con (snd rc) \<and> stream_items (snd rc) = stream_items con"
  using con_frame_trans by auto

lemma poll_resend_loop_frame:
  assumes "poll_resend_loop env timeout con = Some rc"
  shows "con_frame con (snd rc) \<and> stream_items (snd rc) = stream_items con"
proof (rule poll_resend_loop.raw_induct [OF _ assms,
    where P = "\<lambda>_ _ con rc. con_frame con (snd rc) \<and> stream_items (snd rc) = stream_items con"], goal_cases)
  case (1 loop env timeout con rc)
  note IH = 1(1) and body = 1(2)
  let ?res = "resender con"
  have pop: "res_frame ?res (fill_up_send_queue env (?res\<lparr>send_queue := q\<rparr>))" for q
    by (rule res_frame_trans [OF _ fill_up_frame]) (rule res_frame_same; simp)
  have timer: "res_frame ?res (?res\<lparr>res_timers := t\<rparr>)" for t
    by (rule res_frame_same) simp_all
  show ?case
  proof (cases "heap_peek (send_queue ?res)")
    case None
    then show ?thesis using body by (auto simp: Let_def)
  next
    case (Some k)
    let ?rec = "send_queue ?res ! k"
    note body = body [unfolded Let_def Some option.case]
    show ?thesis
    proof (cases "packet_type_to_index (pid_type (sr_id ?rec)) :: (nat, tsproto_error) outcome")
      case (Ok i)
      show ?thesis
      proof (cases "bt_get (full_send_queue ?res ! i) (pid_part (sr_id ?rec))")
        case None
        let ?con = "con\<lparr>resender := fill_up_send_queue env (?res\<lparr>send_queue :=
          take k (send_queue ?res) @ drop (Suc k) (send_queue ?res)\<rparr>)\<rparr>"
        have "loop env timeout ?con = Some rc" using body Ok None by simp
        from IH [OF this] show ?thesis by (rule con_frame_step [rotated]) (simp add: con_frame_resender pop)
      next
        case full: (Some full_rec)
        obtain r con1 where ps: "poll_send_udp_packet (rec_packet full_rec) con = (r, con1)" by fastforce
        have fr: "con_frame con con1 \<and> stream_items con1 = stream_items con"
          using poll_send_udp_packet_frame [OF ps] by simp
        have as: "con_frame con (con1\<lparr>resender := res\<rparr>) \<and> stream_items (con1\<lparr>resender := res\<rparr>) = stream_items con"
          if "after_send env timeout k i full_rec (resender con1) = (Ok res :: (_, tsproto_error) outcome)" for res
          using fr con_frame_trans [OF _ con_frame_resender [OF after_send_frame [OF that]]] by auto
        have again: "con_frame con (snd rc)" "stream_items (snd rc) = stream_items con"
          if "after_send env timeout k i full_rec (resender con1) = (Ok res :: (_, tsproto_error) outcome)"
            "loop env timeout (con1\<lparr>resender := res\<rparr>) = Some rc" for res
          using con_frame_step [OF as [OF that(1)] IH [OF that(2)]] by blast+
        show ?thesis
          using body Ok full ps fr
          by (auto simp: con_frame_resender timer split: outcome.splits poll.splits if_splits dest: again)
      qed
    qed (use body in auto)
  qed
qed


section \<open>The queues of commands\<close>

lemma known_type: "unwrap_opt (packet_type_from_u8 n) = Ok t \<Longrightarrow> n \<le> 8"
  using packet_type_from_u8_iff [of n] by (cases "packet_type_from_u8 n") auto

lemma wf_packet_intro:
  assumes "in_packet_new dir d = (Ok p :: (_, 'e) outcome)" "h_packet_type (ip_header p) = (Ok t :: (_, 'f) outcome)"
  shows "wf_packet dir d"
  using assms
  by (cases dir) (auto simp: wf_packet_def in_packet_new_def in_header_new_def h_packet_type_def get_off_def
      slice_to_def slice_from_def index_def and_then_Ok_iff dest: known_type split: if_splits)

definition queues_ok :: "direction \<Rightarrow> command_queues \<Rightarrow> bool" where
  "queues_ok dir q \<longleftrightarrow> (\<forall>d \<in> set (q_receive q). wf_packet dir d) \<and> (\<forall>d. q_frag q = Some d \<longrightarrow> wf_packet dir d)"

text \<open>A packet with other content after its header.\<close>

lemma wf_packet_content: "wf_packet dir d \<Longrightarrow> wf_packet dir (take (header_len dir) d @ x)"
  by (cases dir) (simp_all add: wf_packet_def nth_append)

lemma wf_packet_longer: "wf_packet dir d \<Longrightarrow> wf_packet dir (d @ x)"
  by (cases dir) (simp_all add: wf_packet_def nth_append)

lemma decompress_packet_cases:
  assumes "wf_packet dir d"
  shows "decompress_packet pr dir d \<noteq> Panic" "decompress_packet pr dir d = Ok p \<Longrightarrow> wf_packet dir p"
proof -
  have f: "h_flags (d_header dir d) = (Ok (d_flags dir d) :: (_, tsproto_error) outcome)"
    using assms by (simp add: d_flags_def)
  have l: "length (ih_data (d_header dir d)) = header_len dir"
    using assms by (simp add: d_header_def wf_packet_def)
  show "decompress_packet pr dir d \<noteq> Panic"
    using assms f by (cases "qlz_decompress pr (d_content dir d) MAX_DECOMPRESSED_SIZE")
      (simp_all add: decompress_packet_def decompress_def)
  show "decompress_packet pr dir d = Ok p \<Longrightarrow> wf_packet dir p"
    using assms f l by (cases "qlz_decompress pr (d_content dir d) MAX_DECOMPRESSED_SIZE")
      (auto simp: decompress_packet_def decompress_def wf_packet_content split: if_splits)
qed

lemma decompress_packet_map:
  assumes "wf_packet dir d"
  shows "map_ok Some (decompress_packet pr dir d) \<noteq> Panic \<and>
    (\<forall>p. map_ok Some (decompress_packet pr dir d) = Ok (Some p) \<longrightarrow> wf_packet dir p)"
  using decompress_packet_cases [OF assms, of pr] by (cases "decompress_packet pr dir d") auto

lemma handle_fragment_cases:
  assumes "wf_packet dir d" "\<forall>f. frag = Some f \<longrightarrow> wf_packet dir f" "handle_fragment pr dir d frag = (r, frag')"
  shows "r \<noteq> Panic \<and> (\<forall>p. r = Ok (Some p) \<longrightarrow> wf_packet dir p) \<and> (\<forall>f. frag' = Some f \<longrightarrow> wf_packet dir f)"
proof (cases frag)
  case None
  then show ?thesis
    using assms(1,3) decompress_packet_map [OF assms(1), of pr] by (auto simp: handle_fragment_wf split: if_splits)
next
  case (Some f)
  then have f: "wf_packet dir (f @ d_content dir d)" "wf_packet dir f" using assms(2) wf_packet_longer by blast+
  show ?thesis
    using assms(1,3) f decompress_packet_map [OF f(1), of pr] Some by (auto simp: handle_fragment_wf split: if_splits)
qed

lemma position_id_wf: "\<forall>p \<in> set ps. wf_packet dir p \<Longrightarrow> \<exists>pos. position_id dir i ps = Ok pos"
  by (induction ps) auto

lemma set_remove_at: "set (remove_at i xs) \<subseteq> set xs"
  unfolding remove_at_def by (auto dest: in_set_takeD in_set_dropD)

lemma command_loop_cases:
  assumes "wf_packet dir d" "queues_ok dir q" "command_loop pr dir d i q = (r, q')"
  shows "r \<noteq> Panic \<and> (\<forall>ps. r = Ok ps \<longrightarrow> (\<forall>p \<in> set ps. wf_packet dir p)) \<and> queues_ok dir q'"
  using assms
proof (induction pr dir d i q arbitrary: r q' rule: command_loop.induct)
  case (1 pr dir d i q)
  let ?q = "q\<lparr>q_next := ppid_add (q_next q) 1\<rparr>"
  obtain fr frag where f: "handle_fragment pr dir d (q_frag q) = (fr, frag)" by fastforce
  note fc = handle_fragment_cases [OF 1(2) _ f]
  have wfq: "\<forall>f. q_frag q = Some f \<longrightarrow> wf_packet dir f" "\<forall>d \<in> set (q_receive q). wf_packet dir d"
    using 1(3) by (simp_all add: queues_ok_def)
  have q1: "queues_ok dir (?q\<lparr>q_frag := frag\<rparr>)" using fc [OF wfq(1)] wfq(2) by (auto simp: queues_ok_def)
  obtain pos where pos: "position_id dir (i + 1) (q_receive q) = (Ok pos :: (_, tsproto_error) outcome)"
    using position_id_wf [OF wfq(2)] by blast
  show ?case
  proof (cases fr)
    case Panic
    then show ?thesis using fc [OF wfq(1)] by simp
  next
    case (Err e)
    then show ?thesis using 1(4) f q1 by (auto simp: command_loop.simps [of pr dir d])
  next
    case (Ok p)
    have p: "\<forall>x \<in> set (case p of None \<Rightarrow> [] | Some p \<Rightarrow> [p]). wf_packet dir x"
      using fc [OF wfq(1)] Ok by (auto split: option.split)
    show ?thesis
    proof (cases pos)
      case None
      then show ?thesis using 1(4) f q1 Ok p pos by (auto simp: command_loop.simps [of pr dir d])
    next
      case (Some k)
      let ?q2 = "?q\<lparr>q_frag := frag, q_receive := remove_at k (q_receive q)\<rparr>"
      have k: "k < length (q_receive q)" by (rule position_id_less [OF pos [unfolded Some]])
      obtain r2 q2 where rec: "command_loop pr dir (q_receive q ! k) (i + 1) ?q2 = (r2, q2)" by fastforce
      have "wf_packet dir (q_receive q ! k)" "queues_ok dir ?q2"
        using wfq k q1 set_remove_at [of k "q_receive q"] by (auto simp: queues_ok_def)
      then have IH: "r2 \<noteq> Panic \<and> (\<forall>ps. r2 = Ok ps \<longrightarrow> (\<forall>p \<in> set ps. wf_packet dir p)) \<and> queues_ok dir q2"
        using 1(1) [of ?q fr frag p "?q\<lparr>q_frag := frag\<rparr>" "case p of None \<Rightarrow> [] | Some p \<Rightarrow> [p]" pos k r2 q2] f Ok pos Some rec
        by simp
      have "r = map_ok ((@) (case p of None \<Rightarrow> [] | Some p \<Rightarrow> [p])) r2" "q' = q2"
        using 1(4) f Ok pos Some rec by (auto simp: command_loop.simps [of pr dir d])
      then show ?thesis using IH p by (cases r2) auto
    qed
  qed
qed

lemma handle_command_queues_cases:
  assumes "wf_packet dir d" "queues_ok dir q" "handle_command_queues pr dir d i q = (r, q')"
  shows "r \<noteq> Panic \<and> (\<forall>ps. r = Ok ps \<longrightarrow> (\<forall>p \<in> set ps. wf_packet dir p)) \<and> queues_ok dir q'"
  using assms command_loop_cases [OF assms(1,2)]
  by (auto simp: handle_command_queues_def Let_def queues_ok_def split: if_splits prod.splits)

section \<open>The invariant\<close>

definition cache_shape :: "key_cache \<Rightarrow> bool" where
  "cache_shape cache \<longleftrightarrow> length cache = 8 \<and> (\<forall>row \<in> set cache. length row = 2)"

definition params_wf :: "connected_params option \<Rightarrow> bool" where
  "params_wf ps \<longleftrightarrow> (\<forall>p. ps = Some p \<longrightarrow> length (cp_shared_mac p) = 8 \<and> cache_shape (cp_key_cache p))"

definition queues_wf :: "connection \<Rightarrow> bool" where
  "queues_wf con \<longleftrightarrow>
     (\<forall>q \<in> set (receive_queue (codec con)). \<forall>d \<in> set q. wf_packet (in_dir con) d) \<and>
     (\<forall>d. Some d \<in> set (fragmented_queue (codec con)) \<longrightarrow> wf_packet (in_dir con) d)"

definition con_inv :: "connection \<Rightarrow> bool" where
  "con_inv con \<longleftrightarrow>
     wf_codec (codec con) \<and> queues_wf con \<and> params_wf (params con) \<and>
     resender_inv (resender con) \<and> stats_wf (resender con) \<and>
     length (last_pings (resender con)) \<le> PING_COUNT"

lemma con_inv_new [simp]: "con_inv (connection_new t client addr sock)"
proof -
  let ?con = "connection_new t client addr sock"
  have "resender ?con = resender_default t" "params ?con = None" "receive_queue (codec ?con) = replicate 2 []"
    "fragmented_queue (codec ?con) = replicate 2 None"
    by (simp_all add: connection_new_def packet_codec_default_def Let_def)
  then show ?thesis
    by (simp add: con_inv_def queues_wf_def params_wf_def) (simp add: resender_default_def)
qed

lemma con_inv_cong:
  "codec con' = codec con \<Longrightarrow> is_client con' = is_client con \<Longrightarrow> params con' = params con \<Longrightarrow>
   resender con' = resender con \<Longrightarrow> con_inv con' = con_inv con"
  by (simp add: con_inv_def queues_wf_def in_dir_def)

lemma con_inv_update [simp]:
  "con_inv (stream_items_update f con) = con_inv con" "con_inv (event_log_update g con) = con_inv con"
  "con_inv (acks_to_send_update h con) = con_inv con" "con_inv (udp_socket_update k con) = con_inv con"
  by (rule con_inv_cong; simp)+

lemma con_inv_resender:
  "con_inv con \<Longrightarrow> res_frame (resender con) res \<Longrightarrow> resender_inv res \<Longrightarrow> con_inv (con\<lparr>resender := res\<rparr>)"
  by (auto simp: con_inv_def queues_wf_def in_dir_def res_frame_def)

lemma con_inv_params: "con_inv con \<Longrightarrow> params_wf ps \<Longrightarrow> con_inv (con\<lparr>params := ps\<rparr>)"
  by (auto simp: con_inv_def queues_wf_def in_dir_def)

lemma con_inv_incoming:
  "con_inv con \<Longrightarrow> length (f (incoming_p_ids (codec con))) = length (incoming_p_ids (codec con)) \<Longrightarrow>
   con_inv (codec_update (incoming_p_ids_update f) con)"
  by (auto simp: con_inv_def queues_wf_def in_dir_def wf_codec_def)

lemma con_inv_outgoing:
  "con_inv con \<Longrightarrow> length (f (outgoing_p_ids (codec con))) = length (outgoing_p_ids (codec con)) \<Longrightarrow>
   con_inv (codec_update (outgoing_p_ids_update f) con)"
  by (auto simp: con_inv_def queues_wf_def in_dir_def wf_codec_def)

lemma con_inv_with_queues:
  assumes "con_inv con" "queues_ok (in_dir con) q"
  shows "con_inv (with_queues t q con)"
proof -
  have "wf_packet (in_dir con) d" if "p \<in> set ((receive_queue (codec con))[k := q_receive q])" "d \<in> set p" for p d k
    using that assms set_update_subset_insert [of "receive_queue (codec con)" k "q_receive q"]
    by (auto simp: con_inv_def queues_wf_def queues_ok_def)
  moreover have "wf_packet (in_dir con) d" if "Some d \<in> set ((fragmented_queue (codec con))[k := q_frag q])" for d k
    using that assms set_update_subset_insert [of "fragmented_queue (codec con)" k "q_frag q"]
    by (auto simp: con_inv_def queues_wf_def queues_ok_def)
  ultimately show ?thesis
    using assms(1) by (simp add: con_inv_def queues_wf_def with_queues_def wf_codec_def in_dir_def)
qed

lemma queues_of_ok:
  assumes "con_inv con"
  shows "queues_ok (in_dir con) (queues_of t con)"
proof -
  have "cmd_index t < length (receive_queue (codec con))" "cmd_index t < length (fragmented_queue (codec con))"
    using assms by (simp_all add: con_inv_def wf_codec_def cmd_index_def)
  then have "receive_queue (codec con) ! cmd_index t \<in> set (receive_queue (codec con))"
    "fragmented_queue (codec con) ! cmd_index t \<in> set (fragmented_queue (codec con))" by simp_all
  then show ?thesis
    using assms unfolding con_inv_def queues_wf_def queues_ok_def queues_of_def by (metis command_queues.select_convs(2,3))
qed

section \<open>Every operation keeps the invariant\<close>

abbreviation keeps_inv :: "'a con_action \<Rightarrow> bool" where
  "keeps_inv m \<equiv> keeps True con_inv m"

lemma keeps_push_item [keeps_intros]: "keeps_inv (push_item x)"
  by (simp add: push_item_def keeps_modify)

lemma keeps_send_event [keeps_intros]: "keeps_inv (send_event e)"
  by (simp add: send_event_def keeps_modify)

lemma keeps_res_try:
  assumes "\<And>r r'. f r = Ok r' \<Longrightarrow> res_frame r r' \<and> (resender_inv r \<longrightarrow> resender_inv r')"
  shows "keeps_inv (res_try f)"
proof (rule keepsI)
  fix con r con' assume con: "con_inv con" "res_try f con = (r, con')" "r \<noteq> Panic"
  show "con_inv con'"
  proof (cases "f (resender con)")
    case (Ok res)
    then show ?thesis
      using con assms [OF Ok] con_inv_resender [OF con(1)] by (auto simp: res_try_def con_inv_def)
  qed (use con in \<open>auto simp: res_try_def\<close>)
qed

lemma keeps_loss [keeps_intros]:
  "keeps_inv (res_try (handle_loss_incoming p w n))" "keeps_inv (res_try (handle_loss_outgoing u))"
  "keeps_inv (res_try handle_loss_resend_ack)"
proof -
  have inv: "resender_inv r \<longrightarrow> resender_inv r'" if "full_send_queue r' = full_send_queue r"
    "send_queue_indices r' = send_queue_indices r" "send_queue r' = send_queue r" for r r'
    using resender_inv_cong [OF that] by simp
  show "keeps_inv (res_try (handle_loss_incoming p w n))"
    by (rule keeps_res_try) (use handle_loss_incoming_frame handle_loss_incoming_queues inv in metis)
  show "keeps_inv (res_try (handle_loss_outgoing u))"
    by (rule keeps_res_try) (use handle_loss_outgoing_frame handle_loss_outgoing_queues inv in metis)
  show "keeps_inv (res_try handle_loss_resend_ack)"
    by (rule keeps_res_try) (use handle_loss_resend_ack_frame handle_loss_resend_ack_queues inv in metis)
qed

lemma map_ok_Err_iff: "map_ok f m = Err e \<longleftrightarrow> m = Err e"
  by (cases m) simp_all

lemma packet_id_of_not_Err: "packet_id_of u \<noteq> Err e"
  by (auto simp: packet_id_of_def udp_packet_id_def out_content_def slice_from_def map_ok_Err_iff index_def and_then_Err_iff
      udp_packet_type_not_Err out_header_def header_bytes_def slice_to_def in_header_new_def h_packet_id_def
      slice_def read_be16_def split: if_splits)

lemma packet_type_to_index_not_Err: "packet_type_to_index t \<noteq> Err e"
  by (simp add: packet_type_to_index_def split: packet_type.split)

lemma resender_send_not_Err: "resender_send env u r \<noteq> (Err e, r')"
  by (auto simp: resender_send_def act_then.simps act_lift_def act_modify_def Let_def
      packet_id_of_not_Err packet_type_to_index_not_Err split: outcome.splits prod.splits)

lemma keeps_on_resender_send [keeps_intros]: "keeps_inv (on_resender (resender_send env u))"
proof (rule keepsI)
  fix con r con' assume con: "con_inv con" "on_resender (resender_send env u) con = (r, con')" "r \<noteq> Panic"
  obtain res where run: "resender_send env u (resender con) = (r, res)" "con' = con\<lparr>resender := res\<rparr>"
    using con(2) by (auto simp: on_resender_def split: prod.splits)
  have "resender_inv (resender con)" using con(1) by (simp add: con_inv_def)
  moreover have "r = Ok ()"
    using run(1) con(3) by (cases r) (auto simp: resender_send_not_Err)
  ultimately show "con_inv con'"
    using run con_inv_resender [OF con(1) resender_send_frame [OF run(1)]] resender_send_inv by blast
qed


lemma unwrap_opt_Ok_iff: "unwrap_opt v = Ok x \<longleftrightarrow> v = Some x"
  by (cases v) simp_all

lemma ack_ping_frame: "last_pings (ack_ping env p r) = last_pings r \<or>
    (\<exists>i. last_pings (ack_ping env p r) = take i (last_pings r) @ drop (Suc i) (last_pings r))"
  "stats_wf r \<Longrightarrow> stats_wf (ack_ping env p r)" "resender_inv (ack_ping env p r) = resender_inv r"
  by (auto simp: ack_ping_def Let_def update_srtt_def stats_wf_def resender_inv_def in_flight_def split: option.split)

lemma con_inv_ack_ping: "con_inv con \<Longrightarrow> con_inv (resender_update (ack_ping env p) con)"
  using ack_ping_frame(1,3) [of env p "resender con"] ack_ping_frame(2) [of "resender con" env p]
  by (auto simp: con_inv_def queues_wf_def in_dir_def)

lemma keeps_resender_ack [keeps_intros]: "keeps_inv (resender_ack env t p)"
proof (cases "t = Ping")
  case True
  then show ?thesis
    using con_inv_ack_ping by (simp add: resender_ack_def keeps_modify)
next
  case False
  show ?thesis
  proof (rule keepsI)
    fix con r con' assume con: "con_inv con" "resender_ack env t p con = (r, con')" "r \<noteq> Panic"
    obtain i where "packet_type_to_index t = (Ok i :: (_, tsproto_error) outcome)"
      using con(2,3) False
      by (cases "packet_type_to_index t :: (_, tsproto_error) outcome")
        (auto simp: resender_ack_def act_then.simps act_lift_def packet_type_to_index_not_Err)
    then have i: "i < 3" "t = queue_type i" by (simp_all add: packet_type_to_index_Ok)
    have "resender_inv (resender con)" using con(1) by (simp add: con_inv_def)
    then have rm: "con_inv (con\<lparr>resender := ack_removed env i k (resender con)\<rparr>)" for k
      by (intro con_inv_resender con(1) ack_removed_frame ack_removed_inv i(1))
    have upd: "con_inv (resender_update (ack_removed env i k) (con\<lparr>stream_items := xs\<rparr>))" for k xs
      by (rule con_inv_cong [THEN iffD2, OF _ _ _ _ rm]) (cases con; simp)+
    let ?t = "ack_target (queue_type i) p (outgoing_p_ids (codec con)) (full_send_queue (resender con) ! i)
      :: ((partial_packet_id \<times> packet_id_t option) option, tsproto_error) outcome"
    note run = con(2) [unfolded i(2) resender_ack_run [OF i(1)]]
    show "con_inv con'"
    proof (cases ?t)
      case (Ok v)
      show ?thesis
      proof (cases v)
        case None
        then show ?thesis using run Ok con(1) by simp
      next
        case (Some kx)
        obtain k item where "kx = (k, item)" by fastforce
        then have "con' = resender_update (ack_removed env i k) (con\<lparr>stream_items :=
            stream_items con @ (case item of None \<Rightarrow> [] | Some a \<Rightarrow> [AckPacketItem a])\<rparr>)"
          using run Ok Some by simp
        then show ?thesis using upd by (simp only:)
      qed
    qed (use run con(1) in simp_all)
  qed
qed

lemma create_key_nonce_shape:
  assumes "create_key_nonce pr t c i g iv cache = (Ok (kn, cache') :: (_, 'e) outcome)" "cache_shape cache"
  shows "cache_shape cache'"
proof -
  let ?ti = "packet_type_index t"
  obtain row ci e where r: "index cache ?ti = (Ok row :: (_, 'e) outcome)" "cache[?ti := row[ci := e]] = cache'"
    using assms(1) unfolding create_key_nonce_def Let_def and_then_Ok_iff outcome.inject prod.inject
    by (elim exE conjE) (rule that)
  then have "?ti < length cache" "row = cache ! ?ti" by (auto simp: index_def split: if_splits)
  then have "row \<in> set cache" by simp
  then show ?thesis
    using assms(2) r(2) set_update_subset_insert [of cache ?ti "row[ci := e]"] by (auto simp: cache_shape_def)
qed

lemma crypt_shape:
  "encrypt pr packet g iv cache = Ok (r, cache') \<Longrightarrow> cache_shape cache \<Longrightarrow> cache_shape cache'"
  "decrypt pr ipacket g iv cache = Ok (r', cache') \<Longrightarrow> cache_shape cache \<Longrightarrow> cache_shape cache'"
  by (auto simp: encrypt_def decrypt_def and_then_Ok_iff dest: create_key_nonce_shape)

lemma con_inv_cache:
  assumes "con_inv con" "params con = Some ps" "cache_shape cache"
  shows "con_inv (con\<lparr>params := Some (ps\<lparr>cp_key_cache := cache\<rparr>)\<rparr>)"
  by (rule con_inv_params) (use assms in \<open>auto simp: con_inv_def params_wf_def\<close>)

lemma con_inv_cache_shape: "con_inv con \<Longrightarrow> params con = Some ps \<Longrightarrow> cache_shape (cp_key_cache ps)"
  by (simp add: con_inv_def params_wf_def)

lemma keeps_encrypt_with_params [keeps_intros]: "keeps_inv (encrypt_with_params pr packet g)"
proof (rule keepsI)
  fix con r con' assume con: "con_inv con" "encrypt_with_params pr packet g con = (r, con')" "r \<noteq> Panic"
  show "con_inv con'"
  proof (cases "params con")
    case None
    then show ?thesis using con by (simp add: encrypt_with_params_def)
  next
    case (Some ps)
    let ?x = "encrypt pr packet g (cp_shared_iv ps) (cp_key_cache ps) :: ((out_packet, tsproto_error) outcome \<times> key_cache, tsproto_error) outcome"
    show ?thesis
    proof (cases ?x)
      case (Ok x)
      obtain y cache where x: "x = (y, cache)" by fastforce
      have "con' = con\<lparr>params := Some (ps\<lparr>cp_key_cache := cache\<rparr>)\<rparr>"
        using con(2) Some Ok x by (simp add: encrypt_with_params_def)
      moreover have "cache_shape cache"
        by (rule crypt_shape(1) [OF Ok [unfolded x] con_inv_cache_shape [OF con(1) Some]])
      ultimately show ?thesis using con_inv_cache [OF con(1) Some] by simp
    qed (use con Some in \<open>simp_all add: encrypt_with_params_def\<close>)
  qed
qed

lemma keeps_decrypt_with_params [keeps_intros]: "keeps_inv (decrypt_with_params pr packet g)"
proof (rule keepsI)
  fix con r con' assume con: "con_inv con" "decrypt_with_params pr packet g con = (r, con')" "r \<noteq> Panic"
  show "con_inv con'"
  proof (cases "params con")
    case None
    then show ?thesis using con by (simp add: decrypt_with_params_def)
  next
    case (Some ps)
    let ?x = "decrypt pr packet g (cp_shared_iv ps) (cp_key_cache ps) :: ((bytes, tsproto_error) outcome \<times> key_cache, tsproto_error) outcome"
    show ?thesis
    proof (cases ?x)
      case (Ok x)
      obtain y cache where x: "x = (y, cache)" by fastforce
      have "con' = con\<lparr>params := Some (ps\<lparr>cp_key_cache := cache\<rparr>)\<rparr>"
        using con(2) Some Ok x by (simp add: decrypt_with_params_def)
      moreover have "cache_shape cache"
        by (rule crypt_shape(2) [OF Ok [unfolded x] con_inv_cache_shape [OF con(1) Some]])
      ultimately show ?thesis using con_inv_cache [OF con(1) Some] by simp
    qed (use con Some in \<open>simp_all add: decrypt_with_params_def\<close>)
  qed
qed

lemma keeps_encode_one [keeps_intros]: "keeps_inv (encode_one pr t fake enc packet)"
  unfolding encode_one_def Let_def
  by (intro keeps_intros con_inv_outgoing) simp_all

lemma keeps_encode_packet [keeps_intros]: "keeps_inv (encode_packet pr packet)"
  unfolding encode_packet_def Let_def by (intro keeps_intros)

lemma keeps_poll_send_udp_packet [keeps_intros]: "keeps_inv (poll_send_udp_packet u)"
  unfolding poll_send_udp_packet_def Let_def by (intro keeps_intros) simp_all

lemma keeps_poll [keeps_intros]:
  "keeps may I m \<Longrightarrow> (\<And>x. keeps may I (f x)) \<Longrightarrow> keeps may I (case v of Pending \<Rightarrow> m | Ready x \<Rightarrow> f x)"
  by (simp split: poll.split)

lemma keeps_step [keeps_intros]:
  "keeps may I m \<Longrightarrow> (\<And>x. keeps may I (f x)) \<Longrightarrow> keeps may I (case v of Stop \<Rightarrow> m | Go x \<Rightarrow> f x)"
  by (simp split: step.split)

lemma keeps_step_then [keeps_intros]:
  "keeps may I m \<Longrightarrow> (\<And>x. keeps may I (f x)) \<Longrightarrow> keeps may I (step_then m f)"
  unfolding step_then_def by (intro keeps_intros)

lemma keeps_bool [keeps_intros]:
  "keeps may I m \<Longrightarrow> keeps may I n \<Longrightarrow> keeps may I (case b of True \<Rightarrow> m | False \<Rightarrow> n)"
  by (simp split: bool.split)

lemma keeps_send [keeps_intros]:
  "keeps_inv (send_udp_packet env u)" "keeps_inv (send_packet env p)" "keeps_inv (send_ack_packet env p)"
  unfolding send_udp_packet_def send_packet_def send_ack_packet_def
  by (intro keeps_intros; simp)+

lemma keeps_poll_acks [keeps_intros]: "keeps_inv (poll_acks us)" "keeps_inv poll_send_acks"
proof -
  show *: "keeps_inv (poll_acks us)" for us
    by (induction us; simp only: poll_acks.simps; intro keeps_intros; simp)
  show "keeps_inv poll_send_acks" unfolding poll_send_acks_def by (intro keeps_intros *)
qed

lemma keeps_handle_command_packet [keeps_intros]: "keeps_inv (handle_command_packet pr d)"
proof (rule keepsI)
  fix con r con' assume con: "con_inv con" "handle_command_packet pr d con = (r, con')" "r \<noteq> Panic"
  show "con_inv con'"
  proof (cases "\<exists>p t. in_packet_new (in_dir con) d = (Ok p :: (_, tsproto_error) outcome) \<and>
      h_packet_type (ip_header p) = (Ok t :: (_, tsproto_error) outcome)")
    case True
    then have wf: "wf_packet (in_dir con) d" using wf_packet_intro by blast
    show ?thesis
    proof (cases "d_type (in_dir con) d = Init")
      case True
      then have "r = Panic" using con(1,2) wf
        by (auto simp: handle_command_packet_def con_inv_def wf_codec_def d_type_def packet_type_index_def
            index_def act_then.simps Let_def split: if_splits)
      then show ?thesis using con(3) by simp
    next
      case False
      have c: "wf_codec (codec con)" using con(1) by (simp add: con_inv_def)
      obtain q where "handle_command_queues pr (in_dir con) d (d_id (in_dir con) d) (queues_of (d_type (in_dir con) d) con) = (r, q)"
        "con' = with_queues (d_type (in_dir con) d) q con"
        using con(2) unfolding handle_command_packet_queues [OF c wf refl False] by (auto split: prod.splits)
      then show ?thesis
        using handle_command_queues_cases [OF wf queues_of_ok [OF con(1)]] con_inv_with_queues [OF con(1)] by blast
    qed
  next
    case False
    then have "con' = con"
      using con(2) by (cases "in_packet_new (in_dir con) d :: (_, tsproto_error) outcome")
        (auto simp: handle_command_packet_def act_then.simps act_lift_def act_read_def Let_def split: outcome.splits)
    then show ?thesis using con(1) by simp
  qed
qed

lemma keeps_handlers [keeps_intros]:
  "keeps_inv (reject e)" "keeps_inv (check_established p t i g)" "keeps_inv (or_reject x)"
  "keeps_inv (unseal pr p t i g)" "keeps_inv (open_content pr d p t i g)" "keeps_inv (handle_command env d)"
  "keeps_inv (parsed_item s item y)" "keeps_inv (update_next_id t i g)"
proof -
  show r: "keeps_inv (reject e :: 'z step con_action)" for e unfolding reject_def by (intro keeps_intros)
  show "keeps_inv (check_established p t i g)" unfolding check_established_def Let_def by (intro keeps_intros r)
  show o: "keeps_inv (or_reject x)" for x :: "('y, tsproto_error) outcome" unfolding or_reject_def by (intro keeps_intros r)
  show u: "keeps_inv (unseal pr p t i g)" unfolding unseal_def by (intro keeps_intros r o)
  show "keeps_inv (open_content pr d p t i g)" unfolding open_content_def by (intro keeps_intros r u)
  show "keeps_inv (handle_command env d)" unfolding handle_command_def by (intro keeps_intros)
  show "keeps_inv (parsed_item s item y)" unfolding parsed_item_def by (intro keeps_intros)
  show "keeps_inv (update_next_id t i g)"
    unfolding update_next_id_def Let_def by (intro keeps_intros con_inv_incoming) simp_all
qed

lemma keeps_handle_other [keeps_intros]: "keeps_inv (handle_other env p t i g)"
  unfolding handle_other_def by (intro keeps_intros)

lemma keeps_received [keeps_intros]: "keeps_inv (act_modify (resender_update (received_packet env)))"
  by (rule keeps_modify) (auto simp: con_inv_def queues_wf_def in_dir_def received_packet_def stats_wf_def resender_inv_def in_flight_def)

lemma keeps_handle_udp_packet [keeps_intros]: "keeps_inv (handle_udp_packet env d addr)"
  unfolding handle_udp_packet_def codec_handle_udp_packet_def dispatch_def out_of_window_def Let_def
  by (intro keeps_intros)

section \<open>Statistics and pings\<close>

lemma keeps_check_disconnecting [keeps_intros]: "keeps_inv (check_disconnecting env)"
  unfolding check_disconnecting_def
  by (intro keeps_intros) (auto simp: con_inv_def queues_wf_def in_dir_def stats_wf_def resender_inv_def in_flight_def)

lemma rotate_stats_Ok:
  assumes "rotate_stats env r = Ok r'"
  shows "last_pings r' = last_pings r" "last_receive r' = last_receive r" "res_state r' = res_state r"
    "resender_inv r' = resender_inv r" "stats_wf r \<Longrightarrow> stats_wf r'" "full_send_queue r' = full_send_queue r"
    "last_send r' = last_send r" "config r' = config r" "last_stat r' = now env"
proof -
  have le: "unat (x mod (60 :: u8)) < 60" for x by (simp add: unat_mod)
  have q: "full_send_queue r' = full_send_queue r" "send_queue_indices r' = send_queue_indices r" "send_queue r' = send_queue r"
    using assms by (auto simp: rotate_stats_def Let_def and_then_Ok_iff split: if_splits)
  show "resender_inv r' = resender_inv r" by (rule resender_inv_cong [OF q])
  show "last_pings r' = last_pings r" "last_receive r' = last_receive r" "res_state r' = res_state r"
    "stats_wf r \<Longrightarrow> stats_wf r'" "full_send_queue r' = full_send_queue r"
    "last_send r' = last_send r" "config r' = config r" "last_stat r' = now env"
    using assms le
    by (auto simp: rotate_stats_def Let_def and_then_Ok_iff stats_wf_def stats_counter_default_def split: if_splits)
qed

text \<open>What the statistics and the pings leave alone.\<close>

lemma update_stats_keeps:
  assumes "update_stats env con = (r, con')" "con_inv con" "r \<noteq> Panic"
  shows "con_inv con' \<and> r = Ok ()"
  using assms
proof (induction env con rule: update_stats.induct)
  case (1 env con)
  let ?con = "resender_update (res_timers_update (t_stats_timeout_update (\<lambda>_. last_stat (resender con) + from_secs STAT_SECONDS))) con"
  have inv: "con_inv ?con"
    using 1(3) by (auto simp: con_inv_def queues_wf_def in_dir_def stats_wf_def resender_inv_def in_flight_def)
  show ?case
  proof (cases "last_stat (resender con) + from_secs STAT_SECONDS \<le> now env")
    case False
    then show ?thesis using 1(2) inv by (auto simp: update_stats.simps [of env con])
  next
    case due: True
    show ?thesis
    proof (cases "rotate_stats env (resender ?con) :: (resender, tsproto_error) outcome")
      case (Ok res)
      let ?con2 = "stream_items_update (\<lambda>xs. xs @ [NetworkStatsUpdated]) (?con\<lparr>resender := res\<rparr>)"
      have "con_inv (?con\<lparr>resender := res\<rparr>)"
        using inv rotate_stats_Ok [OF Ok] unfolding con_inv_def by (auto simp: queues_wf_def in_dir_def)
      then have "con_inv ?con2" by simp
      moreover have "update_stats env ?con2 = (r, con')"
        using 1(2) due Ok by (simp add: update_stats.simps [of env con] Let_def)
      ultimately show ?thesis using 1(1) [OF refl refl due Ok] 1(4) by blast
    next
      case (Err e)
      then show ?thesis by (simp add: rotate_stats_def Let_def and_then_Err_iff checked_plus_not_Err split: if_splits)
    next
      case Panic
      then show ?thesis using 1(2,4) due by (simp add: update_stats.simps [of env con] Let_def)
    qed
  qed
qed

lemma keeps_encode_resender: "keeps True (\<lambda>con. P (resender con)) (encode_packet pr packet)"
  unfolding encode_packet_def encode_one_def encrypt_with_params_def Let_def
  by (intro keeps_intros) simp_all

lemma keeps_send_packet_frame: "keeps True (\<lambda>con. res_frame r (resender con)) (send_packet env p)"
proof -
  have "keeps True (\<lambda>con. res_frame r (resender con)) (on_resender (resender_send env u))" for u
    by (rule keepsI) (auto simp: on_resender_def split: prod.splits intro: res_frame_trans [OF _ resender_send_frame])
  then show ?thesis
    unfolding send_packet_def send_udp_packet_def send_event_def
    by (intro keeps_intros keeps_encode_resender [of "res_frame r"]) simp_all
qed

lemma send_ping_cases:
  assumes "send_ping env con = (Ok (), con')"
  shows "last_receive (resender con') = last_receive (resender con) \<and>
    last_pings (resender con') \<noteq> [] \<and> ping_sent (last (last_pings (resender con'))) = now env"
proof -
  obtain dir p i con1 where run: "new_with_dir dir 0 Ping = (Ok p :: (_, tsproto_error) outcome)"
    "send_packet env p con = (Ok i, con1)"
    "con' = resender_update (last_pings_update (\<lambda>ps.
       let ps = ps @ [\<lparr>ping_id = pid_part i, ping_sent = now env\<rparr>]
       in if PING_COUNT < length ps then tl ps else ps)) con1"
    using assms unfolding send_ping_def
    by (auto simp: act_then.simps act_lift_def act_read_def act_modify_def split: outcome.splits prod.splits)
  have fr: "res_frame (resender con) (resender con1)"
    using act_spec_Ok [OF keeps_send_packet_frame _ run(2), of "resender con"] by simp
  let ?ps = "last_pings (resender con1) @ [\<lparr>ping_id = pid_part i, ping_sent = now env\<rparr>]"
  have "last_pings (resender con') = (if PING_COUNT < length ?ps then tl ?ps else ?ps)"
    unfolding run(3) by (simp add: Let_def)
  moreover have "PING_COUNT < length ?ps \<Longrightarrow> last_pings (resender con1) \<noteq> []" by (auto simp: PING_COUNT_def)
  ultimately show ?thesis using fr unfolding run(3) by (auto simp: res_frame_def)
qed

lemma keeps_send_ping [keeps_intros]: "keeps_inv (send_ping env)"
  unfolding send_ping_def
  by (intro keeps_intros) (auto simp: con_inv_def queues_wf_def in_dir_def stats_wf_def resender_inv_def in_flight_def
      Let_def PING_COUNT_def)

text \<open>After a ping was sent the next one is due in a second.\<close>

lemma next_ping_later:
  assumes "last_receive r \<le> t" "last_pings r \<noteq> []" "ping_sent (last (last_pings r)) = t"
  shows "t < fst (next_ping r)"
  using assms by (simp add: next_ping_def Let_def from_secs_def PING_SECONDS_def)

lemma next_ping_res:
  "next_ping r = (t, r') \<Longrightarrow> r' = r \<or> r' = r\<lparr>last_pings := []\<rparr>" "next_ping r = (t, r') \<Longrightarrow> last_receive r < t"
  by (auto simp: next_ping_def Let_def from_secs_def PING_SECONDS_def split: if_splits)

lemma ping_turn_inv:
  assumes "con_inv con" "next_ping (resender con) = (t, res)"
  shows "con_inv (con\<lparr>resender := res\<lparr>res_timers := (res_timers res)\<lparr>t_ping_timeout := t\<rparr>\<rparr>\<rparr>)"
proof -
  let ?res = "res\<lparr>res_timers := (res_timers res)\<lparr>t_ping_timeout := t\<rparr>\<rparr>"
  have "resender_inv ?res = resender_inv (resender con)"
    using next_ping_res(1) [OF assms(2)] by (intro resender_inv_cong) auto
  then show ?thesis
    using assms(1) next_ping_res(1) [OF assms(2)] by (auto simp: con_inv_def queues_wf_def in_dir_def stats_wf_def)
qed

lemma ping_loop_result:
  assumes "con_inv con"
  shows "\<exists>r con'. ping_loop env con = Some (r, con') \<and> (r \<noteq> Panic \<longrightarrow> con_inv con')"
proof -
  let ?turn = "\<lambda>con. case next_ping (resender con) of (t, res) \<Rightarrow>
    con\<lparr>resender := res\<lparr>res_timers := (res_timers res)\<lparr>t_ping_timeout := t\<rparr>\<rparr>\<rparr>"
  obtain t res where n: "next_ping (resender con) = (t, res)" by fastforce
  let ?con = "?turn con"
  have inv: "con_inv ?con" using ping_turn_inv [OF assms n] n by simp
  show ?thesis
  proof (cases "t \<le> now env \<and> \<not> pings_unanswered (last_pings (resender ?con))")
    case False
    then have "\<exists>r. ping_loop env con = Some (r, ?con)"
      using n by (subst ping_loop.simps) (auto simp: Let_def)
    then show ?thesis using inv by blast
  next
    case True
    obtain r con1 where s: "send_ping env ?con = (r, con1)" by fastforce
    have step: "ping_loop env con = (case r of Ok _ \<Rightarrow> ping_loop env con1 | Err e \<Rightarrow> Some (Err e, con1) | Panic \<Rightarrow> Some (Panic, con1))"
      using n True s by (subst ping_loop.simps) (auto simp: Let_def split: outcome.split)
    have inv1: "con_inv con1" if "r \<noteq> Panic" by (rule keeps_use [OF keeps_send_ping inv s that])
    show ?thesis
    proof (cases r)
      case (Ok u)
      have sp: "last_receive (resender con1) = last_receive (resender ?con) \<and> last_pings (resender con1) \<noteq> [] \<and>
          ping_sent (last (last_pings (resender con1))) = now env"
        using send_ping_cases [of env ?con con1] s Ok by simp
      have "last_receive (resender ?con) = last_receive (resender con)" using n next_ping_res(1) [OF n] by auto
      then have "last_receive (resender con1) \<le> now env" using next_ping_res(2) [OF n] True sp by simp
      then have later: "\<not> fst (next_ping (resender con1)) \<le> now env" using next_ping_later [of "resender con1" "now env"] sp by simp
      obtain t1 res1 where n1: "next_ping (resender con1) = (t1, res1)" by fastforce
      have "ping_loop env con1 = Some (Ok (), ?turn con1)"
        using later n1 by (subst ping_loop.simps) (simp add: Let_def)
      moreover have "con_inv (?turn con1)" using ping_turn_inv [OF _ n1] inv1 Ok n1 by simp
      ultimately show ?thesis using step Ok by simp
    qed (use step inv1 in simp_all)
  qed
qed

lemma poll_ping_result:
  assumes "con_inv con"
  shows "\<exists>r con'. poll_ping env con = Some (r, con') \<and> (r \<noteq> Panic \<longrightarrow> con_inv con')"
proof -
  have k: "keeps_inv (act_then (check_disconnecting env) (\<lambda>_. update_stats env))"
    by (rule keeps_then [OF keeps_check_disconnecting]) (rule keepsI, use update_stats_keeps in blast)
  obtain r con1 where run: "act_then (check_disconnecting env) (\<lambda>_. update_stats env) con = (r, con1)" by fastforce
  have inv: "r \<noteq> Panic \<Longrightarrow> con_inv con1" by (rule keeps_use [OF k assms run])
  show ?thesis
    using run inv ping_loop_result [of con1 env] by (cases r) (auto simp: poll_ping_def)
qed

section \<open>Polling\<close>

lemma keeps_pop_item [keeps_intros]: "keeps_inv pop_item"
  unfolding pop_item_def by (intro keeps_intros) simp

lemma keeps_receive_loop [keeps_intros]: "keeps_inv (receive_loop env answers)"
  by (induction env answers rule: receive_loop.induct; simp only: receive_loop.simps; intro keeps_intros; simp)

lemma keeps_poll_incoming [keeps_intros]: "keeps_inv (poll_incoming_udp_packet env)"
  unfolding poll_incoming_udp_packet_def by (intro keeps_intros)

lemma poll_resend_result:
  assumes "con_inv con"
  shows "\<exists>r con'. poll_resend env con = Some (r, con') \<and> (r \<noteq> Panic \<longrightarrow> con_inv con')"
proof -
  have inv: "resender_inv (resender con)" using assms by (simp add: con_inv_def)
  obtain r con' where run: "poll_resend_loop env (get_timeout (resender con)) con = Some (r, con')"
    "r \<noteq> Panic \<Longrightarrow> resender_inv (resender con')"
    using poll_resend_loop_result [OF inv, of env "get_timeout (resender con)"] by (fastforce simp: resend_result_def)
  have "con_frame con con'" using poll_resend_loop_frame [OF run(1)] by simp
  then have "r \<noteq> Panic \<Longrightarrow> con_inv con'"
    using run(2) assms by (auto simp: con_inv_def con_frame_def res_frame_def queues_wf_def in_dir_def)
  then show ?thesis using run(1) by (auto simp: poll_resend_def)
qed

text \<open>The sequence of two operations that return.\<close>

lemma opt_then_result:
  assumes "\<exists>r con'. m = Some (r, con') \<and> (r \<noteq> Panic \<longrightarrow> con_inv con')"
    and "\<And>x con. con_inv con \<Longrightarrow> \<exists>r con'. f x con = Some (r, con') \<and> (r \<noteq> Panic \<longrightarrow> con_inv con')"
  shows "\<exists>r con'. opt_then m f = Some (r, con') \<and> (r \<noteq> Panic \<longrightarrow> con_inv con')"
proof -
  obtain r con where m: "m = Some (r, con)" "r \<noteq> Panic \<Longrightarrow> con_inv con" using assms(1) by blast
  show ?thesis using m assms(2) [of con] by (cases r) (simp_all add: opt_then_def)
qed

lemma action_result:
  assumes "keeps_inv m" "con_inv con"
  shows "\<exists>r con'. Some (m con) = Some (r, con') \<and> (r \<noteq> Panic \<longrightarrow> con_inv con')"
  using keeps_use [OF assms] by (cases "m con") auto

lemma poll_next_result:
  assumes "con_inv con"
  shows "\<exists>r con'. poll_next env con = Some (r, con') \<and> (r \<noteq> Panic \<longrightarrow> con_inv con')"
  unfolding poll_next_def
  by (intro opt_then_result action_result keeps_intros assms)
    (auto intro!: opt_then_result action_result keeps_intros poll_resend_result poll_ping_result split: option.split poll.split)

end
