(* ===== verification/Connection_Props.thy ===== *)
theory Connection_Props
  imports Connection_Inv
begin

text \<open>
  What a connection promises: it stays sound whatever arrives, polling always returns, commands that
  are not sealed with the key of the connection have no effect, and accepted commands are acknowledged; and
  what goes wrong with ids at a wrap.
\<close>

section \<open>Runs of a connection\<close>

text \<open>
  The steps that a connection is used by: polling, sending, the answers of the socket (anything), the
  end of the handshake, which sets the parameters, and the change of state for a disconnect.
\<close>

inductive con_step :: "connection \<Rightarrow> connection \<Rightarrow> bool" where
  poll: "poll_next env con = Some (r, con') \<Longrightarrow> r \<noteq> Panic \<Longrightarrow> con_step con con'"
| send: "send_packet env p con = (r, con') \<Longrightarrow> r \<noteq> Panic \<Longrightarrow> con_step con con'"
| send_udp: "send_udp_packet env u con = (r, con') \<Longrightarrow> r \<noteq> Panic \<Longrightarrow> con_step con con'"
| hear: "con_step con (con\<lparr>udp_socket := sock\<rparr>)"
| establish: "length mac = 8 \<Longrightarrow>
    con_step con (con\<lparr>params := Some ((connected_params_new key iv mac)\<lparr>cp_c_id := c, cp_voice_encryption := v\<rparr>)\<rparr>)"
| set_client_id: "params con = Some ps \<Longrightarrow> con_step con (con\<lparr>params := Some (ps\<lparr>cp_c_id := c\<rparr>)\<rparr>)"
| state: "con_step con (con\<lparr>resender := set_state env st (resender con)\<rparr>)"

inductive con_reachable :: "connection \<Rightarrow> bool" where
  con_new: "con_reachable (connection_new t client addr sock)"
| con_steps: "con_reachable con \<Longrightarrow> con_step con con' \<Longrightarrow> con_reachable con'"

inductive_cases con_stepE: "con_step con con'"

lemma set_state_frame: "resender_inv (set_state env st r) = resender_inv r" "stats_wf (set_state env st r) = stats_wf r"
  "last_pings (set_state env st r) = last_pings r"
  by (simp_all add: set_state_def Let_def resender_inv_def in_flight_def stats_wf_def)

lemma con_step_inv: "con_step con con' \<Longrightarrow> con_inv con \<Longrightarrow> con_inv con'"
proof (induction rule: con_step.induct)
  case (poll env con r con')
  then show ?case using poll_next_result [OF poll(3), of env] by auto
next
  case (send env p con r con')
  then show ?case using keeps_use [OF keeps_send(2)] by blast
next
  case (send_udp env u con r con')
  then show ?case using keeps_use [OF keeps_send(1)] by blast
next
  case (hear con sock)
  then show ?case by simp
next
  case (establish mac con key iv c v)
  then show ?case
    by (intro con_inv_params) (auto simp: params_wf_def connected_params_new_def cache_shape_def key_cache_default_def)
next
  case (set_client_id con ps c)
  then show ?case by (intro con_inv_params) (auto simp: con_inv_def params_wf_def)
next
  case (state con env st)
  then show ?case by (simp add: con_inv_def queues_wf_def in_dir_def set_state_frame)
qed

lemma con_reachable_inv: "con_reachable con \<Longrightarrow> con_inv con"
  by (induction rule: con_reachable.induct) (auto intro: con_step_inv)

section \<open>Properties of polling\<close>

text \<open>
  C2 (a connection stays sound): however a connection is polled, whatever datagrams arrive and whatever
  is sent, every packet that waits for an ack is in flight or is still to be taken by the next refill of
  the send queue; every packet that waits in a receive or fragment queue has a whole header with a
  known type; and at most thirty pings are remembered.
\<close>

theorem connection_stays_sound:
  assumes "con_reachable con"
  shows "(\<forall>i < 3. \<forall>k. unacked (resender con) \<lparr>pid_type = queue_type i, pid_part = k\<rparr> \<noteq> None \<longrightarrow>
      \<lparr>pid_type = queue_type i, pid_part = k\<rparr> \<in> in_flight (resender con) \<or> send_queue_indices (resender con) ! i \<le> k) \<and>
    (\<forall>q \<in> set (receive_queue (codec con)). \<forall>d \<in> set q. \<exists>p. in_packet_try_new (in_dir con) d = Ok p) \<and>
    (\<forall>d. Some d \<in> set (fragmented_queue (codec con)) \<longrightarrow> (\<exists>p. in_packet_try_new (in_dir con) d = Ok p)) \<and>
    length (last_pings (resender con)) \<le> 30"
proof -
  have inv: "con_inv con" using assms by (rule con_reachable_inv)
  then have res: "resender_inv (resender con)" by (simp add: con_inv_def)
  have "\<lparr>pid_type = queue_type i, pid_part = k\<rparr> \<in> in_flight (resender con) \<or> send_queue_indices (resender con) ! i \<le> k"
    if i: "i < 3" and w: "unacked (resender con) \<lparr>pid_type = queue_type i, pid_part = k\<rparr> \<noteq> None" for i k
    using unacked_in_flight [OF res i w] .
  then show ?thesis
    using inv by (auto simp: con_inv_def queues_wf_def PING_COUNT_def wf_packet_try_new [symmetric])
qed

theorem connection_stays_sound_witness:
  "let con = connection_new 0 True ''a'' example_socket in length (last_pings (resender con)) \<le> 30"
  using connection_stays_sound [OF con_new [of 0 True "''a''" example_socket]] by (simp add: Let_def)

text \<open>
  C3 (polling returns): \<open>poll_next\<close> returns on every connection that can be reached, whatever the socket
  answers: with an item, with the end of the stream, with \<open>Pending\<close>, with an error, or by a panic; unless
  it panics, the connection can be polled on.
\<close>

theorem poll_next_total:
  assumes "con_reachable con"
  shows "\<exists>r con'. poll_next env con = Some (r, con') \<and> (r \<noteq> Panic \<longrightarrow> con_reachable con')"
proof -
  obtain r con' where run: "poll_next env con = Some (r, con')"
    using poll_next_result [OF con_reachable_inv [OF assms], of env] by blast
  have "r \<noteq> Panic \<Longrightarrow> con_reachable con'"
    by (rule con_steps [OF assms poll [OF run]])
  with run show ?thesis by blast
qed

theorem poll_next_total_witness:
  "\<exists>r con'. poll_next example_env (connection_new 0 True ''a'' example_socket) = Some (r, con')"
  using poll_next_total [OF con_new [of 0 True "''a''" example_socket], of example_env] by blast

section \<open>Handling a datagram\<close>

text \<open>The packet of a datagram that was accepted.\<close>

definition packet_view :: "direction \<Rightarrow> bytes \<Rightarrow> in_packet" where
  "packet_view dir d = \<lparr>ip_header = d_header dir d, ip_content = d_content dir d\<rparr>"

lemma in_packet_new_view [simp]: "wf_packet dir d \<Longrightarrow> in_packet_new dir d = Ok (packet_view dir d)"
  by (simp add: packet_view_def in_packet_new_wf)

declare in_packet_new_wf [simp del]

lemma packet_view_fields [simp]:
  assumes "wf_packet dir d"
  shows "h_packet_type (ip_header (packet_view dir d)) = Ok (d_type dir d)"
    "h_packet_id (ip_header (packet_view dir d)) = Ok (d_id dir d)"
    "h_flags (ip_header (packet_view dir d)) = Ok (d_flags dir d)"
    "h_client_id (ip_header (packet_view dir d)) = Ok (hv_cid (d_header dir d))"
    "length (ih_data (ip_header (packet_view dir d))) = header_len dir"
  using assms by (simp_all add: packet_view_def d_type_def d_id_def d_flags_def) (simp add: d_header_def wf_packet_def)

text \<open>The part of the handler after the statistics.\<close>

definition handle_checked ::
  "env \<Rightarrow> bytes \<Rightarrow> in_packet \<Rightarrow> packet_type \<Rightarrow> u16 \<Rightarrow> bool \<Rightarrow> u32 \<Rightarrow> u16 \<Rightarrow> u16 \<Rightarrow> bool step con_action" where
  "handle_checked env d packet t i w g n l =
     step_then (check_established packet t i g) (\<lambda>_.
     if ignores_window t \<or> w then
       step_then (open_content (prims env) d packet t i g) (\<lambda>d. dispatch env d t i g)
     else out_of_window t i n l)"

lemma codec_handle_wf:
  assumes "wf_packet (in_dir con) d" "d_type (in_dir con) d = t" "d_id (in_dir con) d = i"
    "in_receive_window con t i = (Ok (w, g, n, l) :: (_, tsproto_error) outcome)"
  shows "codec_handle_udp_packet env d con =
    act_then (res_try (handle_loss_incoming (packet_view (in_dir con) d) w n)) (\<lambda>_.
    act_then (handle_checked env d (packet_view (in_dir con) d) t i w g n l) (\<lambda>r.
    case r of
      Go True \<Rightarrow> act_then (act_lift (out_ack (reverse (in_dir con)) t i)) (send_ack_packet env)
    | _ \<Rightarrow> act_return ())) con"
  using assms by (simp add: codec_handle_udp_packet_def handle_checked_def)

lemma handle_udp_packet_wf:
  assumes "wf_packet (in_dir con) d" "addr = con_address con"
  shows "handle_udp_packet env d addr con = codec_handle_udp_packet env d
    (resender_update (received_packet env) (event_log_update (\<lambda>es. es @ [ReceiveUdpPacket (packet_view (in_dir con) d)]) con))"
proof -
  have "in_packet_try_new (in_dir con) d = Ok (packet_view (in_dir con) d)"
    using assms(1) by (simp add: in_packet_try_new_Ok_iff wf_packet_def packet_view_def d_header_def d_content_def)
  then show ?thesis using assms(2) by (simp add: handle_udp_packet_def send_event_def)
qed

lemma in_receive_window_codec:
  "codec con' = codec con \<Longrightarrow> (in_receive_window con' t i :: (_, 'e) outcome) = in_receive_window con t i"
  unfolding in_receive_window_def by (simp only:)

text \<open>What only an authentic packet may change.\<close>

definition untouched :: "connection \<Rightarrow> connection \<Rightarrow> bool" where
  "untouched con con' \<longleftrightarrow>
     codec con' = codec con \<and> is_client con' = is_client con \<and> con_address con' = con_address con \<and>
     unacked (resender con') = unacked (resender con) \<and> send_queue (resender con') = send_queue (resender con) \<and>
     acks_to_send con' = acks_to_send con \<and> sent_datagrams (udp_socket con') = sent_datagrams (udp_socket con) \<and>
     (\<forall>x. x \<in> set (stream_items con') \<longrightarrow> x \<in> set (stream_items con) \<or> (\<exists>e. x = ErrorItem e))"

lemma untouched_refl [simp]: "untouched con con"
  by (simp add: untouched_def)

lemma untouched_trans: "untouched a b \<Longrightarrow> untouched b c \<Longrightarrow> untouched a c"
  by (auto simp: untouched_def)

lemma keeps_reject_untouched [keeps_intros]: "keeps True (untouched con) (reject e)"
  unfolding reject_def push_item_def by (intro keeps_intros) (auto simp: untouched_def)

lemma res_try_untouched:
  assumes "res_try f con = (r, con')" "\<And>r r'. f r = Ok r' \<Longrightarrow> full_send_queue r' = full_send_queue r \<and> send_queue r' = send_queue r"
  shows "untouched con con' \<and> params con' = params con"
proof (cases "f (resender con)")
  case (Ok res)
  then have "con' = con\<lparr>resender := res\<rparr>" using assms(1) by (simp add: res_try_def)
  then show ?thesis using assms(2) [OF Ok] unacked_cong [of res "resender con"] by (simp add: untouched_def)
qed (use assms(1) in \<open>simp_all add: res_try_def\<close>)

lemma loss_incoming_untouched:
  "res_try (handle_loss_incoming p w n) con = (r, con') \<Longrightarrow> untouched con con' \<and> params con' = params con"
  by (rule res_try_untouched) (use handle_loss_incoming_queues in blast)+

text \<open>Decryption does not depend on the history of the key cache.\<close>

lemma decrypt_cache:
  assumes "cache_inv pr iv cache" "wf_packet dir d" "d_type dir d \<noteq> Init" "g \<noteq> - 1"
  shows "\<exists>cache'. (decrypt pr (packet_view dir d) g iv cache :: (_, 'e) outcome) =
      Ok (map_err (\<lambda>e. case e of WrongMac p_type _ p_id \<Rightarrow> WrongMac p_type g p_id | _ \<Rightarrow> e)
            (let (key, nonce) = key_nonce_spec pr (d_type dir d) (hv_cid (d_header dir d) \<noteq> None) (d_id dir d) g iv
             in decrypt_key_nonce pr (packet_view dir d) key nonce), cache') \<and>
    cache_inv pr iv cache'"
proof -
  obtain key nonce where kn: "key_nonce_spec pr (d_type dir d) (hv_cid (d_header dir d) \<noteq> None) (d_id dir d) g iv = (key, nonce)"
    by fastforce
  obtain cache' where "create_key_nonce pr (d_type dir d) (hv_cid (d_header dir d)) (d_id dir d) g iv cache
      = (Ok ((key, nonce), cache') :: (_, 'e) outcome)" "cache_inv pr iv cache'"
    using create_key_nonce_spec [OF assms(1,3,4), of "hv_cid (d_header dir d)" "d_id dir d"] kn by (metis outcome.inject(1))
  then show ?thesis using assms(2) kn by (simp add: decrypt_def)
qed

lemma open_datagram_None:
  assumes "cache_inv pr iv cache" "wf_packet dir d" "d_type dir d \<noteq> Init" "g \<noteq> - 1" "open_datagram pr iv dir g d = None"
    "decrypt pr (packet_view dir d) g iv cache = (Ok (r, cache') :: (_, 'e) outcome)"
  shows "\<not> (\<exists>x. r = Ok x)"
proof -
  have "in_packet_try_new dir d = Ok (packet_view dir d)"
    using assms(2) by (simp add: in_packet_try_new_Ok_iff wf_packet_def packet_view_def d_header_def d_content_def)
  moreover
  let ?r = "map_err (\<lambda>e. case e of WrongMac p_type _ p_id \<Rightarrow> WrongMac p_type g p_id | _ \<Rightarrow> e)
    (let (key, nonce) = key_nonce_spec pr (d_type dir d) (hv_cid (d_header dir d) \<noteq> None) (d_id dir d) g iv
     in decrypt_key_nonce pr (packet_view dir d) key nonce)"
  obtain cache2 where "decrypt pr (packet_view dir d) g iv cache = (Ok (?r, cache2) :: (_, 'e) outcome)"
    using decrypt_cache [OF assms(1-4), where 'e = 'e] by blast
  then have "r = ?r" using assms(6) by simp
  moreover obtain cache1 where "decrypt pr (packet_view dir d) g iv key_cache_default = (Ok (?r, cache1) :: (_, unit) outcome)"
    using decrypt_cache [OF cache_inv_default assms(2-4), of pr iv, where 'e = unit] by blast
  ultimately show ?thesis using assms(5) by (cases r) (auto simp: open_datagram_def)
qed

lemma res_try_not_Err: "(\<And>r e. f r \<noteq> Err e) \<Longrightarrow> res_try f con \<noteq> (Err e, con')"
  by (cases "f (resender con)") (auto simp: res_try_def)

lemma loss_case_not_Err:
  "(case x of
      None \<Rightarrow> Ok counter
    | Some (count, lost) \<Rightarrow>
        if w then and_then (checked_plus d 1) (\<lambda>d'. and_then (count_loss count d' counter) (count_loss lost d))
        else and_then (index (sc_packet_loss counter) (packet_loss_index lost)) (\<lambda>x.
          Ok (counter\<lparr>sc_packet_loss := (sc_packet_loss counter)[packet_loss_index lost := saturating_sub x 1]\<rparr>)))
    \<noteq> Err e"
  by (simp add: and_then_Err_iff bump_not_Err checked_plus_not_Err count_loss_def index_def split: option.split prod.split)

lemma handle_loss_incoming_not_Err:
  assumes "wf_packet dir d"
  shows "handle_loss_incoming (packet_view dir d) w n r \<noteq> Err e"
  using assms by (simp add: handle_loss_incoming_def Let_def and_then_Err_iff bump_not_Err checked_plus_not_Err
      loss_case_not_Err count_bytes_def count_total_def datagram_len_def)

lemma check_established_not_Err:
  assumes "wf_packet dir d"
  shows "check_established (packet_view dir d) t i g con \<noteq> (Err e, con')"
  using assms
  by (cases "hv_cid (d_header dir d)") (auto simp: check_established_def reject_def push_item_def act_then.simps
      act_lift_def act_read_def act_return_def act_modify_def Let_def split: option.splits if_splits)

lemma check_established_untouched:
  "check_established p t i g con = (r, con') \<Longrightarrow> untouched con con' \<and> params con' = params con"
  by (auto simp: check_established_def reject_def push_item_def act_then.simps act_lift_def act_read_def act_return_def
      act_modify_def untouched_def split: option.splits if_splits outcome.splits prod.splits)

text \<open>A command that is not sealed with the key of the connection is not opened.\<close>

lemma open_content_rejects:
  assumes wf: "wf_packet (in_dir con) d" "d_type (in_dir con) d = t" "t = Command \<or> t = CommandLow"
    and con: "params con = Some ps" "cp_shared_iv ps = iv" "cache_inv pr iv (cp_key_cache ps)"
    and bad: "flags_contains (d_flags (in_dir con) d) UNENCRYPTED \<or> g \<noteq> - 1 \<and> open_datagram pr iv (in_dir con) g d = None"
    and run: "open_content pr d (packet_view (in_dir con) d) t i g con = (r, con')"
  shows "untouched con con' \<and> (r = Ok Stop \<or> r = Panic)"
proof (cases "flags_contains (d_flags (in_dir con) d) UNENCRYPTED")
  case True
  then show ?thesis
    using run wf by (auto simp: open_content_def reject_def push_item_def untouched_def)
next
  case False
  have tI: "t \<noteq> Ack_T" "d_type (in_dir con) d \<noteq> Init" using wf(2,3) by auto
  have g: "g \<noteq> - 1" "open_datagram pr iv (in_dir con) g d = None" using bad False by auto
  obtain y cache where dec: "decrypt pr (packet_view (in_dir con) d) g iv (cp_key_cache ps)
      = (Ok (y, cache) :: (_, tsproto_error) outcome)"
    using decrypt_cache [OF con(3) wf(1) tI(2) g(1)] by blast
  have ny: "\<not> (\<exists>x. y = Ok x)" by (rule open_datagram_None [OF con(3) wf(1) tI(2) g dec])
  have "untouched con (stream_items_update (\<lambda>xs. xs @ [ErrorItem e]) (con\<lparr>params := Some (ps\<lparr>cp_key_cache := cache\<rparr>)\<rparr>))"
    "untouched con (con\<lparr>params := Some (ps\<lparr>cp_key_cache := cache\<rparr>)\<rparr>)" for e
    by (simp_all add: untouched_def)
  then show ?thesis
    using run False wf(1) tI(1) con(1,2) dec ny
    by (cases y) (auto simp: open_content_def step_then_def unseal_def decrypt_with_params_def or_reject_def reject_def
        push_item_def act_then.simps act_return_def act_lift_def act_modify_def act_read_def)
qed

text \<open>
  C1 (commands that are not authentic have no effect): let a datagram with the type of a command arrive
  at a connection with a key, inside the receive window. When it carries the unencrypted flag, or does
  not open under the key of the connection and the generation of its id, the handler reports an error
  item at most: no command is handed on or queued, no expected id moves, nothing waiting is
  acknowledged, and no ack is sent for it.
\<close>

theorem forged_commands_ignored:
  assumes "params con = Some ps" "cache_inv (prims env) (cp_shared_iv ps) (cp_key_cache ps)"
    and "wf_packet (in_dir con) d" "d_type (in_dir con) d = Command \<or> d_type (in_dir con) d = CommandLow"
    and "in_receive_window con (d_type (in_dir con) d) (d_id (in_dir con) d) = (Ok (True, g, n, l) :: (_, tsproto_error) outcome)"
    and "flags_contains (d_flags (in_dir con) d) UNENCRYPTED \<or>
      g \<noteq> - 1 \<and> open_datagram (prims env) (cp_shared_iv ps) (in_dir con) g d = None"
    and "handle_udp_packet env d addr con = (r, con')"
  shows "untouched con con' \<and> (r = Ok () \<or> r = Panic)"
proof (cases "addr = con_address con")
  case False
  then show ?thesis
    using assms(7) by (auto simp: handle_udp_packet_def push_item_def untouched_def)
next
  case True
  let ?dir = "in_dir con" and ?t = "d_type (in_dir con) d" and ?i = "d_id (in_dir con) d"
  let ?con = "resender_update (received_packet env)
    (event_log_update (\<lambda>es. es @ [ReceiveUdpPacket (packet_view ?dir d)]) con)"
  have dir: "in_dir ?con = ?dir" "params ?con = Some ps" using assms(1) by (simp_all add: in_dir_def)
  have u0: "untouched con ?con"
    using unacked_cong [of "received_packet env (resender con)" "resender con"] by (simp add: untouched_def received_packet_def)
  have win: "in_receive_window ?con ?t ?i = (Ok (True, g, n, l) :: (_, tsproto_error) outcome)"
    using assms(5) in_receive_window_codec [of ?con con ?t ?i, where 'e = tsproto_error] by simp
  note run = assms(7) [unfolded handle_udp_packet_wf [OF assms(3) True]
      codec_handle_wf [of ?con, unfolded dir, OF assms(3) refl refl win]]
  from run show ?thesis
  proof (rule act_then_cases)
    fix x con1
    assume 1: "res_try (handle_loss_incoming (packet_view ?dir d) True n) ?con = (Ok x, con1)"
    note u1 = loss_incoming_untouched [OF 1]
    have dir1: "in_dir con1 = ?dir" "params con1 = Some ps" using u1 dir by (simp_all add: untouched_def in_dir_def)
    assume 2: "act_then (handle_checked env d (packet_view ?dir d) ?t ?i True g n l) (\<lambda>r. case r of
        Go True \<Rightarrow> act_then (act_lift (out_ack (reverse ?dir) ?t ?i)) (send_ack_packet env)
      | _ \<Rightarrow> act_return ()) con1 = (r, con')"
    obtain r2 con2 where 3: "handle_checked env d (packet_view ?dir d) ?t ?i True g n l con1 = (r2, con2)" by fastforce
    have 4: "untouched con1 con2 \<and> (r2 = Ok Stop \<or> r2 = Panic)"
      using 3 unfolding handle_checked_def step_then_def
    proof (rule act_then_cases)
      fix y con3 assume c: "check_established (packet_view ?dir d) ?t ?i g con1 = (Ok y, con3)"
      note u3 = check_established_untouched [OF c]
      have dir3: "in_dir con3 = ?dir" "params con3 = Some ps" using u3 dir1 by (simp_all add: untouched_def in_dir_def)
      assume "(case y of Stop \<Rightarrow> act_return Stop
        | Go x \<Rightarrow> if ignores_window ?t \<or> True then
            act_then (open_content (prims env) d (packet_view ?dir d) ?t ?i g)
              (\<lambda>r. case r of Stop \<Rightarrow> act_return Stop | Go d \<Rightarrow> dispatch env d ?t ?i g)
          else out_of_window ?t ?i n l) con3 = (r2, con2)"
      then consider "y = Stop" "r2 = Ok Stop" "con2 = con3" | "act_then (open_content (prims env) d (packet_view ?dir d) ?t ?i g)
              (\<lambda>r. case r of Stop \<Rightarrow> act_return Stop | Go d \<Rightarrow> dispatch env d ?t ?i g) con3 = (r2, con2)"
        by (cases y) auto
      then show ?thesis
      proof cases
        case 1
        then show ?thesis using u3 by simp
      next
        case 2
        obtain r4 con4 where o: "open_content (prims env) d (packet_view ?dir d) ?t ?i g con3 = (r4, con4)" by fastforce
        have "untouched con3 con4 \<and> (r4 = Ok Stop \<or> r4 = Panic)"
          using open_content_rejects [of con3 d ?t ps "cp_shared_iv ps" "prims env" g ?i r4 con4, unfolded dir3]
            assms(2-4,6) o by blast
        then show ?thesis using 2 o u3 untouched_trans by (auto simp: act_then.simps)
      qed
    qed (use check_established_untouched in \<open>auto simp: check_established_not_Err [OF assms(3)]\<close>)
    then have "con' = con2 \<and> (r = Ok () \<or> r = Panic)" using 2 3 by (auto simp: act_then.simps)
    then show ?thesis using u0 u1 4 untouched_trans by blast
  next
    fix e assume "res_try (handle_loss_incoming (packet_view ?dir d) True n) ?con = (Err e, con')"
    then show ?thesis by (simp add: res_try_not_Err [OF handle_loss_incoming_not_Err [OF assms(3)]])
  next
    assume "res_try (handle_loss_incoming (packet_view ?dir d) True n) ?con = (Panic, con')" "r = Panic"
    then show ?thesis using loss_incoming_untouched u0 untouched_trans by blast
  qed
qed

lemma example_unencrypted_window:
  "in_receive_window example_client Command 0 = (Ok (True, 0, 0, 0x7FFF) :: (_, tsproto_error) outcome)"
  by (simp add: in_receive_window_def example_client_def connection_new_def packet_codec_default_def Let_def
      packet_type_index_def index_def overflowing_add_def ppid_default_def)

theorem forged_commands_ignored_witness:
  "let d = hdr S2C (replicate 8 0) 0 0 UNENCRYPTED Command @ [65];
     (r, con') = handle_udp_packet example_env d ''server'' example_client
   in untouched example_client con' \<and> (r = Ok () \<or> r = Panic)"
proof -
  let ?d = "hdr S2C (replicate 8 0) 0 0 UNENCRYPTED Command @ [65]"
  have dir: "in_dir example_client = S2C" by (simp add: in_dir_def example_client_def connection_new_def)
  have wf: "wf_packet S2C ?d" "d_type S2C ?d = Command" "d_id S2C ?d = 0" "d_flags S2C ?d = UNENCRYPTED"
    using wf_packet_hdr [of "replicate 8 0" UNENCRYPTED S2C 0 0 Command "[65]"]
    by (simp_all add: valid_flags_def UNENCRYPTED_def)
  have params: "params example_client = Some (connected_params_new [] [1] (replicate 8 0))"
    by (simp add: example_client_def)
  obtain r con' where run: "handle_udp_packet example_env ?d ''server'' example_client = (r, con')" by fastforce
  show ?thesis
    using forged_commands_ignored [OF params _ _ _ _ _ run, unfolded dir wf, OF _ wf(1) _ example_unencrypted_window] run
    by (simp add: connected_params_new_def flags_contains_def)
qed

section \<open>Ids at a wrap\<close>

lemma next_out_log [simp]: "next_out t (event_log_update h con) = next_out t con"
  by (simp add: next_out_def)

lemma handshake_command_log [simp]: "handshake_command (event_log_update h con) t d = handshake_command con t d"
  by (simp add: handshake_command_def)

lemma con_cache_ok_log [simp]: "con_cache_ok pr iv (event_log_update h con) = con_cache_ok pr iv con"
  by (simp add: con_cache_ok_def)

lemma out_dir_log [simp]: "out_dir (event_log_update h con) = out_dir con"
  by (simp add: out_dir_def)

text \<open>A command that fits one datagram: what it is filed under.\<close>

definition plain_command :: "connection \<Rightarrow> bytes \<Rightarrow> u16 \<Rightarrow> flags \<Rightarrow> bytes \<Rightarrow> out_packet" where
  "plain_command con mac c f d = \<lparr>op_dir = out_dir con, op_data = hdr (out_dir con) mac 0 c f Command @ d\<rparr>"

definition filed_id :: "connection \<Rightarrow> packet_id_t" where
  "filed_id con = \<lparr>pid_type = Command, pid_part =
     PartialPacketId (generation_id (ppid_add (next_out Command con) 1)) (packet_id (next_out Command con))\<rparr>"

text \<open>An established connection whose next command is an ordinary one.\<close>

definition ready_to_send :: "primitives \<Rightarrow> bytes \<Rightarrow> connection \<Rightarrow> bytes \<Rightarrow> bool" where
  "ready_to_send pr iv con d \<longleftrightarrow>
     wf_codec (codec con) \<and> con_cache_ok pr iv con \<and> \<not> handshake_command con Command d \<and>
     resender_inv (resender con) \<and> length (pieces pr (max_content (is_client con)) Command d) = 1 \<and>
     generation_id (next_out Command con) \<noteq> - 1"

lemma encode_plain_command:
  assumes laws: "primitives_laws pr" "length mac = 8" "valid_flags f" and con: "ready_to_send pr iv con d"
    and run: "encode_packet pr (plain_command con mac c f d) con = (Ok us, con')"
  shows "\<exists>u. us = [u] \<and> packet_id_of u = (Ok (filed_id con) :: (_, tsproto_error) outcome) \<and>
    next_out Command con' = ppid_add (next_out Command con) 1 \<and> wf_codec (codec con') \<and> con_cache_ok pr iv con' \<and>
    is_client con' = is_client con \<and> resender con' = resender con"
proof -
  let ?dir = "out_dir con"
  note ready = con [unfolded ready_to_send_def]
  obtain ps where ps: "params con = Some ps" using ready by (auto simp: con_cache_ok_def)
  obtain x where x: "pieces pr (max_content (is_client con)) Command d = [x]"
    using ready by (auto simp: length_Suc_conv)
  define f' where "f' = (if is_client con then f OR NEWPROTOCOL else f)"
  define g where "g = hd (piece_flags f' (fst (packed pr (max_content (is_client con)) d)) 1)"
  define c' where "c' = (if is_client con then cp_c_id ps else c)"
  have fs: "piece_flags f' (fst (packed pr (max_content (is_client con)) d)) (length [x]) = [g]"
    by (simp add: g_def piece_flags_def)
  have vg: "valid_flags g" using laws(3) by (simp add: g_def f'_def piece_flags_def)
  have enc: "encode_packet pr (plain_command con mac c f d) con = act_map (encode_one pr Command False True)
      [\<lparr>op_dir = ?dir, op_data = hdr ?dir mac 0 c' g Command @ x\<rparr>] con"
    using encode_command_unfold [OF laws(2,3) _ ps _ refl _ c'_def f'_def x [symmetric] fs [symmetric], of 0] ready
    by (simp add: plain_command_def)
  obtain u where u: "encode_one pr Command False True \<lparr>op_dir = ?dir, op_data = hdr ?dir mac 0 c' g Command @ x\<rparr> con = (Ok u, con')"
    "us = [u]"
    using run unfolding enc act_map_Cons_Ok by (auto simp: act_return_def)
  have "seals pr iv ?dir Command c' g (next_out Command con) x (ou_data u) \<and>
    ou_generation_id u = generation_id (ppid_add (next_out Command con) 1) \<and>
    next_out Command con' = ppid_add (next_out Command con) 1 \<and> wf_codec (codec con') \<and> con_cache_ok pr iv con' \<and>
    is_client con' = is_client con"
    by (rule encode_one_seals [OF laws(1,2) vg _ _ _ _ u(1)]) (use ready in simp_all)
  note one = this
  obtain mac' e where data: "length mac' = 8"
    "ou_data u = \<lparr>op_dir = ?dir, op_data = hdr ?dir mac' (packet_id (next_out Command con)) c' g Command @ e\<rparr>"
    using one unfolding seals_def by blast
  have "u = \<lparr>ou_generation_id = generation_id (ppid_add (next_out Command con) 1),
      ou_data = \<lparr>op_dir = ?dir, op_data = hdr ?dir mac' (packet_id (next_out Command con)) c' g Command @ e\<rparr>\<rparr>"
    using one data(2) by (cases u) simp
  then have "packet_id_of u = (Ok (filed_id con) :: (_, tsproto_error) outcome)"
    unfolding filed_id_def using packet_id_of_hdr [OF data(1) vg, of Command] by (simp only: packet_type.distinct simp_thms not_False_eq_True True_implies_equals)
  moreover have "resender con' = resender con"
    using u(1) by (auto simp: encode_one_def encrypt_with_params_def act_then.simps Let_def act_lift_def act_read_def
        act_modify_def act_return_def split: prod.splits outcome.splits if_splits)
  ultimately show ?thesis using one u(2) by blast
qed

text \<open>Sending it queues one record under that id.\<close>

lemma send_plain_command:
  assumes enc: "encode_packet (prims env) p (event_log_update (\<lambda>es. es @ [SendPacket p]) con) = (Ok [u], con1)"
    and u: "packet_id_of u = (Ok i :: (_, tsproto_error) outcome)" "pid_type i = Command" "resender_inv (resender con1)"
  shows "\<exists>res r. send_packet env p con = (Ok i, con1\<lparr>resender := res\<rparr>) \<and> resender_inv res \<and>
    unacked res = (unacked (resender con1))(i \<mapsto> (now env, u)) \<and>
    full_send_queue res ! 1 = bt_insert (pid_part i) r (full_send_queue (resender con1) ! 1)"
proof -
  let ?r = "\<lparr>rec_sent = now env, rec_id = \<lparr>sr_last = now env, sr_tries = 0, sr_id = i\<rparr>, rec_packet = u\<rparr>"
  obtain mid where mid: "(resender_send env u (resender con1) :: (unit, tsproto_error) outcome \<times> resender) = (Ok (), fill_up_send_queue env mid)"
    "full_send_queue mid = (full_send_queue (resender con1))[1 := bt_insert (pid_part i) ?r (full_send_queue (resender con1) ! 1)]"
    using resender_send_steps [OF u(3,1), of 1 env] u(2) by auto
  note sent = resender_send_unacked [OF u(3,1) mid(1)]
  have "length (full_send_queue (resender con1)) = 3" using u(3) by (simp add: resender_inv_def)
  then have "full_send_queue (fill_up_send_queue env mid) ! 1 = bt_insert (pid_part i) ?r (full_send_queue (resender con1) ! 1)"
    by (simp add: mid(2))
  moreover have "udp_packet_type u = (Ok Command :: (_, tsproto_error) outcome)"
    using u(1,2) by (auto simp: packet_id_of_def and_then_Ok_iff)
  then have "send_packet env p con = (Ok i, con1\<lparr>resender := fill_up_send_queue env mid\<rparr>)"
    using enc u(1) mid(1)
    by (simp add: send_packet_def send_event_def send_udp_packet_def on_resender_def act_then.simps act_modify_def
        act_lift_def act_return_def)
  ultimately show ?thesis using sent by blast
qed

lemma plain_command_filed:
  assumes laws: "primitives_laws (prims env)" "length mac = 8" "valid_flags f" and con: "ready_to_send (prims env) iv con d"
    and run: "send_packet env (plain_command con mac c f d) con = (Ok i, con')"
  shows "i = filed_id con" "next_out Command con' = ppid_add (next_out Command con) 1"
    "wf_codec (codec con') \<and> con_cache_ok (prims env) iv con' \<and> is_client con' = is_client con \<and> resender_inv (resender con')"
    "\<exists>u. unacked (resender con') = (unacked (resender con))(i \<mapsto> (now env, u))"
    "\<exists>r. full_send_queue (resender con') ! 1 = bt_insert (pid_part i) r (full_send_queue (resender con) ! 1)"
proof -
  let ?p = "plain_command con mac c f d"
  define con0 where "con0 = event_log_update (\<lambda>es. es @ [SendPacket ?p]) con"
  have ready: "ready_to_send (prims env) iv con0 d" using con by (simp add: ready_to_send_def con0_def)
  have same: "plain_command con0 mac c f d = ?p" by (simp add: plain_command_def con0_def)
  have filed: "filed_id con0 = filed_id con" "next_out Command con0 = next_out Command con" "is_client con0 = is_client con"
    "resender con0 = resender con" "out_dir con0 = out_dir con" by (simp_all add: filed_id_def con0_def)
  obtain us con1 where us: "encode_packet (prims env) ?p con0 = (Ok us, con1)"
    using run unfolding send_packet_def send_event_def
    by (cases "encode_packet (prims env) ?p con0")
      (auto simp: con0_def act_then.simps act_modify_def split: prod.splits outcome.splits)
  from encode_plain_command [OF laws ready us [folded same]] filed obtain u where
    u: "us = [u]" "packet_id_of u = (Ok (filed_id con) :: (_, tsproto_error) outcome)"
    and one: "next_out Command con1 = ppid_add (next_out Command con) 1" "wf_codec (codec con1)" "con_cache_ok (prims env) iv con1"
      "is_client con1 = is_client con" "resender con1 = resender con"
    by auto
  have "pid_type (filed_id con) = Command" by (simp add: filed_id_def)
  with send_plain_command [OF us [unfolded u(1) con0_def] u(2)] one(5) con obtain res r where
    fin: "send_packet env ?p con = (Ok (filed_id con), con1\<lparr>resender := res\<rparr>)" "resender_inv res"
      "unacked res = (unacked (resender con))(filed_id con \<mapsto> (now env, u))"
      "full_send_queue res ! 1 = bt_insert (pid_part (filed_id con)) r (full_send_queue (resender con) ! 1)"
    by (auto simp: ready_to_send_def)
  have eqs: "i = filed_id con" "con' = con1\<lparr>resender := res\<rparr>" using run fin(1) by auto
  show "i = filed_id con" by (rule eqs(1))
  show "next_out Command con' = ppid_add (next_out Command con) 1" using one(1) by (simp add: eqs next_out_def)
  show "wf_codec (codec con') \<and> con_cache_ok (prims env) iv con' \<and> is_client con' = is_client con \<and> resender_inv (resender con')"
    using one fin(2) by (simp add: eqs con_cache_ok_def)
  show "\<exists>u. unacked (resender con') = (unacked (resender con))(i \<mapsto> (now env, u))" using fin(3) by (auto simp: eqs)
  show "\<exists>r. full_send_queue (resender con') ! 1 = bt_insert (pid_part i) r (full_send_queue (resender con) ! 1)"
    using fin(4) by (auto simp: eqs)
qed

lemma plain_command_Ok:
  assumes laws: "primitives_laws (prims env)" "cipher_total (prims env)" "length mac = 8" "valid_flags f"
    and con: "ready_to_send (prims env) iv con d"
  shows "\<exists>i con'. send_packet env (plain_command con mac c f d) con = (Ok i, con')"
proof -
  let ?p = "plain_command con mac c f d"
  define con0 where "con0 = event_log_update (\<lambda>es. es @ [SendPacket ?p]) con"
  have ready: "ready_to_send (prims env) iv con0 d" using con by (simp add: ready_to_send_def con0_def)
  have same: "plain_command con0 mac c f d = ?p" by (simp add: plain_command_def con0_def)
  have filed: "filed_id con0 = filed_id con" "next_out Command con0 = next_out Command con" "is_client con0 = is_client con"
    "resender con0 = resender con" "out_dir con0 = out_dir con" by (simp_all add: filed_id_def con0_def)
  obtain us con1 where us: "encode_packet (prims env) ?p con0 = (Ok us, con1)"
    using encode_command_Ok [OF laws(1-4), of Command con0 iv "out_dir con0" d 0 c] ready
    unfolding plain_command_def ready_to_send_def filed(5) by auto
  from encode_plain_command [OF laws(1,3,4) ready us [folded same]] filed obtain u where
    u: "us = [u]" "packet_id_of u = (Ok (filed_id con) :: (_, tsproto_error) outcome)" "resender con1 = resender con"
    by auto
  have "pid_type (filed_id con) = Command" by (simp add: filed_id_def)
  with send_plain_command [OF us [unfolded u(1) con0_def] u(2)] u(3) con show ?thesis
    by (auto simp: ready_to_send_def)
qed


lemma plain_command_ready:
  assumes laws: "primitives_laws (prims env)" "length mac = 8" "valid_flags f" and con: "ready_to_send (prims env) iv con d"
    and run: "send_packet env (plain_command con mac c f d) con = (Ok i, con')"
    and "length (pieces (prims env) (max_content (is_client con)) Command d') = 1"
      "generation_id (ppid_add (next_out Command con) 1) \<noteq> - 1"
      "generation_id (ppid_add (next_out Command con) 1) = 0 \<Longrightarrow> 1 < packet_id (ppid_add (next_out Command con) 1)"
  shows "ready_to_send (prims env) iv con' d'" "plain_command con' = plain_command con"
  using plain_command_filed [OF laws con run] assms(6-8)
  by (auto simp: ready_to_send_def handshake_command_def plain_command_def out_dir_def fun_eq_iff)

text \<open>
  C40 (ids at a wrap are filed wrong): let an established connection, with ciphers that open what they seal,
  send three commands that fit one datagram each, the first with the id 65534 of generation \<open>g\<close>, while no
  other command waits for its ack; neither \<open>g\<close> nor the generation after it is the last one of 32 bits.
  The second one has the id 65535 of generation \<open>g\<close>, but is filed under generation \<open>g + 1\<close>, because
  \<open>encode_packet\<close> reads the generation after it counted the id up. So an ack for the first command reports
  the second one as acknowledged, too, while it still waits; and an ack for the second one that arrives while
  the first one waits is lost.
\<close>

theorem ack_at_wrap_reports_too_much:
  assumes "primitives_laws (prims env)" "length mac = 8" "valid_flags f"
    and "ready_to_send (prims env) iv con d1"
    and "length (pieces (prims env) (max_content (is_client con)) Command d2) = 1"
      "length (pieces (prims env) (max_content (is_client con)) Command d3) = 1"
    and "next_out Command con = PartialPacketId g 0xFFFE" "g + 1 \<noteq> - 1" "full_send_queue (resender con) ! 1 = []"
    and "send_packet env (plain_command con mac c f d1) con = (Ok i1, con1)"
      "send_packet env (plain_command con mac c f d2) con1 = (Ok i2, con2)"
      "send_packet env (plain_command con mac c f d3) con2 = (Ok i3, con3)"
  shows "next_out Command con1 = PartialPacketId g 0xFFFF \<and>
    i2 = \<lparr>pid_type = Command, pid_part = PartialPacketId (g + 1) 0xFFFF\<rparr> \<and>
    (\<exists>con4. resender_ack env Command 0xFFFE con3 = (Ok (), con4) \<and>
       stream_items con4 = stream_items con3 @ [AckPacketItem \<lparr>pid_type = Command, pid_part = PartialPacketId g 0xFFFF\<rparr>] \<and>
       unacked (resender con4) i2 \<noteq> None) \<and>
    (\<exists>con4. resender_ack env Command 0xFFFF con3 = (Ok (), con4) \<and> unacked (resender con4) i2 \<noteq> None)"
proof -
  have g: "g \<noteq> - 1" "g + 1 \<noteq> 0" using assms(4,7) by (auto simp: ready_to_send_def eq_neg_iff_add_eq_0)
  note s1 = plain_command_filed [OF assms(1-4,10)]
  have n1: "next_out Command con1 = PartialPacketId g 0xFFFF"
    using s1(2) assms(7) by (simp add: ppid_add_def overflowing_add_def)
  note r1 = plain_command_ready [OF assms(1-4,10,5)]
  have con1: "ready_to_send (prims env) iv con1 d2" "plain_command con1 = plain_command con"
    by (rule r1; use assms(7) g in \<open>simp add: ppid_add_def overflowing_add_def\<close>)+
  have client1: "is_client con1 = is_client con" using s1(3) by simp
  note s2 = plain_command_filed [OF assms(1-3) con1(1) assms(11) [folded con1(2)]]
  have n2: "next_out Command con2 = PartialPacketId (g + 1) 0"
    using s2(2) n1 by (simp add: ppid_add_def overflowing_add_def)
  note r2 = plain_command_ready [OF assms(1-3) con1(1) assms(11) [folded con1(2)] assms(6) [folded client1]]
  have con2: "ready_to_send (prims env) iv con2 d3" "plain_command con2 = plain_command con1"
    by (rule r2; use n1 assms(8) g in \<open>simp add: ppid_add_def overflowing_add_def\<close>)+
  note s3 = plain_command_filed [OF assms(1-3) con2(1) assms(12) [folded con1(2), folded con2(2)]]
  have i: "i1 = \<lparr>pid_type = Command, pid_part = PartialPacketId g 0xFFFE\<rparr>"
    "i2 = \<lparr>pid_type = Command, pid_part = PartialPacketId (g + 1) 0xFFFF\<rparr>"
    "i3 = \<lparr>pid_type = Command, pid_part = PartialPacketId (g + 1) 0\<rparr>"
    using s1(1) s2(1) s3(1) assms(7) n1 n2 by (simp_all add: filed_id_def ppid_add_def overflowing_add_def)
  obtain r1 where q1: "full_send_queue (resender con1) ! 1 = [(PartialPacketId g 0xFFFE, r1)]"
    using s1(5) assms(9) i(1) by auto
  have lt: "PartialPacketId g 0xFFFE < PartialPacketId (g + 1) j" for j
    using unatSuc [of g] g by (simp add: ppid_order_defs word_less_nat_alt add.commute)
  have later: "\<not> PartialPacketId (g + 1) j < PartialPacketId g 0xFFFE" "PartialPacketId (g + 1) j \<noteq> PartialPacketId g 0xFFFE" for j
    using lt [of j] by auto
  obtain r2 where q2: "full_send_queue (resender con2) ! 1 = [(PartialPacketId g 0xFFFE, r1), (PartialPacketId (g + 1) 0xFFFF, r2)]"
    using s2(5) q1 i(2) later by auto
  obtain r3 where q3: "full_send_queue (resender con3) ! 1 = [(PartialPacketId g 0xFFFE, r1), (PartialPacketId (g + 1) 0, r3), (PartialPacketId (g + 1) 0xFFFF, r2)]"
    using s3(5) q2 i(3) later by (auto simp: ppid_less_def less_partial_packet_id_def)
  obtain u2 where "unacked (resender con2) i2 = Some (now env, u2)" using s2(4) by auto
  moreover obtain u3 where "unacked (resender con3) = (unacked (resender con2))(i3 \<mapsto> (now env, u3))" using s3(4) by blast
  ultimately have un: "unacked (resender con3) \<lparr>pid_type = Command, pid_part = PartialPacketId (g + 1) 0xFFFF\<rparr> = Some (now env, u2)"
    using i(2,3) by simp
  have "resender_inv (resender con3)" using s3(3) by blast
  from ack_at_wrap [OF this q3 un, of env] show ?thesis unfolding i(2) using n1 by (metis option.distinct(1))
qed


text \<open>A client whose next command has the id 65534.\<close>

definition wrap_client :: connection where
  "wrap_client = example_client\<lparr>codec := (codec example_client)\<lparr>outgoing_p_ids :=
     (outgoing_p_ids (codec example_client))[packet_type_index Command := PartialPacketId 0 0xFFFE]\<rparr>\<rparr>"

lemma one_piece: "length (pieces toy_primitives (max_content client) Command [65]) = 1"
  by (cases client) (simp_all add: pieces_def packed_def Let_def)

lemma wrap_client_ready: "ready_to_send toy_primitives [1] wrap_client [65]" "full_send_queue (resender wrap_client) ! 1 = []"
  "next_out Command wrap_client = PartialPacketId 0 0xFFFE"
proof -
  show nx: "next_out Command wrap_client = PartialPacketId 0 0xFFFE"
    using example_client_simps(1) by (simp add: next_out_def wrap_client_def wf_codec_def packet_type_index_def)
  show "full_send_queue (resender wrap_client) ! 1 = []"
    by (simp add: wrap_client_def example_client_def connection_new_def Let_def resender_default_def)
  have "wf_codec (codec wrap_client)" using example_client_simps(1) by (simp add: wrap_client_def wf_codec_def)
  moreover have "con_cache_ok toy_primitives [1] wrap_client"
    using example_client_simps(2) [of toy_primitives] by (simp add: wrap_client_def con_cache_ok_def)
  moreover have "resender_inv (resender wrap_client)"
    by (simp add: wrap_client_def example_client_def connection_new_def Let_def)
  ultimately show "ready_to_send toy_primitives [1] wrap_client [65]"
    using nx one_piece by (simp add: ready_to_send_def handshake_command_def)
qed

theorem ack_at_wrap_reports_too_much_witness:
  "let p = plain_command wrap_client (replicate 8 0) 0 0 [65]
   in \<exists>i1 con1 i2 con2 i3 con3 con4. send_packet example_env p wrap_client = (Ok i1, con1) \<and>
     send_packet example_env p con1 = (Ok i2, con2) \<and> send_packet example_env p con2 = (Ok i3, con3) \<and>
     resender_ack example_env Command 0xFFFE con3 = (Ok (), con4) \<and>
     stream_items con4 = stream_items con3 @ [AckPacketItem \<lparr>pid_type = Command, pid_part = PartialPacketId 0 0xFFFF\<rparr>] \<and>
     unacked (resender con4) i2 \<noteq> None"
proof -
  let ?p = "plain_command wrap_client (replicate 8 0) 0 0 [65]"
  have env: "prims example_env = toy_primitives" by (simp add: example_env_def)
  note laws = toy_primitives_laws [folded env] toy_cipher_total [folded env]
  have mac: "length (replicate 8 0 :: bytes) = 8" "valid_flags 0" by (simp_all add: valid_flags_def)
  note ready = wrap_client_ready [folded env] and piece = one_piece [folded env]
  obtain i1 con1 where s1: "send_packet example_env ?p wrap_client = (Ok i1, con1)"
    using plain_command_Ok [OF laws mac ready(1)] by blast
  note f1 = plain_command_filed [OF laws(1) mac ready(1) s1]
  note r1 = plain_command_ready [OF laws(1) mac ready(1) s1 piece]
  have con1: "ready_to_send (prims example_env) [1] con1 [65]" "plain_command con1 = plain_command wrap_client"
    by (rule r1; simp add: ready(3) ppid_add_def overflowing_add_def)+
  obtain i2 con2 where s2: "send_packet example_env ?p con1 = (Ok i2, con2)"
    using plain_command_Ok [OF laws mac con1(1)] con1(2) by metis
  note r2 = plain_command_ready [OF laws(1) mac con1(1) s2 [folded con1(2)] piece]
  have con2: "ready_to_send (prims example_env) [1] con2 [65]" "plain_command con2 = plain_command con1"
    by (rule r2; simp add: f1(2) ready(3) ppid_add_def overflowing_add_def)+
  obtain i3 con3 where s3: "send_packet example_env ?p con2 = (Ok i3, con3)"
    using plain_command_Ok [OF laws mac con2(1)] con1(2) con2(2) by metis
  have "(0 :: u32) + 1 \<noteq> - 1" by simp
  from ack_at_wrap_reports_too_much [OF laws(1) mac ready(1) piece piece ready(3) this ready(2) s1 s2 s3] s1 s2 s3
  show ?thesis unfolding Let_def by (metis add_0)
qed

end
