(* ===== verification/License.thy ===== *)
theory License
  imports Utf8
begin

text \<open>
  Licenses (\<open>tsproto/src/license.rs\<close>): the chain of blocks a server presents during the handshake, from
  which the client derives the public key of the server. Parsing with its checks of validity times,
  the properties of a block, the derivation of keys, and the builder.

  The crates for dates, SHA-512 and Curve25519, and the enum of license types, which is generated from
  a submodule, are the parameters \<open>license_env\<close>. A license type is its byte, a point in time is an
  element of an ordered type.
\<close>

section \<open>Data\<close>

record ('t, 'p, 's) license_env =
  from_unix_timestamp :: "int \<Rightarrow> 't option"
  unix_timestamp :: "'t \<Rightarrow> int"
  known_license_type :: "u8 \<Rightarrow> bool"
  decompress_point :: "bytes \<Rightarrow> 'p option"
  point_add :: "'p \<Rightarrow> 'p \<Rightarrow> 'p"
  point_mul :: "'p \<Rightarrow> 's \<Rightarrow> 'p"
  scalar_add :: "'s \<Rightarrow> 's \<Rightarrow> 's"
  scalar_mul :: "'s \<Rightarrow> 's \<Rightarrow> 's"
  from_bytes_mod_order :: "bytes \<Rightarrow> 's"
  sha512 :: "bytes \<Rightarrow> bytes"

definition TIMESTAMP_OFFSET :: int where "TIMESTAMP_OFFSET = 0x50e22700"
definition BLOCK_MIN_LEN :: nat where "BLOCK_MIN_LEN = 42"
definition BLOCK_TYPE_OFFSET :: nat where "BLOCK_TYPE_OFFSET = 33"
definition BLOCK_NOT_VALID_BEFORE_OFFSET :: nat where "BLOCK_NOT_VALID_BEFORE_OFFSET = 34"
definition BLOCK_NOT_VALID_AFTER_OFFSET :: nat where "BLOCK_NOT_VALID_AFTER_OFFSET = 38"

lemmas block_offsets = BLOCK_MIN_LEN_def BLOCK_TYPE_OFFSET_def BLOCK_NOT_VALID_BEFORE_OFFSET_def
  BLOCK_NOT_VALID_AFTER_OFFSET_def

datatype 't license_error =
    Bounds 't 't 't 't
  | Deserialize
  | DeserializeString
  | DeserializeDate
  | Expired 't 't
  | InvalidPublicKey
  | IntermediateInvalidData u32
  | InvalidRootKey
  | NonterminatedString
  | NoPrivateKey
  | TooManyBlocks nat
  | LicenseTooShort nat string
  | UnknownBlockType u8
  | UnknownLicenseType u8
  | UnsupportedVersion u8
  | WrongKeyKind u8
  | NoSuchProperty string
  | WrongPropertyType u8 u8 u8
  | WrongPropertyLength u8 u8 u8 u8

datatype license_block_type = Intermediate | Website | Server | Code | Ts5Server | Ephemeral

fun block_type_to_u8 :: "license_block_type \<Rightarrow> u8" where
  "block_type_to_u8 Intermediate = 0"
| "block_type_to_u8 Website = 1"
| "block_type_to_u8 Server = 2"
| "block_type_to_u8 Code = 3"
| "block_type_to_u8 Ts5Server = 8"
| "block_type_to_u8 Ephemeral = 32"

definition block_types :: "license_block_type list" where
  "block_types = [Intermediate, Website, Server, Code, Ts5Server, Ephemeral]"

definition block_type_from_u8 :: "u8 \<Rightarrow> license_block_type option" where
  "block_type_from_u8 b = find (\<lambda>t. block_type_to_u8 t = b) block_types"

datatype inner_license = InnerTs5Server "nat list" | Other

record 's license =
  l_len :: nat
  l_private_key :: "'s option"
  l_inner :: inner_license

record 's licenses =
  ls_data :: bytes
  ls_blocks :: "'s license list"

datatype license_property = Unknown1 u32 | Issuer bytes | MaxClients u32 | Unknown u8 u8 bytes

definition licenses_default :: "'s licenses" where
  "licenses_default = \<lparr>ls_data = [1], ls_blocks = []\<rparr>"

section \<open>Parsing a block\<close>

text \<open>\<open>iter().position(|&b| b == 0)\<close>.\<close>

fun position_zero :: "bytes \<Rightarrow> nat option" where
  "position_zero [] = None"
| "position_zero (b # bs) = (if b = 0 then Some 0 else map_option Suc (position_zero bs))"

text \<open>
  The offsets of the properties of a TS5 block and the position after the last one: \<open>n\<close> properties are
  left, the position is \<open>pos\<close>. \<open>len\<close> is only reported.
\<close>

fun parse_properties :: "nat \<Rightarrow> bytes \<Rightarrow> nat \<Rightarrow> nat \<Rightarrow> (nat list \<times> nat, 't license_error) outcome" where
  "parse_properties len data 0 pos = Ok ([], pos)"
| "parse_properties len data (Suc n) pos =
     (if length data \<le> pos then Err (LicenseTooShort len ''missing TS5 license property'')
      else
        (let l = unat (data ! pos) in
         if length data \<le> pos + 1 + l then Err (LicenseTooShort l ''cut off TS5 license property'')
         else and_then (parse_properties len data n (pos + 1 + l)) (\<lambda>(ps, end_pos).
           Ok ((pos - 2) # ps, end_pos))))"

text \<open>The body after the 42 bytes that all blocks share: what it holds and how long it is.\<close>

definition parse_inner ::
  "nat \<Rightarrow> u8 \<Rightarrow> license_block_type \<Rightarrow> bytes \<Rightarrow> (inner_license \<times> nat, 't license_error) outcome" where
  "parse_inner len typ_i typ data =
     (case typ of
        Intermediate \<Rightarrow>
          if length data < 5 then Err (LicenseTooShort len ''less than minimum length of intermediate license'')
          else (case position_zero (drop 4 data) of
                  Some n \<Rightarrow> Ok (Other, 5 + n)
                | None \<Rightarrow> Err NonterminatedString)
      | Server \<Rightarrow>
          if length data < 6 then Err (LicenseTooShort len ''less than minimum length of TS3 server license'')
          else (case position_zero (drop 5 data) of
                  Some n \<Rightarrow> Ok (Other, 6 + n)
                | None \<Rightarrow> Err NonterminatedString)
      | Ts5Server \<Rightarrow>
          if length data < 2 then Err (LicenseTooShort len ''less than minimum length of TS5 server license'')
          else and_then (parse_properties len data (unat (data ! 1)) 2) (\<lambda>(ps, pos).
            Ok (InnerTs5Server ps, pos))
      | Ephemeral \<Rightarrow> Ok (Other, 0)
      | _ \<Rightarrow> Err (UnknownBlockType typ_i))"

definition license_parse :: "bytes \<Rightarrow> ('s license, 't license_error) outcome" where
  "license_parse data =
     (if length data < BLOCK_MIN_LEN
      then Err (LicenseTooShort (length data) ''less than minimum block length'')
      else if data ! 0 \<noteq> 0 then Err (WrongKeyKind (data ! 0))
      else
        (let typ_i = data ! BLOCK_TYPE_OFFSET in
         and_then (ok_or (UnknownBlockType typ_i) (block_type_from_u8 typ_i)) (\<lambda>typ.
         and_then (parse_inner (length data) typ_i typ (drop BLOCK_MIN_LEN data)) (\<lambda>(inner, extra_len).
         Ok \<lparr>l_len = BLOCK_MIN_LEN + extra_len, l_private_key = None, l_inner = inner\<rparr>))))"

section \<open>The fields of a block\<close>

text \<open>All of these take the data of the block; they are public and panic when it is too short.\<close>

definition get_type :: "bytes \<Rightarrow> (license_block_type, 't license_error) outcome" where
  "get_type data =
     and_then (index data BLOCK_TYPE_OFFSET) (\<lambda>typ_i.
     ok_or (UnknownBlockType typ_i) (block_type_from_u8 typ_i))"

definition get_public_key :: "('t, 'p, 's) license_env \<Rightarrow> bytes \<Rightarrow> ('p, 't license_error) outcome" where
  "get_public_key env data =
     and_then (slice data 1 33) (\<lambda>k. ok_or InvalidPublicKey (decompress_point env k))"

definition get_timestamp :: "('t, 'p, 's) license_env \<Rightarrow> bytes \<Rightarrow> nat \<Rightarrow> ('t, 't license_error) outcome" where
  "get_timestamp env data block_offset =
     and_then (slice_from data block_offset) (\<lambda>d.
     and_then (read_be32 Deserialize d) (\<lambda>num.
     ok_or DeserializeDate (from_unix_timestamp env (uint num + TIMESTAMP_OFFSET))))"

definition get_not_valid_before :: "('t, 'p, 's) license_env \<Rightarrow> bytes \<Rightarrow> ('t, 't license_error) outcome" where
  "get_not_valid_before env data = get_timestamp env data BLOCK_NOT_VALID_BEFORE_OFFSET"

definition get_not_valid_after :: "('t, 'p, 's) license_env \<Rightarrow> bytes \<Rightarrow> ('t, 't license_error) outcome" where
  "get_not_valid_after env data = get_timestamp env data BLOCK_NOT_VALID_AFTER_OFFSET"

definition get_license_type :: "('t, 'p, 's) license_env \<Rightarrow> bytes \<Rightarrow> (u8, 't license_error) outcome" where
  "get_license_type env data =
     and_then (get_type data) (\<lambda>typ.
     if typ \<noteq> Server \<and> typ \<noteq> Ts5Server then Err (NoSuchProperty ''license type'')
     else
       and_then (index data BLOCK_MIN_LEN) (\<lambda>b.
       if known_license_type env b then Ok b else Err (UnknownLicenseType b)))"

text \<open>The property at an offset. A length counts the id, the type and the content.\<close>

definition expected_length :: "u8 \<Rightarrow> u8 option" where
  "expected_length typ = (if typ = 1 \<or> typ = 3 then Some 4 else if typ = 2 \<or> typ = 4 then Some 8 else None)"

definition read_property :: "bytes \<Rightarrow> nat \<Rightarrow> (license_property, 't license_error) outcome" where
  "read_property data p =
     (let off = BLOCK_MIN_LEN + 2 + p in
      and_then (index data off) (\<lambda>len.
      and_then (index data (off + 1)) (\<lambda>i.
      and_then (index data (off + 2)) (\<lambda>typ.
      and_then
        (if typ = 0 then
           and_then (index data (off + unat len)) (\<lambda>z.
           if z \<noteq> 0 then Err NonterminatedString else Ok ())
         else
           (case expected_length typ of
              Some expected \<Rightarrow> if len \<noteq> expected then Err (WrongPropertyLength i typ expected len) else Ok ()
            | None \<Rightarrow> Ok ())) (\<lambda>_.
      if i = 1 then
        (if typ \<noteq> 1 then Err (WrongPropertyType i 1 typ)
         else and_then (slice data (off + 3) (off + 3 + 4)) (\<lambda>d. map_ok Unknown1 (read_be32 Deserialize d)))
      else if i = 2 then
        (if typ \<noteq> 0 then Err (WrongPropertyType i 0 typ)
         else and_then (slice data (off + 3) (off + unat len)) (\<lambda>d. map_ok Issuer (from_utf8 DeserializeString d)))
      else if i = 3 then
        (if typ \<noteq> 1 then Err (WrongPropertyType i 1 typ)
         else and_then (slice data (off + 3) (off + 3 + 4)) (\<lambda>d. map_ok MaxClients (read_be32 Deserialize d)))
      else
        and_then (slice data (off + 3) (off + unat len)) (\<lambda>d. Ok (Unknown i typ d)))))))"

text \<open>
  The iterator over the properties is lazy: it is the list of its results, each of which may be an
  error or a panic for the caller that gets as far.
\<close>

definition get_properties ::
  "'s license \<Rightarrow> bytes \<Rightarrow> ((license_property, 't license_error) outcome list, 't license_error) outcome" where
  "get_properties l data =
     (case l_inner l of
        InnerTs5Server properties \<Rightarrow> Ok (map (read_property data) properties)
      | Other \<Rightarrow> Err (NoSuchProperty ''properties''))"

text \<open>\<open>find_map\<close> over such an iterator.\<close>

fun find_property ::
  "(license_property \<Rightarrow> 'a option) \<Rightarrow> (license_property, 't license_error) outcome list
     \<Rightarrow> ('a option, 't license_error) outcome" where
  "find_property f [] = Ok None"
| "find_property f (Panic # ps) = Panic"
| "find_property f (Err e # ps) = find_property f ps"
| "find_property f (Ok p # ps) = (case f p of Some x \<Rightarrow> Ok (Some x) | None \<Rightarrow> find_property f ps)"

fun issuer_of :: "license_property \<Rightarrow> bytes option" where
  "issuer_of (Issuer i) = Some i"
| "issuer_of _ = None"

fun max_clients_of :: "license_property \<Rightarrow> u32 option" where
  "max_clients_of (MaxClients i) = Some i"
| "max_clients_of _ = None"

fun issuer_offset :: "license_block_type \<Rightarrow> nat option" where
  "issuer_offset Intermediate = Some 4"
| "issuer_offset Website = Some 0"
| "issuer_offset Code = Some 0"
| "issuer_offset Server = Some 5"
| "issuer_offset _ = None"

definition get_issuer :: "'s license \<Rightarrow> bytes \<Rightarrow> (bytes, 't license_error) outcome" where
  "get_issuer l data =
     and_then (get_type data) (\<lambda>typ.
     if typ = Ts5Server then
       and_then (get_properties l data) (\<lambda>ps.
       and_then (find_property issuer_of ps) (ok_or (NoSuchProperty ''issuer'')))
     else
       and_then (ok_or (NoSuchProperty ''issuer'') (issuer_offset typ)) (\<lambda>rel.
       let offset = BLOCK_MIN_LEN + rel in
       and_then (usize_sub (l_len l) offset) (\<lambda>n.
       and_then (usize_sub n 1) (\<lambda>len.
       and_then (slice data offset (offset + len)) (from_utf8 DeserializeString)))))"

fun max_clients_offset :: "license_block_type \<Rightarrow> nat option" where
  "max_clients_offset Intermediate = Some 0"
| "max_clients_offset Server = Some 1"
| "max_clients_offset _ = None"

definition get_max_clients :: "'s license \<Rightarrow> bytes \<Rightarrow> (u32, 't license_error) outcome" where
  "get_max_clients l data =
     and_then (get_type data) (\<lambda>typ.
     if typ = Ts5Server then
       and_then (get_properties l data) (\<lambda>ps.
       and_then (find_property max_clients_of ps) (ok_or (NoSuchProperty ''max clients'')))
     else
       and_then (ok_or (NoSuchProperty ''max clients'') (max_clients_offset typ)) (\<lambda>rel.
       let offset = BLOCK_MIN_LEN + rel in
       and_then (slice data offset (offset + 4)) (read_be32 Deserialize)))"

section \<open>Keys\<close>

text \<open>The digest has 64 bytes; three of its bits are fixed to make a private key.\<close>

definition get_hash_key :: "('t, 'p, 's) license_env \<Rightarrow> bytes \<Rightarrow> ('s, 't license_error) outcome" where
  "get_hash_key env data =
     and_then (slice_from data 1) (\<lambda>d.
     let h = sha512 env d;
         h = h[0 := h ! 0 AND 248];
         h = h[31 := h ! 31 AND 63];
         h = h[31 := h ! 31 OR 64]
     in Ok (from_bytes_mod_order env (take 32 h)))"

definition block_derive_public_key ::
  "('t, 'p, 's) license_env \<Rightarrow> bytes \<Rightarrow> 'p \<Rightarrow> ('p, 't license_error) outcome" where
  "block_derive_public_key env data parent_key =
     and_then (get_public_key env data) (\<lambda>pub_key.
     and_then (get_hash_key env data) (\<lambda>hash_key.
     Ok (point_add env (point_mul env pub_key hash_key) parent_key)))"

definition block_derive_private_key ::
  "('t, 'p, 's) license_env \<Rightarrow> 's license \<Rightarrow> bytes \<Rightarrow> 's \<Rightarrow> ('s, 't license_error) outcome" where
  "block_derive_private_key env l data parent_key =
     and_then (ok_or NoPrivateKey (l_private_key l)) (\<lambda>priv_key.
     and_then (get_hash_key env data) (\<lambda>hash_key.
     Ok (scalar_add env (scalar_mul env priv_key hash_key) parent_key)))"

section \<open>A chain of blocks\<close>

definition parse_block ::
  "('t::linorder, 'p, 's) license_env \<Rightarrow> bytes \<Rightarrow> bool \<Rightarrow> 't \<Rightarrow> ('t \<times> 't) option
     \<Rightarrow> ('s license \<times> 't \<times> 't, 't license_error) outcome" where
  "parse_block env data check_expired now bounds =
     and_then (license_parse data) (\<lambda>license.
     and_then (slice_to data (l_len license)) (\<lambda>license_data.
     and_then (get_not_valid_before env license_data) (\<lambda>start.
     and_then (get_not_valid_after env license_data) (\<lambda>end.
     if now < start \<and> check_expired then Err (Expired start end)
     else if end < now \<and> check_expired then Err (Expired start end)
     else
       (case bounds of
          Some (outer_start, outer_end) \<Rightarrow>
            if start < outer_start \<or> outer_end < end
            then Err (Bounds outer_start outer_end start end)
            else Ok (license, start, end)
        | None \<Rightarrow> Ok (license, start, end))))))"

text \<open>
  The loop of \<open>parse_internal\<close> and of \<open>build\<close>: it returns all blocks. At most eight blocks are read,
  so it ends.
\<close>

function parse_blocks ::
  "('t::linorder, 'p, 's) license_env \<Rightarrow> bytes \<Rightarrow> bool \<Rightarrow> 't \<Rightarrow> nat \<Rightarrow> ('t \<times> 't) option \<Rightarrow> 's license list
     \<Rightarrow> ('s license list, 't license_error) outcome" where
  "parse_blocks env data check_expired now offset bounds blocks =
     (if offset < length data then
        (if 8 \<le> length blocks then Err (TooManyBlocks (length blocks))
         else
           and_then (parse_block env (drop offset data) check_expired now bounds) (\<lambda>(license, b).
           parse_blocks env data check_expired now (offset + l_len license) (Some b) (blocks @ [license])))
      else Ok blocks)"
  by auto
termination
  by (relation "measure (\<lambda>(env, data, check_expired, now, offset, bounds, blocks). 8 - length blocks)") auto

declare parse_blocks.simps [simp del]

definition parse_internal ::
  "('t::linorder, 'p, 's) license_env \<Rightarrow> 't \<Rightarrow> bytes \<Rightarrow> bool \<Rightarrow> ('s licenses, 't license_error) outcome" where
  "parse_internal env now data check_expired =
     and_then (index data 0) (\<lambda>version.
     if version \<noteq> 0 \<and> version \<noteq> 1 then Err (UnsupportedVersion version)
     else
       and_then (parse_blocks env data check_expired now 1 None []) (\<lambda>blocks.
       Ok \<lparr>ls_data = data, ls_blocks = blocks\<rparr>))"

definition licenses_parse ::
  "('t::linorder, 'p, 's) license_env \<Rightarrow> 't \<Rightarrow> bytes \<Rightarrow> ('s licenses, 't license_error) outcome" where
  "licenses_parse env now data = parse_internal env now data True"

definition parse_ignore_expired ::
  "('t::linorder, 'p, 's) license_env \<Rightarrow> 't \<Rightarrow> bytes \<Rightarrow> ('s licenses, 't license_error) outcome" where
  "parse_ignore_expired env now data = parse_internal env now data False"

fun derive_public_loop ::
  "('t, 'p, 's) license_env \<Rightarrow> bytes \<Rightarrow> nat \<Rightarrow> 's license list \<Rightarrow> 'p \<Rightarrow> ('p, 't license_error) outcome" where
  "derive_public_loop env data offset [] last_round = Ok last_round"
| "derive_public_loop env data offset (l # ls) last_round =
     and_then (slice data offset (offset + l_len l)) (\<lambda>d.
     and_then (block_derive_public_key env d last_round) (\<lambda>last_round.
     derive_public_loop env data (offset + l_len l) ls last_round))"

definition derive_public_key ::
  "('t, 'p, 's) license_env \<Rightarrow> 's licenses \<Rightarrow> bytes \<Rightarrow> ('p, 't license_error) outcome" where
  "derive_public_key env ls root =
     and_then (ok_or InvalidRootKey (decompress_point env root)) (\<lambda>last_round.
     derive_public_loop env (ls_data ls) 1 (ls_blocks ls) last_round)"

text \<open>\<open>skip\<close> counts the blocks before the first one of the computation.\<close>

fun derive_private_loop ::
  "('t, 'p, 's) license_env \<Rightarrow> bytes \<Rightarrow> nat \<Rightarrow> nat \<Rightarrow> 's license list \<Rightarrow> 's \<Rightarrow> ('s, 't license_error) outcome" where
  "derive_private_loop env data skip offset [] res = Ok res"
| "derive_private_loop env data skip offset (l # ls) res =
     and_then
       (if skip = 0 then
          and_then (slice data offset (offset + l_len l)) (\<lambda>d. block_derive_private_key env l d res)
        else Ok res) (\<lambda>res.
     derive_private_loop env data (skip - 1) (offset + l_len l) ls res)"

definition derive_private_key ::
  "('t, 'p, 's) license_env \<Rightarrow> 's licenses \<Rightarrow> nat \<Rightarrow> 's \<Rightarrow> ('s, 't license_error) outcome" where
  "derive_private_key env ls starting_block first_key =
     derive_private_loop env (ls_data ls) starting_block 1 (ls_blocks ls) first_key"

section \<open>Sanity checks\<close>

text \<open>A property that the block does not have is no error.\<close>

fun ignore_missing :: "('a, 't license_error) outcome \<Rightarrow> (unit, 't license_error) outcome" where
  "ignore_missing (Ok x) = Ok ()"
| "ignore_missing (Err (NoSuchProperty s)) = Ok ()"
| "ignore_missing (Err e) = Err e"
| "ignore_missing Panic = Panic"

definition block_is_valid ::
  "('t, 'p, 's) license_env \<Rightarrow> 's license \<Rightarrow> bytes \<Rightarrow> (unit, 't license_error) outcome" where
  "block_is_valid env l data =
     and_then (get_public_key env data) (\<lambda>_.
     and_then (get_not_valid_before env data) (\<lambda>_.
     and_then (get_not_valid_after env data) (\<lambda>_.
     and_then (ignore_missing (get_license_type env data)) (\<lambda>_.
     and_then (ignore_missing (get_issuer l data)) (\<lambda>_.
     case get_properties l data of
       Ok ps \<Rightarrow> and_then (try_map id ps) (\<lambda>_. Ok ())
     | r \<Rightarrow> ignore_missing r)))))"

fun is_valid_loop ::
  "('t, 'p, 's) license_env \<Rightarrow> bytes \<Rightarrow> nat \<Rightarrow> 's license list \<Rightarrow> (unit, 't license_error) outcome" where
  "is_valid_loop env data offset [] = Ok ()"
| "is_valid_loop env data offset (b # bs) =
     and_then (slice data offset (offset + l_len b)) (\<lambda>d.
     and_then (block_is_valid env b d) (\<lambda>_.
     is_valid_loop env data (offset + l_len b) bs))"

definition licenses_is_valid :: "('t, 'p, 's) license_env \<Rightarrow> 's licenses \<Rightarrow> (unit, 't license_error) outcome" where
  "licenses_is_valid env ls = is_valid_loop env (ls_data ls) 1 (ls_blocks ls)"

section \<open>Building licenses\<close>

text \<open>The builders hold a reference to the data; here they are functions on it.\<close>

record block_builder =
  bb_offset :: nat
  bb_typ :: license_block_type

fun min_len :: "license_block_type \<Rightarrow> nat" where
  "min_len Intermediate = BLOCK_MIN_LEN + 5"
| "min_len Website = BLOCK_MIN_LEN + 1"
| "min_len Code = BLOCK_MIN_LEN + 1"
| "min_len Server = BLOCK_MIN_LEN + 6"
| "min_len Ts5Server = BLOCK_MIN_LEN + 2"
| "min_len Ephemeral = BLOCK_MIN_LEN"

definition add_block :: "license_block_type \<Rightarrow> bytes \<Rightarrow> (bytes \<times> block_builder, 'e) outcome" where
  "add_block typ data =
     (let len = length data in
      and_then (set_index (data @ replicate (min_len typ) 0) (len + BLOCK_TYPE_OFFSET) (block_type_to_u8 typ)) (\<lambda>data.
      Ok (data, \<lparr>bb_offset = len, bb_typ = typ\<rparr>)))"

definition write_public_key :: "block_builder \<Rightarrow> bytes \<Rightarrow> bytes \<Rightarrow> (bytes, 'e) outcome" where
  "write_public_key b key data = copy_at data (bb_offset b + 1) key"

definition write_timestamp ::
  "('t, 'p, 's) license_env \<Rightarrow> block_builder \<Rightarrow> nat \<Rightarrow> 't \<Rightarrow> bytes \<Rightarrow> (bytes, 'e) outcome" where
  "write_timestamp env b offset time data =
     copy_at data (bb_offset b + offset) (be32 (word_of_int (unix_timestamp env time - TIMESTAMP_OFFSET)))"

definition write_not_valid_before ::
  "('t, 'p, 's) license_env \<Rightarrow> block_builder \<Rightarrow> 't \<Rightarrow> bytes \<Rightarrow> (bytes, 'e) outcome" where
  "write_not_valid_before env b = write_timestamp env b BLOCK_NOT_VALID_BEFORE_OFFSET"

definition write_not_valid_after ::
  "('t, 'p, 's) license_env \<Rightarrow> block_builder \<Rightarrow> 't \<Rightarrow> bytes \<Rightarrow> (bytes, 'e) outcome" where
  "write_not_valid_after env b = write_timestamp env b BLOCK_NOT_VALID_AFTER_OFFSET"

definition write_license_type :: "block_builder \<Rightarrow> u8 \<Rightarrow> bytes \<Rightarrow> (bytes, 'e) outcome" where
  "write_license_type b typ data =
     (if bb_typ b \<noteq> Server \<and> bb_typ b \<noteq> Ts5Server then Panic
      else set_index data (bb_offset b + BLOCK_MIN_LEN) typ)"

text \<open>The number of properties and a length are bytes: more than 255 of them is a panic.\<close>

definition ts5_add_property :: "block_builder \<Rightarrow> u8 \<Rightarrow> u8 \<Rightarrow> nat \<Rightarrow> bytes \<Rightarrow> (bytes \<times> nat, 'e) outcome" where
  "ts5_add_property b i typ len data =
     (let off = length data;
          data = data @ replicate (len + 3) 0;
          count_at = bb_offset b + BLOCK_MIN_LEN + 1 in
      and_then (index data count_at) (\<lambda>count.
      and_then (checked_plus count 1) (\<lambda>count.
      and_then (set_index data count_at count) (\<lambda>data.
      and_then (if len < 256 then checked_plus (of_nat len) 2 else Panic) (\<lambda>total.
      and_then (set_index data off total) (\<lambda>data.
      and_then (set_index data (off + 1) i) (\<lambda>data.
      and_then (set_index data (off + 2) typ) (\<lambda>data.
      Ok (data, off + 3)))))))))"

definition write_max_clients :: "block_builder \<Rightarrow> u32 \<Rightarrow> bytes \<Rightarrow> (bytes, 'e) outcome" where
  "write_max_clients b max_clients data =
     and_then
       (if bb_typ b = Ts5Server then ts5_add_property b 3 1 4 data
        else
          (case max_clients_offset (bb_typ b) of
             Some rel \<Rightarrow> Ok (data, bb_offset b + BLOCK_MIN_LEN + rel)
           | None \<Rightarrow> Panic)) (\<lambda>(data, off).
     copy_at data off (be32 max_clients))"

definition write_issuer :: "block_builder \<Rightarrow> bytes \<Rightarrow> bytes \<Rightarrow> (bytes, 'e) outcome" where
  "write_issuer b issuer data =
     (if 0 \<in> set issuer then Panic
      else
        and_then
          (if bb_typ b = Ts5Server then ts5_add_property b 2 0 (length issuer + 1) data
           else if bb_typ b \<noteq> Intermediate \<and> bb_typ b \<noteq> Server then Panic
           else if length data - bb_offset b \<noteq> min_len (bb_typ b) then Panic
           else Ok (data @ replicate (length issuer) 0, length data - 1)) (\<lambda>(data, off).
        copy_at data off issuer))"

text \<open>
  \<open>build\<close>: the closure appends blocks, which are then parsed. The outer bounds are those of the last
  block that was there before.
\<close>

definition last_bounds ::
  "('t, 'p, 's) license_env \<Rightarrow> 's licenses \<Rightarrow> nat \<Rightarrow> (('t \<times> 't) option, 't license_error) outcome" where
  "last_bounds env ls len =
     (if ls_blocks ls = [] then Ok None
      else
        (let b = last (ls_blocks ls) in
         and_then (usize_sub len (l_len b)) (\<lambda>b_offset.
         and_then (slice (ls_data ls) b_offset len) (\<lambda>b_data.
         and_then (get_not_valid_before env b_data) (\<lambda>start.
         and_then (get_not_valid_after env b_data) (\<lambda>end.
         Ok (Some (start, end))))))))"

definition licenses_build ::
  "('t::linorder, 'p, 's) license_env \<Rightarrow> 't \<Rightarrow> 's licenses \<Rightarrow> (bytes \<Rightarrow> (bytes, 't license_error) outcome)
     \<Rightarrow> ('s licenses, 't license_error) outcome" where
  "licenses_build env now ls f =
     (let len = length (ls_data ls) in
      and_then (f (ls_data ls)) (\<lambda>data.
      and_then (last_bounds env (ls\<lparr>ls_data := data\<rparr>) len) (\<lambda>bounds.
      and_then (parse_blocks env data False now len bounds (ls_blocks ls)) (\<lambda>blocks.
      Ok \<lparr>ls_data = data, ls_blocks = blocks\<rparr>))))"

end
