(* ===== verification/License_Props.thy ===== *)
theory License_Props
  imports License
begin

text \<open>
  What a parsed license guarantees: the blocks tile the data, their times are nested and checked against
  the clock, the parser does not panic, and the derived private key belongs to the derived public key.
  Round trips of the builder, and two forms of the TS5 properties that the code does not read back.
\<close>

section \<open>Parsing a block\<close>

lemma position_zero_bound: "position_zero bs = Some n \<Longrightarrow> n < length bs"
  by (induction bs arbitrary: n) (auto split: if_splits)

lemma parse_properties_cases:
  "parse_properties len data n pos \<noteq> (Panic :: (_, 't license_error) outcome)"
  "parse_properties len data n pos = (Ok (ps, q) :: (_, 't license_error) outcome) \<Longrightarrow> pos \<le> length data \<Longrightarrow>
     pos \<le> q \<and> q \<le> length data \<and> length ps = n"
proof (induction n arbitrary: pos ps q)
  case (Suc n)
  { case 1
    show ?case using Suc(1) [of "pos + 1 + unat (data ! pos)"] by (auto simp: Let_def outcome_simps)
  next
    case 2
    then show ?case using Suc(2) [of "pos + 1 + unat (data ! pos)" "tl ps" q]
      by (auto simp: Let_def outcome_simps split: if_splits) }
qed auto

lemma parse_inner_cases:
  "parse_inner len i t data \<noteq> (Panic :: (_, 't license_error) outcome)"
  "parse_inner len i t data = (Ok (inner, n) :: (_, 't license_error) outcome) \<Longrightarrow> n \<le> length data"
  by (auto simp: parse_inner_def parse_properties_cases(1) outcome_simps
      dest!: position_zero_bound parse_properties_cases(2)
      split: license_block_type.splits if_splits option.splits prod.splits)

lemma license_parse_cases:
  "license_parse data \<noteq> (Panic :: ('s license, 't license_error) outcome)"
  "license_parse data = (Ok l :: ('s license, 't license_error) outcome) \<Longrightarrow>
     BLOCK_MIN_LEN \<le> l_len l \<and> l_len l \<le> length data \<and> data ! 0 = 0 \<and> l_private_key l = None"
  by (auto simp: license_parse_def Let_def parse_inner_cases(1) outcome_simps
      dest!: parse_inner_cases(2) split: if_splits prod.splits)

lemma get_timestamp_not_Panic:
  "off \<le> length data \<Longrightarrow> get_timestamp env data off \<noteq> Panic"
  by (auto simp: get_timestamp_def outcome_simps)

lemma times_not_Panic:
  assumes "BLOCK_MIN_LEN \<le> length data"
  shows "get_not_valid_before env data \<noteq> Panic" "get_not_valid_after env data \<noteq> Panic"
  using assms by (simp_all add: get_not_valid_before_def get_not_valid_after_def get_timestamp_not_Panic block_offsets)

section \<open>A chain of blocks\<close>

text \<open>The times of the block that starts the data, within the clock and the outer times.\<close>

definition times_ok ::
  "('t::linorder, 'p, 's) license_env \<Rightarrow> bool \<Rightarrow> 't \<Rightarrow> ('t \<times> 't) option \<Rightarrow> bytes \<Rightarrow> 't \<times> 't \<Rightarrow> bool" where
  "times_ok env check_expired now bounds d win \<longleftrightarrow>
     get_not_valid_before env d = Ok (fst win) \<and> get_not_valid_after env d = Ok (snd win) \<and>
     (check_expired \<longrightarrow> fst win \<le> now \<and> now \<le> snd win) \<and>
     (\<forall>outer. bounds = Some outer \<longrightarrow> fst outer \<le> fst win \<and> snd win \<le> snd outer)"

text \<open>The blocks tile the data from an offset on, each with good times.\<close>

fun chain ::
  "('t::linorder, 'p, 's) license_env \<Rightarrow> bytes \<Rightarrow> bool \<Rightarrow> 't \<Rightarrow> nat \<Rightarrow> ('t \<times> 't) option \<Rightarrow> 's license list \<Rightarrow> bool" where
  "chain env data check_expired now offset bounds [] \<longleftrightarrow> offset = length data"
| "chain env data check_expired now offset bounds (l # ls) \<longleftrightarrow>
     BLOCK_MIN_LEN \<le> l_len l \<and> offset + l_len l \<le> length data \<and> license_parse (drop offset data) = (Ok l :: (_, 't license_error) outcome) \<and>
     (\<exists>win. times_ok env check_expired now bounds (take (l_len l) (drop offset data)) win \<and>
        chain env data check_expired now (offset + l_len l) (Some win) ls)"

lemma parse_block_cases:
  fixes env :: "('t::linorder, 'p, 's) license_env"
  shows "parse_block env data c now bounds \<noteq> Panic"
  "parse_block env data c now bounds = Ok (l, win) \<Longrightarrow>
     license_parse data = (Ok l :: (_, 't license_error) outcome) \<and> times_ok env c now bounds (take (l_len l) data) win"
proof -
  show "parse_block env data c now bounds \<noteq> Panic"
    using license_parse_cases [of data, where 't = 't and 's = 's] times_not_Panic [where env = env]
    by (auto simp: parse_block_def outcome_simps split: option.splits)
  show "parse_block env data c now bounds = Ok (l, win) \<Longrightarrow>
     license_parse data = (Ok l :: (_, 't license_error) outcome) \<and> times_ok env c now bounds (take (l_len l) data) win"
    by (cases bounds) (auto simp: parse_block_def times_ok_def outcome_simps split: if_splits)
qed

lemma parse_blocks_cases:
  fixes env :: "('t::linorder, 'p, 's) license_env"
  shows "parse_blocks env data c now offset bounds bs \<noteq> Panic"
  "parse_blocks env data c now offset bounds bs = Ok bs' \<Longrightarrow> offset \<le> length data \<Longrightarrow>
     \<exists>new. bs' = bs @ new \<and> chain env data c now offset bounds new \<and> (new \<noteq> [] \<longrightarrow> length bs' \<le> 8)"
proof (induction env data c now offset bounds bs rule: parse_blocks.induct)
  case (1 env data c now offset bounds bs)
  let ?p = "parse_block env (drop offset data) c now bounds"
  { case 1
    show ?case using "1.IH"(1) parse_block_cases(1) [of env "drop offset data" c now bounds]
      by (subst parse_blocks.simps) (auto simp: outcome_simps)
  next
    case 2
    show ?case
    proof (cases "offset < length data")
      case True
      then obtain l win where p: "?p = Ok (l, win)" and few: "length bs < 8"
        and rec: "parse_blocks env data c now (offset + l_len l) (Some win) (bs @ [l]) = Ok bs'"
        using 2(1) by (subst (asm) parse_blocks.simps) (auto simp: outcome_simps split: if_splits)
      have l: "license_parse (drop offset data) = (Ok l :: (_, 't license_error) outcome)" and t: "times_ok env c now bounds (take (l_len l) (drop offset data)) win"
        using parse_block_cases(2) [OF p] by blast+
      have len: "BLOCK_MIN_LEN \<le> l_len l" "offset + l_len l \<le> length data"
        using license_parse_cases(2) [OF l] True by auto
      obtain new where new: "bs' = (bs @ [l]) @ new" "chain env data c now (offset + l_len l) (Some win) new"
        "new \<noteq> [] \<longrightarrow> length bs' \<le> 8"
        using "1.IH"(2) [OF True _ p refl rec len(2)] few by auto
      have "chain env data c now offset bounds (l # new)"
        unfolding chain.simps using l t len new(2) by blast
      moreover have "length bs' \<le> 8" using new few by (cases new) auto
      ultimately show ?thesis using new(1) by (intro exI [of _ "l # new"]) simp
    qed (use 2 in \<open>subst (asm) parse_blocks.simps, simp\<close>) }
qed

text \<open>Where the \<open>i\<close>-th block lies.\<close>

definition block_at :: "bytes \<Rightarrow> nat \<Rightarrow> 's license list \<Rightarrow> nat \<Rightarrow> bytes" where
  "block_at data offset ls i = take (l_len (ls ! i)) (drop (offset + sum_list (map l_len (take i ls))) data)"

lemma block_at_simps [simp]:
  "block_at data offset (l # ls) 0 = take (l_len l) (drop offset data)"
  "block_at data offset (l # ls) (Suc i) = block_at data (offset + l_len l) ls i"
  by (simp_all add: block_at_def add.assoc)

lemma chain_length:
  "chain env data c now offset bounds ls \<Longrightarrow>
     offset + sum_list (map l_len ls) = length data \<and> (\<forall>l \<in> set ls. BLOCK_MIN_LEN \<le> l_len l)"
proof (induction ls arbitrary: offset bounds)
  case (Cons l ls)
  then obtain w where "chain env data c now (offset + l_len l) (Some w) ls" "BLOCK_MIN_LEN \<le> l_len l" by auto
  then show ?case using Cons.IH by (fastforce simp: add.assoc [symmetric])
qed simp

lemma times_ok_wider: "times_ok env c now (Some w) d v \<Longrightarrow> times_ok env c now bounds d' w \<Longrightarrow> times_ok env c now bounds d v"
  by (auto simp: times_ok_def intro: order_trans)

lemma chain_blocks:
  "chain env data c now offset bounds ls \<Longrightarrow> i < length ls \<Longrightarrow>
     \<exists>v. times_ok env c now bounds (block_at data offset ls i) v \<and>
       (\<forall>j < i. \<exists>w. times_ok env c now bounds (block_at data offset ls j) w \<and> fst w \<le> fst v \<and> snd v \<le> snd w)"
proof (induction ls arbitrary: offset bounds i)
  case (Cons l ls)
  obtain w where w: "times_ok env c now bounds (take (l_len l) (drop offset data)) w"
    "chain env data c now (offset + l_len l) (Some w) ls" using Cons.prems(1) by auto
  show ?case
  proof (cases i)
    case 0
    then show ?thesis using w(1) by (auto simp del: split_paired_Ex)
  next
    case (Suc k)
    obtain v where v: "times_ok env c now (Some w) (block_at data (offset + l_len l) ls k) v"
      "\<forall>j < k. \<exists>w'. times_ok env c now (Some w) (block_at data (offset + l_len l) ls j) w' \<and> fst w' \<le> fst v \<and> snd v \<le> snd w'"
      using Cons.IH [OF w(2), of k] Cons.prems(2) Suc by auto
    have "\<exists>w'. times_ok env c now bounds (block_at data offset (l # ls) j) w' \<and> fst w' \<le> fst v \<and> snd v \<le> snd w'"
      if "j < Suc k" for j
    proof (cases j)
      case 0
      then show ?thesis using w(1) v(1) by (auto simp: times_ok_def simp del: split_paired_Ex)
    next
      case (Suc m)
      then show ?thesis using v(2) that times_ok_wider [OF _ w(1)] by (fastforce simp del: split_paired_Ex)
    qed
    moreover have "times_ok env c now bounds (block_at data offset (l # ls) i) v"
      using v(1) times_ok_wider [OF _ w(1)] Suc by simp
    ultimately show ?thesis unfolding Suc by blast
  qed
qed simp

lemma parse_internal_chain:
  assumes "parse_internal env now data c = Ok ls"
  shows "ls_data ls = data \<and> length (ls_blocks ls) \<le> 8 \<and> chain env data c now 1 None (ls_blocks ls)"
proof -
  obtain bs where p: "0 < length data" "parse_blocks env data c now 1 None [] = Ok bs"
    "ls = \<lparr>ls_data = data, ls_blocks = bs\<rparr>"
    using assms by (fastforce simp: parse_internal_def and_then_Ok_iff index_Ok_iff split: if_splits)
  from p(1) have "1 \<le> length data" by linarith
  then show ?thesis using parse_blocks_cases(2) [OF p(2)] p(3) by (auto split: if_splits)
qed

text \<open>
  C8 (a license that parses is a sound chain): the blocks, at most eight, fill the data after the version
  byte exactly; every block has readable times, which lie within the times of every block before it;
  and, when expired licenses are to be refused, the clock lies within the times of every block.
\<close>

theorem license_chain_sound:
  assumes "parse_internal env now data check_expired = Ok ls"
  shows "ls_data ls = data \<and> length (ls_blocks ls) \<le> 8 \<and> 1 + sum_list (map l_len (ls_blocks ls)) = length data \<and>
    (\<forall>i < length (ls_blocks ls). \<exists>start end.
       get_not_valid_before env (block_at data 1 (ls_blocks ls) i) = Ok start \<and>
       get_not_valid_after env (block_at data 1 (ls_blocks ls) i) = Ok end \<and>
       (check_expired \<longrightarrow> start \<le> now \<and> now \<le> end) \<and>
       (\<forall>j < i. \<exists>outer_start outer_end.
          get_not_valid_before env (block_at data 1 (ls_blocks ls) j) = Ok outer_start \<and>
          get_not_valid_after env (block_at data 1 (ls_blocks ls) j) = Ok outer_end \<and>
          outer_start \<le> start \<and> end \<le> outer_end))"
  using parse_internal_chain [OF assms] chain_length [of env data check_expired now 1 None "ls_blocks ls"]
    chain_blocks [of env data check_expired now 1 None "ls_blocks ls"]
  unfolding times_ok_def by (metis (no_types, lifting))

section \<open>Keys\<close>

lemma take_block_at: "length (block_at data offset ls i) = min (l_len (ls ! i)) (length data - (offset + sum_list (map l_len (take i ls))))"
  by (simp add: block_at_def)

lemma block_derive_public_key_not_Panic:
  "33 \<le> length d \<Longrightarrow> block_derive_public_key env d p \<noteq> Panic"
  by (auto simp: block_derive_public_key_def get_public_key_def get_hash_key_def Let_def outcome_simps)

lemma derive_public_loop_not_Panic:
  "chain env data c now offset bounds ls \<Longrightarrow> derive_public_loop env data offset ls p \<noteq> Panic"
proof (induction ls arbitrary: offset bounds p)
  case (Cons l ls)
  then obtain w where w: "BLOCK_MIN_LEN \<le> l_len l" "offset + l_len l \<le> length data"
    "chain env data c now (offset + l_len l) (Some w) ls" by auto
  then have "33 \<le> length (take (l_len l) (drop offset data))" by (simp add: block_offsets)
  then show ?case
    using w Cons.IH [OF w(3)] block_derive_public_key_not_Panic [of "take (l_len l) (drop offset data)" env p]
    by (simp add: outcome_simps)
qed simp

lemma parse_internal_Panic_iff: "parse_internal env now data c = Panic \<longleftrightarrow> data = []"
  using parse_blocks_cases(1) [of env data c now 1 None "[]"]
  by (cases data) (auto simp: parse_internal_def and_then_not_Panic)

text \<open>
  C14 (the license parser is safe on what a server sends): only empty data makes it panic, and the
  derivation of the public key from a license that parses does not panic.
\<close>

theorem license_parser_safe:
  fixes env :: "('t::linorder, 'p, 's) license_env"
  shows "(parse_internal env now data check_expired = Panic \<longleftrightarrow> data = []) \<and>
    (\<forall>ls. parse_internal env now data check_expired = Ok ls \<longrightarrow> derive_public_key env ls root \<noteq> Panic)"
proof -
  have "derive_public_key env ls root \<noteq> Panic" if "parse_internal env now data check_expired = Ok ls" for ls
    using parse_internal_chain [OF that] derive_public_loop_not_Panic [of env data check_expired now 1 None "ls_blocks ls"]
    by (simp add: derive_public_key_def outcome_simps)
  then show ?thesis using parse_internal_Panic_iff by blast
qed

text \<open>What the derivation relies on: the public key \<open>base k\<close> of a private key \<open>k\<close> is a homomorphism.\<close>

definition curve_laws :: "('t, 'p, 's) license_env \<Rightarrow> ('s \<Rightarrow> 'p) \<Rightarrow> bool" where
  "curve_laws env base \<longleftrightarrow>
     (\<forall>a b. base (scalar_add env a b) = point_add env (base a) (base b)) \<and>
     (\<forall>a b. base (scalar_mul env a b) = point_mul env (base a) b)"

lemma derive_public_loop_append:
  "derive_public_loop env data offset (ls @ ms) p =
     and_then (derive_public_loop env data offset ls p) (derive_public_loop env data (offset + sum_list (map l_len ls)) ms)"
  by (induction ls arbitrary: offset p) (simp_all add: and_then_assoc add.assoc cong: and_then_cong)

lemma derive_private_loop_skip:
  "derive_private_loop env data (length ls) offset (ls @ ms) k =
     derive_private_loop env data 0 (offset + sum_list (map l_len ls)) ms k"
  by (induction ls arbitrary: offset) (simp_all add: add.assoc)

lemma derive_loops_match:
  fixes env :: "('t, 'p, 's) license_env"
  assumes "curve_laws env base"
    and "\<forall>l \<in> set ls. BLOCK_MIN_LEN \<le> l_len l" and "offset + sum_list (map l_len ls) \<le> length data"
    and "\<forall>i < length ls. \<exists>k. l_private_key (ls ! i) = Some k \<and>
      get_public_key env (block_at data offset ls i) = (Ok (base k) :: (_, 't license_error) outcome)"
  shows "\<exists>k'. derive_private_loop env data 0 offset ls k = Ok k' \<and>
    derive_public_loop env data offset ls (base k) = Ok (base k')"
  using assms(2-4)
proof (induction ls arbitrary: offset k)
  case (Cons l ls)
  let ?d = "take (l_len l) (drop offset data)"
  obtain pk where pk: "l_private_key l = Some pk" "get_public_key env ?d = (Ok (base pk) :: (_, 't license_error) outcome)"
    using Cons.prems(3) by fastforce
  have "slice data offset (offset + l_len l) = (Ok ?d :: (_, 't license_error) outcome)"
    using Cons.prems(2) by simp
  moreover obtain h where h: "get_hash_key env ?d = (Ok h :: (_, 't license_error) outcome)"
    using Cons.prems(1,2) by (simp add: get_hash_key_def Let_def block_offsets)
  moreover have "\<forall>i < length ls. \<exists>k. l_private_key (ls ! i) = Some k \<and>
      get_public_key env (block_at data (offset + l_len l) ls i) = (Ok (base k) :: (_, 't license_error) outcome)"
    using Cons.prems(3) by fastforce
  ultimately show ?case
    using Cons.IH [of "offset + l_len l" "scalar_add env (scalar_mul env pk h) k"] Cons.prems(1,2) pk assms(1)
    by (simp add: block_derive_public_key_def block_derive_private_key_def curve_laws_def add.assoc)
qed simp

text \<open>
  C15 (the derived private key belongs to the derived public key): when the blocks from the starting block
  on carry the private keys of their public keys, and the first key is the private key of what the
  blocks before derive from the root, then the private key that is derived belongs to the public key
  that every client derives from the license.
\<close>

theorem derived_keys_match:
  fixes env :: "('t, 'p, 's) license_env" and ls :: "'s licenses"
  assumes "curve_laws env base" and "starting_block \<le> length (ls_blocks ls)"
    and "\<forall>l \<in> set (ls_blocks ls). BLOCK_MIN_LEN \<le> l_len l"
    and "1 + sum_list (map l_len (ls_blocks ls)) \<le> length (ls_data ls)"
    and "\<forall>i < length (ls_blocks ls). starting_block \<le> i \<longrightarrow> (\<exists>k. l_private_key (ls_blocks ls ! i) = Some k \<and>
      get_public_key env (block_at (ls_data ls) 1 (ls_blocks ls) i) = (Ok (base k) :: (_, 't license_error) outcome))"
    and "derive_public_key env (ls\<lparr>ls_blocks := take starting_block (ls_blocks ls)\<rparr>) root
      = (Ok (base first_key) :: (_, 't license_error) outcome)"
  shows "\<exists>k. derive_private_key env ls starting_block first_key = (Ok k :: (_, 't license_error) outcome) \<and>
    derive_public_key env ls root = (Ok (base k) :: (_, 't license_error) outcome)"
proof -
  define as where "as = take starting_block (ls_blocks ls)"
  define bs where "bs = drop starting_block (ls_blocks ls)"
  have split: "ls_blocks ls = as @ bs" "length as = starting_block" using assms(2) by (simp_all add: as_def bs_def)
  let ?off = "1 + sum_list (map l_len as)"
  have "block_at (ls_data ls) 1 (as @ bs) (starting_block + i) = block_at (ls_data ls) ?off bs i" for i
    unfolding block_at_def by (simp add: split(2) [symmetric] nth_append add.assoc)
  note at = this
  have keys: "\<forall>i < length bs. \<exists>k. l_private_key (bs ! i) = Some k \<and>
      get_public_key env (block_at (ls_data ls) ?off bs i) = (Ok (base k) :: (_, 't license_error) outcome)"
  proof (intro allI impI)
    fix i assume "i < length bs"
    then show "\<exists>k. l_private_key (bs ! i) = Some k \<and>
        get_public_key env (block_at (ls_data ls) ?off bs i) = (Ok (base k) :: (_, 't license_error) outcome)"
      using assms(5) [rule_format, of "starting_block + i"] unfolding split(1) at
      by (simp add: nth_append split(2))
  qed
  obtain k where k: "derive_private_loop env (ls_data ls) 0 ?off bs first_key = (Ok k :: (_, 't license_error) outcome)"
    "derive_public_loop env (ls_data ls) ?off bs (base first_key) = (Ok (base k) :: (_, 't license_error) outcome)"
    using derive_loops_match [OF assms(1) _ _ keys] assms(3,4) split(1) by auto
  show ?thesis
    using k assms(6) derive_private_loop_skip [of env "ls_data ls" as 1 bs first_key]
    by (auto simp: derive_private_key_def derive_public_key_def split derive_public_loop_append as_def [symmetric] and_then_Ok_iff)
qed

section \<open>Round trip of the builder\<close>

text \<open>The bytes of a block of a TS3 server.\<close>

definition server_block :: "bytes \<Rightarrow> u32 \<Rightarrow> u32 \<Rightarrow> u8 \<Rightarrow> u32 \<Rightarrow> bytes \<Rightarrow> bytes" where
  "server_block key start end typ max_clients issuer =
     [0] @ key @ [2] @ be32 start @ be32 end @ [typ] @ be32 max_clients @ issuer @ [0]"

lemma copy_at_mid: "length old = length new \<Longrightarrow> n = length a \<Longrightarrow> copy_at (a @ old @ b) n new = Ok (a @ new @ b)"
  by (simp add: copy_at_def)

lemma set_index_mid: "n = length a \<Longrightarrow> set_index (a @ x # b) n y = Ok (a @ y # b)"
  by (simp add: set_index_def)

lemma slice_mid: "n = length a \<Longrightarrow> m = n + length b \<Longrightarrow> slice (a @ b @ c) n m = Ok b"
  by simp

lemma slice_from_mid: "n = length a \<Longrightarrow> slice_from (a @ b) n = Ok b"
  by simp

lemma length_server_block [simp]:
  "length key = 32 \<Longrightarrow> length (server_block key start end typ mc issuer) = 48 + length issuer"
  by (simp add: server_block_def)

text \<open>The calls that write such a block, in the order of its fields.\<close>

definition build_server ::
  "('t, 'p, 's) license_env \<Rightarrow> bytes \<Rightarrow> 't \<Rightarrow> 't \<Rightarrow> u8 \<Rightarrow> u32 \<Rightarrow> bytes \<Rightarrow> bytes \<Rightarrow> (bytes, 'e) outcome" where
  "build_server env key start end typ max_clients issuer data =
     and_then (add_block Server data) (\<lambda>(data, b).
     and_then (write_public_key b key data) (\<lambda>data.
     and_then (write_not_valid_before env b start data) (\<lambda>data.
     and_then (write_not_valid_after env b end data) (\<lambda>data.
     and_then (write_license_type b typ data) (\<lambda>data.
     and_then (write_max_clients b max_clients data) (\<lambda>data.
     write_issuer b issuer data))))))"

definition stamp :: "('t, 'p, 's) license_env \<Rightarrow> 't \<Rightarrow> u32" where
  "stamp env t = word_of_int (unix_timestamp env t - TIMESTAMP_OFFSET)"

lemma build_server_block:
  assumes "length key = 32" and "0 \<notin> set issuer"
  shows "build_server env key start end typ max_clients issuer data
    = Ok (data @ server_block key (stamp env start) (stamp env end) typ max_clients issuer)"
proof -
  let ?z = "\<lambda>n. replicate n (0 :: u8)"
  let ?b = "\<lparr>bb_offset = length data, bb_typ = Server\<rparr>"
  have 1: "add_block Server data = Ok ((data @ [0]) @ ?z 32 @ [2] @ ?z 4 @ ?z 4 @ 0 # ?z 4 @ [0], ?b)"
  proof -
    have "data @ ?z (min_len Server) = (data @ ?z 33) @ 0 # ?z 4 @ ?z 4 @ 0 # ?z 4 @ [0]"
      by (simp add: block_offsets numeral_eq_Suc)
    then show ?thesis
      using set_index_mid [of "length data + 33" "data @ ?z 33" 0]
      by (simp add: add_block_def block_offsets) (simp add: numeral_eq_Suc)
  qed
  have 2: "write_public_key ?b key ((data @ [0]) @ ?z 32 @ x) = Ok ((data @ [0]) @ key @ x)" for x
    unfolding write_public_key_def by (rule copy_at_mid) (simp_all add: assms(1))
  have 3: "write_not_valid_before env ?b start ((data @ [0] @ key @ [2]) @ ?z 4 @ x)
      = Ok ((data @ [0] @ key @ [2]) @ be32 (stamp env start) @ x)" for x
    unfolding write_not_valid_before_def write_timestamp_def stamp_def [symmetric]
    by (rule copy_at_mid) (simp_all add: assms(1) block_offsets)
  have 4: "write_not_valid_after env ?b end ((data @ [0] @ key @ [2] @ be32 (stamp env start)) @ ?z 4 @ x)
      = Ok ((data @ [0] @ key @ [2] @ be32 (stamp env start)) @ be32 (stamp env end) @ x)" for x
    unfolding write_not_valid_after_def write_timestamp_def stamp_def [symmetric]
    by (rule copy_at_mid) (simp_all add: assms(1) block_offsets)
  let ?h = "data @ [0] @ key @ [2] @ be32 (stamp env start) @ be32 (stamp env end)"
  have 5: "write_license_type ?b typ (?h @ 0 # x) = Ok (?h @ typ # x)" for x
    unfolding write_license_type_def using set_index_mid [of "length data + 42" ?h]
    by (simp add: assms(1) block_offsets)
  have 6: "write_max_clients ?b max_clients ((?h @ [typ]) @ ?z 4 @ x) = Ok ((?h @ [typ]) @ be32 max_clients @ x)" for x
    using copy_at_mid [of "?z 4" "be32 max_clients" "length data + 43" "?h @ [typ]" x]
    by (simp add: write_max_clients_def assms(1) block_offsets)
  have 7: "write_issuer ?b issuer ((?h @ [typ] @ be32 max_clients) @ [0])
      = Ok ((?h @ [typ] @ be32 max_clients) @ issuer @ [0])"
  proof -
    have "[0] @ ?z (length issuer) = ?z (length issuer) @ [0]" by (simp add: replicate_append_same)
    then show ?thesis
      using copy_at_mid [of "?z (length issuer)" issuer "length data + 47" "?h @ [typ] @ be32 max_clients" "[0]"]
      by (simp add: write_issuer_def assms block_offsets)
  qed
  show ?thesis
    unfolding build_server_def 1 server_block_def
    by (simp add: 2 [simplified] 3 [simplified] 4 [simplified] 5 [simplified] 6 [simplified] 7 [simplified])
qed

lemma position_zero_append: "0 \<notin> set issuer \<Longrightarrow> position_zero (issuer @ 0 # x) = Some (length issuer)"
  by (induction issuer) auto

lemma license_parse_server:
  assumes "length key = 32" "0 \<notin> set issuer"
  shows "license_parse (server_block key start end typ mc issuer @ x)
    = Ok \<lparr>l_len = 48 + length issuer, l_private_key = None, l_inner = Other\<rparr>"
proof -
  let ?d = "server_block key start end typ mc issuer @ x"
  have d: "?d = (0 # key) @ 2 # be32 start @ be32 end @ [typ] @ be32 mc @ issuer @ 0 # x"
    by (simp add: server_block_def)
  have ty: "?d ! 33 = 2" unfolding d using nth_append_length [of "0 # key"] assms(1) by simp
  have tail: "drop 42 ?d = [typ] @ be32 mc @ issuer @ 0 # x" unfolding d using assms(1) by simp
  have zero: "?d ! 0 = 0" unfolding d by simp
  show ?thesis
    unfolding license_parse_def block_offsets Let_def ty tail zero
    using assms by (simp add: parse_inner_def block_type_from_u8_def block_types_def position_zero_append)
qed

text \<open>The fields of such a block.\<close>

lemma server_block_fields:
  assumes "length key = 32" and "0 \<notin> set issuer" "utf8_valid issuer" and "l_len l = 48 + length issuer"
  shows "get_type (server_block key start end typ mc issuer) = Ok Server"
    "get_timestamp env (server_block key start end typ mc issuer) 34
      = ok_or DeserializeDate (from_unix_timestamp env (uint start + TIMESTAMP_OFFSET))"
    "get_timestamp env (server_block key start end typ mc issuer) 38
      = ok_or DeserializeDate (from_unix_timestamp env (uint end + TIMESTAMP_OFFSET))"
    "get_public_key env (server_block key start end typ mc issuer) = ok_or InvalidPublicKey (decompress_point env key)"
    "get_license_type env (server_block key start end typ mc issuer)
      = (if known_license_type env typ then Ok typ else Err (UnknownLicenseType typ))"
    "get_max_clients l (server_block key start end typ mc issuer) = Ok mc"
    "get_issuer l (server_block key start end typ mc issuer) = Ok issuer"
proof -
  let ?d = "server_block key start end typ mc issuer"
  have ty: "?d ! 33 = 2" unfolding server_block_def using nth_append_length [of "0 # key"] assms(1) by simp
  show t: "get_type ?d = Ok Server"
    using assms(1) ty by (simp add: get_type_def block_offsets block_type_from_u8_def block_types_def)
  have "drop 34 ?d = be32 start @ be32 end @ [typ] @ be32 mc @ issuer @ [0]"
    "drop 38 ?d = be32 end @ [typ] @ be32 mc @ issuer @ [0]"
    using assms(1) by (simp_all add: server_block_def)
  then show "get_timestamp env ?d 34 = ok_or DeserializeDate (from_unix_timestamp env (uint start + TIMESTAMP_OFFSET))"
    "get_timestamp env ?d 38 = ok_or DeserializeDate (from_unix_timestamp env (uint end + TIMESTAMP_OFFSET))"
    using assms(1) by (simp_all add: get_timestamp_def)
  have "take 32 (drop 1 ?d) = key" using assms(1) by (simp add: server_block_def)
  then show "get_public_key env ?d = ok_or InvalidPublicKey (decompress_point env key)"
    using assms(1) by (simp add: get_public_key_def)
  have "drop 42 ?d = [typ] @ be32 mc @ issuer @ [0]" using assms(1) by (simp add: server_block_def)
  then have at: "?d ! 42 = typ" "drop 43 ?d = be32 mc @ issuer @ [0]" "drop 47 ?d = issuer @ [0]"
    using assms(1) nth_via_drop [of 42 ?d "typ"] by (simp_all add: server_block_def)
  show "get_license_type env ?d = (if known_license_type env typ then Ok typ else Err (UnknownLicenseType typ))"
    using assms(1) by (simp add: get_license_type_def t at block_offsets)
  show "get_max_clients l ?d = Ok mc"
    using assms(1) at(2) by (simp add: get_max_clients_def t block_offsets)
  show "get_issuer l ?d = Ok issuer"
    using assms at(3) by (simp add: get_issuer_def t block_offsets Let_def from_utf8_def)
qed

text \<open>New data after the last block does not change its times.\<close>

lemma slice_append_prefix [simp]: "slice (xs @ ys) n (length xs) = slice xs n (length xs)"
  by (simp add: slice_def)

lemma last_bounds_append:
  "last_bounds env (ls\<lparr>ls_data := ls_data ls @ d\<rparr>) (length (ls_data ls)) = last_bounds env ls (length (ls_data ls))"
  by (simp add: last_bounds_def)

text \<open>A time that fits the 32 bits of a block, and is read back by the crate for dates.\<close>

definition storable :: "('t, 'p, 's) license_env \<Rightarrow> 't \<Rightarrow> bool" where
  "storable env t \<longleftrightarrow> 0 \<le> unix_timestamp env t - TIMESTAMP_OFFSET \<and> unix_timestamp env t - TIMESTAMP_OFFSET < 2 ^ 32 \<and>
     from_unix_timestamp env (unix_timestamp env t) = Some t"

lemma storable_stamp: "storable env t \<Longrightarrow> from_unix_timestamp env (uint (stamp env t) + TIMESTAMP_OFFSET) = Some t"
  by (simp add: storable_def stamp_def uint_word_of_int_eq take_bit_int_eq_self del: of_int_diff)

text \<open>
  C16 (a block that is built is read back): a block for a TS3 server that the builder appends to a license
  with less than eight blocks is accepted; it becomes the new last block, and its fields are what was
  written: public key, times, type, number of clients and issuer. This needs a key of 32 bytes, an issuer
  that is valid UTF-8 without a zero byte, a license type that the generated enum knows, times that a block
  can store (whole seconds that fit into 32 bits when counted from 2013: a time with a fraction of a second,
  such as the current time, is not read back as it was given), a last block whose own times can be read,
  and new times inside those of that block.
\<close>

theorem server_block_roundtrip:
  fixes env :: "('t::linorder, 'p, 's) license_env" and ls :: "'s licenses"
  assumes "length key = 32" "0 \<notin> set issuer" "utf8_valid issuer" "known_license_type env typ"
    and "storable env start" "storable env end" and "length (ls_blocks ls) < 8"
    and "last_bounds env ls (length (ls_data ls)) = (Ok bounds :: (_, 't license_error) outcome)"
    and "\<And>outer_start outer_end. bounds = Some (outer_start, outer_end) \<Longrightarrow> outer_start \<le> start \<and> end \<le> outer_end"
  shows "\<exists>l d. licenses_build env now ls (build_server env key start end typ max_clients issuer)
      = (Ok \<lparr>ls_data = ls_data ls @ d, ls_blocks = ls_blocks ls @ [l]\<rparr> :: (_, 't license_error) outcome) \<and>
    length d = l_len l \<and> get_type d = (Ok Server :: (_, 't license_error) outcome) \<and>
    get_public_key env d = ok_or InvalidPublicKey (decompress_point env key) \<and>
    get_not_valid_before env d = Ok start \<and> get_not_valid_after env d = Ok end \<and>
    get_license_type env d = Ok typ \<and> get_max_clients l d = (Ok max_clients :: (_, 't license_error) outcome) \<and>
    get_issuer l d = (Ok issuer :: (_, 't license_error) outcome)"
proof -
  let ?d = "server_block key (stamp env start) (stamp env end) typ max_clients issuer"
  let ?l = "\<lparr>l_len = 48 + length issuer, l_private_key = None, l_inner = Other\<rparr> :: 's license"
  note fields = server_block_fields [OF assms(1-3), of ?l, simplified]
  have times: "get_not_valid_before env ?d = Ok start" "get_not_valid_after env ?d = Ok end"
    unfolding get_not_valid_before_def get_not_valid_after_def block_offsets
    by (simp_all add: fields storable_stamp assms(5,6))
  have "parse_block env ?d False now bounds = Ok (?l, start, end)"
    using assms(1,9) times
    by (cases bounds) (auto simp: parse_block_def license_parse_server [OF assms(1,2), of _ _ _ _ "[]", simplified])
  then have "parse_blocks env (ls_data ls @ ?d) False now (length (ls_data ls)) bounds (ls_blocks ls) = Ok (ls_blocks ls @ [?l])"
    using assms(1,7) by (simp add: parse_blocks.simps)
  then have "licenses_build env now ls (build_server env key start end typ max_clients issuer)
      = Ok \<lparr>ls_data = ls_data ls @ ?d, ls_blocks = ls_blocks ls @ [?l]\<rparr>"
    by (simp add: licenses_build_def build_server_block [OF assms(1,2)] last_bounds_append assms(8) Let_def)
  then show ?thesis
    using times assms(1,4) by (intro exI [of _ ?l] exI [of _ ?d]) (simp add: fields)
qed

section \<open>Properties of TS5 blocks\<close>

lemma ts5_add_property_Ok:
  assumes "ts5_add_property b i typ len data = (Ok (data', off) :: (_, 'e) outcome)"
    and "bb_offset b + 44 \<le> length data"
  shows "off = length data + 3 \<and> len < 254 \<and> length data' = length data + 3 + len \<and>
    (\<forall>k < len. data' ! (length data + 3 + k) = 0) \<and>
    data' ! length data = of_nat len + 2 \<and> data' ! (length data + 1) = i \<and> data' ! (length data + 2) = typ"
proof -
  have small: "len < 254" if "len < 256" "checked_plus (of_nat len :: u8) 2 \<noteq> (Panic :: (_, 'e) outcome)"
    using that by (simp add: checked_plus_def unat_of_nat split: if_splits)
  show ?thesis
    using assms small
    by (auto simp: ts5_add_property_def Let_def and_then_Ok_iff set_index_def checked_plus_def nth_append
        nth_list_update block_offsets split: if_splits)
qed

text \<open>
  A client limit in a TS5 block is not read back: the builder writes the property with the length 6,
  which counts the id and the type and is what servers send, but the reader compares that length with
  the 4 bytes of the number. Whatever else the block holds, the property is reported as malformed.
\<close>

theorem ts5_max_clients_unreadable:
  assumes "bb_typ b = Ts5Server" and "bb_offset b + 44 \<le> length data"
    and "write_max_clients b max_clients data = (Ok data' :: (_, 'e) outcome)"
  shows "read_property (drop (bb_offset b) data') (length data - bb_offset b - 44)
    = (Err (WrongPropertyLength 3 1 4 6) :: (_, 't license_error) outcome)"
proof -
  obtain d off where d: "ts5_add_property b 3 1 4 data = (Ok (d, off) :: (_, 'e) outcome)"
    "copy_at d off (be32 max_clients) = (Ok data' :: (_, 'e) outcome)"
    using assms(1,3) by (auto simp: write_max_clients_def and_then_Ok_iff)
  note p = ts5_add_property_Ok [OF d(1) assms(2)]
  have data': "data' = take (length data + 3) d @ be32 max_clients"
    using d(2) p by (auto simp: copy_at_def split: if_splits)
  define off' where "off' = length data - bb_offset b"
  have "drop (bb_offset b) data' ! (off' + k) = d ! (length data + k)" if "k < 3" for k
  proof -
    have "drop (bb_offset b) data' ! (off' + k) = data' ! (length data + k)"
      using assms(2) p unfolding data' off'_def by (subst nth_drop) (simp_all add: add.commute)
    then show ?thesis using that p unfolding data' by (simp add: nth_append)
  qed
  from this [of 0] this [of 1] this [of 2]
  have at: "drop (bb_offset b) data' ! off' = 6" "drop (bb_offset b) data' ! (off' + 1) = 3"
    "drop (bb_offset b) data' ! (off' + 2) = 1" using p by simp_all
  have len: "off' + 3 \<le> length (drop (bb_offset b) data')" using p assms(2) unfolding data' off'_def by simp
  have "BLOCK_MIN_LEN + 2 + (length data - bb_offset b - 44) = off'"
    using assms(2) by (simp add: off'_def block_offsets)
  then show ?thesis
    using at len unfolding read_property_def by (simp add: Let_def expected_length_def)
qed

text \<open>A TS5 block with a client limit, appended to an empty license.\<close>

definition build_ts5 :: "u32 \<Rightarrow> bytes \<Rightarrow> (bytes, 'e) outcome" where
  "build_ts5 max_clients data =
     and_then (add_block Ts5Server data) (\<lambda>(data, b). write_max_clients b max_clients data)"

lemma build_ts5_bytes:
  "build_ts5 max_clients [1]
    = (Ok (1 # replicate 33 0 @ [8] @ replicate 9 0 @ [1, 6, 3, 1] @ be32 max_clients) :: (_, 'e) outcome)"
proof -
  let ?z = "\<lambda>n. replicate n (0 :: u8)" and ?b = "\<lparr>bb_offset = 1, bb_typ = Ts5Server\<rparr>"
  let ?p = "1 # ?z 33 @ [8] @ ?z 9"
  have "add_block Ts5Server [1] = (Ok (?p @ [0], ?b) :: (_, 'e) outcome)"
    using set_index_mid [of 34 "1 # ?z 33" 0 "?z 10" 8]
    by (simp add: add_block_def block_offsets) (simp add: numeral_eq_Suc)
  moreover have "ts5_add_property ?b 3 1 4 (?p @ [0]) = (Ok (?p @ [1, 6, 3, 1, 0, 0, 0, 0], 48) :: (_, 'e) outcome)"
  proof -
    have "(?p @ [0]) @ ?z 7 = ?p @ [0, 0, 0, 0, 0, 0, 0, 0]" by (simp add: numeral_eq_Suc)
    then show ?thesis
      by (simp add: ts5_add_property_def block_offsets index_def set_index_def nth_append list_update_append
          checked_plus_def del: replicate.simps)
  qed
  moreover have "copy_at (?p @ [1, 6, 3, 1, 0, 0, 0, 0]) 48 (be32 max_clients)
      = (Ok (?p @ [1, 6, 3, 1] @ be32 max_clients) :: (_, 'e) outcome)"
    using copy_at_mid [of "[0, 0, 0, 0]" "be32 max_clients" 48 "?p @ [1, 6, 3, 1]" "[]"] by simp
  ultimately show ?thesis by (simp add: build_ts5_def write_max_clients_def)
qed

lemma ts5_block_cut_off:
  "license_parse (replicate 33 0 @ [8] @ replicate 9 0 @ [1, 6, 3, 1] @ be32 max_clients)
    = Err (LicenseTooShort 6 ''cut off TS5 license property'')"
proof -
  let ?d = "replicate 33 0 @ [8] @ replicate 9 0 @ [1, 6, 3, 1] @ be32 max_clients"
  have "?d ! 33 = 8" "drop 42 ?d = [0, 1, 6, 3, 1] @ be32 max_clients" "?d ! 0 = 0" "length ?d = 51"
    by (simp_all add: nth_append)
  then show ?thesis
    unfolding license_parse_def block_offsets Let_def
    by (simp add: parse_inner_def block_type_from_u8_def block_types_def)
qed

text \<open>
  A TS5 block with a property cannot be the last one: the parser wants a byte after every property,
  so a license that the builder ends with such a block does not parse, although nothing is cut off.
\<close>

theorem ts5_last_property_rejected:
  "licenses_build env now licenses_default (build_ts5 max_clients)
    = Err (LicenseTooShort 6 ''cut off TS5 license property'')"
  by (simp add: licenses_build_def licenses_default_def build_ts5_bytes last_bounds_def parse_blocks.simps
      parse_block_def ts5_block_cut_off [simplified])

section \<open>Examples\<close>

text \<open>Times, points and scalars are integers; a point is compressed to its first byte.\<close>

definition toy_license_env :: "(int, int, int) license_env" where
  "toy_license_env = \<lparr>from_unix_timestamp = Some, unix_timestamp = id, known_license_type = (\<lambda>b. b \<le> 9),
     decompress_point = (\<lambda>d. Some (uint (hd d))), point_add = (+), point_mul = (*), scalar_add = (+),
     scalar_mul = (*), from_bytes_mod_order = (\<lambda>d. uint (d ! 31)), sha512 = (\<lambda>d. replicate 64 1)\<rparr>"

lemma toy_curve_laws [simp]: "curve_laws toy_license_env id"
  by (simp add: curve_laws_def toy_license_env_def)

abbreviation example_key :: bytes where "example_key \<equiv> replicate 32 3"

abbreviation example_block :: bytes where "example_block \<equiv> server_block example_key 5 9 2 100 [65]"

lemma example_license:
  "parse_internal toy_license_env (TIMESTAMP_OFFSET + 7) (1 # example_block) True
    = (Ok \<lparr>ls_data = 1 # example_block, ls_blocks = [\<lparr>l_len = 49, l_private_key = None, l_inner = Other\<rparr>]\<rparr> :: (_, int license_error) outcome)"
proof -
  let ?l = "\<lparr>l_len = 49, l_private_key = None, l_inner = Other\<rparr> :: int license"
  have "get_timestamp toy_license_env example_block 34 = Ok (TIMESTAMP_OFFSET + 5)"
    "get_timestamp toy_license_env example_block 38 = Ok (TIMESTAMP_OFFSET + 9)"
    by (simp_all add: server_block_fields(2,3) [where l = ?l] toy_license_env_def)
  then have "parse_block toy_license_env example_block True (TIMESTAMP_OFFSET + 7) None
      = Ok (?l, TIMESTAMP_OFFSET + 5, TIMESTAMP_OFFSET + 9)"
    by (simp add: parse_block_def license_parse_server [of _ _ _ _ _ _ "[]", simplified]
        get_not_valid_before_def get_not_valid_after_def block_offsets)
  then show ?thesis by (simp add: parse_internal_def parse_blocks.simps)
qed

theorem license_chain_sound_witness:
  "\<exists>start end. get_not_valid_before toy_license_env (take 49 (drop 1 (1 # example_block))) = Ok start \<and>
     get_not_valid_after toy_license_env (take 49 (drop 1 (1 # example_block))) = Ok end \<and>
     start \<le> TIMESTAMP_OFFSET + 7 \<and> TIMESTAMP_OFFSET + 7 \<le> end"
  using license_chain_sound [OF example_license] by auto

theorem license_parser_safe_witness:
  "parse_internal toy_license_env 7 [1] True \<noteq> Panic"
  using license_parser_safe [of toy_license_env 7 "[1]" True] by simp

theorem derived_keys_match_witness:
  "\<exists>k. derive_private_key toy_license_env
       \<lparr>ls_data = 1 # example_block, ls_blocks = [\<lparr>l_len = 49, l_private_key = Some 3, l_inner = Other\<rparr>]\<rparr> 0 6
       = (Ok k :: (_, int license_error) outcome) \<and>
     derive_public_key toy_license_env
       \<lparr>ls_data = 1 # example_block, ls_blocks = [\<lparr>l_len = 49, l_private_key = Some 3, l_inner = Other\<rparr>]\<rparr> [6]
       = (Ok k :: (_, int license_error) outcome)"
proof -
  let ?ls = "\<lparr>ls_data = 1 # example_block, ls_blocks = [\<lparr>l_len = 49, l_private_key = Some 3, l_inner = Other\<rparr>]\<rparr> :: int licenses"
  have "get_public_key toy_license_env example_block = (Ok 3 :: (_, int license_error) outcome)"
    by (simp add: server_block_fields(4) [where l = "hd (ls_blocks ?ls)"] toy_license_env_def hd_replicate)
  moreover have "derive_public_key toy_license_env (?ls\<lparr>ls_blocks := []\<rparr>) [6] = (Ok 6 :: (_, int license_error) outcome)"
    by (simp add: derive_public_key_def toy_license_env_def)
  ultimately show ?thesis
    using derived_keys_match [OF toy_curve_laws, of 0 ?ls "[6]" 6] by (simp add: block_offsets)
qed

theorem server_block_roundtrip_witness:
  "\<exists>l d. licenses_build toy_license_env 0 licenses_default
       (build_server toy_license_env example_key (TIMESTAMP_OFFSET + 5) (TIMESTAMP_OFFSET + 9) 2 100 [65])
       = (Ok \<lparr>ls_data = [1] @ d, ls_blocks = [l]\<rparr> :: (_, int license_error) outcome) \<and>
     get_max_clients l d = (Ok 100 :: (_, int license_error) outcome)"
  using server_block_roundtrip [of example_key "[65]" toy_license_env 2 "TIMESTAMP_OFFSET + 5" "TIMESTAMP_OFFSET + 9"
      licenses_default None 0 100]
  by (auto simp: storable_def licenses_default_def last_bounds_def toy_license_env_def)

theorem ts5_max_clients_unreadable_witness:
  "\<exists>data'. write_max_clients \<lparr>bb_offset = 0, bb_typ = Ts5Server\<rparr> 7 (replicate 44 0) = (Ok data' :: (_, unit) outcome) \<and>
     read_property data' 0 = (Err (WrongPropertyLength 3 1 4 6) :: (_, int license_error) outcome)"
proof -
  let ?b = "\<lparr>bb_offset = 0, bb_typ = Ts5Server\<rparr>"
  obtain data' where w: "write_max_clients ?b 7 (replicate 44 0) = (Ok data' :: (_, unit) outcome)"
    by (simp add: write_max_clients_def ts5_add_property_def Let_def checked_plus_def nth_append block_offsets)
  then show ?thesis
    using ts5_max_clients_unreadable [of ?b "replicate 44 0" 7 data', OF _ _ w] by simp
qed

end
