(* ===== verification/Sliding_Window.thy ===== *)
theory Sliding_Window
  imports Rust_Prelude
begin

text \<open>
  \<open>SlidingWindowMinimum\<close> of \<open>tsclientlib/src/audio.rs\<close>: the minimum of the last \<open>size\<close> values that were
  pushed, kept in a queue of insertion times (which wrap at 256) and values. Its contract is the
  minimum over the history; \<open>Reverse\<close> turns it into a maximum.
\<close>

section \<open>Reversed order\<close>

datatype 'a reversed = Reverse (unreverse: 'a)

instantiation reversed :: (linorder) linorder
begin

definition less_eq_reversed :: "'a reversed \<Rightarrow> 'a reversed \<Rightarrow> bool" where
  "less_eq_reversed a b \<longleftrightarrow> unreverse b \<le> unreverse a"

definition less_reversed :: "'a reversed \<Rightarrow> 'a reversed \<Rightarrow> bool" where
  "less_reversed a b \<longleftrightarrow> unreverse b < unreverse a"

instance
  by standard (auto simp: less_eq_reversed_def less_reversed_def reversed.expand)

end

section \<open>The structure\<close>

record 'a sliding_window =
  sw_size :: u8
  sw_queue :: "(u8 \<times> 'a) list"
  sw_cur_time :: u8

definition sw_new :: "u8 \<Rightarrow> 'a sliding_window" where
  "sw_new len = \<lparr>sw_size = len, sw_queue = [], sw_cur_time = 0\<rparr>"

text \<open>The two loops pop from the back and from the front.\<close>

definition pop_bigger :: "'a::linorder \<Rightarrow> (u8 \<times> 'a) list \<Rightarrow> (u8 \<times> 'a) list" where
  "pop_bigger v q = rev (dropWhile (\<lambda>(_, s). v \<le> s) (rev q))"

definition sw_push :: "'a::linorder \<Rightarrow> 'a sliding_window \<Rightarrow> 'a sliding_window" where
  "sw_push v w =
     (let q = pop_bigger v (sw_queue w) @ [(sw_cur_time w, v)];
          q = dropWhile (\<lambda>(i, _). sw_size w \<le> sw_cur_time w - i) q
      in w\<lparr>sw_queue := q, sw_cur_time := sw_cur_time w + 1\<rparr>)"

text \<open>\<open>unwrap_or_default\<close>: the default is a parameter.\<close>

definition sw_get_min :: "'a \<Rightarrow> 'a sliding_window \<Rightarrow> 'a" where
  "sw_get_min d w = (case sw_queue w of [] \<Rightarrow> d | (_, s) # _ \<Rightarrow> s)"

section \<open>The contract\<close>

text \<open>
  The queue after pushing \<open>xs\<close>, with insertion times that do not wrap: \<open>ts\<close> are the times, strictly
  ascending as are their values; all lie in the window, and every time in the window has one at or
  after it whose value is not bigger.
\<close>

definition window_times :: "nat \<Rightarrow> 'a::linorder list \<Rightarrow> nat list \<Rightarrow> bool" where
  "window_times len xs ts \<longleftrightarrow>
     sorted_wrt (\<lambda>s t. s < t \<and> xs ! s < xs ! t) ts \<and>
     (\<forall>t \<in> set ts. t < length xs \<and> length xs \<le> t + len) \<and>
     (\<forall>s < length xs. length xs \<le> s + len \<longrightarrow> (\<exists>t \<in> set ts. s \<le> t \<and> xs ! t \<le> xs ! s))"

definition window_rel :: "'a::linorder list \<Rightarrow> 'a sliding_window \<Rightarrow> bool" where
  "window_rel xs w \<longleftrightarrow>
     sw_cur_time w = of_nat (length xs) \<and> 0 < sw_size w \<and>
     (\<exists>ts. window_times (unat (sw_size w)) xs ts \<and> sw_queue w = map (\<lambda>t. (of_nat t, xs ! t)) ts)"

lemma window_rel_new: "0 < len \<Longrightarrow> window_rel [] (sw_new len)"
  by (auto simp: window_rel_def sw_new_def window_times_def)

lemma pop_bigger_ascending:
  "sorted_wrt (\<lambda>s t. snd s < snd t) q \<Longrightarrow> pop_bigger v q = filter (\<lambda>(_, s). s < v) q"
proof (induction q rule: rev_induct)
  case (snoc x q)
  then show ?case
    by (cases "v \<le> snd x")
      (auto simp: pop_bigger_def sorted_wrt_append case_prod_unfold not_le intro!: filter_True [symmetric])
qed (simp add: pop_bigger_def)

text \<open>In a list whose front part is what is dropped, \<open>dropWhile\<close> filters.\<close>

lemma dropWhile_ascending:
  "sorted_wrt (<) ts \<Longrightarrow> dropWhile (\<lambda>t. t + n < (m :: nat)) ts = filter (\<lambda>t. m \<le> t + n) ts"
  by (induction ts) (auto simp: not_less intro!: filter_True [symmetric])

lemma window_push:
  assumes "window_times len xs ts" and "0 < len"
  shows "window_times len (xs @ [v])
    (filter (\<lambda>t. length xs + 1 \<le> t + len) (filter (\<lambda>t. xs ! t < v) ts @ [length xs]))"
  (is "window_times _ ?ys ?ts")
proof -
  have old: "\<And>t. t \<in> set ts \<Longrightarrow> t < length xs" using assms(1) by (auto simp: window_times_def)
  have sorted: "sorted_wrt (\<lambda>s t. s < t \<and> xs ! s < xs ! t) ts" using assms(1) by (simp add: window_times_def)
  have "sorted_wrt (\<lambda>s t. s < t \<and> ?ys ! s < ?ys ! t) (filter (\<lambda>t. xs ! t < v) ts @ [length xs])"
    unfolding sorted_wrt_append
    using sorted_wrt_mono_rel [OF _ sorted_wrt_filter [OF sorted], of _ "\<lambda>s t. s < t \<and> ?ys ! s < ?ys ! t"] old
    by (auto simp: nth_append)
  then have 1: "sorted_wrt (\<lambda>s t. s < t \<and> ?ys ! s < ?ys ! t) ?ts" by (rule sorted_wrt_filter)
  have "t < length ?ys" if "t \<in> set ?ts" for t using that old [of t] by (auto split: if_splits)
  then have 2: "\<forall>t \<in> set ?ts. t < length ?ys \<and> length ?ys \<le> t + len" by auto
  have 3: "\<exists>t \<in> set ?ts. s \<le> t \<and> ?ys ! t \<le> ?ys ! s" if s: "s < length ?ys" "length ?ys \<le> s + len" for s
  proof (cases "s = length xs")
    case True
    then show ?thesis using assms(2) by (intro bexI [of _ "length xs"]) auto
  next
    case False
    then have "s < length xs" "length xs \<le> s + len" using s by auto
    then obtain t where t: "t \<in> set ts" "s \<le> t" "xs ! t \<le> xs ! s"
      using assms(1) unfolding window_times_def by blast
    show ?thesis
    proof (cases "xs ! t < v")
      case True
      then show ?thesis using t s old [OF t(1)] by (intro bexI [of _ t]) (auto simp: nth_append)
    next
      case False
      then show ?thesis using t s old [OF t(1)] assms(2)
        by (intro bexI [of _ "length xs"]) (auto simp: nth_append)
    qed
  qed
  show ?thesis unfolding window_times_def using 1 2 3 by blast
qed

lemma wrapped_age:
  assumes "t \<le> n" "n \<le> t + unat (len :: u8)"
  shows "len \<le> of_nat n - of_nat t \<longleftrightarrow> t + unat len < n + 1"
proof -
  have "(of_nat n - of_nat t :: u8) = of_nat (n - t)" using assms(1) by (simp add: of_nat_diff)
  moreover have "n - t < 256" using assms(2) unsigned_less [of len, where 'a = nat] by simp
  ultimately have "unat (of_nat n - of_nat t :: u8) = n - t" by (simp add: unat_of_nat)
  then show ?thesis using assms(1) by (auto simp: word_le_nat_alt)
qed

lemma dropWhile_map_cong:
  "(\<And>x. x \<in> set xs \<Longrightarrow> P (f x) \<longleftrightarrow> Q x) \<Longrightarrow> dropWhile P (map f xs) = map f (dropWhile Q xs)"
  by (induction xs) auto

lemma window_rel_push:
  assumes "window_rel xs w"
  shows "window_rel (xs @ [v]) (sw_push v w)"
proof -
  obtain ts where ts: "window_times (unat (sw_size w)) xs ts" "sw_queue w = map (\<lambda>t. (of_nat t, xs ! t)) ts"
    and cur: "sw_cur_time w = of_nat (length xs)" and len: "0 < sw_size w"
    using assms by (auto simp: window_rel_def)
  have old: "\<And>t. t \<in> set ts \<Longrightarrow> t < length xs \<and> length xs \<le> t + unat (sw_size w)" and
    sorted: "sorted_wrt (\<lambda>s t. s < t \<and> xs ! s < xs ! t) ts"
    using ts(1) by (auto simp: window_times_def)
  let ?new = "filter (\<lambda>t. xs ! t < v) ts @ [length xs]" and ?f = "\<lambda>t. (of_nat t, (xs @ [v]) ! t)"
  have "sorted_wrt (\<lambda>s t. snd s < snd t) (sw_queue w)"
    unfolding ts(2) sorted_wrt_map using sorted_wrt_mono_rel [OF _ sorted] by auto
  then have "pop_bigger v (sw_queue w) = map (\<lambda>t. (of_nat t, xs ! t)) (filter (\<lambda>t. xs ! t < v) ts)"
    by (simp add: pop_bigger_ascending ts(2) filter_map comp_def)
  also have "\<dots> = map ?f (filter (\<lambda>t. xs ! t < v) ts)"
    using old by (auto simp: nth_append)
  finally have q: "pop_bigger v (sw_queue w) @ [(sw_cur_time w, v)] = map ?f ?new"
    by (simp add: cur)
  have "sorted_wrt (<) ts" using sorted_wrt_mono_rel [OF _ sorted] by auto
  then have asc: "sorted_wrt (<) ?new" using old by (auto simp: sorted_wrt_append sorted_wrt_filter)
  have age: "sw_size w \<le> sw_cur_time w - of_nat t \<longleftrightarrow> t + unat (sw_size w) < length xs + 1" if "t \<in> set ?new" for t
    unfolding cur by (rule wrapped_age) (use old [of t] that in auto)
  have "dropWhile (\<lambda>(i, _). sw_size w \<le> sw_cur_time w - i) (map ?f ?new)
      = map ?f (dropWhile (\<lambda>t. t + unat (sw_size w) < length xs + 1) ?new)"
    by (rule dropWhile_map_cong) (simp add: age)
  also have "\<dots> = map ?f (filter (\<lambda>t. length xs + 1 \<le> t + unat (sw_size w)) ?new)"
    by (simp only: dropWhile_ascending [OF asc])
  finally show ?thesis
    using window_push [OF ts(1), of v] len cur
    unfolding window_rel_def sw_push_def q Let_def
    by (auto simp: word_less_nat_alt unat_eq_0 simp del: filter_append
        intro!: exI [of _ "filter (\<lambda>t. length xs + 1 \<le> t + unat (sw_size w)) ?new"])
qed

lemma window_rel_fold: "window_rel xs w \<Longrightarrow> window_rel (xs @ ys) (fold sw_push ys w)"
proof (induction ys arbitrary: xs w)
  case (Cons y ys)
  then show ?case using Cons.IH [OF window_rel_push] by simp
qed simp

text \<open>The values in the window: the last \<open>size\<close> of the history.\<close>

definition window_values :: "u8 \<Rightarrow> 'a list \<Rightarrow> 'a list" where
  "window_values len xs = drop (length xs - unat len) xs"

lemma set_window_values: "set (window_values len xs) = {xs ! s |s. s < length xs \<and> length xs \<le> s + unat len}"
proof -
  have "drop n xs = map ((!) xs) [n..<length xs]" for n
    by (metis add_0 drop_map drop_upt map_nth)
  then have "set (window_values len xs) = (!) xs ` {length xs - unat len..<length xs}"
    by (simp add: window_values_def)
  also have "{length xs - unat len..<length xs} = {s. s < length xs \<and> length xs \<le> s + unat len}" by auto
  finally show ?thesis by auto
qed

lemma window_rel_min:
  assumes "window_rel xs w" and "xs \<noteq> []"
  shows "sw_get_min d w = Min (set (window_values (sw_size w) xs))"
proof -
  obtain ts where ts: "window_times (unat (sw_size w)) xs ts" "sw_queue w = map (\<lambda>t. (of_nat t, xs ! t)) ts"
    and len: "0 < sw_size w"
    using assms(1) by (auto simp: window_rel_def)
  have "length xs - 1 < length xs" "length xs \<le> length xs - 1 + unat (sw_size w)"
    using assms(2) len by (auto simp: word_less_nat_alt)
  then have "ts \<noteq> []" using ts(1) unfolding window_times_def by fastforce
  then obtain t us where t: "ts = t # us" by (cases ts) auto
  have "xs ! t \<le> xs ! s" if "s \<in> set ts" for s
    using that ts(1) by (auto simp: t window_times_def)
  then have low: "xs ! t \<le> xs ! s" if "s < length xs" "length xs \<le> s + unat (sw_size w)" for s
    using that ts(1) unfolding window_times_def by (meson order_trans)
  have "t < length xs" "length xs \<le> t + unat (sw_size w)" using ts(1) by (auto simp: t window_times_def)
  then have "Min (set (window_values (sw_size w) xs)) = xs ! t"
    using low by (intro Min_eqI) (auto simp: set_window_values)
  then show ?thesis by (simp add: sw_get_min_def ts(2) t)
qed

text \<open>
  C32 (the sliding window minimum is the minimum of the window): after any history of pushes, however
  often the 8 bit insertion time has wrapped, the value at the front is the minimum of the last
  \<open>size\<close> values.
\<close>

theorem sliding_window_minimum:
  assumes "0 < len" and "xs \<noteq> []"
  shows "sw_get_min d (fold sw_push xs (sw_new len)) = Min (set (window_values len xs))"
proof -
  have "window_rel xs (fold sw_push xs (sw_new len))"
    using window_rel_fold [OF window_rel_new [OF assms(1)], of xs] by simp
  moreover have "sw_size (fold sw_push ys w) = sw_size w" for ys :: "'a list" and w
    by (induction ys arbitrary: w) (simp_all add: sw_push_def Let_def)
  ultimately show ?thesis using window_rel_min assms(2) by (metis sw_new_def sliding_window.select_convs(1))
qed

theorem sliding_window_minimum_witness:
  "sw_get_min 0 (fold sw_push [5, 1, 4, 7] (sw_new 2)) = (4 :: nat)"
  using sliding_window_minimum [of 2 "[5, 1, 4, 7 :: nat]" 0] by (simp add: window_values_def)

end
