(* ===== verification/Audio_Queue.thy ===== *)
theory Audio_Queue
  imports Sliding_Window Audio_Packets
begin

text \<open>
  Received audio (\<open>tsclientlib/src/audio.rs\<close>): one queue per talking client, which orders the packets,
  decodes them on demand and adapts its length to the jitter, and the handler that mixes all queues.

  The opus library is the parameter \<open>audio_env\<close>: \<open>decode_float data slice fec d\<close> is the number of
  samples per channel or an error, the new content of the output slice and the new decoder state.
  Samples are an abstract type with the operations of the mixer. Spans and log output are left out.
\<close>

section \<open>Data\<close>

record ('d, 'f) audio_env =
  valid_opus :: "bytes \<Rightarrow> bool"
  nb_samples :: "bytes \<Rightarrow> nat option"
  new_decoder :: "'d option"
  signals_ok :: "nat \<Rightarrow> bool"
  decode_float :: "bytes option \<Rightarrow> 'f list \<Rightarrow> bool \<Rightarrow> 'd \<Rightarrow> nat option \<times> 'f list \<times> 'd"
  zero_sample :: 'f
  unit_volume :: 'f
  sample_add :: "'f \<Rightarrow> 'f \<Rightarrow> 'f"
  sample_mul :: "'f \<Rightarrow> 'f \<Rightarrow> 'f"

definition CHANNEL_NUM :: nat where "CHANNEL_NUM = 2"
definition MAX_PACKET_LOSSES :: nat where "MAX_PACKET_LOSSES = 3"
definition LAST_BUFFER_SIZE_COUNT :: u8 where "LAST_BUFFER_SIZE_COUNT = 255"
definition MAX_BUFFER_SIZE :: nat where "MAX_BUFFER_SIZE = 48000 div 2"
definition MAX_BUFFER_PACKETS :: nat where "MAX_BUFFER_PACKETS = 50"
definition MAX_BUFFER_TIME :: nat where "MAX_BUFFER_TIME = 48000 div 2"
definition SPEED_CHANGE_STEPS :: nat where "SPEED_CHANGE_STEPS = 100"
definition USUAL_FRAME_SIZE :: nat where "USUAL_FRAME_SIZE = 48000 div 50"

datatype audio_error =
    CreateDecoder
  | Decode "bytes option"
  | Duplicate u16
  | GetPacketSample
  | QueueFull
  | TooLate u16 u16
  | TooManySamples
  | UnsupportedCodec codec_type

record queue_packet =
  qp_packet :: in_audio
  qp_samples :: nat
  qp_id :: u16

record ('d, 'f) audio_queue =
  aq_decoder :: 'd
  aq_volume :: 'f
  aq_next_id :: u16
  aq_whispering :: bool
  aq_packet_buffer :: "queue_packet list"
  aq_packet_buffer_samples :: nat
  aq_decoded_buffer :: "'f list"
  aq_decoded_pos :: nat
  aq_last_packet_samples :: nat
  aq_packet_loss_num :: nat
  aq_buffering_samples :: nat
  aq_last_buffer_size_min :: "u8 sliding_window"
  aq_last_buffer_size_max :: "u8 reversed sliding_window"
  aq_buffered_for_samples :: nat

type_synonym ('d, 'f, 'a) queue_action = "(('d, 'f) audio_queue, 'a, audio_error) action"

definition payload_of :: "in_audio \<Rightarrow> bytes" where
  "payload_of packet = audio_payload (audio_data packet)"

definition raw_data :: "in_audio \<Rightarrow> bytes" where
  "raw_data packet = ih_data (ip_header (audio_packet packet)) @ ip_content (audio_packet packet)"

fun is_s2c_whisper :: "audio_data \<Rightarrow> bool" where
  "is_s2c_whisper (AudioS2CWhisper _ _ _ _) = True"
| "is_s2c_whisper _ = False"

section \<open>Statistics of the buffer size\<close>

definition add_buffer_size :: "nat \<Rightarrow> ('d, 'f) audio_queue \<Rightarrow> ('d, 'f) audio_queue" where
  "add_buffer_size n q =
     (let frames = n div USUAL_FRAME_SIZE in
      if frames < 256 then
        q\<lparr>aq_last_buffer_size_min := sw_push (of_nat frames) (aq_last_buffer_size_min q),
          aq_last_buffer_size_max := sw_push (Reverse (of_nat frames)) (aq_last_buffer_size_max q)\<rparr>
      else q)"

definition min_buffer_size :: "('d, 'f) audio_queue \<Rightarrow> u8" where
  "min_buffer_size q = sw_get_min 0 (aq_last_buffer_size_min q)"

definition get_deviation :: "('d, 'f) audio_queue \<Rightarrow> (u8, 'e) outcome" where
  "get_deviation q =
     checked_minus (unreverse (sw_get_min (Reverse 0) (aq_last_buffer_size_max q))) (min_buffer_size q)"

section \<open>Adding a packet\<close>

definition opus_samples :: "('d, 'f) audio_env \<Rightarrow> bytes \<Rightarrow> (nat, audio_error) outcome" where
  "opus_samples env d =
     (if \<not> valid_opus env d then Err GetPacketSample
      else and_then (ok_or GetPacketSample (nb_samples env d)) (\<lambda>n.
        if MAX_BUFFER_SIZE < n then Err TooManySamples else Ok n))"

text \<open>At most one byte is the end of the stream.\<close>

definition packet_samples :: "('d, 'f) audio_env \<Rightarrow> bytes \<Rightarrow> (nat, audio_error) outcome" where
  "packet_samples env d = (if length d \<le> 1 then Ok 0 else opus_samples env d)"

text \<open>The first spot where the id is smaller, searched from the back; ids are compared as distances.\<close>

definition insert_position :: "u16 \<Rightarrow> queue_packet list \<Rightarrow> nat" where
  "insert_position i ps =
     length ps - length (takeWhile (\<lambda>p. qp_id p - i \<le> of_nat MAX_BUFFER_PACKETS) (rev ps))"

definition buffering_after ::
  "nat \<Rightarrow> u16 \<Rightarrow> ('d, 'f) audio_queue \<Rightarrow> nat" where
  "buffering_after samples i q =
     (let last_id = (if aq_packet_buffer q = [] then i else qp_id (last (aq_packet_buffer q)) + 1) in
      if last_id \<le> i
      then aq_buffering_samples q - samples - unat (i - last_id) * aq_last_packet_samples q
      else aq_buffering_samples q)"

definition add_packet :: "('d, 'f) audio_env \<Rightarrow> in_audio \<Rightarrow> ('d, 'f, unit) queue_action" where
  "add_packet env packet =
     act_then (act_read id) (\<lambda>q.
     if MAX_BUFFER_PACKETS \<le> length (aq_packet_buffer q) then act_fail QueueFull
     else
       act_then (act_lift (packet_samples env (payload_of packet))) (\<lambda>samples.
       let i = audio_id (audio_data packet) in
       if of_nat MAX_BUFFER_PACKETS < i - aq_next_id q then act_fail (TooLate (aq_next_id q) i)
       else
         (let at = insert_position i (aq_packet_buffer q) in
          if at < length (aq_packet_buffer q) \<and> qp_id (aq_packet_buffer q ! at) = i then act_fail (Duplicate i)
          else
            act_modify (\<lambda>q. q
              \<lparr>aq_buffering_samples := buffering_after samples i q,
               aq_packet_buffer_samples := aq_packet_buffer_samples q + samples,
               aq_packet_buffer := take at (aq_packet_buffer q)
                 @ \<lparr>qp_packet = packet, qp_samples = samples, qp_id = i\<rparr> # drop at (aq_packet_buffer q)\<rparr>))))"

definition empty_queue :: "('d, 'f) audio_env \<Rightarrow> in_audio \<Rightarrow> nat \<Rightarrow> 'd \<Rightarrow> ('d, 'f) audio_queue" where
  "empty_queue env packet n d =
     \<lparr>aq_decoder = d, aq_volume = unit_volume env, aq_next_id = audio_id (audio_data packet),
      aq_whispering = is_s2c_whisper (audio_data packet), aq_packet_buffer = [],
      aq_packet_buffer_samples = 0, aq_decoded_buffer = [], aq_decoded_pos = 0,
      aq_last_packet_samples = n * CHANNEL_NUM, aq_packet_loss_num = 0, aq_buffering_samples = 0,
      aq_last_buffer_size_min = sw_new LAST_BUFFER_SIZE_COUNT,
      aq_last_buffer_size_max = sw_new LAST_BUFFER_SIZE_COUNT, aq_buffered_for_samples = 0\<rparr>"

definition audio_queue_new ::
  "('d, 'f) audio_env \<Rightarrow> in_audio \<Rightarrow> (('d, 'f) audio_queue, audio_error) outcome" where
  "audio_queue_new env packet =
     and_then (opus_samples env (payload_of packet)) (\<lambda>n.
     and_then (ok_or CreateDecoder (new_decoder env)) (\<lambda>d.
     let (r, q) = add_packet env packet (add_buffer_size 0 (empty_queue env packet n d))
     in and_then r (\<lambda>_. Ok q)))"

section \<open>Decoding\<close>

text \<open>
  The buffer is extended before the decoder runs and is cut to what it returned afterwards; an error
  leaves it extended. The counter of losses counts every attempt until a packet was decoded.
\<close>

definition run_decoder ::
  "('d, 'f) audio_env \<Rightarrow> bytes option \<Rightarrow> bytes option \<Rightarrow> nat \<Rightarrow> bool \<Rightarrow> ('d, 'f, unit) queue_action" where
  "run_decoder env packet_data raw len fec q =
     (let orig = aq_decoded_buffer q;
          slice = replicate (len * CHANNEL_NUM) (zero_sample env)
      in if \<not> signals_ok env (length slice) then (Err GetPacketSample, q\<lparr>aq_decoded_buffer := orig @ slice\<rparr>)
         else
           (case decode_float env packet_data slice fec (aq_decoder q) of
              (None, slice, d) \<Rightarrow> (Err (Decode raw), q\<lparr>aq_decoder := d, aq_decoded_buffer := orig @ slice\<rparr>)
            | (Some n, slice, d) \<Rightarrow>
                (Ok (), q\<lparr>aq_decoder := d, aq_last_packet_samples := n,
                          aq_decoded_buffer := take (length orig + n * CHANNEL_NUM) (orig @ slice)\<rparr>)))"

text \<open>The samples that are buffered, and those of the packets that are missing in between.\<close>

definition buffered_count :: "('d, 'f) audio_queue \<Rightarrow> (nat, 'e) outcome" where
  "buffered_count q =
     (if aq_packet_buffer q = [] then Ok (aq_packet_buffer_samples q)
      else
        and_then (usize_sub (unat (qp_id (last (aq_packet_buffer q)) - aq_next_id q) + 1) (length (aq_packet_buffer q)))
          (\<lambda>lost. Ok (aq_packet_buffer_samples q + lost * aq_last_packet_samples q)))"

definition decode_packet ::
  "('d, 'f) audio_env \<Rightarrow> queue_packet option \<Rightarrow> bool \<Rightarrow> ('d, 'f, unit) queue_action" where
  "decode_packet env packet fec =
     act_then
       (case packet of
          Some p \<Rightarrow>
            if \<not> valid_opus env (payload_of (qp_packet p)) then act_fail GetPacketSample
            else act_modify (aq_whispering_update (\<lambda>_. is_s2c_whisper (audio_data (qp_packet p))))
        | None \<Rightarrow> act_return ()) (\<lambda>_.
     act_then (act_modify (aq_packet_loss_num_update (\<lambda>n. n + 1))) (\<lambda>_.
     act_then (act_read aq_last_packet_samples) (\<lambda>last_samples.
     act_then
       (run_decoder env (map_option (\<lambda>p. payload_of (qp_packet p)) packet)
         (map_option (\<lambda>p. raw_data (qp_packet p)) packet)
         (case packet of Some p \<Rightarrow> qp_samples p | None \<Rightarrow> last_samples) fec) (\<lambda>_.
     act_then (if packet \<noteq> None \<and> \<not> fec then act_modify (aq_packet_loss_num_update (\<lambda>_. 0)) else act_return ()) (\<lambda>_.
     act_then (act_read buffered_count) (\<lambda>r.
     act_then (act_lift r) (\<lambda>count.
     act_modify (add_buffer_size count))))))))"

section \<open>Fetching data\<close>

datatype turn = EndOfStream | Decoded

text \<open>
  One packet: a packet that is not the next one is put back, and the gap is filled by the decoder, with
  the data of the packet when it comes right after. The assertion is checked in debug builds.
\<close>

definition decode_next :: "('d, 'f) audio_env \<Rightarrow> ('d, 'f, turn) queue_action" where
  "decode_next env =
     act_then (act_read aq_packet_buffer) (\<lambda>ps.
     case ps of
       [] \<Rightarrow> act_then (decode_packet env None False) (\<lambda>_. act_return Decoded)
     | p # ps \<Rightarrow>
         act_then (act_modify (aq_packet_buffer_update (\<lambda>_. ps))) (\<lambda>_.
         if length (payload_of (qp_packet p)) \<le> 1 then act_return EndOfStream
         else
           act_then (act_read id) (\<lambda>q.
           act_then (act_lift (usize_sub (aq_packet_buffer_samples q) (qp_samples p))) (\<lambda>samples.
           let cur_id = aq_next_id q in
           act_then (act_modify (\<lambda>q. q\<lparr>aq_packet_buffer_samples := samples, aq_next_id := cur_id + 1\<rparr>)) (\<lambda>_.
           if qp_id p \<noteq> cur_id then
             (if \<not> qp_id p - cur_id < of_nat MAX_BUFFER_PACKETS then act_lift Panic
              else
                act_then
                  (if qp_id p = cur_id + 1 then decode_packet env (Some p) True else decode_packet env None False) (\<lambda>_.
                act_then (act_modify (\<lambda>q. q\<lparr>aq_packet_buffer_samples := aq_packet_buffer_samples q + qp_samples p,
                    aq_packet_buffer := p # aq_packet_buffer q\<rparr>)) (\<lambda>_.
                act_return Decoded)))
           else act_then (decode_packet env (Some p) False) (\<lambda>_. act_return Decoded))))))"

text \<open>How many packets from the back have fewer samples than the limit.\<close>

fun keep_count :: "nat \<Rightarrow> nat \<Rightarrow> queue_packet list \<Rightarrow> nat" where
  "keep_count limit acc [] = 0"
| "keep_count limit acc (p # ps) =
     (let acc = acc + qp_samples p in if acc < limit then Suc (keep_count limit acc ps) else 0)"

definition truncate_queue :: "u8 \<Rightarrow> ('d, 'f) audio_queue \<Rightarrow> ('d, 'f) audio_queue" where
  "truncate_queue mn q =
     (let keep = keep_count (unat mn + USUAL_FRAME_SIZE) 0 (rev (aq_packet_buffer q));
          ps = drop (length (aq_packet_buffer q) - keep) (aq_packet_buffer q)
      in q\<lparr>aq_packet_buffer := ps, aq_packet_buffer_samples := sum_list (map qp_samples ps),
           aq_next_id := (case ps of [] \<Rightarrow> aq_next_id q | p # _ \<Rightarrow> qp_id p)\<rparr>)"

text \<open>\<open>drain(a..b)\<close>, and the loop that removes one sample of every hundred.\<close>

definition drain :: "'a list \<Rightarrow> nat \<Rightarrow> nat \<Rightarrow> ('a list, 'e) outcome" where
  "drain xs a b = (if a \<le> b \<and> b \<le> length xs then Ok (take a xs @ drop b xs) else Panic)"

fun speed_up :: "nat \<Rightarrow> nat list \<Rightarrow> 'f list \<Rightarrow> ('f list, 'e) outcome" where
  "speed_up start [] buf = Ok buf"
| "speed_up start (i # is) buf =
     (let at = start + i * (SPEED_CHANGE_STEPS - 1) * CHANNEL_NUM in
      and_then (drain buf at (at + CHANNEL_NUM)) (speed_up start is))"

definition adjust_speed :: "('d, 'f, unit) queue_action" where
  "adjust_speed =
     act_then (act_read id) (\<lambda>q.
     let mn = min_buffer_size q in
     act_then (act_lift (get_deviation q)) (\<lambda>dev.
     if of_nat (MAX_BUFFER_SIZE div USUAL_FRAME_SIZE) < mn then act_modify (truncate_queue mn)
     else if dev < mn then
       act_then (act_lift (usize_sub (length (aq_decoded_buffer q)) (aq_last_packet_samples q * CHANNEL_NUM))) (\<lambda>start.
       act_then (act_lift (speed_up start [0..<aq_last_packet_samples q div SPEED_CHANGE_STEPS] (aq_decoded_buffer q))) (\<lambda>buf.
       act_modify (aq_decoded_buffer_update (\<lambda>_. buf))))
     else act_return ()))"

text \<open>The loop; it ends with whether the stream ended.\<close>

partial_function (option) decode_loop ::
  "('d, 'f) audio_env \<Rightarrow> nat \<Rightarrow> ('d, 'f) audio_queue \<Rightarrow> ((turn, audio_error) outcome \<times> ('d, 'f) audio_queue) option" where
  "decode_loop env len q =
     (if length (aq_decoded_buffer q) < len then
        (case decode_next env q of
           (Ok EndOfStream, q) \<Rightarrow> Some (Ok EndOfStream, q)
         | (Ok Decoded, q) \<Rightarrow>
             if aq_last_packet_samples q = 0 then Some (Ok Decoded, q)
             else
               (case adjust_speed q of
                  (Ok _, q) \<Rightarrow> decode_loop env len q
                | (Err e, q) \<Rightarrow> Some (Err e, q)
                | (Panic, q) \<Rightarrow> Some (Panic, q))
         | (Err e, q) \<Rightarrow> Some (Err e, q)
         | (Panic, q) \<Rightarrow> Some (Panic, q))
      else Some (Ok Decoded, q))"

declare decode_loop.simps [code]

definition fetch_data ::
  "('d, 'f) audio_env \<Rightarrow> nat \<Rightarrow> ('d, 'f) audio_queue
     \<Rightarrow> (('f list \<times> bool, audio_error) outcome \<times> ('d, 'f) audio_queue) option" where
  "fetch_data env len q =
     (if aq_decoded_pos q \<le> length (aq_decoded_buffer q) then
        (case decode_loop env len (q\<lparr>aq_decoded_buffer := drop (aq_decoded_pos q) (aq_decoded_buffer q)\<rparr>) of
           None \<Rightarrow> None
         | Some (Ok EndOfStream, q) \<Rightarrow> Some (Ok (aq_decoded_buffer q, True), q)
         | Some (Ok Decoded, q) \<Rightarrow>
             (let q = q\<lparr>aq_decoded_pos := len\<rparr> in
              Some (and_then (slice_to (aq_decoded_buffer q) len) (\<lambda>d. Ok (d, False)), q))
         | Some (Err e, q) \<Rightarrow> Some (Err e, q)
         | Some (Panic, q) \<Rightarrow> Some (Panic, q))
      else Some (Panic, q))"

definition get_next_data ::
  "('d, 'f) audio_env \<Rightarrow> nat \<Rightarrow> ('d, 'f) audio_queue
     \<Rightarrow> (('f list \<times> bool, audio_error) outcome \<times> ('d, 'f) audio_queue) option" where
  "get_next_data env len q =
     (if 0 < aq_buffering_samples q then
        (if MAX_BUFFER_TIME \<le> aq_buffered_for_samples q
         then fetch_data env len (q\<lparr>aq_buffering_samples := 0, aq_buffered_for_samples := 0\<rparr>)
         else Some (Ok ([], False), q\<lparr>aq_buffered_for_samples := aq_buffered_for_samples q + len\<rparr>))
      else fetch_data env len q)"

section \<open>The handler\<close>

text \<open>The queues in the order in which the hash map iterates; no theorem depends on it.\<close>

record ('i, 'd, 'f) audio_handler =
  ah_queues :: "('i \<times> ('d, 'f) audio_queue) list"
  ah_avg_buffer_samples :: nat

definition audio_handler_default :: "('i, 'd, 'f) audio_handler" where
  "audio_handler_default = \<lparr>ah_queues = [], ah_avg_buffer_samples = 0\<rparr>"

definition audio_reset :: "('i, 'd, 'f) audio_handler \<Rightarrow> ('i, 'd, 'f) audio_handler" where
  "audio_reset h = h\<lparr>ah_queues := []\<rparr>"

text \<open>\<open>for i in 0..r.len() { buf[i] += r[i] * vol }\<close>: out of range when \<open>r\<close> is longer than the buffer.\<close>

definition mix_into :: "('d, 'f) audio_env \<Rightarrow> 'f \<Rightarrow> 'f list \<Rightarrow> 'f list \<Rightarrow> ('f list, 'e) outcome" where
  "mix_into env vol r buf =
     (if length r \<le> length buf
      then Ok (map2 (\<lambda>b x. sample_add env b (sample_mul env x vol)) (take (length r) buf) r @ drop (length r) buf)
      else Panic)"

text \<open>
  The loop over the queues: the queues after it, the buffer, what the preprocessor was called with, and
  the clients to remove. An error of a queue is only logged.
\<close>

fun fill_queues ::
  "('d, 'f) audio_env \<Rightarrow> ('i \<times> ('d, 'f) audio_queue) list \<Rightarrow> 'f list
     \<Rightarrow> (('i \<times> ('d, 'f) audio_queue) list \<times> 'f list \<times> ('i \<times> 'f list) list \<times> 'i list, audio_error) outcome option" where
  "fill_queues env [] buf = Some (Ok ([], buf, [], []))"
| "fill_queues env ((i, q) # qs) buf =
     (let rest = (\<lambda>q buf calls removed.
        map_option (\<lambda>r. and_then r (\<lambda>(qs, buf, calls', removed').
          Ok ((i, q) # qs, buf, calls @ calls', removed @ removed'))) (fill_queues env qs buf))
      in if MAX_PACKET_LOSSES \<le> aq_packet_loss_num q then rest q buf [] [i]
         else
           (case get_next_data env (length buf) q of
              None \<Rightarrow> None
            | Some (Err e, q) \<Rightarrow> rest q buf [] []
            | Some (Panic, q) \<Rightarrow> Some Panic
            | Some (Ok (r, is_end), q') \<Rightarrow>
                (case mix_into env (aq_volume q) r buf of
                   Ok buf \<Rightarrow> rest q' buf [(i, r)] (if is_end then [i] else [])
                 | Err e \<Rightarrow> Some (Err e)
                 | Panic \<Rightarrow> Some Panic)))"

definition fill_buffer_with_proc ::
  "('d, 'f) audio_env \<Rightarrow> 'f list \<Rightarrow> ('i, 'd, 'f) audio_handler
     \<Rightarrow> ('f list \<times> ('i \<times> 'f list) list \<times> 'i list \<times> ('i, 'd, 'f) audio_handler, audio_error) outcome option" where
  "fill_buffer_with_proc env buf h =
     map_option (\<lambda>r. and_then r (\<lambda>(qs, buf, calls, to_remove).
       Ok (buf, calls, to_remove, h\<lparr>ah_queues := filter (\<lambda>(i, _). i \<notin> set to_remove) qs\<rparr>)))
       (fill_queues env (ah_queues h) buf)"

definition fill_buffer ::
  "('d, 'f) audio_env \<Rightarrow> 'f list \<Rightarrow> ('i, 'd, 'f) audio_handler
     \<Rightarrow> ('f list \<times> 'i list \<times> ('i, 'd, 'f) audio_handler, audio_error) outcome option" where
  "fill_buffer env buf h =
     map_option (map_ok (\<lambda>(buf, calls, to_remove, h). (buf, to_remove, h))) (fill_buffer_with_proc env buf h)"

definition handle_packet ::
  "('d, 'f) audio_env \<Rightarrow> 'i \<Rightarrow> in_audio \<Rightarrow> (('i, 'd, 'f) audio_handler, 'i option, audio_error) action" where
  "handle_packet env i packet h =
     (let codec = audio_codec (audio_data packet) in
      if codec \<noteq> OpusMusic \<and> codec \<noteq> OpusVoice then (Err (UnsupportedCodec codec), h)
      else
        (case map_of (ah_queues h) i of
           Some q \<Rightarrow>
             (case add_packet env packet q of
                (r, q) \<Rightarrow> (map_ok (\<lambda>_. None) r, h\<lparr>ah_queues := map (\<lambda>(j, x). (j, if j = i then q else x)) (ah_queues h)\<rparr>))
         | None \<Rightarrow>
             if length (payload_of packet) \<le> 1 then (Ok None, h)
             else
               (case audio_queue_new env packet of
                  Ok q \<Rightarrow>
                    (let avg = (if ah_queues h \<noteq> []
                       then USUAL_FRAME_SIZE
                         + sum_list (map (\<lambda>(_, q). unat (min_buffer_size q)) (ah_queues h)) div length (ah_queues h)
                       else ah_avg_buffer_samples h)
                     in (Ok (Some i),
                         h\<lparr>ah_avg_buffer_samples := avg,
                           ah_queues := ah_queues h @ [(i, q\<lparr>aq_buffering_samples := avg\<rparr>)]\<rparr>))
                | Err e \<Rightarrow> (Err e, h)
                | Panic \<Rightarrow> (Panic, h))))"

end
