(* ===== verification/Audio_Props.thy ===== *)
theory Audio_Props
  imports Audio_Queue "HOL-Library.Multiset"
begin

text \<open>
  The invariant of an audio queue (packets strictly ordered by their distance from the next id, samples
  counted, buffer statistics that have seen the same values), that every operation keeps it, what
  adding a packet does, and that fetching data ends with the requested length. Two ways in which the
  code panics after a packet it has accepted.
\<close>

section \<open>The invariant\<close>

definition dist :: "u16 \<Rightarrow> queue_packet \<Rightarrow> nat" where
  "dist next p = unat (qp_id p - next)"

definition packets_inv :: "u16 \<Rightarrow> queue_packet list \<Rightarrow> bool" where
  "packets_inv next ps \<longleftrightarrow>
     sorted_wrt (\<lambda>p p'. dist next p < dist next p') ps \<and> (\<forall>p \<in> set ps. dist next p \<le> MAX_BUFFER_PACKETS)"

definition sizes_inv :: "('d, 'f) audio_queue \<Rightarrow> bool" where
  "sizes_inv q \<longleftrightarrow> (\<exists>hist. hist \<noteq> [] \<and> window_rel hist (aq_last_buffer_size_min q) \<and>
     window_rel (map Reverse hist) (aq_last_buffer_size_max q) \<and>
     sw_size (aq_last_buffer_size_min q) = LAST_BUFFER_SIZE_COUNT \<and>
     sw_size (aq_last_buffer_size_max q) = LAST_BUFFER_SIZE_COUNT)"

text \<open>The end of a stream has no samples.\<close>

definition packet_ok :: "queue_packet \<Rightarrow> bool" where
  "packet_ok p \<longleftrightarrow> (length (payload_of (qp_packet p)) \<le> 1 \<longrightarrow> qp_samples p = 0)"

lemma sizes_inv_simps [simp]:
  "sizes_inv (q\<lparr>aq_packet_buffer := ps\<rparr>) = sizes_inv q" "sizes_inv (q\<lparr>aq_packet_buffer_samples := n\<rparr>) = sizes_inv q"
  "sizes_inv (q\<lparr>aq_decoded_buffer := d\<rparr>) = sizes_inv q" "sizes_inv (q\<lparr>aq_decoded_pos := n\<rparr>) = sizes_inv q"
  "sizes_inv (q\<lparr>aq_next_id := i\<rparr>) = sizes_inv q" "sizes_inv (q\<lparr>aq_buffering_samples := n\<rparr>) = sizes_inv q"
  "sizes_inv (q\<lparr>aq_buffered_for_samples := n\<rparr>) = sizes_inv q"
  by (simp_all add: sizes_inv_def)

definition queue_inv :: "('d, 'f) audio_queue \<Rightarrow> bool" where
  "queue_inv q \<longleftrightarrow>
     packets_inv (aq_next_id q) (aq_packet_buffer q) \<and> length (aq_packet_buffer q) \<le> MAX_BUFFER_PACKETS \<and>
     aq_packet_buffer_samples q = sum_list (map qp_samples (aq_packet_buffer q)) \<and>
     (\<forall>p \<in> set (aq_packet_buffer q). packet_ok p) \<and> sizes_inv q"

lemma packets_inv_Nil [simp]: "packets_inv n []"
  by (simp add: packets_inv_def)

lemma packets_inv_Cons:
  "packets_inv n (p # ps) \<longleftrightarrow> dist n p \<le> MAX_BUFFER_PACKETS \<and> (\<forall>p' \<in> set ps. dist n p < dist n p') \<and> packets_inv n ps"
  by (auto simp: packets_inv_def)

text \<open>Distances after the next id moves by one, past an id that is not in the queue.\<close>

lemma dist_next: "dist n p \<noteq> 0 \<Longrightarrow> dist (n + 1) p = dist n p - 1"
proof -
  assume "dist n p \<noteq> 0"
  then have "qp_id p - n \<noteq> 0" by (auto simp: dist_def)
  moreover have "qp_id p - (n + 1) = (qp_id p - n) - 1" by simp
  ultimately show ?thesis unfolding dist_def using unat_minus_one by metis
qed

lemma packets_inv_next:
  assumes "packets_inv n ps" and "\<forall>p \<in> set ps. dist n p \<noteq> 0"
  shows "packets_inv (n + 1) ps"
proof -
  have "sorted_wrt (\<lambda>p p'. dist (n + 1) p < dist (n + 1) p') ps"
  proof (rule sorted_wrt_mono_rel)
    show "sorted_wrt (\<lambda>p p'. dist n p < dist n p') ps" using assms(1) by (simp add: packets_inv_def)
    fix p p' assume "p \<in> set ps" "p' \<in> set ps" "dist n p < dist n p'"
    moreover from this have "dist n p \<noteq> 0" "dist n p' \<noteq> 0" using assms(2) by blast+
    ultimately show "dist (n + 1) p < dist (n + 1) p'" unfolding dist_next [OF \<open>dist n p \<noteq> 0\<close>]
        dist_next [OF \<open>dist n p' \<noteq> 0\<close>] by linarith
  qed
  then show ?thesis using assms by (fastforce simp: packets_inv_def dist_next)
qed

lemma dist_front:
  assumes "packets_inv n (p # ps)"
  shows "\<forall>p' \<in> set ps. dist n p' \<noteq> 0" "qp_id p \<noteq> n \<Longrightarrow> dist n p \<noteq> 0"
  using assms by (auto simp: packets_inv_Cons dist_def unat_eq_0)

text \<open>The truncation moves the next id to the first packet that stays.\<close>

lemma dist_move:
  assumes "dist n p \<le> dist n p'"
  shows "dist (qp_id p) p' = dist n p' - dist n p"
proof -
  have "(qp_id p' - qp_id p) = (qp_id p' - n) - (qp_id p - n)" by simp
  moreover have "qp_id p - n \<le> qp_id p' - n" using assms by (simp add: dist_def word_le_nat_alt)
  ultimately show ?thesis by (simp only: dist_def unat_sub)
qed

lemma packets_inv_drop: "packets_inv n ps \<Longrightarrow> packets_inv n (drop k ps)"
  by (auto simp: packets_inv_def sorted_wrt_drop dest: in_set_dropD)

lemma packets_inv_move:
  assumes "packets_inv n (p # ps)"
  shows "packets_inv (qp_id p) (p # ps)"
proof -
  have le: "dist n p \<le> dist n p'" if "p' \<in> set (p # ps)" for p'
    using assms that by (auto simp: packets_inv_Cons)
  have "sorted_wrt (\<lambda>a b. dist n a < dist n b) (p # ps)" using assms by (simp add: packets_inv_def)
  then have "sorted_wrt (\<lambda>a b. dist (qp_id p) a < dist (qp_id p) b) (p # ps)"
  proof (rule sorted_wrt_mono_rel [rotated])
    fix a b assume "a \<in> set (p # ps)" "b \<in> set (p # ps)" "dist n a < dist n b"
    moreover from this have "dist n p \<le> dist n a" "dist n p \<le> dist n b" using le by blast+
    ultimately show "dist (qp_id p) a < dist (qp_id p) b"
      unfolding dist_move [OF \<open>dist n p \<le> dist n a\<close>] dist_move [OF \<open>dist n p \<le> dist n b\<close>] by linarith
  qed
  then show ?thesis using assms le by (fastforce simp: packets_inv_def dist_move)
qed

text \<open>A queue is not longer than the range of its distances.\<close>

lemma packets_inv_length: "packets_inv n ps \<Longrightarrow> \<forall>p \<in> set ps. k \<le> dist n p \<Longrightarrow> ps \<noteq> [] \<Longrightarrow> length ps + k \<le> dist n (last ps) + 1"
proof (induction ps arbitrary: k)
  case (Cons p ps)
  show ?case
  proof (cases "ps = []")
    case False
    have "\<forall>p' \<in> set ps. k + 1 \<le> dist n p'" using Cons.prems(1,2) by (fastforce simp: packets_inv_Cons)
    then show ?thesis using Cons.IH [of "k + 1"] Cons.prems(1) False by (simp add: packets_inv_Cons)
  qed (use Cons.prems in simp)
qed simp

section \<open>Statistics\<close>

lemma sw_size_push [simp]: "sw_size (sw_push v w) = sw_size w"
  by (simp add: sw_push_def Let_def)

lemma add_buffer_size_simps [simp]:
  "aq_packet_buffer (add_buffer_size n q) = aq_packet_buffer q" "aq_next_id (add_buffer_size n q) = aq_next_id q"
  "aq_packet_buffer_samples (add_buffer_size n q) = aq_packet_buffer_samples q"
  "aq_decoded_buffer (add_buffer_size n q) = aq_decoded_buffer q" "aq_decoded_pos (add_buffer_size n q) = aq_decoded_pos q"
  "aq_last_packet_samples (add_buffer_size n q) = aq_last_packet_samples q"
  "aq_buffering_samples (add_buffer_size n q) = aq_buffering_samples q"
  by (simp_all add: add_buffer_size_def Let_def)

lemma sizes_inv_add: "sizes_inv q \<Longrightarrow> sizes_inv (add_buffer_size n q)"
proof -
  assume "sizes_inv q"
  then obtain hist where h: "hist \<noteq> []" "window_rel hist (aq_last_buffer_size_min q)"
    "window_rel (map Reverse hist) (aq_last_buffer_size_max q)"
    "sw_size (aq_last_buffer_size_min q) = LAST_BUFFER_SIZE_COUNT" "sw_size (aq_last_buffer_size_max q) = LAST_BUFFER_SIZE_COUNT"
    by (auto simp: sizes_inv_def)
  let ?v = "of_nat (n div USUAL_FRAME_SIZE) :: u8"
  have "window_rel (hist @ [?v]) (sw_push ?v (aq_last_buffer_size_min q))"
    "window_rel (map Reverse (hist @ [?v])) (sw_push (Reverse ?v) (aq_last_buffer_size_max q))"
    using window_rel_push [OF h(2)] window_rel_push [OF h(3)] by simp_all
  then show ?thesis
    using h unfolding sizes_inv_def add_buffer_size_def Let_def
    by (cases "n div USUAL_FRAME_SIZE < 256") (rule exI [of _ "hist @ [?v]"], simp, rule exI [of _ hist], simp)
qed

lemma sizes_inv_first:
  assumes "aq_last_buffer_size_min q = sw_new LAST_BUFFER_SIZE_COUNT" "aq_last_buffer_size_max q = sw_new LAST_BUFFER_SIZE_COUNT"
  shows "sizes_inv (add_buffer_size 0 q)"
proof -
  have new: "window_rel [] (sw_new LAST_BUFFER_SIZE_COUNT)" by (rule window_rel_new) (simp add: LAST_BUFFER_SIZE_COUNT_def)
  show ?thesis
    using window_rel_push [OF new, of "0 :: u8"] window_rel_push [OF new, of "Reverse (0 :: u8)"] assms
    by (auto simp: sizes_inv_def add_buffer_size_def Let_def sw_new_def intro!: exI [of _ "[0]"])
qed

lemma Max_Min_Reverse:
  assumes "finite A" "A \<noteq> {}"
  shows "unreverse (Min (Reverse ` A)) = Max (A :: 'a::linorder set)"
proof -
  have "Min (Reverse ` A) = Reverse (Max A)"
    using assms by (intro Min_eqI) (auto simp: less_eq_reversed_def)
  then show ?thesis by simp
qed

text \<open>The deviation is the spread of the window, so the subtraction does not underflow.\<close>

lemma get_deviation_Ok:
  assumes "sizes_inv q"
  shows "\<exists>dev. get_deviation q = Ok dev"
proof -
  obtain hist where h: "hist \<noteq> []" "window_rel hist (aq_last_buffer_size_min q)"
    "window_rel (map Reverse hist) (aq_last_buffer_size_max q)"
    "sw_size (aq_last_buffer_size_min q) = LAST_BUFFER_SIZE_COUNT" "sw_size (aq_last_buffer_size_max q) = LAST_BUFFER_SIZE_COUNT"
    using assms by (auto simp: sizes_inv_def)
  let ?A = "set (window_values LAST_BUFFER_SIZE_COUNT hist)"
  have A: "finite ?A" "?A \<noteq> {}" using h(1) by (cases hist; simp add: window_values_def LAST_BUFFER_SIZE_COUNT_def)+
  have "set (window_values LAST_BUFFER_SIZE_COUNT (map Reverse hist)) = Reverse ` ?A"
    by (simp add: window_values_def drop_map)
  then have "min_buffer_size q = Min ?A" "unreverse (sw_get_min (Reverse 0) (aq_last_buffer_size_max q)) = Max ?A"
    using window_rel_min [OF h(2,1)] window_rel_min [OF h(3)] h(1,4,5) Max_Min_Reverse [OF A]
    by (simp_all add: min_buffer_size_def)
  then show ?thesis using A by (simp add: get_deviation_def checked_minus_def)
qed

section \<open>Adding a packet\<close>

text \<open>Within the range of the queue, the comparison of ids by distance orders them.\<close>

lemma near_iff:
  assumes "dist n p \<le> MAX_BUFFER_PACKETS" "unat (i - n) \<le> MAX_BUFFER_PACKETS"
  shows "qp_id p - i \<le> of_nat MAX_BUFFER_PACKETS \<longleftrightarrow> unat (i - n) \<le> dist n p"
proof -
  have eq: "qp_id p - i = (qp_id p - n) - (i - n)" by simp
  have "unat (qp_id p - i) = (if i - n \<le> qp_id p - n then dist n p - unat (i - n)
      else 65536 + dist n p - unat (i - n))"
    unfolding eq dist_def using unat_minus_split [of "qp_id p - n" "i - n"] by simp
  then show ?thesis
    using assms by (auto simp: word_le_nat_alt dist_def MAX_BUFFER_PACKETS_def split: if_splits)
qed

lemma takeWhile_rev_sorted:
  assumes "sorted_wrt (\<lambda>x y. f x < (f y :: nat)) xs"
  shows "length xs - length (takeWhile (\<lambda>x. k \<le> f x) (rev xs)) = length (filter (\<lambda>x. f x < k) xs)"
    "take (length (filter (\<lambda>x. f x < k) xs)) xs = filter (\<lambda>x. f x < k) xs"
    "drop (length (filter (\<lambda>x. f x < k) xs)) xs = filter (\<lambda>x. k \<le> f x) xs"
proof -
  have split: "xs = filter (\<lambda>x. f x < k) xs @ filter (\<lambda>x. k \<le> f x) xs"
    using assms
  proof (induction xs)
    case (Cons x xs)
    show ?case
    proof (cases "f x < k")
      case False
      then have "\<forall>y \<in> set xs. k \<le> f y" using Cons.prems by fastforce
      then have "filter (\<lambda>y. f y < k) xs = []" "filter (\<lambda>y. k \<le> f y) xs = xs"
        by (auto simp: filter_empty_conv not_less)
      then show ?thesis using False by simp
    qed (use Cons in simp)
  qed simp
  define lo where "lo = filter (\<lambda>x. f x < k) xs"
  define hi where "hi = filter (\<lambda>x. k \<le> f x) xs"
  have xs: "xs = lo @ hi" using split by (simp add: lo_def hi_def)
  have "takeWhile (\<lambda>x. k \<le> f x) (rev xs) = rev hi"
  proof -
    have "\<forall>x \<in> set (rev hi). k \<le> f x" by (simp add: hi_def)
    moreover have "takeWhile (\<lambda>x. k \<le> f x) (rev lo) = []"
    proof (cases "rev lo")
      case (Cons a as)
      then have "a \<in> set lo" by (metis list.set_intros(1) set_rev)
      then show ?thesis using Cons by (simp add: lo_def)
    qed simp
    ultimately show ?thesis unfolding xs rev_append by (subst takeWhile_append2) auto
  qed
  then show "length xs - length (takeWhile (\<lambda>x. k \<le> f x) (rev xs)) = length (filter (\<lambda>x. f x < k) xs)"
    unfolding lo_def [symmetric] by (simp add: xs)
  show "take (length (filter (\<lambda>x. f x < k) xs)) xs = filter (\<lambda>x. f x < k) xs"
    "drop (length (filter (\<lambda>x. f x < k) xs)) xs = filter (\<lambda>x. k \<le> f x) xs"
    unfolding lo_def [symmetric] hi_def [symmetric] by (simp_all add: xs)
qed

lemma insert_position_eq:
  assumes "packets_inv n ps" "unat (i - n) \<le> MAX_BUFFER_PACKETS"
  shows "insert_position i ps = length (filter (\<lambda>p. dist n p < unat (i - n)) ps)"
    "take (insert_position i ps) ps = filter (\<lambda>p. dist n p < unat (i - n)) ps"
    "drop (insert_position i ps) ps = filter (\<lambda>p. unat (i - n) \<le> dist n p) ps"
proof -
  have "takeWhile (\<lambda>p. qp_id p - i \<le> of_nat MAX_BUFFER_PACKETS) (rev ps) = takeWhile (\<lambda>p. unat (i - n) \<le> dist n p) (rev ps)"
    by (rule takeWhile_cong) (use assms in \<open>auto simp: near_iff packets_inv_def\<close>)
  moreover have s: "sorted_wrt (\<lambda>x y. dist n x < dist n y) ps" using assms(1) by (simp add: packets_inv_def)
  ultimately show p: "insert_position i ps = length (filter (\<lambda>p. dist n p < unat (i - n)) ps)"
    by (simp add: insert_position_def takeWhile_rev_sorted)
  show "take (insert_position i ps) ps = filter (\<lambda>p. dist n p < unat (i - n)) ps"
    "drop (insert_position i ps) ps = filter (\<lambda>p. unat (i - n) \<le> dist n p) ps"
    unfolding p using takeWhile_rev_sorted [OF s] by simp_all
qed

lemma dist_eq_iff: "dist n p = unat (i - n) \<longleftrightarrow> qp_id p = i"
  unfolding dist_def by (metis diff_add_cancel word_unat_eq_iff)

lemma duplicate_iff:
  assumes "packets_inv n ps" "unat (i - n) \<le> MAX_BUFFER_PACKETS"
  shows "insert_position i ps < length ps \<and> qp_id (ps ! insert_position i ps) = i \<longleftrightarrow> i \<in> qp_id ` set ps"
proof
  assume "i \<in> qp_id ` set ps"
  then obtain p where p: "p \<in> set ps" "qp_id p = i" by auto
  let ?hi = "filter (\<lambda>p. unat (i - n) \<le> dist n p) ps"
  have hi: "drop (insert_position i ps) ps = ?hi" by (rule insert_position_eq [OF assms])
  have "p \<in> set ?hi" using p by (auto simp: dist_def)
  then have lt: "insert_position i ps < length ps" unfolding hi [symmetric] by (metis drop_all empty_iff list.set(1) not_le)
  obtain h t where ht: "?hi = h # t" using \<open>p \<in> set ?hi\<close> by (cases ?hi) auto
  have "sorted_wrt (\<lambda>p p'. dist n p < dist n p') (h # t)"
    unfolding ht [symmetric] using assms(1) by (simp add: packets_inv_def sorted_wrt_filter)
  moreover have "dist n p = unat (i - n)" using p by (simp add: dist_def)
  moreover have "unat (i - n) \<le> dist n h" using ht by (metis filter_eq_ConsD)
  ultimately have "dist n h = unat (i - n)" using \<open>p \<in> set ?hi\<close> unfolding ht by auto
  then have "qp_id h = i" by (simp add: dist_eq_iff)
  moreover have "ps ! insert_position i ps = h" using lt hi ht by (metis hd_drop_conv_nth list.sel(1))
  ultimately show "insert_position i ps < length ps \<and> qp_id (ps ! insert_position i ps) = i" using lt by simp
qed (metis image_eqI nth_mem)

text \<open>The outcome of adding a packet, on every branch.\<close>

definition added :: "in_audio \<Rightarrow> nat \<Rightarrow> ('d, 'f) audio_queue \<Rightarrow> ('d, 'f) audio_queue" where
  "added packet samples q =
     (let i = audio_id (audio_data packet); n = aq_next_id q; ps = aq_packet_buffer q in
      q\<lparr>aq_buffering_samples := buffering_after samples i q,
        aq_packet_buffer_samples := aq_packet_buffer_samples q + samples,
        aq_packet_buffer := filter (\<lambda>p. dist n p < unat (i - n)) ps
          @ \<lparr>qp_packet = packet, qp_samples = samples, qp_id = i\<rparr> # filter (\<lambda>p. unat (i - n) < dist n p) ps\<rparr>)"

lemma add_packet_eq:
  assumes "queue_inv q" and "length (aq_packet_buffer q) < MAX_BUFFER_PACKETS"
    and "packet_samples env (payload_of packet) = Ok samples"
  shows "add_packet env packet q =
    (let i = audio_id (audio_data packet) in
     if MAX_BUFFER_PACKETS < unat (i - aq_next_id q) then (Err (TooLate (aq_next_id q) i), q)
     else if i \<in> qp_id ` set (aq_packet_buffer q) then (Err (Duplicate i), q)
     else (Ok (), added packet samples q))"
proof -
  let ?i = "audio_id (audio_data packet)" and ?n = "aq_next_id q" and ?ps = "aq_packet_buffer q"
  have inv: "packets_inv ?n ?ps" using assms(1) by (simp add: queue_inv_def)
  have far: "of_nat MAX_BUFFER_PACKETS < ?i - ?n \<longleftrightarrow> MAX_BUFFER_PACKETS < unat (?i - ?n)"
    by (simp add: word_less_nat_alt MAX_BUFFER_PACKETS_def)
  show ?thesis
  proof (cases "MAX_BUFFER_PACKETS < unat (?i - ?n)")
    case True
    then show ?thesis using assms(2,3) far by (simp add: add_packet_def Let_def)
  next
    case False
    then have near: "unat (?i - ?n) \<le> MAX_BUFFER_PACKETS" by simp
    have "filter (\<lambda>p. unat (?i - ?n) \<le> dist ?n p) ?ps = filter (\<lambda>p. unat (?i - ?n) < dist ?n p) ?ps" if "?i \<notin> qp_id ` set ?ps"
      by (rule filter_cong) (use that in \<open>force simp: dist_eq_iff le_less dest: sym\<close>)+
    then show ?thesis
      using assms(2,3) far False duplicate_iff [OF inv near] insert_position_eq(2,3) [OF inv near]
      by (simp add: add_packet_def Let_def added_def)
  qed
qed

lemma mset_split: "mset (filter P xs @ filter (\<lambda>x. \<not> P x) xs) = mset xs"
  by (induction xs) auto

lemma sum_list_mset: "mset xs = mset ys \<Longrightarrow> sum_list (map f xs) = (sum_list (map f ys) :: nat)"
  by (metis mset_map sum_mset_sum_list)

lemma packet_samples_not_Panic [simp]: "packet_samples env d \<noteq> Panic"
  by (simp add: packet_samples_def opus_samples_def and_then_not_Panic)

lemma added_inv:
  assumes "queue_inv q" and "length (aq_packet_buffer q) < MAX_BUFFER_PACKETS"
    and "unat (audio_id (audio_data packet) - aq_next_id q) \<le> MAX_BUFFER_PACKETS"
    and "audio_id (audio_data packet) \<notin> qp_id ` set (aq_packet_buffer q)"
    and "length (payload_of packet) \<le> 1 \<longrightarrow> samples = 0"
  shows "queue_inv (added packet samples q)"
proof -
  let ?i = "audio_id (audio_data packet)" and ?n = "aq_next_id q" and ?ps = "aq_packet_buffer q"
  let ?p = "\<lparr>qp_packet = packet, qp_samples = samples, qp_id = ?i\<rparr>"
  let ?lo = "filter (\<lambda>p. dist ?n p < unat (?i - ?n)) ?ps" and ?hi = "filter (\<lambda>p. unat (?i - ?n) < dist ?n p) ?ps"
  have inv: "packets_inv ?n ?ps" using assms(1) by (simp add: queue_inv_def)
  have d: "dist ?n ?p = unat (?i - ?n)" by (simp add: dist_def)
  have "?hi = filter (\<lambda>p. \<not> dist ?n p < unat (?i - ?n)) ?ps"
    by (rule filter_cong) (use assms(4) in \<open>force simp: dist_eq_iff dest: sym\<close>)+
  then have mset: "mset (?lo @ ?hi) = mset ?ps" by (simp only: mset_split)
  have "packets_inv ?n (?lo @ ?p # ?hi)"
    using inv assms(3) d by (auto simp: packets_inv_def sorted_wrt_append sorted_wrt_filter)
  moreover have "length (?lo @ ?hi) = length ?ps" by (rule mset_eq_length [OF mset])
  moreover have "sum_list (map qp_samples (?lo @ ?hi)) = sum_list (map qp_samples ?ps)"
    by (rule sum_list_mset [OF mset])
  moreover have "sizes_inv (added packet samples q)"
    using assms(1) by (simp add: queue_inv_def sizes_inv_def added_def Let_def)
  ultimately show ?thesis
    using assms(1,2,5) by (auto simp: queue_inv_def packet_ok_def added_def Let_def)
qed

lemma add_packet_inv:
  assumes "queue_inv q" "add_packet env packet q = (r, q')"
  shows "queue_inv q' \<and> r \<noteq> Panic \<and> (r \<noteq> Ok () \<longrightarrow> q' = q)"
proof (cases "length (aq_packet_buffer q) < MAX_BUFFER_PACKETS")
  case False
  then show ?thesis using assms by (auto simp: add_packet_def)
next
  case True
  show ?thesis
  proof (cases "packet_samples env (payload_of packet)")
    case (Ok samples)
    then show ?thesis
      using assms add_packet_eq [OF assms(1) True Ok] added_inv [OF assms(1) True, of packet samples]
      by (auto simp: Let_def packet_samples_def split: if_splits)
  next
    case (Err e)
    then show ?thesis using assms True by (auto simp: add_packet_def)
  next
    case Panic
    then show ?thesis by simp
  qed
qed

text \<open>
  C18 (what adding a packet to an audio queue does): a queue that already holds 50 packets is full, a
  payload whose samples cannot be counted gives the error of counting them, a packet more than 50 ids
  ahead, or behind, is too late, an id that is queued is a duplicate, and all four leave the queue alone.
  Any other packet goes to its place in the order of the ids, also across the wrap of the 16 bit ids, with
  the packets before it and behind it in place, and its samples counted. Nothing panics, and the invariant
  of the queue (its order, its bound and its sum of samples) is kept.
\<close>

theorem audio_packet_added:
  assumes "queue_inv q"
    and "i = audio_id (audio_data packet)" "n = aq_next_id q" "ps = aq_packet_buffer q"
    and "add_packet env packet q = (r, q')"
  shows "queue_inv q' \<and> r \<noteq> Panic \<and>
    (if MAX_BUFFER_PACKETS \<le> length ps then r = Err QueueFull \<and> q' = q
     else
       (case packet_samples env (payload_of packet) of
          Ok samples \<Rightarrow>
            if MAX_BUFFER_PACKETS < unat (i - n) then r = Err (TooLate n i) \<and> q' = q
            else if i \<in> qp_id ` set ps then r = Err (Duplicate i) \<and> q' = q
            else r = Ok () \<and> aq_next_id q' = n \<and>
              aq_packet_buffer q' = filter (\<lambda>p. dist n p < unat (i - n)) ps
                @ \<lparr>qp_packet = packet, qp_samples = samples, qp_id = i\<rparr> # filter (\<lambda>p. unat (i - n) < dist n p) ps \<and>
              aq_packet_buffer_samples q' = aq_packet_buffer_samples q + samples
        | Err e \<Rightarrow> r = Err e \<and> q' = q
        | Panic \<Rightarrow> False))"
proof (cases "MAX_BUFFER_PACKETS \<le> length (aq_packet_buffer q)")
  case True
  then have "r = Err QueueFull \<and> q' = q" using assms(5) by (simp add: add_packet_def)
  then show ?thesis using True assms(1,4) by simp
next
  case False
  show ?thesis
  proof (cases "packet_samples env (payload_of packet)")
    case (Ok samples)
    then show ?thesis
      using add_packet_inv [OF assms(1,5)] add_packet_eq [OF assms(1) _ Ok] False assms(2-5)
      by (simp add: Let_def added_def split: if_splits)
  next
    case (Err e)
    then have "r = Err e \<and> q' = q" using False assms(5) by (simp add: add_packet_def)
    then show ?thesis using False Err assms(1,4) by simp
  next
    case Panic
    then have "r = Panic" using False assms(5) by (simp add: add_packet_def)
    then show ?thesis using add_packet_inv [OF assms(1,5)] by simp
  qed
qed

section \<open>Decoding\<close>

text \<open>
  What the code relies on: the decoder writes into the slice it is given, and a success yields at least
  one sample per channel and no more than fit.
\<close>

definition decoder_laws :: "('d, 'f) audio_env \<Rightarrow> bool" where
  "decoder_laws env \<longleftrightarrow>
     (\<forall>d slice fec s r slice' s'. decode_float env d slice fec s = (r, slice', s') \<longrightarrow>
        length slice' = length slice \<and> (\<forall>n. r = Some n \<longrightarrow> 0 < n \<and> n * CHANNEL_NUM \<le> length slice))"

text \<open>What decoding leaves alone, and how the buffer grows when it succeeds.\<close>

definition same_queue :: "('d, 'f) audio_queue \<Rightarrow> ('d, 'f) audio_queue \<Rightarrow> bool" where
  "same_queue q q' \<longleftrightarrow>
     aq_packet_buffer q' = aq_packet_buffer q \<and> aq_next_id q' = aq_next_id q \<and>
     aq_packet_buffer_samples q' = aq_packet_buffer_samples q \<and> aq_decoded_pos q' = aq_decoded_pos q"

definition grown :: "nat \<Rightarrow> ('d, 'f) audio_queue \<Rightarrow> bool" where
  "grown n q \<longleftrightarrow> 0 < aq_last_packet_samples q \<and>
     length (aq_decoded_buffer q) = n + aq_last_packet_samples q * CHANNEL_NUM"

lemma run_decoder_cases:
  assumes "decoder_laws env" "run_decoder env d raw len fec q = (r, q')"
  shows "r \<noteq> Panic" "same_queue q q'" "sizes_inv q \<Longrightarrow> sizes_inv q'"
    "r = Ok () \<Longrightarrow> grown (length (aq_decoded_buffer q)) q'"
proof -
  let ?s = "replicate (len * CHANNEL_NUM) (zero_sample env)"
  obtain x slice' d' where dec: "decode_float env d ?s fec (aq_decoder q) = (x, slice', d')" by (metis prod_cases3)
  then have laws: "length slice' = len * CHANNEL_NUM" "x = Some n \<Longrightarrow> 0 < n \<and> n * CHANNEL_NUM \<le> len * CHANNEL_NUM" for n
    using assms(1) unfolding decoder_laws_def by fastforce+
  show "r \<noteq> Panic" "same_queue q q'" "sizes_inv q \<Longrightarrow> sizes_inv q'"
    "r = Ok () \<Longrightarrow> grown (length (aq_decoded_buffer q)) q'"
    using assms(2) laws
    by (auto simp: run_decoder_def dec Let_def same_queue_def sizes_inv_def grown_def min_def
        split: if_splits option.splits)
qed

lemma same_queue_refl [simp]: "same_queue q q"
  by (simp add: same_queue_def)

lemma same_queue_trans: "same_queue a b \<Longrightarrow> same_queue b c \<Longrightarrow> same_queue a c"
  by (simp add: same_queue_def)

lemma buffered_count_not_Panic:
  assumes "packets_inv (aq_next_id q) (aq_packet_buffer q)"
  shows "\<exists>n. buffered_count q = Ok n"
  using packets_inv_length [OF assms, of 0]
  by (cases "aq_packet_buffer q = []") (auto simp: buffered_count_def dist_def)

lemma decode_packet_cases:
  assumes laws: "decoder_laws env" and inv: "packets_inv (aq_next_id q) (aq_packet_buffer q)" "sizes_inv q"
    and run: "decode_packet env packet fec q = (r, q')"
  shows "r \<noteq> Panic \<and> same_queue q q' \<and> sizes_inv q' \<and> (r = Ok () \<longrightarrow> grown (length (aq_decoded_buffer q)) q')"
proof (cases "\<exists>p. packet = Some p \<and> \<not> valid_opus env (payload_of (qp_packet p))")
  case True
  then show ?thesis using run inv(2) by (auto simp: decode_packet_def)
next
  case False
  define q0 where "q0 = aq_packet_loss_num_update (\<lambda>n. n + 1)
    (case packet of Some p \<Rightarrow> aq_whispering_update (\<lambda>_. is_s2c_whisper (audio_data (qp_packet p))) q | None \<Rightarrow> q)"
  have start: "same_queue q q0" "sizes_inv q0" "aq_decoded_buffer q0 = aq_decoded_buffer q"
    using inv(2) by (auto simp: q0_def same_queue_def sizes_inv_def split: option.splits)
  have body: "act_then (run_decoder env (map_option (\<lambda>p. payload_of (qp_packet p)) packet)
         (map_option (\<lambda>p. raw_data (qp_packet p)) packet)
         (case packet of Some p \<Rightarrow> qp_samples p | None \<Rightarrow> aq_last_packet_samples q0) fec) (\<lambda>_.
       act_then (if packet \<noteq> None \<and> \<not> fec then act_modify (aq_packet_loss_num_update (\<lambda>_. 0)) else act_return ()) (\<lambda>_.
       act_then (act_read buffered_count) (\<lambda>r.
       act_then (act_lift r) (\<lambda>count.
       act_modify (add_buffer_size count))))) q0 = (r, q')"
    using run False by (cases packet) (auto simp: decode_packet_def q0_def)
  from body show ?thesis
  proof (rule act_then_cases)
    fix x q1 assume "run_decoder env (map_option (\<lambda>p. payload_of (qp_packet p)) packet)
         (map_option (\<lambda>p. raw_data (qp_packet p)) packet)
         (case packet of Some p \<Rightarrow> qp_samples p | None \<Rightarrow> aq_last_packet_samples q0) fec q0 = (Ok x, q1)"
    note d = run_decoder_cases [OF laws this]
    define q2 where "q2 = (if packet \<noteq> None \<and> \<not> fec then q1\<lparr>aq_packet_loss_num := 0\<rparr> else q1)"
    assume "act_then (if packet \<noteq> None \<and> \<not> fec then act_modify (aq_packet_loss_num_update (\<lambda>_. 0)) else act_return ()) (\<lambda>_.
       act_then (act_read buffered_count) (\<lambda>r.
       act_then (act_lift r) (\<lambda>count.
       act_modify (add_buffer_size count)))) q1 = (r, q')"
    then have rest: "act_then (act_lift (buffered_count q2)) (\<lambda>count. act_modify (add_buffer_size count)) q2 = (r, q')"
      by (auto simp: q2_def split: if_splits)
    have q2: "same_queue q q2" "sizes_inv q2" "grown (length (aq_decoded_buffer q)) q2"
      using d start same_queue_trans [OF start(1) d(2)]
      by (auto simp: q2_def same_queue_def sizes_inv_def grown_def)
    obtain n where "buffered_count q2 = (Ok n :: (_, audio_error) outcome)"
      using buffered_count_not_Panic [of q2] inv(1) q2(1) by (auto simp: same_queue_def)
    then have "r = Ok ()" "q' = add_buffer_size n q2" using rest by auto
    then show ?thesis using q2 sizes_inv_add by (auto simp: same_queue_def grown_def)
  next
    fix e assume "run_decoder env (map_option (\<lambda>p. payload_of (qp_packet p)) packet)
         (map_option (\<lambda>p. raw_data (qp_packet p)) packet)
         (case packet of Some p \<Rightarrow> qp_samples p | None \<Rightarrow> aq_last_packet_samples q0) fec q0 = (Err e, q')" "r = Err e"
    then show ?thesis using run_decoder_cases(2,3) [OF laws] start same_queue_trans by blast
  next
    assume "run_decoder env (map_option (\<lambda>p. payload_of (qp_packet p)) packet)
         (map_option (\<lambda>p. raw_data (qp_packet p)) packet)
         (case packet of Some p \<Rightarrow> qp_samples p | None \<Rightarrow> aq_last_packet_samples q0) fec q0 = (Panic, q')"
    then show ?thesis using run_decoder_cases(1) [OF laws] by blast
  qed
qed

section \<open>Fetching data\<close>

text \<open>Every packet is close enough for the assertion of the code.\<close>

definition packets_near :: "('d, 'f) audio_queue \<Rightarrow> bool" where
  "packets_near q \<longleftrightarrow> (\<forall>p \<in> set (aq_packet_buffer q). dist (aq_next_id q) p < MAX_BUFFER_PACKETS)"

definition fetch_inv :: "('d, 'f) audio_queue \<Rightarrow> bool" where
  "fetch_inv q \<longleftrightarrow> queue_inv q \<and> packets_near q"

text \<open>The state in which the decoder runs on the front packet: it is out of the queue, the id is taken.\<close>

definition popped :: "queue_packet \<Rightarrow> queue_packet list \<Rightarrow> ('d, 'f) audio_queue \<Rightarrow> ('d, 'f) audio_queue" where
  "popped p ps q = q\<lparr>aq_packet_buffer := ps, aq_packet_buffer_samples := sum_list (map qp_samples ps),
     aq_next_id := aq_next_id q + 1\<rparr>"

lemma packets_near_next:
  assumes "\<forall>p \<in> set ps. dist n p < MAX_BUFFER_PACKETS" "\<forall>p \<in> set ps. dist n p \<noteq> 0"
  shows "\<forall>p \<in> set ps. dist (n + 1) p < MAX_BUFFER_PACKETS"
  using assms by (fastforce simp: dist_next)

lemma fetch_inv_popped:
  assumes "fetch_inv q" "aq_packet_buffer q = p # ps"
  shows "fetch_inv (popped p ps q)"
    and "qp_id p \<noteq> aq_next_id q \<Longrightarrow> fetch_inv ((popped p ps q)
      \<lparr>aq_packet_buffer_samples := sum_list (map qp_samples (p # ps)), aq_packet_buffer := p # ps\<rparr>)"
proof -
  let ?n = "aq_next_id q"
  have inv: "packets_inv ?n (p # ps)" "length (p # ps) \<le> MAX_BUFFER_PACKETS" "sizes_inv q"
    "\<forall>p \<in> set (p # ps). packet_ok p" "\<forall>p \<in> set (p # ps). dist ?n p < MAX_BUFFER_PACKETS"
    using assms by (simp_all add: fetch_inv_def queue_inv_def packets_near_def)
  have ps: "packets_inv ?n ps" "\<forall>p \<in> set ps. dist ?n p \<noteq> 0"
    using inv(1) dist_front(1) by (auto simp: packets_inv_Cons)
  have near: "\<forall>p \<in> set ps. dist ?n p < MAX_BUFFER_PACKETS" using inv(5) by simp
  show "fetch_inv (popped p ps q)"
    using inv packets_inv_next [OF ps] packets_near_next [OF near ps(2)]
    by (simp add: fetch_inv_def queue_inv_def packets_near_def popped_def sizes_inv_def)
  assume "qp_id p \<noteq> ?n"
  then have all: "\<forall>p' \<in> set (p # ps). dist ?n p' \<noteq> 0" using dist_front [OF inv(1)] by simp
  show "fetch_inv ((popped p ps q)\<lparr>aq_packet_buffer_samples := sum_list (map qp_samples (p # ps)), aq_packet_buffer := p # ps\<rparr>)"
    using inv packets_inv_next [OF inv(1) all] packets_near_next [OF inv(5) all]
    by (simp add: fetch_inv_def queue_inv_def packets_near_def popped_def sizes_inv_def)
qed

lemma fetch_inv_same:
  assumes "fetch_inv q" "same_queue q q'" "sizes_inv q'"
  shows "fetch_inv q'"
  using assms by (simp add: fetch_inv_def queue_inv_def packets_near_def same_queue_def)

lemma decode_fetch:
  assumes "decoder_laws env" "fetch_inv q" "decode_packet env packet fec q = (r, q')"
  shows "r \<noteq> Panic \<and> fetch_inv q' \<and> same_queue q q' \<and> (r = Ok () \<longrightarrow> grown (length (aq_decoded_buffer q)) q')"
proof -
  have "packets_inv (aq_next_id q) (aq_packet_buffer q)" "sizes_inv q"
    using assms(2) by (simp_all add: fetch_inv_def queue_inv_def)
  from decode_packet_cases [OF assms(1) this assms(3)] show ?thesis
    using fetch_inv_same [OF assms(2)] by blast
qed

text \<open>One packet decoded: the invariant stays, and a success makes the buffer longer.\<close>

lemma decode_next_cases:
  assumes laws: "decoder_laws env" and inv: "fetch_inv q" and run: "decode_next env q = (r, q')"
  shows "r \<noteq> Panic \<and> fetch_inv q' \<and> (r = Ok Decoded \<longrightarrow> grown (length (aq_decoded_buffer q)) q') \<and>
    (r = Ok EndOfStream \<longrightarrow> aq_decoded_buffer q' = aq_decoded_buffer q) \<and> aq_decoded_pos q' = aq_decoded_pos q"
proof (cases "aq_packet_buffer q")
  case Nil
  then have "act_then (decode_packet env None False) (\<lambda>_. act_return Decoded) q = (r, q')"
    using run by (simp add: decode_next_def)
  then show ?thesis
    by (rule act_then_cases) (use decode_fetch [OF laws inv] in \<open>auto simp: same_queue_def\<close>)
next
  case (Cons p ps)
  have "packets_inv (aq_next_id q) (p # ps)" "dist (aq_next_id q) p < MAX_BUFFER_PACKETS"
    "aq_packet_buffer_samples q = qp_samples p + sum_list (map qp_samples ps)" "packet_ok p"
    using inv Cons by (simp_all add: fetch_inv_def queue_inv_def packets_near_def)
  note front = this
  show ?thesis
  proof (cases "length (payload_of (qp_packet p)) \<le> 1")
    case True
    then have "r = Ok EndOfStream" "q' = q\<lparr>aq_packet_buffer := ps\<rparr>" using run Cons by (auto simp: decode_next_def)
    then show ?thesis using inv Cons front True
      by (auto simp: fetch_inv_def queue_inv_def packets_near_def packets_inv_Cons packet_ok_def sizes_inv_def)
  next
    case False
    have samples: "usize_sub (aq_packet_buffer_samples q) (qp_samples p) = (Ok (sum_list (map qp_samples ps)) :: (_, audio_error) outcome)"
      by (simp add: front(3))
    have close: "qp_id p - aq_next_id q < of_nat MAX_BUFFER_PACKETS"
      using front(2) by (simp add: dist_def word_less_nat_alt MAX_BUFFER_PACKETS_def)
    note pop = fetch_inv_popped [OF inv Cons]
    have same: "popped p ps q = q\<lparr>aq_packet_buffer := ps, aq_packet_buffer_samples := sum_list (map qp_samples ps),
        aq_next_id := aq_next_id q + 1\<rparr>" by (simp add: popped_def)
    show ?thesis
    proof (cases "qp_id p = aq_next_id q")
      case True
      then have "act_then (decode_packet env (Some p) False) (\<lambda>_. act_return Decoded) (popped p ps q) = (r, q')"
        using run Cons False by (simp add: decode_next_def samples popped_def Let_def)
      then show ?thesis
        by (rule act_then_cases) (use decode_fetch [OF laws pop(1)] in \<open>auto simp: same_queue_def popped_def\<close>)
    next
      case False
      let ?put = "\<lambda>q. q\<lparr>aq_packet_buffer_samples := aq_packet_buffer_samples q + qp_samples p,
          aq_packet_buffer := p # aq_packet_buffer q\<rparr>"
      have "act_then (if qp_id p = aq_next_id q + 1 then decode_packet env (Some p) True else decode_packet env None False)
          (\<lambda>_. act_then (act_modify ?put) (\<lambda>_. act_return Decoded)) (popped p ps q) = (r, q')"
        using run Cons False \<open>\<not> length (payload_of (qp_packet p)) \<le> 1\<close> close
        by (simp add: decode_next_def samples popped_def Let_def)
      then show ?thesis
      proof (rule act_then_cases)
        fix x q1
        assume d: "(if qp_id p = aq_next_id q + 1 then decode_packet env (Some p) True else decode_packet env None False)
            (popped p ps q) = (Ok x, q1)"
          and "act_then (act_modify ?put) (\<lambda>_. act_return Decoded) q1 = (r, q')"
        then have q': "r = Ok Decoded" "q' = ?put q1" by auto
        have q1: "fetch_inv q1" "same_queue (popped p ps q) q1" "grown (length (aq_decoded_buffer q)) q1"
          using d decode_fetch [OF laws pop(1)] by (auto simp: popped_def split: if_splits)
        have "fetch_inv q'"
          using pop(2) [OF False] q1 unfolding q'
          by (simp add: fetch_inv_def queue_inv_def packets_near_def same_queue_def popped_def add.commute)
        then show ?thesis using q1(2,3) q' by (simp add: grown_def same_queue_def popped_def)
      next
        fix e
        assume d: "(if qp_id p = aq_next_id q + 1 then decode_packet env (Some p) True else decode_packet env None False)
            (popped p ps q) = (Err e, q')" "r = Err e"
        then show ?thesis using decode_fetch [OF laws pop(1)] by (auto simp: same_queue_def popped_def split: if_splits)
      next
        assume d: "(if qp_id p = aq_next_id q + 1 then decode_packet env (Some p) True else decode_packet env None False)
            (popped p ps q) = (Panic, q')"
        then show ?thesis using decode_fetch [OF laws pop(1)] by (auto split: if_splits)
      qed
    qed
  qed
qed

lemma truncate_inv:
  assumes "fetch_inv q"
  shows "fetch_inv (truncate_queue mn q)"
proof -
  define k where "k = length (aq_packet_buffer q) - keep_count (unat mn + USUAL_FRAME_SIZE) 0 (rev (aq_packet_buffer q))"
  define ps where "ps = drop k (aq_packet_buffer q)"
  have eq: "truncate_queue mn q = q\<lparr>aq_packet_buffer := ps, aq_packet_buffer_samples := sum_list (map qp_samples ps),
      aq_next_id := (case ps of [] \<Rightarrow> aq_next_id q | p # _ \<Rightarrow> qp_id p)\<rparr>"
    by (simp add: truncate_queue_def k_def ps_def Let_def)
  have sub: "set ps \<subseteq> set (aq_packet_buffer q)" unfolding ps_def by (rule set_drop_subset)
  have ps: "packets_inv (aq_next_id q) ps" "length ps \<le> MAX_BUFFER_PACKETS" "\<forall>p \<in> set ps. packet_ok p" "sizes_inv q"
    "\<forall>p \<in> set ps. dist (aq_next_id q) p < MAX_BUFFER_PACKETS"
    using assms sub packets_inv_drop [of "aq_next_id q" "aq_packet_buffer q" k]
    by (auto simp: fetch_inv_def queue_inv_def packets_near_def ps_def)
  show ?thesis
  proof (cases ps)
    case Nil
    then show ?thesis using ps unfolding eq by (simp add: fetch_inv_def queue_inv_def packets_near_def)
  next
    case (Cons p ps')
    have "\<forall>p' \<in> set ps. dist (aq_next_id q) p \<le> dist (aq_next_id q) p'"
      using ps(1) Cons by (auto simp: packets_inv_Cons)
    then have "\<forall>p' \<in> set ps. dist (qp_id p) p' < MAX_BUFFER_PACKETS"
      using ps(5) dist_move by (metis diff_le_self le_less_trans)
    then show ?thesis
      using ps packets_inv_move [of "aq_next_id q" p ps'] Cons unfolding eq
      by (simp add: fetch_inv_def queue_inv_def packets_near_def)
  qed
qed

lemma drain_Ok: "a \<le> b \<Longrightarrow> b \<le> length xs \<Longrightarrow> \<exists>ys. drain xs a b = (Ok ys :: (_, 'e) outcome) \<and> length ys = length xs - (b - a)"
  by (auto simp: drain_def)

text \<open>The loop removes one sample per channel in every turn, and stays in range.\<close>

lemma speed_up_Ok:
  "k \<le> m \<Longrightarrow> length buf = start + n * CHANNEL_NUM - k * CHANNEL_NUM \<Longrightarrow> m * SPEED_CHANGE_STEPS \<le> n \<Longrightarrow>
   \<exists>buf'. speed_up start [k..<m] buf = (Ok buf' :: (_, 'e) outcome) \<and> length buf' = start + n * CHANNEL_NUM - m * CHANNEL_NUM"
proof (induction "m - k" arbitrary: k buf)
  case (Suc d)
  then have k: "k < m" by simp
  let ?at = "start + k * (SPEED_CHANGE_STEPS - 1) * CHANNEL_NUM"
  have "?at + CHANNEL_NUM \<le> length buf" using Suc.prems k by (simp add: CHANNEL_NUM_def SPEED_CHANGE_STEPS_def)
  then obtain ys where ys: "drain buf ?at (?at + CHANNEL_NUM) = (Ok ys :: (_, 'e) outcome)" "length ys = length buf - CHANNEL_NUM"
    using drain_Ok [where 'e = 'e, of ?at "?at + CHANNEL_NUM" buf] by auto
  have d: "d = m - Suc k" using Suc.hyps(2) by simp
  have "length ys = start + n * CHANNEL_NUM - Suc k * CHANNEL_NUM" using ys(2) Suc.prems(2) by simp
  then obtain buf' where "speed_up start [Suc k..<m] ys = (Ok buf' :: (_, 'e) outcome)" "length buf' = start + n * CHANNEL_NUM - m * CHANNEL_NUM"
    using Suc.hyps(1) [OF d, of ys] Suc.prems k by auto
  then show ?case using k ys(1) by (simp add: upt_conv_Cons Let_def)
qed auto

lemma adjust_speed_cases:
  assumes "fetch_inv q" and "grown n q" and "adjust_speed q = (r, q')"
  shows "r = Ok () \<and> fetch_inv q' \<and> n < length (aq_decoded_buffer q') \<and> aq_decoded_pos q' = aq_decoded_pos q"
proof -
  obtain dev where dev: "get_deviation q = (Ok dev :: (_, audio_error) outcome)"
    using get_deviation_Ok [of q] assms(1) by (auto simp: fetch_inv_def queue_inv_def)
  have pos: "0 < aq_last_packet_samples q" and len: "length (aq_decoded_buffer q) = n + aq_last_packet_samples q * CHANNEL_NUM"
    using assms(2) by (simp_all add: grown_def)
  let ?m = "aq_last_packet_samples q div SPEED_CHANGE_STEPS"
  have m: "?m * SPEED_CHANGE_STEPS \<le> aq_last_packet_samples q" by simp
  have less: "?m * CHANNEL_NUM < aq_last_packet_samples q * CHANNEL_NUM"
    using pos by (simp add: CHANNEL_NUM_def SPEED_CHANGE_STEPS_def)
  obtain buf where buf: "speed_up n [0..<?m] (aq_decoded_buffer q) = (Ok buf :: (_, audio_error) outcome)"
    "length buf = n + aq_last_packet_samples q * CHANNEL_NUM - ?m * CHANNEL_NUM"
    using speed_up_Ok [where 'e = audio_error, of 0 ?m "aq_decoded_buffer q" n "aq_last_packet_samples q"] len m by auto
  then have buf_len: "n < length buf" using less by linarith
  have start: "usize_sub (length (aq_decoded_buffer q)) (aq_last_packet_samples q * CHANNEL_NUM) = (Ok n :: (_, audio_error) outcome)"
    by (simp add: len)
  consider "r = Ok ()" "q' = truncate_queue (min_buffer_size q) q" | "r = Ok ()" "q' = q\<lparr>aq_decoded_buffer := buf\<rparr>" | "r = Ok ()" "q' = q"
    using assms(3) by (auto simp: adjust_speed_def Let_def dev start buf(1) split: if_splits)
  then show ?thesis
  proof cases
    case 1
    then show ?thesis using truncate_inv [OF assms(1)] len less by (simp add: truncate_queue_def Let_def)
  next
    case 2
    then show ?thesis using assms(1) buf_len by (simp add: fetch_inv_def queue_inv_def packets_near_def)
  next
    case 3
    then show ?thesis using assms(1) len less by simp
  qed
qed

lemma decode_loop_result:
  assumes "decoder_laws env" and "fetch_inv q"
  shows "\<exists>r q'. decode_loop env len q = Some (r, q') \<and> r \<noteq> Panic \<and> fetch_inv q' \<and> aq_decoded_pos q' = aq_decoded_pos q \<and>
    (r = Ok Decoded \<longrightarrow> len \<le> length (aq_decoded_buffer q')) \<and>
    (r = Ok EndOfStream \<longrightarrow> length (aq_decoded_buffer q') < len)"
  using assms(2)
proof (induction "len - length (aq_decoded_buffer q)" arbitrary: q rule: less_induct)
  case less
  show ?case
  proof (cases "length (aq_decoded_buffer q) < len")
    case True
    obtain r q1 where d: "decode_next env q = (r, q1)" by fastforce
    note c = decode_next_cases [OF assms(1) less.prems d]
    show ?thesis
    proof (cases "r = Ok Decoded")
      case Dec: True
      obtain r2 q2 where a: "adjust_speed q1 = (r2, q2)" by fastforce
      have q1: "fetch_inv q1" "grown (length (aq_decoded_buffer q)) q1" "aq_last_packet_samples q1 \<noteq> 0"
        using c Dec by (auto simp: grown_def)
      note s = adjust_speed_cases [OF q1(1,2) a]
      have "len - length (aq_decoded_buffer q2) < len - length (aq_decoded_buffer q)" using s True by linarith
      from less.hyps [OF this] show ?thesis
        using s c Dec True q1(3) by (subst decode_loop.simps) (simp add: d a)
    next
      case False
      then show ?thesis using c True
        by (subst decode_loop.simps) (cases r; auto simp: d split: turn.splits)
    qed
  next
    case False
    then show ?thesis using less.prems by (subst decode_loop.simps) auto
  qed
qed

text \<open>A queue that can be fetched from.\<close>

definition fetchable :: "('d, 'f) audio_queue \<Rightarrow> bool" where
  "fetchable q \<longleftrightarrow> fetch_inv q \<and> aq_decoded_pos q \<le> length (aq_decoded_buffer q)"

lemma fetch_total:
  assumes "decoder_laws env" and "fetchable q"
  shows "\<exists>r q'. get_next_data env len q = Some (r, q') \<and> r \<noteq> Panic \<and> fetch_inv q' \<and>
    (\<forall>d. r = Ok (d, False) \<longrightarrow> (d = [] \<or> length d = len) \<and> aq_decoded_pos q' \<le> length (aq_decoded_buffer q')) \<and>
    (\<forall>d. r = Ok (d, True) \<longrightarrow> length d < len)"
proof -
  have fetch: "\<exists>r q'. fetch_data env len q = Some (r, q') \<and> r \<noteq> Panic \<and> fetch_inv q' \<and>
    (\<forall>d. r = Ok (d, False) \<longrightarrow> length d = len \<and> aq_decoded_pos q' \<le> length (aq_decoded_buffer q')) \<and>
    (\<forall>d. r = Ok (d, True) \<longrightarrow> length d < len)"
    if "fetch_inv q" "aq_decoded_pos q \<le> length (aq_decoded_buffer q)" for q
  proof -
    have "fetch_inv (q\<lparr>aq_decoded_buffer := drop (aq_decoded_pos q) (aq_decoded_buffer q)\<rparr>)"
      using that(1) by (simp add: fetch_inv_def queue_inv_def packets_near_def)
    from decode_loop_result [OF assms(1) this, of len] show ?thesis
      using that(2)
      by (auto simp: fetch_data_def Let_def fetch_inv_def queue_inv_def packets_near_def
          split: outcome.splits turn.splits)
  qed
  show ?thesis
  proof (cases "0 < aq_buffering_samples q \<and> \<not> MAX_BUFFER_TIME \<le> aq_buffered_for_samples q")
    case True
    then show ?thesis using assms(2)
      by (auto simp: get_next_data_def fetch_inv_def queue_inv_def packets_near_def fetchable_def)
  next
    case False
    define q0 where "q0 = (if 0 < aq_buffering_samples q then q\<lparr>aq_buffering_samples := 0, aq_buffered_for_samples := 0\<rparr> else q)"
    have "fetch_inv q0" "aq_decoded_pos q0 \<le> length (aq_decoded_buffer q0)"
      using assms(2) by (auto simp: q0_def fetchable_def fetch_inv_def queue_inv_def packets_near_def)
    from fetch [OF this] show ?thesis using False by (auto simp: get_next_data_def q0_def split: if_splits)
  qed
qed


section \<open>Packets that the code accepts and then panics on\<close>

lemma decode_next_far:
  assumes "aq_packet_buffer q = p # ps" "1 < length (payload_of (qp_packet p))" "qp_samples p \<le> aq_packet_buffer_samples q"
    and "MAX_BUFFER_PACKETS \<le> dist (aq_next_id q) p"
  shows "fst (decode_next env q) = Panic"
proof -
  have "\<not> qp_id p - aq_next_id q < of_nat MAX_BUFFER_PACKETS"
    using assms(4) by (simp add: dist_def word_less_nat_alt MAX_BUFFER_PACKETS_def)
  moreover from this have "qp_id p \<noteq> aq_next_id q" by (auto simp: MAX_BUFFER_PACKETS_def)
  ultimately show ?thesis using assms(1-3) by (simp add: decode_next_def Let_def)
qed

text \<open>
  A packet 50 ids ahead is accepted and trips an assertion: the queue takes packets up to and
  including 50 ids ahead, but fetching asserts that the front is less than 50 ids ahead. After an
  accepted packet that is alone in the queue at distance 50, fetching more than is decoded panics in
  a debug build.
\<close>

theorem audio_packet_at_limit_panics:
  assumes "queue_inv q" "aq_packet_buffer q = []" "aq_buffering_samples q = 0"
    and "packet_samples env (payload_of packet) = Ok samples" "1 < length (payload_of packet)"
    and "audio_id (audio_data packet) = aq_next_id q + 50"
    and "aq_decoded_pos q \<le> length (aq_decoded_buffer q)" "length (aq_decoded_buffer q) - aq_decoded_pos q < len"
  shows "\<exists>q'. add_packet env packet q = (Ok (), q') \<and> (\<exists>q''. get_next_data env len q' = Some (Panic, q''))"
proof -
  let ?p = "\<lparr>qp_packet = packet, qp_samples = samples, qp_id = aq_next_id q + 50\<rparr>"
  have added: "add_packet env packet q = (Ok (), added packet samples q)"
    using add_packet_eq [OF assms(1) _ assms(4)] assms(2,6) by (simp add: Let_def MAX_BUFFER_PACKETS_def)
  let ?q = "(added packet samples q)\<lparr>aq_decoded_buffer := drop (aq_decoded_pos q) (aq_decoded_buffer q)\<rparr>"
  have q: "aq_packet_buffer ?q = [?p]" "aq_next_id ?q = aq_next_id q" "aq_packet_buffer_samples ?q = aq_packet_buffer_samples q + samples"
    "aq_buffering_samples (added packet samples q) = 0" "aq_decoded_pos (added packet samples q) = aq_decoded_pos q"
    "aq_decoded_buffer (added packet samples q) = aq_decoded_buffer q"
    using assms(2,3,6) by (simp_all add: added_def Let_def buffering_after_def)
  have "fst (decode_next env ?q) = Panic"
    by (rule decode_next_far [OF q(1)]) (use q(2,3) assms(5) in \<open>simp_all add: dist_def MAX_BUFFER_PACKETS_def\<close>)
  then obtain q'' where "decode_next env ?q = (Panic, q'')" by (cases "decode_next env ?q") auto
  then have "decode_loop env len ?q = Some (Panic, q'')"
    using assms(8) by (subst decode_loop.simps) simp
  then show ?thesis
    using added q assms(7) by (auto simp: get_next_data_def fetch_data_def Let_def)
qed

text \<open>
  C38 (an error of the decoder leaves the next fetch out of range): fetching first drops the samples of
  the last fetch, but forgets to reset how many there were when a packet fails to decode. When the
  failed packet is shorter than the last fetch, the next fetch drains more than there is and panics.
  The packet may come from any client on the server.
\<close>

theorem decode_error_then_panic:
  assumes "aq_packet_buffer q = p # ps" "qp_id p = aq_next_id q" "aq_buffering_samples q = 0"
    and "1 < length (payload_of (qp_packet p))" "valid_opus env (payload_of (qp_packet p))"
    and "qp_samples p \<le> aq_packet_buffer_samples q" "signals_ok env (qp_samples p * CHANNEL_NUM)"
    and "decode_float env (Some (payload_of (qp_packet p))) (replicate (qp_samples p * CHANNEL_NUM) (zero_sample env))
      False (aq_decoder q) = (None, out, d)" "length out = qp_samples p * CHANNEL_NUM"
    and "aq_decoded_pos q = length (aq_decoded_buffer q)" "qp_samples p * CHANNEL_NUM < aq_decoded_pos q" "0 < len"
  shows "\<exists>q'. get_next_data env len q = Some (Err (Decode (Some (raw_data (qp_packet p)))), q') \<and>
    (\<exists>q''. get_next_data env len' q' = Some (Panic, q''))"
proof -
  let ?q = "q\<lparr>aq_decoded_buffer := []\<rparr>"
  have "usize_sub (aq_packet_buffer_samples q) (qp_samples p) = (Ok (aq_packet_buffer_samples q - qp_samples p) :: (_, audio_error) outcome)"
    using assms(6) by simp
  then obtain q' where q': "decode_next env ?q = (Err (Decode (Some (raw_data (qp_packet p)))), q')"
    "aq_decoded_buffer q' = out" "aq_decoded_pos q' = aq_decoded_pos q" "aq_buffering_samples q' = 0"
    using assms(1-9) by (simp add: decode_next_def decode_packet_def run_decoder_def Let_def act_then.simps)
  then have "decode_loop env len ?q = Some (Err (Decode (Some (raw_data (qp_packet p)))), q')"
    using assms(12) by (subst decode_loop.simps) simp
  then have "get_next_data env len q = Some (Err (Decode (Some (raw_data (qp_packet p)))), q')"
    using assms(3,10) by (simp add: get_next_data_def fetch_data_def)
  then show ?thesis using q'(2-4) assms(9,11) by (auto simp: get_next_data_def fetch_data_def)
qed

section \<open>The handler\<close>

lemma empty_queue_inv: "queue_inv (add_buffer_size 0 (empty_queue env packet n d))"
  using sizes_inv_first [of "empty_queue env packet n d"] by (simp add: queue_inv_def empty_queue_def)

lemma audio_queue_new_cases:
  "audio_queue_new env packet \<noteq> Panic \<and> (\<forall>q. audio_queue_new env packet = Ok q \<longrightarrow> queue_inv q)"
proof -
  have "fst (add_packet env packet (add_buffer_size 0 (empty_queue env packet n d))) \<noteq> Panic \<and>
      queue_inv (snd (add_packet env packet (add_buffer_size 0 (empty_queue env packet n d))))" for n d
    using add_packet_inv [OF empty_queue_inv, of env packet] by (metis prod.collapse)
  then show ?thesis
    by (auto simp: audio_queue_new_def opus_samples_def Let_def and_then_not_Panic and_then_Ok_iff case_prod_unfold)
qed

definition handler_inv :: "('i, 'd, 'f) audio_handler \<Rightarrow> bool" where
  "handler_inv h \<longleftrightarrow> distinct (map fst (ah_queues h)) \<and> (\<forall>(i, q) \<in> set (ah_queues h). queue_inv q)"

lemma queue_inv_buffering [simp]: "queue_inv (q\<lparr>aq_buffering_samples := n\<rparr>) = queue_inv q"
  by (simp add: queue_inv_def)

text \<open>
  C19 (the handler keeps one ordered queue per client): handling a packet, whatever it holds, does not
  panic and keeps every queue in order with one queue per client; a client is reported as new exactly
  when it had no queue and has one now, and a packet that is refused leaves everything as it was.
\<close>

theorem audio_handle_packet:
  assumes "handler_inv h" and "handle_packet env i packet h = (r, h')"
  shows "handler_inv h' \<and> r \<noteq> Panic \<and>
    (r = Ok (Some j) \<longrightarrow> j = i \<and> i \<notin> fst ` set (ah_queues h) \<and> fst ` set (ah_queues h') = insert i (fst ` set (ah_queues h))) \<and>
    (r = Ok None \<longrightarrow> fst ` set (ah_queues h') = fst ` set (ah_queues h)) \<and>
    (\<forall>e. r = Err e \<longrightarrow> h' = h)"
proof (cases "audio_codec (audio_data packet) \<noteq> OpusMusic \<and> audio_codec (audio_data packet) \<noteq> OpusVoice")
  case True
  then show ?thesis using assms by (auto simp: handle_packet_def Let_def)
next
  case codec: False
  show ?thesis
  proof (cases "map_of (ah_queues h) i")
    case (Some q)
    have inv: "queue_inv q" using assms(1) map_of_SomeD [OF Some] by (auto simp: handler_inv_def)
    obtain r1 q1 where a: "add_packet env packet q = (r1, q1)" by fastforce
    note k = add_packet_inv [OF inv a]
    let ?qs = "map (\<lambda>(j, x). (j, if j = i then q1 else x)) (ah_queues h)"
    have res: "r = map_ok (\<lambda>_. None) r1" "h' = h\<lparr>ah_queues := ?qs\<rparr>"
      using assms(2) codec Some a by (auto simp: handle_packet_def Let_def)
    have keys: "map fst ?qs = map fst (ah_queues h)" by (simp add: case_prod_unfold comp_def)
    have "x = q" if "(i, x) \<in> set (ah_queues h)" for x
      using that Some assms(1) map_of_is_SomeI [of "ah_queues h" i x] by (simp add: handler_inv_def)
    then have "?qs = ah_queues h" if "q1 = q" using that by (auto intro!: map_idI)
    moreover have "fst ` set ?qs = fst ` set (ah_queues h)" using keys by (metis list.set_map)
    moreover have "handler_inv (h\<lparr>ah_queues := ?qs\<rparr>)"
      unfolding handler_inv_def using assms(1) k by (auto simp: keys handler_inv_def simp del: map_map split: if_splits)
    ultimately show ?thesis using k res by (cases r1) (simp_all del: set_map)
  next
    case None
    then have "i \<notin> fst ` set (ah_queues h)" by (simp add: map_of_eq_None_iff)
    then show ?thesis
      using assms codec None audio_queue_new_cases [of env packet]
      by (auto simp: handle_packet_def handler_inv_def Let_def split: if_splits outcome.splits)
  qed
qed

lemma mix_into_Ok: "length r \<le> length buf \<Longrightarrow> \<exists>buf'. mix_into env vol r buf = (Ok buf' :: (_, 'e) outcome) \<and> length buf' = length buf"
  by (simp add: mix_into_def)

lemma fill_queues_result:
  assumes "decoder_laws env" and "\<forall>(i, q) \<in> set qs. fetchable q"
  shows "\<exists>qs' buf' calls removed. fill_queues env qs buf = Some (Ok (qs', buf', calls, removed)) \<and>
    length buf' = length buf \<and> map fst qs' = map fst qs \<and> set removed \<subseteq> fst ` set qs \<and>
    (\<forall>(i, q) \<in> set qs. MAX_PACKET_LOSSES \<le> aq_packet_loss_num q \<longrightarrow> i \<in> set removed) \<and>
    (\<forall>(i, q) \<in> set qs'. fetch_inv q)"
  using assms(2)
proof (induction qs arbitrary: buf)
  case (Cons iq qs)
  obtain i q where iq: "iq = (i, q)" by (cases iq)
  have q: "fetchable q" and qs: "\<forall>(i, q) \<in> set qs. fetchable q" using Cons.prems iq by auto
  obtain q1 buf1 calls removed where
    step: "fill_queues env (iq # qs) buf = map_option (\<lambda>r. and_then r (\<lambda>(qs, buf, calls', removed').
        Ok ((i, q1) # qs, buf, calls @ calls', removed @ removed'))) (fill_queues env qs buf1)"
    and ok: "length buf1 = length buf" "fetch_inv q1" "set removed \<subseteq> {i}" "MAX_PACKET_LOSSES \<le> aq_packet_loss_num q \<Longrightarrow> i \<in> set removed"
  proof (cases "MAX_PACKET_LOSSES \<le> aq_packet_loss_num q")
    case True
    then show thesis using that [of q "[]" "[i]" buf] q iq by (simp add: fetchable_def)
  next
    case False
    obtain r q' where f: "get_next_data env (length buf) q = Some (r, q')" "r \<noteq> Panic" "fetch_inv q'"
      "\<forall>d. r = Ok (d, False) \<longrightarrow> d = [] \<or> length d = length buf" "\<forall>d. r = Ok (d, True) \<longrightarrow> length d < length buf"
      using fetch_total [OF assms(1) q, of "length buf"] by blast
    show thesis
    proof (cases r)
      case (Ok de)
      obtain d e where de: "de = (d, e)" by (cases de)
      have "length d \<le> length buf" using f(4,5) Ok de by (cases e) auto
      then obtain buf' where "mix_into env (aq_volume q) d buf = (Ok buf' :: (_, audio_error) outcome)" "length buf' = length buf"
        using mix_into_Ok [of d buf env "aq_volume q", where 'e = audio_error] by auto
      note mix = this
      have "fill_queues env (iq # qs) buf = map_option (\<lambda>r. and_then r (\<lambda>(qs, buf, calls', removed').
          Ok ((i, q') # qs, buf, [(i, d)] @ calls', (if e then [i] else []) @ removed'))) (fill_queues env qs buf')"
        using f(1) mix(1) False by (simp add: iq Ok de)
      then show thesis by (rule that) (use mix(2) f(3) False in auto)
    next
      case (Err e)
      then show thesis using that [of q' "[]" "[]" buf] f iq False by simp
    next
      case Panic
      then show thesis using f(2) by simp
    qed
  qed
  obtain qs' buf' calls' removed' where "fill_queues env qs buf1 = Some (Ok (qs', buf', calls', removed'))"
    "length buf' = length buf1" "map fst qs' = map fst qs" "set removed' \<subseteq> fst ` set qs"
    "\<forall>(i, q) \<in> set qs. MAX_PACKET_LOSSES \<le> aq_packet_loss_num q \<longrightarrow> i \<in> set removed'" "\<forall>(i, q) \<in> set qs'. fetch_inv q"
    using Cons.IH [OF qs, of buf1] by blast
  then show ?case using step ok iq by auto
qed simp

text \<open>
  C20 (mixing all clients does not fail): when every queue can be fetched from, filling a buffer returns
  a buffer of the same length; errors of single queues are swallowed, the clients that are reported as
  no longer talking are exactly the ones whose queues are gone, and every client with too many lost
  packets is among them.
\<close>

theorem audio_fill_buffer:
  assumes "decoder_laws env" and "\<forall>(i, q) \<in> set (ah_queues h). fetchable q"
  shows "\<exists>buf' removed h'. fill_buffer env buf h = Some (Ok (buf', removed, h')) \<and>
    length buf' = length buf \<and> set removed \<subseteq> fst ` set (ah_queues h) \<and>
    fst ` set (ah_queues h') = fst ` set (ah_queues h) - set removed \<and>
    (\<forall>(i, q) \<in> set (ah_queues h). MAX_PACKET_LOSSES \<le> aq_packet_loss_num q \<longrightarrow> i \<in> set removed) \<and>
    (\<forall>(i, q) \<in> set (ah_queues h'). fetch_inv q)"
proof -
  obtain qs' buf' calls removed where f: "fill_queues env (ah_queues h) buf = Some (Ok (qs', buf', calls, removed))"
    "length buf' = length buf" "map fst qs' = map fst (ah_queues h)" "set removed \<subseteq> fst ` set (ah_queues h)"
    "\<forall>(i, q) \<in> set (ah_queues h). MAX_PACKET_LOSSES \<le> aq_packet_loss_num q \<longrightarrow> i \<in> set removed"
    "\<forall>(i, q) \<in> set qs'. fetch_inv q"
    using fill_queues_result [OF assms, of buf] by blast
  have "fst ` set (filter (\<lambda>(i, _). i \<notin> set removed) qs') = fst ` set qs' - set removed" by force
  also have "fst ` set qs' = fst ` set (ah_queues h)" using f(3) by (metis list.set_map)
  finally show ?thesis using f by (auto simp: fill_buffer_def fill_buffer_with_proc_def)
qed

section \<open>Examples\<close>

text \<open>A decoder that fills its slice; it accepts the payload \<open>[9, 9]\<close> and fails to decode it.\<close>

definition toy_audio :: "(unit, int) audio_env" where
  "toy_audio = \<lparr>valid_opus = (\<lambda>d. d \<noteq> []), nb_samples = (\<lambda>d. Some (if d = [9, 9] then 120 else 960)),
     new_decoder = Some (), signals_ok = (\<lambda>n. True),
     decode_float = (\<lambda>d slice fec s. (if d = Some [9, 9] \<or> length slice < 2 then None else Some (length slice div 2), slice, s)),
     zero_sample = 0, unit_volume = 1, sample_add = (+), sample_mul = (*)\<rparr>"

lemma toy_decoder_laws: "decoder_laws toy_audio"
  by (auto simp: decoder_laws_def toy_audio_def CHANNEL_NUM_def split: if_splits)

definition example_audio :: "u16 \<Rightarrow> bytes \<Rightarrow> in_audio" where
  "example_audio i d = \<lparr>audio_packet = \<lparr>ip_header = \<lparr>ih_dir = S2C, ih_data = []\<rparr>, ip_content = []\<rparr>,
     audio_data = AudioS2C i 7 OpusVoice d\<rparr>"

definition example_queue :: "(unit, int) audio_queue" where
  "example_queue = add_buffer_size 0 (empty_queue toy_audio (example_audio 0 [1, 2]) 960 ())"

lemma example_queue_simps [simp]:
  "queue_inv example_queue" "aq_packet_buffer example_queue = []" "aq_next_id example_queue = 0"
  "aq_buffering_samples example_queue = 0" "aq_decoded_pos example_queue = 0" "aq_decoded_buffer example_queue = []"
  "fetch_inv example_queue" "fetchable example_queue"
  using empty_queue_inv [of toy_audio "example_audio 0 [1, 2]" 960 "()"]
  by (simp_all add: example_queue_def empty_queue_def example_audio_def fetch_inv_def packets_near_def fetchable_def)

lemma example_samples [simp]:
  "packet_samples toy_audio [1, 2] = Ok 960" "audio_id (audio_data (example_audio i d)) = i"
  "payload_of (example_audio i d) = d"
  by (simp_all add: packet_samples_def opus_samples_def toy_audio_def example_audio_def payload_of_def MAX_BUFFER_SIZE_def)

theorem audio_packet_added_witness:
  "\<exists>q'. add_packet toy_audio (example_audio 5 [1, 2]) example_queue = (Ok (), q') \<and> queue_inv q' \<and>
     aq_packet_buffer q' = [\<lparr>qp_packet = example_audio 5 [1, 2], qp_samples = 960, qp_id = 5\<rparr>]"
proof -
  obtain r q' where run: "add_packet toy_audio (example_audio 5 [1, 2]) example_queue = (r, q')" by fastforce
  from audio_packet_added [of example_queue _ "example_audio 5 [1, 2]", OF _ refl refl refl this] run
  show ?thesis by (simp add: MAX_BUFFER_PACKETS_def)
qed


theorem audio_packet_at_limit_panics_witness:
  "\<exists>q'. add_packet toy_audio (example_audio 50 [1, 2]) example_queue = (Ok (), q') \<and>
     (\<exists>q''. get_next_data toy_audio 4 q' = Some (Panic, q''))"
  by (rule audio_packet_at_limit_panics [where samples = 960]) simp_all

theorem decode_error_then_panic_witness:
  "let p = \<lparr>qp_packet = example_audio 0 [9, 9], qp_samples = 120, qp_id = 0\<rparr>;
       q = example_queue\<lparr>aq_packet_buffer := [p], aq_packet_buffer_samples := 120,
         aq_decoded_buffer := replicate 500 0, aq_decoded_pos := 500\<rparr>
   in \<exists>q'. get_next_data toy_audio 4 q = Some (Err (Decode (Some [])), q') \<and>
     (\<exists>q''. get_next_data toy_audio 4 q' = Some (Panic, q''))"
proof -
  let ?p = "\<lparr>qp_packet = example_audio 0 [9, 9], qp_samples = 120, qp_id = 0\<rparr>"
  let ?q = "example_queue\<lparr>aq_packet_buffer := [?p], aq_packet_buffer_samples := 120,
         aq_decoded_buffer := replicate 500 0, aq_decoded_pos := 500\<rparr>"
  have "raw_data (qp_packet ?p) = []" by (simp add: raw_data_def example_audio_def)
  then show ?thesis
    using decode_error_then_panic [of ?q ?p "[]" toy_audio "replicate 240 0" "()" 4 4]
    by (simp add: toy_audio_def CHANNEL_NUM_def)
qed

theorem audio_handle_packet_witness:
  "let (r, h') = handle_packet toy_audio (3 :: nat) (example_audio 5 [1, 2]) audio_handler_default
   in handler_inv h' \<and> r \<noteq> Panic"
proof -
  obtain r h' where run: "handle_packet toy_audio (3 :: nat) (example_audio 5 [1, 2]) audio_handler_default = (r, h')" by fastforce
  have "handler_inv (audio_handler_default :: (nat, unit, int) audio_handler)"
    by (simp add: handler_inv_def audio_handler_default_def)
  from audio_handle_packet [OF this run] run show ?thesis by simp
qed

theorem audio_fill_buffer_witness:
  "\<exists>buf' removed h'. fill_buffer toy_audio [0, 0, 0, 0]
     \<lparr>ah_queues = [(3 :: nat, example_queue\<lparr>aq_packet_loss_num := 3\<rparr>)], ah_avg_buffer_samples = 0\<rparr>
       = Some (Ok (buf', removed, h')) \<and> length buf' = 4 \<and> 3 \<in> set removed"
proof -
  have "fetchable (example_queue\<lparr>aq_packet_loss_num := 3\<rparr>)"
    using example_queue_simps by (simp add: fetchable_def fetch_inv_def packets_near_def queue_inv_def sizes_inv_def)
  then show ?thesis
    using audio_fill_buffer [OF toy_decoder_laws, of
      "\<lparr>ah_queues = [(3 :: nat, example_queue\<lparr>aq_packet_loss_num := 3\<rparr>)], ah_avg_buffer_samples = 0\<rparr>" "[0, 0, 0, 0]"]
    by (auto simp: MAX_PACKET_LOSSES_def)
qed

end
