(* ===== verification/Crypto_Keys.thy ===== *)
theory Crypto_Keys
  imports Utf8 Algorithms
begin

text \<open>
  Keys (\<open>utils/tsproto-types/src/crypto.rs\<close>): the formats in which TeamSpeak stores P-256 keys, their
  import from any of them, and the obfuscation of stored identities.

  A P-256 public key is its uncompressed SEC1 encoding, a private key is its 32 big-endian bytes.
  The crates for base64, ASN.1, SHA-1 and the curve are the parameters \<open>crypto_env\<close>.
\<close>

section \<open>Data\<close>

text \<open>The blocks of the ASN.1 crate that the code looks at, without their offsets in the input.\<close>

datatype asn1_block =
    Sequence "asn1_block list"
  | BitString nat bytes
  | Integer int
  | OtherBlock

record crypto_env =
  base64_encode :: "bytes \<Rightarrow> bytes"
  base64_decode :: "bytes \<Rightarrow> bytes option"
  from_der :: "bytes \<Rightarrow> asn1_block list option"
  to_der :: "asn1_block \<Rightarrow> bytes option"
  sha1 :: "bytes \<Rightarrow> bytes"
  from_sec1_bytes :: "bytes \<Rightarrow> bytes option"
  from_encoded_point :: "bytes \<Rightarrow> bytes option"
  secret_from_bytes :: "bytes \<Rightarrow> bytes option"
  public_key_of :: "bytes \<Rightarrow> bytes"
  signature_from_der :: "bytes \<Rightarrow> bytes option"
  ecdsa_verify :: "bytes \<Rightarrow> bytes \<Rightarrow> bytes \<Rightarrow> bool"
  ecdsa_sign :: "bytes \<Rightarrow> bytes \<Rightarrow> bytes"

datatype crypto_error =
    TooManyAsn1Blocks
  | UnexpectedPrivateKey
  | NoPrivateKey
  | PublicKeyNotFound
  | ExpectedBitString
  | ExpectedSequence
  | EmptyKeyData
  | KeyDecodeError
  | NoShortKey
  | NoObfuscatedKey
  | NoCounterBlock
  | ParsePublicKeyFailed
  | WrongKeyLength
  | WrongPublicKeyLength nat nat
  | WrongSignature bytes bytes bytes
  | Asn1Decode
  | Asn1Encode
  | Base64Decode
  | Utf8Error

definition IDENTITY_OBFUSCATION :: bytes where
  "IDENTITY_OBFUSCATION = ascii (''b9dfaa7bee6ac57ac7b65f1094a1c155''
     @ ''e747327bc2fe5d51c512023fe54a280201004e90ad1daaae1075d53b7d571c30e063b5a''
     @ ''62a4a017bb394833aa0983e6e'')"

type_synonym 'a crypto_result = "('a, crypto_error) outcome"

section \<open>Big integers\<close>

text \<open>\<open>BigInt::to_bytes_le\<close> and \<open>to_bytes_be\<close> give the sign and the magnitude, zero is one byte.\<close>

definition magnitude_le :: "int \<Rightarrow> bytes" where
  "magnitude_le i = to_bytes_le (nat \<bar>i\<bar>)"

definition magnitude_be :: "int \<Rightarrow> bytes" where
  "magnitude_be i = rev (magnitude_le i)"

definition from_bytes_be :: "bytes \<Rightarrow> int" where
  "from_bytes_be bs = int (array_to_biguint bs)"

section \<open>Public keys\<close>

definition encode_password :: "crypto_env \<Rightarrow> bytes \<Rightarrow> bytes" where
  "encode_password env password = base64_encode env (sha1 env password)"

definition pub_from_short :: "crypto_env \<Rightarrow> bytes \<Rightarrow> bytes crypto_result" where
  "pub_from_short env d = ok_or ParsePublicKeyFailed (from_sec1_bytes env d)"

definition FIELD_SIZE :: nat where "FIELD_SIZE = 32"

text \<open>A coordinate: padded with zeros at the most significant end.\<close>

definition to_coord :: "int \<Rightarrow> bytes crypto_result" where
  "to_coord src =
     (let bs = magnitude_le src in
      if src < 0 then Err ParsePublicKeyFailed
      else if FIELD_SIZE < length bs then Err (WrongPublicKeyLength FIELD_SIZE (length bs))
      else Ok (rev (bs @ replicate (FIELD_SIZE - length bs) 0)))"

text \<open>\<open>EncodedPoint::from_affine_coordinates(x, y, false)\<close> in SEC1, and its coordinates.\<close>

definition from_affine_coordinates :: "bytes \<Rightarrow> bytes \<Rightarrow> bytes" where
  "from_affine_coordinates x y = 4 # x @ y"

definition point_x :: "bytes \<Rightarrow> bytes" where "point_x p = take FIELD_SIZE (drop 1 p)"
definition point_y :: "bytes \<Rightarrow> bytes" where "point_y p = take FIELD_SIZE (drop (1 + FIELD_SIZE) p)"

text \<open>\<open>blocks.get(n)\<close> when it is an integer.\<close>

definition integer_at :: "asn1_block list \<Rightarrow> nat \<Rightarrow> int option" where
  "integer_at blocks n =
     (if n < length blocks then (case blocks ! n of Integer i \<Rightarrow> Some i | _ \<Rightarrow> None) else None)"

definition pub_from_tomcrypt :: "crypto_env \<Rightarrow> bytes \<Rightarrow> bytes crypto_result" where
  "pub_from_tomcrypt env d =
     and_then (ok_or Asn1Decode (from_der env d)) (\<lambda>blocks.
     if length blocks \<noteq> 1 then Err TooManyAsn1Blocks
     else
       (case hd blocks of
          Sequence blocks \<Rightarrow>
            (case blocks of
               BitString len content # _ \<Rightarrow>
                 and_then (if len \<noteq> 1 then Ok True
                   else and_then (index content 0) (\<lambda>b. Ok (b AND 0x80 \<noteq> 0))) (\<lambda>is_private.
                 if is_private then Err UnexpectedPrivateKey
                 else
                   (case (integer_at blocks 2, integer_at blocks 3) of
                      (Some x, Some y) \<Rightarrow>
                        and_then (to_coord x) (\<lambda>x_coord.
                        and_then (to_coord y) (\<lambda>y_coord.
                        ok_or ParsePublicKeyFailed
                          (from_encoded_point env (from_affine_coordinates x_coord y_coord))))
                    | _ \<Rightarrow> Err PublicKeyNotFound))
             | _ \<Rightarrow> Err ExpectedBitString)
        | _ \<Rightarrow> Err ExpectedSequence))"

definition pub_from_ts :: "crypto_env \<Rightarrow> bytes \<Rightarrow> bytes crypto_result" where
  "pub_from_ts env s = and_then (ok_or Base64Decode (base64_decode env s)) (pub_from_tomcrypt env)"

definition pub_to_tomcrypt :: "crypto_env \<Rightarrow> bytes \<Rightarrow> bytes crypto_result" where
  "pub_to_tomcrypt env key =
     unwrap_opt (to_der env (Sequence
       [BitString 1 [0], Integer 32, Integer (from_bytes_be (point_x key)), Integer (from_bytes_be (point_y key))]))"

definition pub_to_ts :: "crypto_env \<Rightarrow> bytes \<Rightarrow> bytes crypto_result" where
  "pub_to_ts env key = map_ok (base64_encode env) (pub_to_tomcrypt env key)"

definition pub_to_short :: "bytes \<Rightarrow> bytes" where
  "pub_to_short key = key"

definition get_uid_no_base64 :: "crypto_env \<Rightarrow> bytes \<Rightarrow> bytes crypto_result" where
  "get_uid_no_base64 env key = map_ok (sha1 env) (pub_to_ts env key)"

definition get_uid :: "crypto_env \<Rightarrow> bytes \<Rightarrow> bytes crypto_result" where
  "get_uid env key = map_ok (base64_encode env) (get_uid_no_base64 env key)"

definition verify :: "crypto_env \<Rightarrow> bytes \<Rightarrow> bytes \<Rightarrow> bytes \<Rightarrow> unit crypto_result" where
  "verify env key d signature =
     and_then (ok_or (WrongSignature key d signature) (signature_from_der env signature)) (\<lambda>sig.
     if ecdsa_verify env key d sig then Ok () else Err (WrongSignature key d signature))"

section \<open>Private keys\<close>

definition priv_from_short :: "crypto_env \<Rightarrow> bytes \<Rightarrow> bytes crypto_result" where
  "priv_from_short env d =
     (if length d \<noteq> 32 then Err NoShortKey else ok_or NoShortKey (secret_from_bytes env d))"

definition priv_to_short :: "bytes \<Rightarrow> bytes" where
  "priv_to_short key = key"

definition short_or_missing :: "crypto_env \<Rightarrow> int option \<Rightarrow> bytes crypto_result" where
  "short_or_missing env i =
     (case i of Some i \<Rightarrow> priv_from_short env (magnitude_be i) | None \<Rightarrow> Err NoPrivateKey)"

definition priv_from_tomcrypt :: "crypto_env \<Rightarrow> bytes \<Rightarrow> bytes crypto_result" where
  "priv_from_tomcrypt env d =
     and_then (ok_or Asn1Decode (from_der env d)) (\<lambda>blocks.
     if length blocks \<noteq> 1 then Err TooManyAsn1Blocks
     else
       (case hd blocks of
          Sequence blocks \<Rightarrow>
            (case blocks of
               BitString len content # _ \<Rightarrow>
                 and_then (if len \<noteq> 1 \<and> len \<noteq> 2 then Ok True
                   else and_then (index content 0) (\<lambda>b. Ok (b AND 0x80 = 0))) (\<lambda>no_private.
                 if no_private then Err NoPrivateKey
                 else if len = 1 then short_or_missing env (integer_at blocks 4)
                 else short_or_missing env (integer_at blocks 2))
             | _ \<Rightarrow> Err ExpectedBitString)
        | _ \<Rightarrow> Err ExpectedSequence))"

definition priv_from_ts :: "crypto_env \<Rightarrow> bytes \<Rightarrow> bytes crypto_result" where
  "priv_from_ts env s = and_then (ok_or Base64Decode (base64_decode env s)) (priv_from_tomcrypt env)"

definition priv_to_tomcrypt :: "crypto_env \<Rightarrow> bytes \<Rightarrow> bytes crypto_result" where
  "priv_to_tomcrypt env key =
     (let p = public_key_of env key in
      unwrap_opt (to_der env (Sequence
        [BitString 1 [0x80], Integer 32, Integer (from_bytes_be (point_x p)), Integer (from_bytes_be (point_y p)),
         Integer (from_bytes_be key)])))"

definition priv_to_ts :: "crypto_env \<Rightarrow> bytes \<Rightarrow> bytes crypto_result" where
  "priv_to_ts env key = map_ok (base64_encode env) (priv_to_tomcrypt env key)"

definition sign :: "crypto_env \<Rightarrow> bytes \<Rightarrow> bytes \<Rightarrow> bytes" where
  "sign = ecdsa_sign"

section \<open>Obfuscation\<close>

text \<open>
  \<open>data[..] ^= hash[..]\<close>: exclusive or of the first bytes. The first 20 bytes are combined with the hash
  of the rest up to its first zero byte, and the first 100 with a constant.
\<close>

definition xor_front :: "bytes \<Rightarrow> bytes \<Rightarrow> bytes" where
  "xor_front ks d = map2 (XOR) (take (length ks) d) (take (length d) ks) @ drop (length ks) d"

definition hashed_part :: "bytes \<Rightarrow> bytes" where
  "hashed_part d = takeWhile (\<lambda>b. b \<noteq> 0) (drop 20 d)"

definition xor_hash :: "crypto_env \<Rightarrow> bytes \<Rightarrow> bytes crypto_result" where
  "xor_hash env d =
     and_then (slice_from d 20) (\<lambda>_.
     let h = sha1 env (hashed_part d) in
     if 20 \<le> length h then Ok (xor_front (take 20 h) d) else Panic)"

definition xor_static :: "bytes \<Rightarrow> bytes" where
  "xor_static d = xor_front (take 100 IDENTITY_OBFUSCATION) d"

definition from_ts_obfuscated :: "crypto_env \<Rightarrow> bytes \<Rightarrow> bytes crypto_result" where
  "from_ts_obfuscated env s =
     and_then (ok_or Base64Decode (base64_decode env s)) (\<lambda>d.
     if length d < 20 then Err NoObfuscatedKey
     else
       and_then (xor_hash env d) (\<lambda>d.
       and_then (from_utf8 Utf8Error (xor_static d)) (priv_from_ts env)))"

definition to_ts_obfuscated :: "crypto_env \<Rightarrow> bytes \<Rightarrow> bytes crypto_result" where
  "to_ts_obfuscated env key =
     and_then (priv_to_ts env key) (\<lambda>d.
     and_then (xor_hash env (xor_static d)) (\<lambda>d.
     Ok (base64_encode env d)))"

section \<open>Import\<close>

text \<open>\<open>if let Ok(r) = .. { return Ok(r) }\<close>.\<close>

fun or_else :: "('a, 'e) outcome \<Rightarrow> ('a, 'f) outcome \<Rightarrow> ('a, 'f) outcome" where
  "or_else (Ok x) k = Ok x"
| "or_else (Err _) k = k"
| "or_else Panic k = Panic"

text \<open>
  \<open>import_str\<close> and \<open>import\<close> call each other: text may be the base64 encoding of data, which may be text.
  \<open>fuel\<close> bounds the depth of the calls; \<open>None\<close> stands for a call that is cut off.
\<close>

fun import_bytes :: "nat \<Rightarrow> crypto_env \<Rightarrow> bytes \<Rightarrow> bytes crypto_result option"
  and import_str :: "nat \<Rightarrow> crypto_env \<Rightarrow> bytes \<Rightarrow> bytes crypto_result option" where
  "import_bytes 0 env d = None"
| "import_bytes (Suc fuel) env d =
     (if d = [] then Some (Err EmptyKeyData)
      else
        Option.bind (if utf8_valid d then import_str fuel env d else Some (Err KeyDecodeError)) (\<lambda>r.
        Some (or_else r (or_else (priv_from_tomcrypt env d) (or_else (priv_from_short env d) (Err KeyDecodeError))))))"
| "import_str 0 env s = None"
| "import_str (Suc fuel) env s =
     Option.bind (case base64_decode env s of
       Some d \<Rightarrow> import_bytes fuel env d
     | None \<Rightarrow> Some (Err Base64Decode)) (\<lambda>r.
     Some (or_else r (or_else (from_ts_obfuscated env s) (Err KeyDecodeError))))"

section \<open>Ed25519 keys\<close>

text \<open>A public key is its compressed point; a private key is a scalar, reduced by \<open>reduce\<close>.\<close>

definition ed_pub_from_base64 :: "crypto_env \<Rightarrow> bytes \<Rightarrow> bytes crypto_result" where
  "ed_pub_from_base64 env s =
     and_then (ok_or Base64Decode (base64_decode env s)) (\<lambda>d.
     if length d \<noteq> 32 then Err WrongKeyLength else Ok d)"

definition ed_pub_to_base64 :: "crypto_env \<Rightarrow> bytes \<Rightarrow> bytes" where
  "ed_pub_to_base64 env key = base64_encode env key"

definition ed_priv_from_base64 :: "crypto_env \<Rightarrow> (bytes \<Rightarrow> 's) \<Rightarrow> bytes \<Rightarrow> 's crypto_result" where
  "ed_priv_from_base64 env reduce s =
     and_then (ok_or Base64Decode (base64_decode env s)) (\<lambda>d.
     if length d \<noteq> 32 then Err WrongKeyLength else Ok (reduce d))"

end
