(* ===== verification/Crypto_Props.thy ===== *)
theory Crypto_Props
  imports Crypto_Keys
begin

text \<open>
  Properties of the key formats: what the crates promise, the padding of big integers, the round trips
  of stored keys, and the import.
\<close>

section \<open>What the crates promise\<close>

text \<open>Base64 text is ASCII, at least a third longer than the data, and read back.\<close>

definition base64_laws :: "crypto_env \<Rightarrow> bool" where
  "base64_laws env \<longleftrightarrow>
     (\<forall>d. base64_decode env (base64_encode env d) = Some d \<and> 4 * length d \<le> 3 * length (base64_encode env d) \<and>
       (\<forall>b \<in> set (base64_encode env d). b < 0x80)) \<and>
     (\<forall>s d. base64_decode env s = Some d \<longrightarrow> d = [] \<or> length d < length s)"

text \<open>The shape of a stored key.\<close>

abbreviation key_block :: "u8 \<Rightarrow> int list \<Rightarrow> asn1_block" where
  "key_block flag is \<equiv> Sequence (BitString 1 [flag] # map Integer is)"

text \<open>A bit string has as many bits as its bytes hold.\<close>

fun bits_ok :: "asn1_block \<Rightarrow> bool" where
  "bits_ok (BitString n bs) \<longleftrightarrow> n \<le> 8 * length bs"
| "bits_ok (Sequence blocks) \<longleftrightarrow> list_all bits_ok blocks"
| "bits_ok _ \<longleftrightarrow> True"

definition asn1_laws :: "crypto_env \<Rightarrow> bool" where
  "asn1_laws env \<longleftrightarrow>
     (\<forall>flag is. flag \<in> {0, 0x80} \<longrightarrow> (\<forall>i \<in> set is. 0 \<le> i \<and> i < 2 ^ 256) \<longrightarrow>
       (\<exists>d. to_der env (key_block flag is) = Some d \<and> from_der env d = Some [key_block flag is] \<and>
         3 * (length is + 1) \<le> length d)) \<and>
     (\<forall>d blocks. from_der env d = Some blocks \<longrightarrow> list_all bits_ok blocks)"

text \<open>A public key is the uncompressed encoding of a point, a private key has a public key.\<close>

definition valid_public :: "crypto_env \<Rightarrow> bytes \<Rightarrow> bool" where
  "valid_public env p \<longleftrightarrow> length p = 65 \<and> hd p = 4 \<and> from_encoded_point env p = Some p"

definition valid_private :: "crypto_env \<Rightarrow> bytes \<Rightarrow> bool" where
  "valid_private env k \<longleftrightarrow>
     length k = 32 \<and> secret_from_bytes env k = Some k \<and> valid_public env (public_key_of env k)"

definition sha1_law :: "crypto_env \<Rightarrow> bool" where
  "sha1_law env \<longleftrightarrow> (\<forall>d. length (sha1 env d) = 20)"

section \<open>Big integers\<close>

lemma le_value_inj: "length xs = length ys \<Longrightarrow> le_value xs = le_value ys \<Longrightarrow> xs = ys"
proof (induction xs ys rule: list_induct2)
  case (Cons x xs y ys)
  have "unat x < 256" "unat y < 256" using unsigned_less [of x, where 'a = nat] unsigned_less [of y, where 'a = nat] by simp_all
  moreover have "(le_value xs * 256 + unat x) mod 256 = (le_value ys * 256 + unat y) mod 256"
    "(le_value xs * 256 + unat x) div 256 = (le_value ys * 256 + unat y) div 256"
    using Cons.prems by (simp_all only: le_value_simps)
  ultimately have "unat x = unat y" "le_value xs = le_value ys" by simp_all
  with Cons.IH show ?case by (simp add: unsigned_word_eqI)
qed simp

lemma le_value_bound: "le_value bs < 256 ^ length bs"
proof (induction bs)
  case (Cons b bs)
  have "unat b < 256" using unsigned_less [of b, where 'a = nat] by simp
  with Cons show ?case by simp
qed simp

lemma le_value_append: "le_value (xs @ ys) = le_value xs + 256 ^ length xs * le_value ys"
  by (induction xs) (simp_all add: algebra_simps)

lemma from_bytes_be_value: "from_bytes_be bs = int (le_value (rev bs))"
  using array_to_biguint_rev [of "rev bs"] by (simp add: from_bytes_be_def)

lemma from_bytes_be_range: "0 \<le> from_bytes_be bs" "length bs = 32 \<Longrightarrow> from_bytes_be bs < 2 ^ 256"
proof -
  show "0 \<le> from_bytes_be bs" by (simp add: from_bytes_be_def)
  assume "length bs = 32"
  then have "int (le_value (rev bs)) < int (256 ^ 32)" using le_value_bound [of "rev bs"] by (simp only: of_nat_less_iff length_rev)
  then show "from_bytes_be bs < 2 ^ 256" by (simp add: from_bytes_be_value)
qed

lemma magnitude_le_value: "le_value (magnitude_le (int n)) = n"
  by (simp add: magnitude_le_def le_value_to_bytes_le)

lemma length_magnitude: "length bs = Suc k \<Longrightarrow> length (magnitude_le (from_bytes_be bs)) \<le> Suc k"
  using le_value_bound [of "rev bs"] length_to_bytes_le [of "Suc k" "le_value (rev bs)"]
  by (simp add: from_bytes_be_value magnitude_le_def)

text \<open>Padding restores what the integer forgets.\<close>

lemma to_coord_from_bytes:
  assumes "length bs = 32"
  shows "to_coord (from_bytes_be bs) = Ok bs"
proof -
  let ?m = "magnitude_le (from_bytes_be bs)"
  have "length ?m \<le> 32" using length_magnitude [of bs 31] assms by simp
  moreover have "?m @ replicate (32 - length ?m) 0 = rev bs"
    by (rule le_value_inj) (use calculation assms in \<open>simp_all add: from_bytes_be_value magnitude_le_value\<close>)
  ultimately show ?thesis
    using from_bytes_be_range(1) [of bs] by (simp add: to_coord_def FIELD_SIZE_def Let_def)
qed

text \<open>Without padding, a key with a leading zero byte gets shorter.\<close>

lemma magnitude_be_from_bytes:
  assumes "length bs = 32"
  shows "hd bs \<noteq> 0 \<Longrightarrow> magnitude_be (from_bytes_be bs) = bs"
    and "hd bs = 0 \<Longrightarrow> length (magnitude_be (from_bytes_be bs)) < 32"
proof -
  obtain c cs where bs: "bs = c # cs" "length cs = 31" using assms by (cases bs) auto
  let ?v = "le_value (rev bs)"
  have v: "?v = le_value (rev cs) + 256 ^ 31 * unat c" using bs by (simp add: le_value_append)
  have cs: "le_value (rev cs) < 256 ^ 31" using le_value_bound [of "rev cs"] bs by simp
  have len: "length (magnitude_le (from_bytes_be bs)) \<le> 31 \<longleftrightarrow> ?v < 256 ^ 31"
    using length_to_bytes_le [of 31 ?v] by (simp add: from_bytes_be_value magnitude_le_def)
  {
    assume "hd bs \<noteq> 0"
    then have "0 < unat c" using bs by (simp add: word_neq_0_conv unat_gt_0)
    then have "256 ^ 31 * 1 \<le> 256 ^ 31 * unat c" by (intro mult_le_mono2) simp
    then have "\<not> ?v < 256 ^ 31" using v by simp
    with len length_magnitude [of bs 31] assms have l: "length (magnitude_le (from_bytes_be bs)) = 32" by simp
    have "magnitude_le (from_bytes_be bs) = rev bs"
      by (rule le_value_inj) (use l assms in \<open>simp_all add: from_bytes_be_value magnitude_le_value\<close>)
    then show "magnitude_be (from_bytes_be bs) = bs" by (simp add: magnitude_be_def)
  }
  assume "hd bs = 0"
  then have "?v < 256 ^ 31" using v cs bs by simp
  with len show "length (magnitude_be (from_bytes_be bs)) < 32" by (simp add: magnitude_be_def)
qed

section \<open>Stored keys\<close>

lemma point_coordinates:
  assumes "length p = 65" "hd p = 4"
  shows "from_affine_coordinates (point_x p) (point_y p) = p" "length (point_x p) = 32" "length (point_y p) = 32"
proof -
  obtain q where "p = 4 # q" "length q = 64" using assms by (cases p) auto
  then show "from_affine_coordinates (point_x p) (point_y p) = p" "length (point_x p) = 32" "length (point_y p) = 32"
    by (simp_all add: from_affine_coordinates_def point_x_def point_y_def FIELD_SIZE_def)
qed

lemma asn1_key:
  assumes "asn1_laws env" "flag \<in> {0, 0x80}" "\<forall>i \<in> set is. 0 \<le> i \<and> i < 2 ^ 256"
  obtains d where "to_der env (key_block flag is) = Some d" "from_der env d = Some [key_block flag is]"
    "3 * (length is + 1) \<le> length d"
  using assms unfolding asn1_laws_def by blast

lemma priv_to_tomcrypt_read:
  assumes "asn1_laws env" "valid_private env key"
  obtains d where "priv_to_tomcrypt env key = Ok d" "15 \<le> length d"
    "priv_from_tomcrypt env d = (if hd key = 0 then Err NoShortKey else Ok key)"
proof -
  let ?p = "public_key_of env key"
  let ?is = "[32, from_bytes_be (point_x ?p), from_bytes_be (point_y ?p), from_bytes_be key]"
  have p: "length (point_x ?p) = 32" "length (point_y ?p) = 32" and k: "length key = 32" "secret_from_bytes env key = Some key"
    using assms(2) point_coordinates(2,3) [of ?p] by (simp_all add: valid_private_def valid_public_def)
  have "\<forall>i \<in> set ?is. 0 \<le> i \<and> i < 2 ^ 256"
    using from_bytes_be_range(1) from_bytes_be_range(2) [OF p(1)] from_bytes_be_range(2) [OF p(2)]
      from_bytes_be_range(2) [OF k(1)] by simp
  then obtain d where d: "to_der env (key_block 0x80 ?is) = Some d" "from_der env d = Some [key_block 0x80 ?is]"
      "3 * (length ?is + 1) \<le> length d"
    using asn1_key [OF assms(1), of "0x80" ?is] by blast
  have "priv_from_tomcrypt env d = priv_from_short env (magnitude_be (from_bytes_be key))"
    by (simp add: priv_from_tomcrypt_def d(2) integer_at_def short_or_missing_def)
  also have "\<dots> = (if hd key = 0 then Err NoShortKey else Ok key)"
    using magnitude_be_from_bytes [OF k(1)] k by (auto simp: priv_from_short_def)
  finally show thesis
    using that [of d] d by (simp add: priv_to_tomcrypt_def Let_def)
qed

text \<open>The exclusive or with a key that depends only on what it leaves alone is undone by itself.\<close>

lemma xor_front_length [simp]: "length (xor_front ks d) = length d"
  by (simp add: xor_front_def)

lemma xor_front_nth: "i < length d \<Longrightarrow> xor_front ks d ! i = (if i < length ks then d ! i XOR ks ! i else d ! i)"
  by (auto simp: xor_front_def nth_append)

lemma xor_front_twice [simp]: "xor_front ks (xor_front ks d) = d"
  by (rule nth_equalityI) (simp_all add: xor_front_nth xor.assoc)

lemma drop_xor_front: "length ks \<le> n \<Longrightarrow> drop n (xor_front ks d) = drop n d"
  by (simp add: xor_front_def min_def)

lemma xor_hash_Ok:
  assumes "sha1_law env" "20 \<le> length d"
  shows "xor_hash env d = Ok (xor_front (sha1 env (hashed_part d)) d)"
  using assms by (simp add: xor_hash_def sha1_law_def Let_def)

lemma xor_hash_twice:
  assumes "sha1_law env" "20 \<le> length d" "xor_hash env d = (Ok d' :: _ crypto_result)"
  shows "xor_hash env d' = Ok d" "length d' = length d"
proof -
  have "d' = xor_front (sha1 env (hashed_part d)) d" using assms xor_hash_Ok by simp
  moreover have "hashed_part d' = hashed_part d"
    using calculation assms(1) by (simp add: hashed_part_def drop_xor_front sha1_law_def)
  ultimately show "xor_hash env d' = Ok d" "length d' = length d"
    using assms(1,2) by (simp_all add: xor_hash_Ok)
qed

lemma utf8_valid_ascii: "\<forall>b \<in> set s. b < 0x80 \<Longrightarrow> utf8_valid s"
  by (induction s) simp_all

lemma deobfuscate:
  assumes "base64_laws env" "sha1_law env" "priv_to_ts env key = Ok s" "20 \<le> length s" "\<forall>b \<in> set s. b < 0x80"
  shows "\<exists>t. to_ts_obfuscated env key = Ok t \<and> from_ts_obfuscated env t = priv_from_ts env s"
proof -
  have len: "20 \<le> length (xor_static s)" using assms(4) by (simp add: xor_static_def)
  then obtain d where d: "xor_hash env (xor_static s) = (Ok d :: _ crypto_result)"
    using xor_hash_Ok [OF assms(2)] by blast
  note undone = xor_hash_twice [OF assms(2) len d]
  have "base64_decode env (base64_encode env d) = Some d" using assms(1) by (simp add: base64_laws_def)
  then have "from_ts_obfuscated env (base64_encode env d) = priv_from_ts env s"
    using undone len utf8_valid_ascii [OF assms(5)]
    by (simp add: from_ts_obfuscated_def from_utf8_def) (simp add: xor_static_def)
  moreover have "to_ts_obfuscated env key = Ok (base64_encode env d)"
    using assms(3) d by (simp add: to_ts_obfuscated_def)
  ultimately show ?thesis by blast
qed

lemma base64_text:
  assumes "base64_laws env"
  shows "base64_decode env (base64_encode env d) = Some d" "\<forall>b \<in> set (base64_encode env d). b < 0x80"
    and "15 \<le> length d \<Longrightarrow> 20 \<le> length (base64_encode env d)"
proof -
  have "4 * length d \<le> 3 * length (base64_encode env d)" using assms by (simp add: base64_laws_def)
  then show "15 \<le> length d \<Longrightarrow> 20 \<le> length (base64_encode env d)" by linarith
qed (use assms in \<open>simp_all add: base64_laws_def\<close>)

text \<open>
  C21 (what a stored identity gives back): a private key that is written to the obfuscated format of the
  TeamSpeak settings, or unobfuscated, is read back, unless its first byte is zero: then the integer in
  the file is shorter than a key, the reader does not pad it, and the identity is refused. About one key
  in 256 is lost that way.
\<close>

theorem stored_identity_roundtrip:
  assumes "base64_laws env" "asn1_laws env" "sha1_law env" "valid_private env key"
  shows "\<exists>t s. to_ts_obfuscated env key = Ok t \<and> priv_to_ts env key = Ok s \<and>
    from_ts_obfuscated env t = priv_from_ts env s \<and>
    priv_from_ts env s = (if hd key = 0 then Err NoShortKey else Ok key)"
proof -
  obtain d where d: "priv_to_tomcrypt env key = Ok d" "15 \<le> length d"
      "priv_from_tomcrypt env d = (if hd key = 0 then Err NoShortKey else Ok key)"
    using priv_to_tomcrypt_read [OF assms(2,4)] by blast
  note b64 = base64_text [OF assms(1)]
  have s: "priv_to_ts env key = Ok (base64_encode env d)" by (simp add: priv_to_ts_def d(1))
  obtain t where "to_ts_obfuscated env key = Ok t" "from_ts_obfuscated env t = priv_from_ts env (base64_encode env d)"
    using deobfuscate [OF assms(1,3) s b64(3) [OF d(2)] b64(2)] by blast
  with s show ?thesis by (simp add: priv_from_ts_def b64(1) d(3))
qed

lemma public_key_text:
  assumes "base64_laws env" "asn1_laws env" "valid_public env key"
  shows "\<exists>s. pub_to_ts env key = Ok s \<and> pub_from_ts env s = Ok key"
proof -
  let ?is = "[32, from_bytes_be (point_x key), from_bytes_be (point_y key)]"
  have key: "length key = 65" "hd key = 4" "from_encoded_point env key = Some key"
    using assms(3) by (simp_all add: valid_public_def)
  note p = point_coordinates [OF key(1,2)]
  have "\<forall>i \<in> set ?is. 0 \<le> i \<and> i < 2 ^ 256"
    using from_bytes_be_range(1) from_bytes_be_range(2) [OF p(2)] from_bytes_be_range(2) [OF p(3)] by simp
  then obtain d where d: "to_der env (key_block 0 ?is) = Some d" "from_der env d = Some [key_block 0 ?is]"
    using asn1_key [OF assms(2), of 0 ?is] by blast
  have "pub_from_tomcrypt env d = Ok key"
    by (simp add: pub_from_tomcrypt_def d(2) integer_at_def to_coord_from_bytes p key(3))
  then show ?thesis
    using d(1) base64_text(1) [OF assms(1)] by (simp add: pub_to_ts_def pub_to_tomcrypt_def pub_from_ts_def)
qed

text \<open>
  A public key is always read back: the coordinates of a public key are padded with zeros when they
  are read, so every public key survives its storage format, also with leading zero bytes.
\<close>

theorem public_key_roundtrip:
  assumes "base64_laws env" "asn1_laws env" "valid_public env key"
  shows "\<exists>s. pub_to_ts env key = Ok s \<and> pub_from_ts env s = Ok key"
  by (rule public_key_text [OF assms])

section \<open>Import\<close>

lemma to_coord_not_Panic [simp]: "to_coord i \<noteq> Panic"
  by (simp add: to_coord_def Let_def)

lemma priv_from_short_not_Panic [simp]: "priv_from_short env d \<noteq> Panic"
  by (simp add: priv_from_short_def)

lemma short_or_missing_not_Panic [simp]: "short_or_missing env i \<noteq> Panic"
  by (simp add: short_or_missing_def split: option.split)

lemma from_der_bits: "asn1_laws env \<Longrightarrow> from_der env d = Some blocks \<Longrightarrow> list_all bits_ok blocks"
  by (simp add: asn1_laws_def)

lemma priv_from_tomcrypt_not_Panic:
  assumes "asn1_laws env"
  shows "priv_from_tomcrypt env d \<noteq> Panic"
  using from_der_bits [OF assms, of d]
  by (auto simp: priv_from_tomcrypt_def outcome_simps list_all_iff index_def length_Suc_conv
      split: asn1_block.splits list.splits if_splits)

lemma priv_from_ts_not_Panic: "asn1_laws env \<Longrightarrow> priv_from_ts env d \<noteq> Panic"
  by (simp add: priv_from_ts_def outcome_simps priv_from_tomcrypt_not_Panic)

lemma from_ts_obfuscated_not_Panic:
  "asn1_laws env \<Longrightarrow> sha1_law env \<Longrightarrow> from_ts_obfuscated env s \<noteq> Panic"
  by (auto simp: from_ts_obfuscated_def outcome_simps priv_from_ts_not_Panic xor_hash_Ok)

lemma or_else_not_Panic: "m \<noteq> Panic \<Longrightarrow> k \<noteq> Panic \<Longrightarrow> or_else m k \<noteq> Panic"
  by (cases m) simp_all

lemma import_step:
  "(\<And>x r. import_str f env x = Some r \<Longrightarrow> import_str g env x = Some r) \<Longrightarrow>
   import_bytes (Suc f) env d = Some r \<Longrightarrow> import_bytes (Suc g) env d = Some r"
  "(\<And>x r. import_bytes f env x = Some r \<Longrightarrow> import_bytes g env x = Some r) \<Longrightarrow>
   import_str (Suc f) env s = Some r \<Longrightarrow> import_str (Suc g) env s = Some r"
  by (auto simp: bind_eq_Some_conv split: if_splits option.splits)

lemma import_more_fuel:
  "(import_bytes fuel env d = Some r \<longrightarrow> import_bytes (Suc fuel) env d = Some r) \<and>
   (import_str fuel env s = Some r \<longrightarrow> import_str (Suc fuel) env s = Some r)"
proof (induction fuel arbitrary: d s r)
  case (Suc fuel)
  then show ?case using import_step [of fuel env "Suc fuel"] by blast
qed simp

lemma import_str_mono: "fuel \<le> fuel' \<Longrightarrow> import_str fuel env s = Some r \<Longrightarrow> import_str fuel' env s = Some r"
  by (induction rule: dec_induct) (simp_all add: import_more_fuel del: import_str.simps)

lemma import_ends:
  assumes "base64_laws env" "asn1_laws env" "sha1_law env"
  shows "(d = [] \<and> 0 < fuel \<or> 2 * length d + 3 \<le> fuel \<longrightarrow> (\<exists>r. import_bytes fuel env d = Some r \<and> r \<noteq> Panic)) \<and>
    (2 * length s + 2 \<le> fuel \<longrightarrow> (\<exists>r. import_str fuel env s = Some r \<and> r \<noteq> Panic))"
proof (induction fuel arbitrary: d s)
  case (Suc fuel)
  have "\<exists>r. import_bytes (Suc fuel) env d = Some r \<and> r \<noteq> Panic" if "d = [] \<or> 2 * length d + 3 \<le> Suc fuel"
  proof (cases "d = []")
    case False
    then have "2 * length d + 2 \<le> fuel" using that by simp
    then obtain r where "import_str fuel env d = Some r" "r \<noteq> Panic" using Suc [of "[]" d] by blast
    then show ?thesis
      using False by (auto simp: or_else_not_Panic priv_from_tomcrypt_not_Panic [OF assms(2)])
  qed simp
  moreover have "\<exists>r. import_str (Suc fuel) env s = Some r \<and> r \<noteq> Panic" if "2 * length s + 2 \<le> Suc fuel"
  proof (cases "base64_decode env s")
    case None
    then show ?thesis by (simp add: or_else_not_Panic from_ts_obfuscated_not_Panic [OF assms(2,3)])
  next
    case (Some d')
    then have "d' = [] \<or> length d' < length s" using assms(1) by (simp add: base64_laws_def)
    then have "d' = [] \<and> 0 < fuel \<or> 2 * length d' + 3 \<le> fuel" using that by auto
    then obtain r where "import_bytes fuel env d' = Some r" "r \<noteq> Panic" using Suc [of d' "[]"] by auto
    then show ?thesis
      using Some by (simp add: or_else_not_Panic from_ts_obfuscated_not_Panic [OF assms(2,3)])
  qed
  ultimately show ?case by blast
qed simp

lemma import_error:
  "(import_bytes fuel env d = Some (Err e) \<longrightarrow> d = [] \<or> e = KeyDecodeError) \<and>
   (import_str fuel env s = Some (Err e) \<longrightarrow> e = KeyDecodeError)"
proof -
  have "or_else m (Err KeyDecodeError) = Err e \<Longrightarrow> e = KeyDecodeError" for m :: "bytes crypto_result"
    by (cases m) auto
  moreover have "or_else m (or_else m' (or_else m'' (Err KeyDecodeError))) = Err e \<Longrightarrow> e = KeyDecodeError"
    for m m' m'' :: "bytes crypto_result" by (cases m; cases m'; cases m'') auto
  moreover have "or_else m (or_else m' (Err KeyDecodeError)) = Err e \<Longrightarrow> e = KeyDecodeError"
    for m m' :: "bytes crypto_result" by (cases m; cases m') auto
  ultimately show ?thesis by (cases fuel) (auto simp: bind_eq_Some_conv)
qed

text \<open>
  Importing a key ends and does not panic: text may be base64 of data that is text again, but every
  level is shorter, so a depth of twice the length suffices, and more fuel changes nothing. Whatever the
  text is, the import gives a key or the one error \<open>KeyDecodeError\<close>.
\<close>

theorem import_total:
  assumes "base64_laws env" "asn1_laws env" "sha1_law env"
  shows "\<exists>r. (\<forall>fuel \<ge> 2 * length s + 2. import_str fuel env s = Some r) \<and>
    (r = Err KeyDecodeError \<or> (\<exists>key. r = Ok key))"
proof -
  obtain r where r: "import_str (2 * length s + 2) env s = Some r" "r \<noteq> Panic"
    using import_ends [OF assms, of "[]" "2 * length s + 2" s] by auto
  moreover have "r = Err KeyDecodeError \<or> (\<exists>key. r = Ok key)"
    using r import_error [of _ env "[]" _ s] by (cases r) blast+
  ultimately show ?thesis using import_str_mono by blast
qed

section \<open>An example\<close>

text \<open>
  Crates that keep the promises: two characters for every byte as base64, integers as 32 bytes in ASN.1,
  and every 32 bytes a private key whose public key repeats it.
\<close>

definition toy_digits :: "u8 \<Rightarrow> bytes" where
  "toy_digits b = [of_nat (0x40 + unat b div 16), of_nat (0x40 + unat b mod 16)]"

fun toy_decode :: "bytes \<Rightarrow> bytes option" where
  "toy_decode [] = Some []"
| "toy_decode [_] = None"
| "toy_decode (x # y # s) = map_option ((#) (of_nat ((unat x - 0x40) * 16 + (unat y - 0x40)))) (toy_decode s)"

fun toy_ints :: "bytes \<Rightarrow> int list" where
  "toy_ints d = (if length d < 32 then [] else from_bytes_be (take 32 d) # toy_ints (drop 32 d))"

declare toy_ints.simps [simp del]

fun toy_coord :: "asn1_block \<Rightarrow> bytes" where
  "toy_coord (Integer i) = (case to_coord i of Ok bs \<Rightarrow> bs | _ \<Rightarrow> [])"
| "toy_coord _ = []"

fun toy_to_der :: "asn1_block \<Rightarrow> bytes option" where
  "toy_to_der (Sequence (BitString _ [flag] # blocks)) = Some (flag # 0 # 0 # concat (map toy_coord blocks))"
| "toy_to_der _ = None"

fun toy_from_der :: "bytes \<Rightarrow> asn1_block list option" where
  "toy_from_der (flag # _ # _ # d) = Some [key_block flag (toy_ints d)]"
| "toy_from_der _ = None"

definition toy_crypto :: crypto_env where
  "toy_crypto = \<lparr>base64_encode = \<lambda>d. concat (map toy_digits d), base64_decode = toy_decode,
     from_der = toy_from_der, to_der = toy_to_der, sha1 = \<lambda>d. replicate 20 (of_nat (length d)),
     from_sec1_bytes = Some, from_encoded_point = Some, secret_from_bytes = Some,
     public_key_of = \<lambda>k. 4 # k @ k, signature_from_der = Some,
     ecdsa_verify = \<lambda>key d s. s = take 1 d @ take 1 key, ecdsa_sign = \<lambda>k d. take 1 d @ [4]\<rparr>"

lemma toy_digit: "n < 16 \<Longrightarrow> unat (of_nat (0x40 + n) :: u8) = 0x40 + n"
  by (simp only: unat_of_nat) (simp add: take_bit_eq_mod)

lemma toy_decode_digits: "toy_decode (concat (map toy_digits d)) = Some d"
proof (induction d)
  case (Cons b d)
  have b: "unat b < 256" using unsigned_less [of b, where 'a = nat] by simp
  then have "unat b div 16 < 16" by (simp add: less_mult_imp_div_less)
  with Cons b show ?case
    by (simp add: toy_digits_def toy_digit del: of_nat_add)
qed simp

lemma toy_digits_ascii: "c \<in> set (toy_digits b) \<Longrightarrow> c < 0x80"
proof -
  have "unat b < 256" using unsigned_less [of b, where 'a = nat] by simp
  then have "unat b div 16 < 16" "unat b mod 16 < 16" by (simp_all add: less_mult_imp_div_less)
  then show "c \<in> set (toy_digits b) \<Longrightarrow> c < 0x80"
    by (auto simp: toy_digits_def word_less_nat_alt toy_digit simp del: of_nat_add)
qed

lemma toy_decode_length: "toy_decode s = Some d \<Longrightarrow> d = [] \<or> length d < length s"
proof (induction s arbitrary: d rule: toy_decode.induct)
  case (3 x y s)
  then show ?case by (fastforce simp: Suc_less_eq)
qed simp_all

lemma toy_base64: "base64_laws toy_crypto"
proof -
  have "length (concat (map toy_digits d)) = 2 * length d" for d by (induction d) (simp_all add: toy_digits_def)
  then show ?thesis
    by (auto simp: base64_laws_def toy_crypto_def toy_decode_digits toy_decode_length dest: toy_digits_ascii)
qed

lemma to_coord_Ok:
  assumes "0 \<le> i" "i < 2 ^ 256"
  obtains bs where "to_coord i = Ok bs" "length bs = 32" "from_bytes_be bs = i"
proof -
  let ?m = "magnitude_le i"
  have "nat i < 2 ^ 256" using assms by (simp add: nat_less_iff)
  then have l: "length ?m \<le> 32" using length_to_bytes_le [of 32 "nat i"] assms(1) by (simp add: magnitude_le_def)
  have "to_coord i = Ok (rev (?m @ replicate (32 - length ?m) 0))"
    using assms(1) l by (simp add: to_coord_def Let_def FIELD_SIZE_def)
  then show thesis
    by (rule that) (use assms(1) l in \<open>simp_all add: from_bytes_be_value magnitude_le_def le_value_to_bytes_le\<close>)
qed

lemma toy_ints_coords:
  "\<forall>i \<in> set is. 0 \<le> i \<and> i < 2 ^ 256 \<Longrightarrow>
   toy_ints (concat (map (toy_coord \<circ> Integer) is)) = is \<and> length (concat (map (toy_coord \<circ> Integer) is)) = 32 * length is"
proof (induction "is")
  case (Cons i "is")
  obtain bs where "to_coord i = Ok bs" "length bs = 32" "from_bytes_be bs = i"
    using to_coord_Ok [of i] Cons.prems by auto
  with Cons show ?case by (simp add: toy_ints.simps [of "bs @ _"])
qed (simp add: toy_ints.simps)

lemma toy_bits: "toy_from_der d = Some blocks \<Longrightarrow> list_all bits_ok blocks"
  by (cases d rule: toy_from_der.cases) (auto simp: list_all_iff)

lemma toy_asn1: "asn1_laws toy_crypto"
proof -
  have "\<exists>d. toy_to_der (key_block flag is) = Some d \<and> toy_from_der d = Some [key_block flag is] \<and>
      3 * (length is + 1) \<le> length d" if "\<forall>i \<in> set is. 0 \<le> i \<and> i < 2 ^ 256" for flag "is"
    using toy_ints_coords [OF that] by simp
  then show ?thesis by (auto simp: asn1_laws_def toy_crypto_def dest: toy_bits)
qed

lemma toy_sha1: "sha1_law toy_crypto"
  by (simp add: sha1_law_def toy_crypto_def)

lemma toy_private: "length k = 32 \<Longrightarrow> valid_private toy_crypto k"
  by (simp add: valid_private_def valid_public_def toy_crypto_def)

theorem stored_identity_roundtrip_witness:
  "(\<exists>t s. to_ts_obfuscated toy_crypto (replicate 32 7) = Ok t \<and> priv_to_ts toy_crypto (replicate 32 7) = Ok s \<and>
     from_ts_obfuscated toy_crypto t = priv_from_ts toy_crypto s \<and>
     priv_from_ts toy_crypto s = Ok (replicate 32 7)) \<and>
   (\<exists>s. priv_to_ts toy_crypto (0 # replicate 31 7) = Ok s \<and> priv_from_ts toy_crypto s = Err NoShortKey)"
  using stored_identity_roundtrip [OF toy_base64 toy_asn1 toy_sha1 toy_private [of "replicate 32 7"]]
    stored_identity_roundtrip [OF toy_base64 toy_asn1 toy_sha1 toy_private [of "0 # replicate 31 7"]]
  by auto

theorem public_key_roundtrip_witness:
  "\<exists>s. pub_to_ts toy_crypto (4 # replicate 64 0) = Ok s \<and> pub_from_ts toy_crypto s = Ok (4 # replicate 64 0)"
  by (rule public_key_roundtrip [OF toy_base64 toy_asn1]) (simp add: valid_public_def toy_crypto_def)

theorem import_total_witness:
  "\<exists>r. (\<forall>fuel \<ge> 2 * length ([0x41, 0x56] :: bytes) + 2. import_str fuel toy_crypto [0x41, 0x56] = Some r) \<and>
    (r = Err KeyDecodeError \<or> (\<exists>key. r = Ok key))"
  by (rule import_total [OF toy_base64 toy_asn1 toy_sha1])

end
