(* ===== verification/Identity.thy ===== *)
theory Identity
  imports Crypto_Props Decimal
begin

text \<open>
  Identities (\<open>Identity\<close> in \<open>tsproto/src/lib.rs\<close>) and the hash cash that rates them
  (\<open>hash_cash\<close> and \<open>get_hash_cash_level\<close> in \<open>tsproto/src/algorithms.rs\<close>): the level of a counter is the
  number of zero bits at the start of a hash, and a better counter is found by search.

  The errors are those of the keys; the source wraps each in \<open>Error::IdentityCrypto\<close>.
\<close>

section \<open>Hash cash\<close>

definition trailing_zeros :: "u8 \<Rightarrow> nat" where
  "trailing_zeros d = length (takeWhile (\<lambda>i. \<not> bit d i) [0..<8])"

fun count_zeros :: "u8 \<Rightarrow> bytes \<Rightarrow> (u8, 'e) outcome" where
  "count_zeros res [] = Ok res"
| "count_zeros res (d # ds) =
     (if d = 0 then and_then (checked_plus res 8) (\<lambda>res. count_zeros res ds)
      else checked_plus res (of_nat (trailing_zeros d)))"

definition get_hash_cash_level :: "crypto_env \<Rightarrow> bytes \<Rightarrow> u64 \<Rightarrow> (u8, 'e) outcome" where
  "get_hash_cash_level env omega offset = count_zeros 0 (sha1 env (omega @ show_nat (unat offset)))"

text \<open>The loop of \<open>hash_cash\<close> and of \<open>upgrade_level\<close>; \<open>- 1\<close> is \<open>u64::MAX\<close>.\<close>

lemma u64_less_max: "(x :: u64) < - 1 \<longleftrightarrow> unat x < 2 ^ 64 - 1"
proof -
  have "unat (- 1 :: u64) = 2 ^ 64 - 1" by (simp add: unsigned_minus_1_eq_mask mask_eq_exp_minus_1)
  then show ?thesis by (simp add: word_less_nat_alt)
qed

lemma u64_Suc: "(x :: u64) < - 1 \<Longrightarrow> unat (x + 1) = Suc (unat x)"
  by (simp add: u64_less_max unat_plus_no_carry)

function search_level :: "crypto_env \<Rightarrow> bytes \<Rightarrow> u8 \<Rightarrow> u64 \<Rightarrow> (u64, 'e) outcome" where
  "search_level env omega target offset =
     (if offset < - 1 then
        and_then (get_hash_cash_level env omega offset) (\<lambda>level.
        if level < target then search_level env omega target (offset + 1) else Ok offset)
      else Ok offset)"
  by pat_completeness auto
termination
  by (relation "measure (\<lambda>(env, omega, target, offset). 2 ^ 64 - unat offset)")
    (auto simp: u64_Suc u64_less_max)

declare search_level.simps [simp del]

definition hash_cash :: "crypto_env \<Rightarrow> bytes \<Rightarrow> u8 \<Rightarrow> u64 crypto_result" where
  "hash_cash env key level = and_then (pub_to_ts env key) (\<lambda>omega. search_level env omega level 0)"

section \<open>Identities\<close>

record identity =
  id_key :: bytes
  id_counter :: u64
  id_max_counter :: u64

definition new_with_max_counter :: "bytes \<Rightarrow> u64 \<Rightarrow> u64 \<Rightarrow> identity" where
  "new_with_max_counter key counter max_counter =
     \<lparr>id_key = key, id_counter = counter, id_max_counter = max_counter\<rparr>"

definition identity_new :: "bytes \<Rightarrow> u64 \<Rightarrow> identity" where
  "identity_new key counter = new_with_max_counter key counter counter"

definition identity_level :: "crypto_env \<Rightarrow> identity \<Rightarrow> u8 crypto_result" where
  "identity_level env i =
     and_then (pub_to_ts env (public_key_of env (id_key i))) (\<lambda>omega. get_hash_cash_level env omega (id_counter i))"

definition upgrade_level :: "crypto_env \<Rightarrow> u8 \<Rightarrow> identity \<Rightarrow> identity crypto_result" where
  "upgrade_level env target i =
     and_then (pub_to_ts env (public_key_of env (id_key i))) (\<lambda>omega.
     and_then (search_level env omega target (id_max_counter i)) (\<lambda>offset.
     Ok (i\<lparr>id_counter := offset, id_max_counter := offset\<rparr>)))"

text \<open>\<open>create\<close> takes the random key.\<close>

definition identity_create :: "crypto_env \<Rightarrow> bytes \<Rightarrow> identity crypto_result" where
  "identity_create env random_key = upgrade_level env 8 (identity_new random_key 0)"

text \<open>Fuel of an import that always suffices (\<open>import_ends\<close>).\<close>

definition import_key_str :: "crypto_env \<Rightarrow> bytes \<Rightarrow> bytes crypto_result" where
  "import_key_str env s = (case import_str (2 * length s + 2) env s of Some r \<Rightarrow> r | None \<Rightarrow> Panic)"

definition import_key :: "crypto_env \<Rightarrow> bytes \<Rightarrow> bytes crypto_result" where
  "import_key env d = (case import_bytes (2 * length d + 3) env d of Some r \<Rightarrow> r | None \<Rightarrow> Panic)"

text \<open>\<open>find('V')\<close>: the text before the first V and after it.\<close>

fun split_at_V :: "bytes \<Rightarrow> (bytes \<times> bytes) option" where
  "split_at_V [] = None"
| "split_at_V (b # bs) = (if b = 0x56 then Some ([], bs) else map_option (apfst ((#) b)) (split_at_V bs))"

definition new_from_ts_str :: "crypto_env \<Rightarrow> bytes \<Rightarrow> identity crypto_result" where
  "new_from_ts_str env key =
     and_then (ok_or NoCounterBlock (split_at_V key)) (\<lambda>(before, after).
     and_then (parse_uint NoCounterBlock before) (\<lambda>counter.
     and_then (import_key_str env after) (\<lambda>ecc_key.
     Ok (identity_new ecc_key counter))))"

definition new_from_str :: "crypto_env \<Rightarrow> bytes \<Rightarrow> identity crypto_result" where
  "new_from_str env key =
     or_else (new_from_ts_str env key)
       (and_then (import_key_str env key) (\<lambda>ecc_key. upgrade_level env 8 (identity_new ecc_key 0)))"

definition new_from_bytes :: "crypto_env \<Rightarrow> bytes \<Rightarrow> identity crypto_result" where
  "new_from_bytes env key =
     and_then (import_key env key) (\<lambda>ecc_key. upgrade_level env 8 (identity_new ecc_key 0))"

section \<open>The level is the number of zero bits at the start\<close>

lemma exp_dvd_bits: "2 ^ k dvd (n :: nat) \<longleftrightarrow> (\<forall>i < k. \<not> bit n i)"
  by (simp add: take_bit_eq_0_iff [symmetric] bit_eq_iff bit_take_bit_iff)

lemma takeWhile_upt: "k \<le> length (takeWhile P [0..<n]) \<longleftrightarrow> k \<le> n \<and> (\<forall>i < k. P i)"
proof (induction n)
  case (Suc n)
  show ?case
  proof (cases "\<forall>i < n. P i")
    case True
    then have "takeWhile P [0..<n] = [0..<n]" by (simp add: takeWhile_eq_all_conv)
    with True show ?thesis by (auto simp: takeWhile_append less_Suc_eq le_Suc_eq)
  next
    case False
    then have "takeWhile P [0..<Suc n] = takeWhile P [0..<n]" by (auto simp: takeWhile_append)
    with Suc False show ?thesis by (auto simp: le_Suc_eq)
  qed
qed auto

lemma trailing_zeros_dvd:
  assumes "d \<noteq> 0"
  shows "2 ^ k dvd unat (d :: u8) \<longleftrightarrow> k \<le> trailing_zeros d"
proof -
  obtain i where i: "bit d i" "i < 8" using assms by (auto simp: bit_eq_iff)
  have "2 ^ k dvd unat d \<longleftrightarrow> (\<forall>i < k. \<not> bit d i)"
    unfolding exp_dvd_bits by (simp add: bit_unsigned_iff)
  also have "\<dots> \<longleftrightarrow> k \<le> 8 \<and> (\<forall>i < k. \<not> bit d i)"
    using i by (meson less_le_trans not_le_imp_less order_less_imp_le)
  finally show ?thesis by (simp add: trailing_zeros_def takeWhile_upt)
qed

fun zero_bits :: "bytes \<Rightarrow> nat" where
  "zero_bits [] = 0"
| "zero_bits (d # ds) = (if d = 0 then 8 + zero_bits ds else trailing_zeros d)"

lemma trailing_zeros_le: "trailing_zeros d \<le> 8"
  unfolding trailing_zeros_def by (rule order_trans [OF length_takeWhile_le]) simp

lemma zero_bits_le: "zero_bits ds \<le> 8 * length ds"
  by (induction ds) (auto intro: order_trans [OF trailing_zeros_le])

lemma count_zeros_value:
  "unat res + 8 * length ds < 256 \<Longrightarrow> count_zeros res ds = Ok (res + of_nat (zero_bits ds))"
proof (induction ds arbitrary: res)
  case (Cons d ds)
  have t: "trailing_zeros d < 2 ^ 8" using trailing_zeros_le [of d] by simp
  show ?case
  proof (cases "d = 0")
    case True
    have "checked_plus res 8 = (Ok (res + 8) :: (_, 'a) outcome)" using Cons.prems by (simp add: checked_plus_Ok)
    moreover have "unat (res + 8) = unat res + 8" using Cons.prems by (simp add: unat_plus_no_carry)
    ultimately show ?thesis using True Cons by simp
  next
    case False
    have "unat (of_nat (trailing_zeros d) :: u8) = trailing_zeros d"
      using t by (simp add: unat_of_nat take_bit_eq_mod)
    then have "checked_plus res (of_nat (trailing_zeros d)) = (Ok (res + of_nat (trailing_zeros d)) :: (_, 'a) outcome)"
      using Cons.prems trailing_zeros_le [of d] by (simp add: checked_plus_Ok)
    with False show ?thesis by simp
  qed
qed simp

lemma zero_bits_dvd: "\<exists>d \<in> set ds. d \<noteq> 0 \<Longrightarrow> 2 ^ k dvd le_value ds \<longleftrightarrow> k \<le> zero_bits ds"
proof (induction ds arbitrary: k)
  case (Cons d ds)
  show ?case
  proof (cases "d = 0")
    case True
    show ?thesis
    proof (cases "k \<le> 8")
      case True
      then have "2 ^ k dvd le_value ds * 256"
        using le_imp_power_dvd [of k 8 "2 :: nat"] by (simp add: dvd_mult)
      with True \<open>d = 0\<close> show ?thesis by simp
    next
      case False
      then obtain j where "k = 8 + j" using le_Suc_ex by (metis nat_le_linear)
      with \<open>d = 0\<close> Cons show ?thesis by (simp add: power_add mult.commute [of _ 256])
    qed
  next
    case False
    have t: "trailing_zeros d \<le> 8" by (rule trailing_zeros_le)
    have "2 ^ k dvd unat d" if "2 ^ k dvd le_value ds * 256 + unat d"
    proof -
      have "2 ^ min k 8 dvd le_value ds * 256 + unat d"
        using that by (rule dvd_trans [rotated]) (simp add: le_imp_power_dvd)
      moreover have "(2 :: nat) ^ min k 8 dvd le_value ds * 256"
        using le_imp_power_dvd [of "min k 8" 8 "2 :: nat"] by (simp add: dvd_mult)
      ultimately have "2 ^ min k 8 dvd unat d" by (simp add: dvd_add_right_iff)
      then have "min k 8 \<le> trailing_zeros d" using trailing_zeros_dvd [OF False] by simp
      moreover have "\<not> 8 \<le> trailing_zeros d"
      proof
        assume "8 \<le> trailing_zeros d"
        then have "2 ^ 8 dvd unat d" using trailing_zeros_dvd [OF False] by blast
        moreover have "unat d < 256" "0 < unat d"
          using unsigned_less [of d, where 'a = nat] False by (simp_all add: unat_gt_0)
        ultimately show False by (auto dest: dvd_imp_le)
      qed
      ultimately show ?thesis using trailing_zeros_dvd [OF False] by simp
    qed
    moreover have "2 ^ k dvd le_value ds * 256 + unat d" if "k \<le> trailing_zeros d"
    proof -
      have "2 ^ k dvd (2 :: nat) ^ 8" using that t by (intro le_imp_power_dvd) simp
      then have "2 ^ k dvd le_value ds * 256" by (simp add: dvd_mult)
      then show ?thesis using that trailing_zeros_dvd [OF False] by (simp add: dvd_add)
    qed
    ultimately show ?thesis using False trailing_zeros_dvd [OF False] by auto
  qed
qed simp


lemma get_hash_cash_level_Ok:
  "sha1_law env \<Longrightarrow> get_hash_cash_level env omega offset
     = Ok (of_nat (zero_bits (sha1 env (omega @ show_nat (unat offset)))))"
  by (simp add: get_hash_cash_level_def count_zeros_value sha1_law_def)

lemma le_value_eq_0: "le_value ds = 0 \<longleftrightarrow> (\<forall>d \<in> set ds. d = 0)"
  by (induction ds) (auto simp: unat_eq_0)

text \<open>
  The level is the number of zero bits at the start of the hash: read as a little-endian number, the
  hash of a counter is divisible by the powers of two up to its level and by no higher one; the 8 bit
  counter of the code does not overflow. The hash that is all zero has level 160.
\<close>

theorem hash_cash_level_exact:
  assumes "sha1_law env" and "digest = sha1 env (omega @ show_nat (unat offset))"
  shows "\<exists>level. get_hash_cash_level env omega offset = (Ok level :: (_, 'e) outcome) \<and>
    (if le_value digest = 0 then level = 160 else \<forall>k. 2 ^ k dvd le_value digest \<longleftrightarrow> k \<le> unat level)"
proof -
  have len: "length digest = 20" using assms by (simp add: sha1_law_def)
  then have "zero_bits digest \<le> 160" using zero_bits_le [of digest] by simp
  then have "unat (of_nat (zero_bits digest) :: u8) = zero_bits digest"
    by (simp add: unat_of_nat take_bit_eq_mod)
  moreover have "\<exists>d \<in> set digest. d \<noteq> 0" if "le_value digest \<noteq> 0"
    using that by (simp add: le_value_eq_0)
  moreover have "zero_bits ds = 8 * length ds" if "le_value ds = 0" for ds
    using that by (induction ds) (auto simp: unat_eq_0)
  ultimately show ?thesis
    using get_hash_cash_level_Ok [OF assms(1), where 'a = 'e] assms(2) zero_bits_dvd [of digest] len by auto
qed

section \<open>The search\<close>

lemma search_level_result:
  assumes "sha1_law env"
  shows "\<exists>r. search_level env omega target offset = (Ok r :: (_, 'e) outcome) \<and> offset \<le> r \<and>
    (\<forall>i. offset \<le> i \<and> i < r \<longrightarrow> (\<exists>l < target. get_hash_cash_level env omega i = (Ok l :: (_, 'e) outcome))) \<and>
    (r = - 1 \<or> (\<exists>l \<ge> target. get_hash_cash_level env omega r = (Ok l :: (_, 'e) outcome)))"
    (is "\<exists>r. ?P offset r")
proof (induction "2 ^ 64 - unat offset" arbitrary: offset rule: less_induct)
  case less
  obtain l where l: "get_hash_cash_level env omega offset = (Ok l :: (_, 'e) outcome)"
    using get_hash_cash_level_Ok [OF assms] by blast
  show ?case
  proof (cases "offset < - 1 \<and> l < target")
    case True
    then have succ: "unat (offset + 1) = Suc (unat offset)" by (simp add: u64_Suc)
    then have "2 ^ 64 - unat (offset + 1) < 2 ^ 64 - unat offset" using True unfolding u64_less_max by linarith
    then obtain r where r: "?P (offset + 1) r" using less by blast
    have "offset \<le> i \<and> i < r \<longrightarrow> i = offset \<or> offset + 1 \<le> i" for i
      using succ by (auto simp: word_le_nat_alt word_less_nat_alt intro: word_unat_eq_iff [THEN iffD2])
    moreover have "offset \<le> r" using r succ by (auto simp: word_le_nat_alt)
    moreover have "search_level env omega target offset = (Ok r :: (_, 'e) outcome)"
      using r True l by (simp add: search_level.simps [of env omega target offset])
    ultimately show ?thesis using r True l by blast
  next
    case False
    then have "search_level env omega target offset = (Ok offset :: (_, 'e) outcome)"
      using l by (simp add: search_level.simps [of env omega target offset])
    moreover have "offset = - 1 \<or> target \<le> l" using False word_order.not_eq_extremum [of offset] by (auto simp: not_less)
    ultimately show ?thesis using l by (intro exI [of _ offset]) (auto simp: not_less)
  qed
qed


lemma pub_to_ts_Ok:
  assumes "base64_laws env" "asn1_laws env" "valid_private env key"
  obtains omega where "pub_to_ts env (public_key_of env key) = Ok omega"
  using public_key_text [OF assms(1,2)] assms(3) unfolding valid_private_def by blast

text \<open>
  C22 (upgrading an identity finds the next counter that is good enough): the search ends, starts at the
  highest counter tried before, skips no counter, and stops at the first that has the level, or at the
  largest 64 bit counter; the new counter is also the highest one tried.
\<close>

theorem upgrade_level_first:
  assumes "base64_laws env" "asn1_laws env" "sha1_law env" "valid_private env (id_key i)"
  shows "\<exists>i'. upgrade_level env target i = Ok i' \<and> id_key i' = id_key i \<and> id_counter i' = id_max_counter i' \<and>
    id_max_counter i \<le> id_counter i' \<and>
    (id_counter i' = - 1 \<or> (\<exists>l \<ge> target. identity_level env i' = Ok l)) \<and>
    (\<forall>n. id_max_counter i \<le> n \<and> n < id_counter i' \<longrightarrow>
      (\<exists>l < target. identity_level env (i'\<lparr>id_counter := n\<rparr>) = Ok l))"
proof -
  obtain omega where omega: "pub_to_ts env (public_key_of env (id_key i)) = Ok omega"
    using pub_to_ts_Ok [OF assms(1,2,4)] .
  obtain r where "search_level env omega target (id_max_counter i) = (Ok r :: (_, crypto_error) outcome)"
      "id_max_counter i \<le> r"
      "\<forall>n. id_max_counter i \<le> n \<and> n < r \<longrightarrow>
        (\<exists>l < target. get_hash_cash_level env omega n = (Ok l :: (_, crypto_error) outcome))"
      "r = - 1 \<or> (\<exists>l \<ge> target. get_hash_cash_level env omega r = (Ok l :: (_, crypto_error) outcome))"
    using search_level_result [OF assms(3), of omega target "id_max_counter i", where 'e = crypto_error] by blast
  then show ?thesis
    by (intro exI [of _ "i\<lparr>id_counter := r, id_max_counter := r\<rparr>"])
      (simp add: upgrade_level_def identity_level_def omega)
qed

section \<open>Reading an identity\<close>

lemma split_at_V_append: "0x56 \<notin> set s \<Longrightarrow> split_at_V (s @ 0x56 # t) = Some (s, t)"
  by (induction s) (auto simp: apfst_def)

lemma no_V_in_number: "0x56 \<notin> set (show_nat n)"
proof
  assume "0x56 \<in> set (show_nat n)"
  then obtain d where "d < 10" and d: "(0x56 :: u8) = of_nat (0x30 + d)" using set_show_nat by blast
  have "unat (0x56 :: u8) = 0x30 + d" using digit_of_nat [OF \<open>d < 10\<close>] d by simp
  with \<open>d < 10\<close> show False by simp
qed

text \<open>The text of an identity is its counter, the letter V, and its key in any format.\<close>

theorem identity_text_read:
  "new_from_ts_str env (show_nat (unat n) @ ascii ''V'' @ s) = map_ok (\<lambda>key. identity_new key n) (import_key_str env s)"
  by (cases "import_key_str env s")
    (simp_all add: new_from_ts_str_def ascii_def split_at_V_append no_V_in_number parse_uint_show)

theorem hash_cash_level_exact_witness:
  "\<exists>level. get_hash_cash_level toy_crypto (replicate 7 0) 0 = (Ok level :: (_, unit) outcome) \<and>
    (\<forall>k. 2 ^ k dvd le_value (replicate 20 8) \<longleftrightarrow> k \<le> unat level)"
proof -
  have d: "replicate 20 8 = sha1 toy_crypto (replicate 7 0 @ show_nat (unat (0 :: u64)))"
    by (simp add: toy_crypto_def show_nat.simps [of 0])
  have "le_value (replicate 20 8) \<noteq> 0" by (simp add: le_value_eq_0)
  with hash_cash_level_exact [OF toy_sha1 d, where 'e = unit] show ?thesis by auto
qed

theorem upgrade_level_first_witness:
  "\<exists>i'. upgrade_level toy_crypto 3 (identity_new (replicate 32 7) 5) = Ok i' \<and> 5 \<le> id_counter i'"
proof -
  let ?i = "identity_new (replicate 32 7) 5"
  have five: "id_max_counter ?i = 5" by (simp add: identity_new_def new_with_max_counter_def)
  have "id_key ?i = replicate 32 7" by (simp add: identity_new_def new_with_max_counter_def)
  moreover have "valid_private toy_crypto (replicate 32 7)" by (rule toy_private) simp
  ultimately have "valid_private toy_crypto (id_key ?i)" by (simp only:)
  from upgrade_level_first [OF toy_base64 toy_asn1 toy_sha1 this, of 3]
  obtain i' where "upgrade_level toy_crypto 3 ?i = Ok i'" "id_max_counter ?i \<le> id_counter i'" by blast
  then show ?thesis unfolding five by blast
qed

end
