(* ===== verification/Client.thy ===== *)
theory Client
  imports Connection License Identity Init_Packets Commands
begin

text \<open>
  The client side of the protocol (\<open>tsproto/src/client.rs\<close>): the handshake up to the key exchange, the
  commands that change the state of the connection, and the loops that wait for an item.

  An \<open>async\<close> function is a step of a task: it runs until it waits for the network, and goes on when the
  task is woken. \<open>t_wakeups\<close> are the coming wake-ups with the clock and what the socket answers from then
  on; the result is \<open>None\<close> when the task still waits after the last one. Random values and the crates for
  keys are the parameters \<open>client_env\<close>; handing back buffers and tracing are left out.
\<close>

section \<open>Addresses\<close>

text \<open>\<open>is_global_ip\<close> of \<open>tsproto/src/utils.rs\<close>, with the tests of \<open>std::net\<close>.\<close>

datatype ip_addr = V4 u8 u8 u8 u8 | V6 "u16 list"

fun is_unspecified :: "ip_addr \<Rightarrow> bool" where
  "is_unspecified (V4 a b c d) \<longleftrightarrow> a = 0 \<and> b = 0 \<and> c = 0 \<and> d = 0"
| "is_unspecified (V6 s) \<longleftrightarrow> s = replicate 8 0"

fun is_loopback :: "ip_addr \<Rightarrow> bool" where
  "is_loopback (V4 a b c d) \<longleftrightarrow> a = 127"
| "is_loopback (V6 s) \<longleftrightarrow> s = replicate 7 0 @ [1]"

fun is_multicast :: "ip_addr \<Rightarrow> bool" where
  "is_multicast (V4 a b c d) \<longleftrightarrow> 224 \<le> a \<and> a \<le> 239"
| "is_multicast (V6 s) \<longleftrightarrow> (case s of x # _ \<Rightarrow> x AND 0xFF00 = 0xFF00 | [] \<Rightarrow> False)"

fun is_broadcast :: "ip_addr \<Rightarrow> bool" where
  "is_broadcast (V4 a b c d) \<longleftrightarrow> a = 255 \<and> b = 255 \<and> c = 255 \<and> d = 255"
| "is_broadcast (V6 s) \<longleftrightarrow> False"

fun is_link_local :: "ip_addr \<Rightarrow> bool" where
  "is_link_local (V4 a b c d) \<longleftrightarrow> a = 169 \<and> b = 254"
| "is_link_local (V6 s) \<longleftrightarrow> False"

fun is_private :: "ip_addr \<Rightarrow> bool" where
  "is_private (V4 a b c d) \<longleftrightarrow> a = 10 \<or> a = 172 \<and> 16 \<le> b \<and> b \<le> 31 \<or> a = 192 \<and> b = 168"
| "is_private (V6 s) \<longleftrightarrow> False"

definition is_global_ip :: "ip_addr \<Rightarrow> bool" where
  "is_global_ip ip \<longleftrightarrow>
     (if \<not> is_unspecified ip \<and> \<not> is_loopback ip \<and> \<not> is_multicast ip then
        (case ip of V4 _ _ _ _ \<Rightarrow> \<not> is_broadcast ip \<and> \<not> is_link_local ip \<and> \<not> is_private ip | V6 _ \<Rightarrow> True)
      else False)"

section \<open>Data\<close>

text \<open>
  The text of \<open>UnexpectedPacket\<close> is kept as the name or type it shows; the causes of errors of base64 are
  dropped.
\<close>

datatype 't client_error =
    ConnectionEnd
  | EarlyInitserver
  | InvalidBase64Arg string
  | InvalidBetaLength nat
  | InvalidClientId bytes packets_error
  | InvalidInitivexpand2
  | InvalidOmegaKey crypto_error
  | InvalidOmegaString packets_error
  | InvalidPacket string
  | InvalidRootKeyLength nat
  | InvalidSignature crypto_error
  | MultipleCommands string
  | NoClientId
  | OutdatedServer
  | ParseLicense "'t license_error"
  | RsaPuzzle
  | RsaPuzzleTooHighLevel u32
  | TsProto tsproto_error
  | UnexpectedPacket string bytes

record client =
  cl_con :: connection
  cl_key :: bytes

type_synonym ('t, 'a) client_action = "(client, 'a, 't client_error) action"

record ('t, 'p, 's) client_env =
  crypto :: crypto_env
  licensing :: "('t, 'p, 's) license_env"
  license_now :: 't
  unix_time :: int
  random0 :: bytes
  random_alpha :: bytes
  random_ek :: 's
  ed_base :: "'s \<Rightarrow> 'p"
  compress_point :: "'p \<Rightarrow> bytes"
  server_ip :: ip_addr
  server_ip_text :: bytes
  version_text :: bytes

definition ROOT_KEY :: bytes where
  "ROOT_KEY = [
     0xcd, 0x0d, 0xe2, 0xae, 0xd4, 0x63, 0x45, 0x50, 0x9a, 0x7e, 0x3c, 0xfd, 0x8f, 0x68, 0xb3, 0xdc,
     0x75, 0x55, 0xb2, 0x9d, 0xcc, 0xec, 0x73, 0xcd, 0x18, 0x75, 0x0f, 0x99, 0x38, 0x12, 0x40, 0x8a]"

definition client_new :: "nat \<Rightarrow> address \<Rightarrow> socket \<Rightarrow> bytes \<Rightarrow> client" where
  "client_new t addr sock key = \<lparr>cl_con = connection_new t True addr sock, cl_key = key\<rparr>"

section \<open>Commands of the server\<close>

text \<open>An operation of the connection, and of its resender.\<close>

definition on_con :: "'a con_action \<Rightarrow> ('t, 'a) client_action" where
  "on_con m = (\<lambda>cl. case m (cl_con cl) of (r, c) \<Rightarrow> (map_err TsProto r, cl\<lparr>cl_con := c\<rparr>))"

definition set_con_state :: "env \<Rightarrow> resender_state \<Rightarrow> ('t, unit) client_action" where
  "set_con_state env st = act_modify (cl_con_update (resender_update (set_state env st)))"

definition client_send_packet :: "env \<Rightarrow> out_packet \<Rightarrow> ('t, packet_id_t) client_action" where
  "client_send_packet env packet =
     act_then (act_lift (and_then (out_header packet) h_packet_type)) (\<lambda>p_type.
     act_then (act_lift (out_content packet)) (\<lambda>content.
     act_then
       (if p_type = Command \<and> starts_with content (ascii ''clientdisconnect'')
        then set_con_state env Disconnecting else act_return ()) (\<lambda>_.
     on_con (send_packet env packet))))"

text \<open>A client id in an argument.\<close>

definition parse_client_id :: "argument_value \<Rightarrow> (u16, 't client_error) outcome" where
  "parse_client_id v = map_err (InvalidClientId (av_raw v)) (get_parse v)"

fun find_aclid :: "command_item list \<Rightarrow> (u16 option, 't client_error) outcome" where
  "find_aclid [] = Ok None"
| "find_aclid (NextCommand # _) = Err (MultipleCommands ''initserver'')"
| "find_aclid (Argument name v # items) =
     (if name = ascii ''aclid'' then map_ok Some (parse_client_id v) else find_aclid items)"

definition handle_initserver :: "env \<Rightarrow> command_item list \<Rightarrow> ('t, unit) client_action" where
  "handle_initserver env items =
     act_then (act_read (params \<circ> cl_con)) (\<lambda>ps.
     case ps of
       None \<Rightarrow> act_fail EarlyInitserver
     | Some ps \<Rightarrow>
         act_then (act_lift (find_aclid items)) (\<lambda>c_id.
         case c_id of
           None \<Rightarrow> act_fail NoClientId
         | Some c_id \<Rightarrow>
             act_then (act_modify (cl_con_update (params_update (\<lambda>_. Some (ps\<lparr>cp_c_id := c_id\<rparr>))))) (\<lambda>_.
             set_con_state env Connected)))"

fun own_client_left :: "u16 \<Rightarrow> command_item list \<Rightarrow> bool \<Rightarrow> (bool, 't client_error) outcome" where
  "own_client_left own [] left = Ok left"
| "own_client_left own (NextCommand # items) left = own_client_left own items left"
| "own_client_left own (Argument name v # items) left =
     (if name = ascii ''clid'' then
        and_then (parse_client_id v) (\<lambda>c_id. own_client_left own items (left \<or> c_id = own))
      else own_client_left own items left)"

definition handle_client_left :: "env \<Rightarrow> command_item list \<Rightarrow> ('t, unit) client_action" where
  "handle_client_left env items =
     act_then (act_read (params \<circ> cl_con)) (\<lambda>ps.
     case ps of
       None \<Rightarrow> act_return ()
     | Some ps \<Rightarrow>
         act_then (act_lift (own_client_left (cp_c_id ps) items False)) (\<lambda>own_client.
         if own_client then set_con_state env Disconnected else act_return ()))"

text \<open>The answer to a request for the version.\<close>

definition version_command :: "bytes \<Rightarrow> u16 \<Rightarrow> (out_packet, 'e) outcome" where
  "version_command version sender =
     and_then (out_command_new C2S 0 Command (ascii ''plugincmd'')) (\<lambda>cmd.
     and_then (write_arg (ascii ''name'') (ascii ''getversion'') cmd) (\<lambda>cmd.
     and_then (write_arg (ascii ''data'') version cmd) (\<lambda>cmd.
     and_then (write_arg (ascii ''targetmode'') (show_nat 2) cmd) (\<lambda>cmd.
     write_arg (ascii ''target'') (show_nat (unat sender)) cmd))))"

text \<open>The loop over the items, which ends with one more \<open>NextCommand\<close>.\<close>

fun handle_plugincmd ::
  "env \<Rightarrow> bytes \<Rightarrow> command_item list \<Rightarrow> bool \<Rightarrow> bool \<Rightarrow> u16 option \<Rightarrow> ('t, unit) client_action" where
  "handle_plugincmd env version [] is_getversion is_request sender = act_return ()"
| "handle_plugincmd env version (NextCommand # items) is_getversion is_request sender =
     act_then
       (case sender of
          Some i \<Rightarrow>
            if is_getversion \<and> is_request then
              act_then (act_lift (version_command version i)) (\<lambda>cmd.
              act_then (client_send_packet env cmd) (\<lambda>_. act_return ()))
            else act_return ()
        | None \<Rightarrow> act_return ()) (\<lambda>_.
     handle_plugincmd env version items is_getversion is_request sender)"
| "handle_plugincmd env version (Argument name v # items) is_getversion is_request sender =
     (if name = ascii ''name'' then
        handle_plugincmd env version items (av_raw v = ascii ''getversion'') is_request sender
      else if name = ascii ''data'' then
        handle_plugincmd env version items is_getversion (av_raw v = ascii ''request'') sender
      else if name = ascii ''invokerid'' then
        (case get_parse v of
           Ok i \<Rightarrow> handle_plugincmd env version items is_getversion is_request (Some i)
         | Err _ \<Rightarrow> handle_plugincmd env version items is_getversion is_request sender
         | Panic \<Rightarrow> act_lift Panic)
      else handle_plugincmd env version items is_getversion is_request sender)"

text \<open>\<open>handle_command\<close> hands every command on.\<close>

definition client_handle_command :: "env \<Rightarrow> bytes \<Rightarrow> in_packet \<Rightarrow> ('t, in_packet) client_action" where
  "client_handle_command env version command =
     (let (name, args) = command_parser_new (ip_content command);
          items = parse_items args in
      act_then
        (if name = ascii ''initserver'' then handle_initserver env items
         else if name = ascii ''notifyclientleftview'' then handle_client_left env items
         else if name = ascii ''notifyplugincmd'' then
           handle_plugincmd env version (items @ [NextCommand]) False False None
         else act_return ()) (\<lambda>_.
      act_return command))"

section \<open>The stream of items\<close>

text \<open>\<open>poll_next\<close>: every command is handled before it is handed on. \<open>Ok (Ready None)\<close> is the end.\<close>

definition client_poll_next ::
  "env \<Rightarrow> bytes \<Rightarrow> client \<Rightarrow> ((stream_item option poll, 't client_error) outcome \<times> client) option" where
  "client_poll_next env version cl =
     (case poll_next env (cl_con cl) of
        None \<Rightarrow> None
      | Some (r, c) \<Rightarrow>
          let cl = cl\<lparr>cl_con := c\<rparr> in
          (case r of
             Ok (Ready (Some (CommandItem command))) \<Rightarrow>
               Some (act_then (client_handle_command env version command)
                 (\<lambda>cmd. act_return (Ready (Some (CommandItem cmd)))) cl)
           | Ok x \<Rightarrow> Some (Ok x, cl)
           | Err e \<Rightarrow> Some (Err (TsProto e), cl)
           | Panic \<Rightarrow> Some (Panic, cl)))"

record wakeup =
  w_env :: env
  w_send :: "nat option list"
  w_recv :: "(bytes \<times> address) option list"

record task =
  t_client :: client
  t_env :: env
  t_wakeups :: "wakeup list"

type_synonym ('t, 'a) task_result = "(('a, 't client_error) outcome \<times> task) option"

definition add_answers :: "wakeup \<Rightarrow> client \<Rightarrow> client" where
  "add_answers w = cl_con_update (udp_socket_update (\<lambda>s. s
     \<lparr>send_answers := send_answers s @ w_send w, recv_answers := recv_answers s @ w_recv w\<rparr>))"

text \<open>\<open>self.next().await\<close>: poll now and at every wake-up until there is an answer.\<close>

fun await_loop :: "bytes \<Rightarrow> wakeup list \<Rightarrow> env \<Rightarrow> client \<Rightarrow> ('t, stream_item option) task_result" where
  "await_loop version wakeups env cl =
     (case client_poll_next env version cl of
        None \<Rightarrow> None
      | Some (Ok (Ready item), cl) \<Rightarrow> Some (Ok item, \<lparr>t_client = cl, t_env = env, t_wakeups = wakeups\<rparr>)
      | Some (Ok Pending, cl) \<Rightarrow>
          (case wakeups of
             [] \<Rightarrow> None
           | w # ws \<Rightarrow> await_loop version ws (w_env w) (add_answers w cl))
      | Some (Err e, cl) \<Rightarrow> Some (Err e, \<lparr>t_client = cl, t_env = env, t_wakeups = wakeups\<rparr>)
      | Some (Panic, cl) \<Rightarrow> Some (Panic, \<lparr>t_client = cl, t_env = env, t_wakeups = wakeups\<rparr>))"

declare await_loop.simps [simp del]

definition await_next :: "bytes \<Rightarrow> task \<Rightarrow> ('t, stream_item option) task_result" where
  "await_next version t = await_loop version (t_wakeups t) (t_env t) (t_client t)"

text \<open>A step of a task that does not wait.\<close>

definition task_do :: "(env \<Rightarrow> ('t, 'a) client_action) \<Rightarrow> task \<Rightarrow> ('t, 'a) task_result" where
  "task_do m t = (case m (t_env t) (t_client t) of (r, cl) \<Rightarrow> Some (r, t\<lparr>t_client := cl\<rparr>))"

type_synonym ('t, 'a) item_filter = "task \<Rightarrow> stream_item \<Rightarrow> ('a option, 't client_error) outcome"

partial_function (option) filter_items ::
  "bytes \<Rightarrow> ('t, 'a) item_filter \<Rightarrow> task \<Rightarrow> ('t, 'a) task_result" where
  "filter_items version f t =
     (case await_next version t of
        None \<Rightarrow> None
      | Some (Err e, t) \<Rightarrow> Some (Err e, t)
      | Some (Panic, t) \<Rightarrow> Some (Panic, t)
      | Some (Ok None, t) \<Rightarrow> Some (Err ConnectionEnd, t)
      | Some (Ok (Some item), t) \<Rightarrow>
          (case f t item of
             Ok (Some x) \<Rightarrow> Some (Ok x, t)
           | Ok None \<Rightarrow> filter_items version f t
           | Err e \<Rightarrow> Some (Err e, t)
           | Panic \<Rightarrow> Some (Panic, t)))"

section \<open>Waiting for an item\<close>

text \<open>Connection errors and items that were not asked for are skipped.\<close>

definition get_init :: "bytes \<Rightarrow> u8 list \<Rightarrow> task \<Rightarrow> ('t, in_s2c_init) task_result" where
  "get_init version init_steps =
     filter_items version (\<lambda>_ i.
       case i of
         S2CInitItem p \<Rightarrow> Ok (if s2c_get_step (s2c_data p) \<in> set init_steps then Some p else None)
       | _ \<Rightarrow> Ok None)"

definition get_command :: "bytes \<Rightarrow> task \<Rightarrow> ('t, in_packet) task_result" where
  "get_command version =
     filter_items version (\<lambda>_ i. case i of CommandItem p \<Rightarrow> Ok (Some p) | _ \<Rightarrow> Ok None)"

text \<open>\<open>id <= ack\<close> of the partial order: ids of different types are not comparable.\<close>

definition wait_for_ack :: "bytes \<Rightarrow> packet_id_t \<Rightarrow> task \<Rightarrow> ('t, unit) task_result" where
  "wait_for_ack version i =
     filter_items version (\<lambda>_ item.
       case item of
         AckPacketItem ack \<Rightarrow> Ok (if packet_id_le i ack then Some () else None)
       | _ \<Rightarrow> Ok None)"

definition wait_until_can_send :: "bytes \<Rightarrow> task \<Rightarrow> ('t, unit) task_result" where
  "wait_until_can_send version t =
     (if \<not> is_send_queue_full (t_env t) (cl_con (t_client t)) then Some (Ok (), t)
      else
        filter_items version (\<lambda>t item.
          case item of
            AckPacketItem _ \<Rightarrow> Ok (if \<not> is_send_queue_full (t_env t) (cl_con (t_client t)) then Some () else None)
          | _ \<Rightarrow> Ok None) t)"

text \<open>The filter of \<open>filter_commands\<close> only sees commands.\<close>

definition filter_commands ::
  "bytes \<Rightarrow> (task \<Rightarrow> in_packet \<Rightarrow> ('a option, 't client_error) outcome) \<Rightarrow> task \<Rightarrow> ('t, 'a) task_result" where
  "filter_commands version f =
     filter_items version (\<lambda>t item. case item of CommandItem p \<Rightarrow> f t p | _ \<Rightarrow> Ok None)"

partial_function (option) wait_disconnect :: "bytes \<Rightarrow> task \<Rightarrow> ('t, unit) task_result" where
  "wait_disconnect version t =
     (case await_next version t of
        None \<Rightarrow> None
      | Some (Err e, t) \<Rightarrow> Some (Err e, t)
      | Some (Panic, t) \<Rightarrow> Some (Panic, t)
      | Some (Ok None, t) \<Rightarrow> Some (Ok (), t)
      | Some (Ok (Some _), t) \<Rightarrow> wait_disconnect version t)"

section \<open>The handshake\<close>

text \<open>\<open>BigUint::modpow\<close>, which panics when the modulus is zero.\<close>

definition modpow :: "nat \<Rightarrow> nat \<Rightarrow> nat \<Rightarrow> (nat, 'e) outcome" where
  "modpow x e n = (if n = 0 then Panic else Ok (x ^ e mod n))"

definition solve_puzzle :: "bytes \<Rightarrow> bytes \<Rightarrow> u32 \<Rightarrow> (bytes, 'e) outcome" where
  "solve_puzzle x n level =
     and_then (modpow (array_to_biguint x) (2 ^ unat level) (array_to_biguint n)) biguint_to_array"

text \<open>The answer to the puzzle, with the \<open>clientinitiv\<close> command in it.\<close>

definition answer_init3 ::
  "('t, 'p, 's) client_env \<Rightarrow> u32 \<Rightarrow> bytes \<Rightarrow> bytes \<Rightarrow> bytes \<Rightarrow> u32 \<Rightarrow> bytes
     \<Rightarrow> (out_packet, 't client_error) outcome" where
  "answer_init3 cenv version key x n level random2 =
     (if 10000000 < level then Err (RsaPuzzleTooHighLevel level)
      else
        and_then (solve_puzzle x n level) (\<lambda>y.
        and_then (unwrap (pub_to_tomcrypt (crypto cenv) (public_key_of (crypto cenv) key))) (\<lambda>omega.
        let ip = (if is_global_ip (server_ip cenv) then server_ip_text cenv else [])
        in out_c2s_init4 (base64_encode (crypto cenv)) version x n level random2 y (random_alpha cenv) omega ip)))"

definition send_built :: "(out_packet, 't client_error) outcome \<Rightarrow> task \<Rightarrow> ('t, packet_id_t) task_result" where
  "send_built packet = task_do (\<lambda>env. act_then (act_lift packet) (client_send_packet env))"

text \<open>One round up to the answer of the server to the second packet.\<close>

definition init_round ::
  "('t, 'p, 's) client_env \<Rightarrow> u32 \<Rightarrow> u32 \<Rightarrow> task \<Rightarrow> ('t, in_s2c_init) task_result" where
  "init_round cenv version timestamp t =
     opt_then (send_built (out_c2s_init0 version timestamp (random0 cenv)) t) (\<lambda>_ t.
     opt_then (get_init (version_text cenv) [1] t) (\<lambda>init1 t.
     opt_then
       (case s2c_data init1 of
          S2CInit1 random1 random0_r \<Rightarrow> send_built (out_c2s_init2 version random1 random0_r) t
        | _ \<Rightarrow> Some (Err (UnexpectedPacket ''Init1'' (ascii ''Init'')), t)) (\<lambda>_ t.
     get_init (version_text cenv) [3, 127] t)))"

partial_function (option) init_loop ::
  "('t, 'p, 's) client_env \<Rightarrow> u32 \<Rightarrow> u32 \<Rightarrow> task \<Rightarrow> ('t, packet_id_t) task_result" where
  "init_loop cenv version timestamp t =
     (case init_round cenv version timestamp t of
        None \<Rightarrow> None
      | Some (Err e, t) \<Rightarrow> Some (Err e, t)
      | Some (Panic, t) \<Rightarrow> Some (Panic, t)
      | Some (Ok init3, t) \<Rightarrow>
          if s2c_get_step (s2c_data init3) = 127 then init_loop cenv version timestamp t
          else
            (case s2c_data init3 of
               S2CInit3 x n level random2 \<Rightarrow>
                 send_built (answer_init3 cenv version (cl_key (t_client t)) x n level random2) t
             | _ \<Rightarrow> Some (Err (UnexpectedPacket ''Init3'' (ascii ''Init'')), t)))"

text \<open>The arguments of \<open>initivexpand2\<close>.\<close>

record init_args =
  ia_l :: "bytes option"
  ia_beta :: "bytes option"
  ia_omega :: "bytes option"
  ia_proof :: "bytes option"
  ia_ot :: bool
  ia_root :: "bytes option"

definition init_args_empty :: init_args where
  "init_args_empty = \<lparr>ia_l = None, ia_beta = None, ia_omega = None, ia_proof = None, ia_ot = False, ia_root = None\<rparr>"

definition base64_arg :: "crypto_env \<Rightarrow> string \<Rightarrow> argument_value \<Rightarrow> (bytes, 't client_error) outcome" where
  "base64_arg env name v =
     and_then (value_get v) (\<lambda>d. ok_or (InvalidBase64Arg name) (base64_decode env d))"

definition init_arg ::
  "crypto_env \<Rightarrow> bytes \<Rightarrow> argument_value \<Rightarrow> init_args \<Rightarrow> (init_args, 't client_error) outcome" where
  "init_arg env name v a =
     (if name = ascii ''l'' then map_ok (\<lambda>d. a\<lparr>ia_l := Some d\<rparr>) (base64_arg env ''proof'' v)
      else if name = ascii ''beta'' then map_ok (\<lambda>d. a\<lparr>ia_beta := Some d\<rparr>) (base64_arg env ''proof'' v)
      else if name = ascii ''omega'' then
        and_then (map_err InvalidOmegaString (get_str v)) (\<lambda>s.
        map_ok (\<lambda>key. a\<lparr>ia_omega := Some key\<rparr>) (map_err InvalidOmegaKey (pub_from_ts env s)))
      else if name = ascii ''proof'' then map_ok (\<lambda>d. a\<lparr>ia_proof := Some d\<rparr>) (base64_arg env ''proof'' v)
      else if name = ascii ''ot'' then Ok (a\<lparr>ia_ot := (av_raw v = ascii ''1'')\<rparr>)
      else if name = ascii ''root'' then
        and_then (base64_arg env ''root'' v) (\<lambda>d.
        if length d \<noteq> 32 then Err (InvalidRootKeyLength (length d)) else Ok (a\<lparr>ia_root := Some d\<rparr>))
      else Ok a)"

fun parse_init_args ::
  "crypto_env \<Rightarrow> command_item list \<Rightarrow> init_args \<Rightarrow> (init_args, 't client_error) outcome" where
  "parse_init_args env [] a = Ok a"
| "parse_init_args env (NextCommand # _) a = Err (MultipleCommands ''initivexpand2'')"
| "parse_init_args env (Argument name v # items) a = and_then (init_arg env name v a) (parse_init_args env items)"

text \<open>
  What the client takes from \<open>initivexpand2\<close>: the key of the server, the random value \<open>beta\<close> and the
  ephemeral key of the server, which the license gives. The signature of the license is checked first.
\<close>

record 'p server_hello =
  sh_key :: bytes
  sh_beta :: bytes
  sh_ek :: 'p

definition check_init_args ::
  "('t::linorder, 'p, 's) client_env \<Rightarrow> init_args \<Rightarrow> ('p server_hello, 't client_error) outcome" where
  "check_init_args cenv a =
     (if \<not> ia_ot a then Err OutdatedServer
      else
        (case (ia_l a, ia_beta a, ia_omega a, ia_proof a) of
           (Some l, Some beta_vec, Some server_key, Some proof) \<Rightarrow>
             let root = (case ia_root a of Some r \<Rightarrow> r | None \<Rightarrow> ROOT_KEY) in
             and_then (map_err InvalidSignature (verify (crypto cenv) server_key l proof)) (\<lambda>_.
             if length beta_vec \<noteq> 54 then Err (InvalidBetaLength (length beta_vec))
             else
               and_then (map_err ParseLicense (licenses_parse (licensing cenv) (license_now cenv) l)) (\<lambda>licenses.
               and_then (map_err ParseLicense (derive_public_key (licensing cenv) licenses root)) (\<lambda>server_ek.
               Ok \<lparr>sh_key = server_key, sh_beta = beta_vec, sh_ek = server_ek\<rparr>)))
         | _ \<Rightarrow> Err InvalidInitivexpand2))"

definition read_initivexpand2 ::
  "('t::linorder, 'p, 's) client_env \<Rightarrow> in_packet \<Rightarrow> ('p server_hello, 't client_error) outcome" where
  "read_initivexpand2 cenv command =
     (let (name, args) = command_parser_new (ip_content command) in
      if name \<noteq> ascii ''initivexpand2'' then Err (UnexpectedPacket ''initivexpand2'' name)
      else
        and_then (parse_init_args (crypto cenv) (parse_items args) init_args_empty) (check_init_args cenv))"

definition shared_secret :: "('t, 'p, 's) client_env \<Rightarrow> 's \<Rightarrow> 'p \<Rightarrow> bytes" where
  "shared_secret cenv ours theirs = compress_point cenv (point_mul (licensing cenv) theirs ours)"

definition client_params :: "('t, 'p, 's) client_env \<Rightarrow> 'p server_hello \<Rightarrow> connected_params" where
  "client_params cenv hello =
     (let (iv, mac) = compute_iv_mac (sha512 (licensing cenv)) (sha1 (crypto cenv)) (random_alpha cenv)
            (sh_beta hello) (shared_secret cenv (random_ek cenv) (sh_ek hello))
      in connected_params_new (sh_key hello) iv mac)"

definition clientek_command ::
  "('t, 'p, 's) client_env \<Rightarrow> bytes \<Rightarrow> bytes \<Rightarrow> (out_packet, 'e) outcome" where
  "clientek_command cenv key beta =
     (let ek_pub = compress_point cenv (ed_base cenv (random_ek cenv));
          proof = sign (crypto cenv) key (ek_pub @ beta) in
      and_then (out_command_new C2S 0 Command (ascii ''clientek'')) (\<lambda>cmd.
      and_then (write_arg (ascii ''ek'') (base64_encode (crypto cenv) ek_pub) cmd) (\<lambda>cmd.
      write_arg (ascii ''proof'') (base64_encode (crypto cenv) proof) cmd)))"

definition exchange_keys ::
  "('t::linorder, 'p, 's) client_env \<Rightarrow> in_packet \<Rightarrow> task \<Rightarrow> ('t, packet_id_t) task_result" where
  "exchange_keys cenv command =
     task_do (\<lambda>env.
       act_then (act_lift (read_initivexpand2 cenv command)) (\<lambda>hello.
       act_then (act_modify (cl_con_update (params_update (\<lambda>_. Some (client_params cenv hello))))) (\<lambda>_.
       act_then (act_read cl_key) (\<lambda>key.
       act_then (act_lift (clientek_command cenv key (sh_beta hello))) (client_send_packet env)))))"

definition connect :: "('t::linorder, 'p, 's) client_env \<Rightarrow> task \<Rightarrow> ('t, unit) task_result" where
  "connect cenv t =
     (let timestamp = of_int (unix_time cenv) in
      opt_then (Some (checked_minus timestamp 1356998400, t)) (\<lambda>version t.
      opt_then (init_loop cenv version timestamp t) (\<lambda>_ t.
      opt_then (get_command (version_text cenv) t) (\<lambda>command t.
      opt_then (exchange_keys cenv command t) (\<lambda>clientek_id t.
      wait_for_ack (version_text cenv) clientek_id t)))))"

declare filter_items.simps [code] wait_disconnect.simps [code] init_loop.simps [code]

end
