(* ===== verification/Bookkeeping.thy ===== *)
theory Bookkeeping
  imports Crypto_Keys Decimal "HOL-Library.AList"
begin

text \<open>
  The state of a server as the client knows it (\<open>utils/ts-bookkeeping/src/data.rs\<close>, \<open>events.rs\<close> and
  \<open>lib.rs\<close>, with types of \<open>utils/tsproto-types/src/lib.rs\<close>): clients, channels and groups, the functions
  that apply a message of the server, and the events they emit.

  The structs of the messages and of the book are generated when the crate is built, from declarations that
  are not part of the repository. The records here have the fields that the modelled code names; structs that
  are only handed on are the type \<open>'d\<close>. The generated part of \<open>handle_command\<close> is a parameter. Strings are
  their UTF-8 bytes, times are unix timestamps.
\<close>

section \<open>Hash maps\<close>

text \<open>
  A \<open>HashMap\<close> is the list of its entries in the order of iteration, which is unspecified: a new entry may
  move all others, so \<open>shuffle\<close> is a parameter.
\<close>

definition hm_insert :: "(('k \<times> 'v) list \<Rightarrow> ('k \<times> 'v) list) \<Rightarrow> 'k \<Rightarrow> 'v \<Rightarrow> ('k \<times> 'v) list \<Rightarrow> ('k \<times> 'v) list" where
  "hm_insert shuffle k v m = (if map_of m k = None then shuffle ((k, v) # m) else AList.update k v m)"

definition hm_remove :: "'k \<Rightarrow> ('k \<times> 'v) list \<Rightarrow> ('k \<times> 'v) list" where
  "hm_remove = AList.delete"

definition hm_modify :: "'k \<Rightarrow> ('v \<Rightarrow> 'v) \<Rightarrow> ('k \<times> 'v) list \<Rightarrow> ('k \<times> 'v) list" where
  "hm_modify = AList.map_entry"

text \<open>\<open>values_mut().any(..)\<close>: change the first value that satisfies the test, and give its old value.\<close>

fun modify_first :: "('v \<Rightarrow> bool) \<Rightarrow> ('v \<Rightarrow> 'v) \<Rightarrow> ('k \<times> 'v) list \<Rightarrow> ('k \<times> 'v) list \<times> 'v option" where
  "modify_first p f [] = ([], None)"
| "modify_first p f ((k, v) # m) =
     (if p v then ((k, f v) # m, Some v)
      else (case modify_first p f m of (m', old) \<Rightarrow> ((k, v) # m', old)))"

section \<open>Types\<close>

type_synonym channel_id = u64
type_synonym client_id = u16
type_synonym i32 = int

datatype client_type = Normal | Query bool

datatype max_clients = Unlimited | Inherited | Limited u16

record talk_power_request =
  tpr_time :: int
  tpr_message :: bytes

record invoker =
  in_name :: bytes
  in_id :: client_id
  in_uid :: "bytes option"

text \<open>Enums that are generated; the code names these constructors.\<close>

datatype channel_type = Permanent | SemiPermanent | Temporary

datatype text_message_target_mode = ServerMode | ChannelMode | ClientMode | UnknownMode

datatype codec_encryption_mode = PerChannel | ForcedOff | ForcedOn

datatype book_reason = Serverstop | ClientdisconnectServerShutdown | OtherReason u8

datatype message_target = ToServer | ToChannel | ToClient client_id | ToPoke client_id

datatype book_error =
    MessageWithoutTargetClientId
  | UnknownTextMessageTargetMode
  | NotFound string bytes
  | RemoveNotFound string
  | InvalidConnectionIp

section \<open>The book\<close>

record 'd book_client =
  bc_id :: client_id
  bc_channel :: channel_id
  bc_name :: bytes
  bc_away_message :: "bytes option"
  bc_talk_power :: i32
  bc_talk_power_granted :: bool
  bc_talk_power_request :: "talk_power_request option"
  bc_input_muted :: bool
  bc_output_muted :: bool
  bc_output_only_muted :: bool
  bc_input_hardware_enabled :: bool
  bc_output_hardware_enabled :: bool
  bc_optional_data :: "'d option"
  bc_connection_data :: "'d option"

record 'd book_channel =
  ch_id :: channel_id
  ch_parent :: channel_id
  ch_order :: channel_id
  ch_channel_type :: channel_type
  ch_max_clients :: "max_clients option"
  ch_max_family_clients :: "max_clients option"
  ch_needed_talk_power :: "i32 option"
  ch_is_unencrypted :: "bool option"
  ch_subscribed :: bool
  ch_optional_data :: "'d option"

record 'd book_server =
  sv_codec_encryption_mode :: codec_encryption_mode
  sv_optional_data :: "'d option"
  sv_connection_data :: "'d option"

record 'd book =
  bk_own_client :: client_id
  bk_server :: "'d book_server"
  bk_clients :: "(client_id \<times> 'd book_client) list"
  bk_channels :: "(channel_id \<times> 'd book_channel) list"
  bk_channel_groups :: "(u64 \<times> 'd) list"
  bk_server_groups :: "(u64 \<times> 'd) list"

text \<open>Events; of the generated property ids and values those that the code builds or tests.\<close>

datatype property_id =
    ServerProp
  | ClientProp client_id
  | ClientName client_id
  | ClientAwayMessage client_id
  | ClientTalkPowerRequest client_id
  | ClientInputMuted client_id
  | ClientOutputMuted client_id
  | ClientOutputOnlyMuted client_id
  | ClientInputHardwareEnabled client_id
  | ClientOutputHardwareEnabled client_id
  | ChannelMaxClients channel_id
  | ChannelMaxFamilyClients channel_id
  | ChannelChannelType channel_id
  | ChannelSubscribed channel_id
  | ChannelOrder channel_id
  | OtherProp nat

datatype 'd property_value =
    StringValue bytes
  | OptionStringValue "bytes option"
  | BoolValue bool
  | ChannelIdValue channel_id
  | ChannelTypeValue channel_type
  | OptionMaxClientsValue "max_clients option"
  | OptionTalkPowerRequestValue "talk_power_request option"
  | ClientValue "'d book_client"
  | OtherValue 'd

datatype 'd book_event =
    PropertyAdded property_id "invoker option" "book_reason option"
  | PropertyChanged property_id "'d property_value" "invoker option" "book_reason option"
  | PropertyRemoved property_id "'d property_value" "invoker option" "book_reason option"
  | Message message_target invoker bytes

fun get_invoker :: "'d book_event \<Rightarrow> invoker option" where
  "get_invoker (PropertyAdded i invoker r) = invoker"
| "get_invoker (PropertyChanged i old invoker r) = invoker"
| "get_invoker (PropertyRemoved i old invoker r) = invoker"
| "get_invoker (Message target invoker msg) = Some invoker"

text \<open>A method with \<open>&mut self\<close> and \<open>&mut Vec<Event>\<close>.\<close>

type_synonym ('d, 'a) book_action = "('d book \<times> 'd book_event list, 'a, book_error) action"

definition push_event :: "'d book_event \<Rightarrow> ('d, unit) book_action" where
  "push_event e = act_modify (\<lambda>(bk, events). (bk, events @ [e]))"

definition book_modify :: "('d book \<Rightarrow> 'd book) \<Rightarrow> ('d, unit) book_action" where
  "book_modify f = act_modify (\<lambda>(bk, events). (f bk, events))"

definition book_new :: "client_id \<Rightarrow> 'd book_server \<Rightarrow> 'd book" where
  "book_new own server =
     \<lparr>bk_own_client = own, bk_server = server\<lparr>sv_optional_data := None, sv_connection_data := None\<rparr>,
      bk_clients = [], bk_channels = [], bk_channel_groups = [], bk_server_groups = []\<rparr>"

section \<open>Lookup and storage\<close>

definition not_found :: "string \<Rightarrow> 'n::len word \<Rightarrow> book_error" where
  "not_found what i = NotFound what (show_nat (unat i))"

definition get_channel_group :: "u64 \<Rightarrow> 'd book \<Rightarrow> ('d, book_error) outcome" where
  "get_channel_group i bk = ok_or (not_found ''ChannelGroup'' i) (map_of (bk_channel_groups bk) i)"

definition get_server_group :: "u64 \<Rightarrow> 'd book \<Rightarrow> ('d, book_error) outcome" where
  "get_server_group i bk = ok_or (not_found ''ServerGroup'' i) (map_of (bk_server_groups bk) i)"

definition get_client :: "client_id \<Rightarrow> 'd book \<Rightarrow> ('d book_client, book_error) outcome" where
  "get_client i bk = ok_or (not_found ''Client'' i) (map_of (bk_clients bk) i)"

definition get_channel :: "channel_id \<Rightarrow> 'd book \<Rightarrow> ('d book_channel, book_error) outcome" where
  "get_channel i bk = ok_or (not_found ''Channel'' i) (map_of (bk_channels bk) i)"

definition modify_client :: "client_id \<Rightarrow> ('d book_client \<Rightarrow> 'd book_client) \<Rightarrow> ('d, unit) book_action" where
  "modify_client i f = book_modify (bk_clients_update (hm_modify i f))"

definition modify_channel :: "channel_id \<Rightarrow> ('d book_channel \<Rightarrow> 'd book_channel) \<Rightarrow> ('d, unit) book_action" where
  "modify_channel i f = book_modify (bk_channels_update (hm_modify i f))"

text \<open>\<open>get_mut_client\<close> and \<open>get_mut_channel\<close>: the value, which later steps change in place.\<close>

definition get_mut_client :: "client_id \<Rightarrow> ('d, 'd book_client) book_action" where
  "get_mut_client i = (\<lambda>(bk, events). (get_client i bk, (bk, events)))"

definition get_mut_channel :: "channel_id \<Rightarrow> ('d, 'd book_channel) book_action" where
  "get_mut_channel i = (\<lambda>(bk, events). (get_channel i bk, (bk, events)))"

type_synonym ('k, 'v) shuffle = "('k \<times> 'v) list \<Rightarrow> ('k \<times> 'v) list"

definition add_channel_group :: "(u64, 'd) shuffle \<Rightarrow> u64 \<Rightarrow> 'd \<Rightarrow> ('d, 'd option) book_action" where
  "add_channel_group sh i r =
     act_then (act_read (\<lambda>(bk, events). map_of (bk_channel_groups bk) i)) (\<lambda>old.
     act_then (book_modify (bk_channel_groups_update (hm_insert sh i r))) (\<lambda>_. act_return old))"

definition add_server_group :: "(u64, 'd) shuffle \<Rightarrow> u64 \<Rightarrow> 'd \<Rightarrow> ('d, 'd option) book_action" where
  "add_server_group sh i r =
     act_then (act_read (\<lambda>(bk, events). map_of (bk_server_groups bk) i)) (\<lambda>old.
     act_then (book_modify (bk_server_groups_update (hm_insert sh i r))) (\<lambda>_. act_return old))"

definition add_client :: "(client_id, 'd book_client) shuffle \<Rightarrow> client_id \<Rightarrow> 'd book_client
     \<Rightarrow> ('d, 'd book_client option) book_action" where
  "add_client sh i r =
     act_then (act_read (\<lambda>(bk, events). map_of (bk_clients bk) i)) (\<lambda>old.
     act_then (book_modify (bk_clients_update (hm_insert sh i r))) (\<lambda>_. act_return old))"

definition remove_client :: "client_id \<Rightarrow> ('d, 'd book_client option) book_action" where
  "remove_client i =
     act_then (act_read (\<lambda>(bk, events). map_of (bk_clients bk) i)) (\<lambda>old.
     act_then (book_modify (bk_clients_update (hm_remove i))) (\<lambda>_. act_return old))"

text \<open>The optional parts: of the server, of a client, of a channel.\<close>

definition replace_optional_server_data :: "'d \<Rightarrow> ('d, 'd option) book_action" where
  "replace_optional_server_data r =
     act_then (act_read (\<lambda>(bk, events). sv_optional_data (bk_server bk))) (\<lambda>old.
     act_then (book_modify (bk_server_update (sv_optional_data_update (\<lambda>_. Some r)))) (\<lambda>_. act_return old))"

definition remove_optional_server_data :: "('d, 'd option) book_action" where
  "remove_optional_server_data =
     act_then (act_read (\<lambda>(bk, events). sv_optional_data (bk_server bk))) (\<lambda>old.
     act_then (book_modify (bk_server_update (sv_optional_data_update (\<lambda>_. None)))) (\<lambda>_. act_return old))"

definition replace_connection_server_data :: "'d \<Rightarrow> ('d, 'd option) book_action" where
  "replace_connection_server_data r =
     act_then (act_read (\<lambda>(bk, events). sv_connection_data (bk_server bk))) (\<lambda>old.
     act_then (book_modify (bk_server_update (sv_connection_data_update (\<lambda>_. Some r)))) (\<lambda>_. act_return old))"

definition replace_connection_client_data :: "client_id \<Rightarrow> 'd \<Rightarrow> ('d, 'd option) book_action" where
  "replace_connection_client_data i r =
     act_then (get_mut_client i) (\<lambda>c.
     act_then (modify_client i (bc_connection_data_update (\<lambda>_. Some r))) (\<lambda>_. act_return (bc_connection_data c)))"

definition replace_optional_client_data :: "client_id \<Rightarrow> 'd \<Rightarrow> ('d, 'd option) book_action" where
  "replace_optional_client_data i r =
     act_then (get_mut_client i) (\<lambda>c.
     act_then (modify_client i (bc_optional_data_update (\<lambda>_. Some r))) (\<lambda>_. act_return (bc_optional_data c)))"

definition replace_optional_channel_data :: "channel_id \<Rightarrow> 'd \<Rightarrow> ('d, 'd option) book_action" where
  "replace_optional_channel_data i r =
     act_then (get_mut_channel i) (\<lambda>c.
     act_then (modify_channel i (ch_optional_data_update (\<lambda>_. Some r))) (\<lambda>_. act_return (ch_optional_data c)))"

definition remove_optional_channel_data :: "channel_id \<Rightarrow> ('d, 'd option) book_action" where
  "remove_optional_channel_data i =
     act_then (get_mut_channel i) (\<lambda>c.
     act_then (modify_channel i (ch_optional_data_update (\<lambda>_. None))) (\<lambda>_. act_return (ch_optional_data c)))"

definition get_connection_client_data :: "client_id \<Rightarrow> 'd book \<Rightarrow> ('d option, book_error) outcome" where
  "get_connection_client_data i bk =
     (case map_of (bk_clients bk) i of
        Some c \<Rightarrow> Ok (bc_connection_data c) | None \<Rightarrow> Err (not_found ''Client'' i))"

definition get_optional_client_data :: "client_id \<Rightarrow> 'd book \<Rightarrow> ('d option, book_error) outcome" where
  "get_optional_client_data i bk =
     (case map_of (bk_clients bk) i of
        Some c \<Rightarrow> Ok (bc_optional_data c) | None \<Rightarrow> Err (not_found ''Client'' i))"

definition get_optional_channel_data :: "channel_id \<Rightarrow> 'd book \<Rightarrow> ('d option, book_error) outcome" where
  "get_optional_channel_data i bk =
     (case map_of (bk_channels bk) i of
        Some c \<Rightarrow> Ok (ch_optional_data c) | None \<Rightarrow> Err (not_found ''Channel'' i))"

section \<open>The order of channels\<close>

text \<open>
  Every channel names the channel before it among the channels of the same parent, the first one names 0.
  When a channel is taken out of its chain or put into one, the channel behind it is changed.
\<close>

definition order_changed :: "'d book_channel \<Rightarrow> 'd book_event" where
  "order_changed c = PropertyChanged (ChannelOrder (ch_id c)) (ChannelIdValue (ch_order c)) None None"

definition reorder_first :: "('d book_channel \<Rightarrow> bool) \<Rightarrow> channel_id \<Rightarrow> ('d, unit) book_action" where
  "reorder_first p order =
     act_then (act_read (\<lambda>(bk, events). modify_first p (ch_order_update (\<lambda>_. order)) (bk_channels bk))) (\<lambda>(m, old).
     act_then (book_modify (bk_channels_update (\<lambda>_. m))) (\<lambda>_.
     case old of Some c \<Rightarrow> push_event (order_changed c) | None \<Rightarrow> act_return ()))"

definition channel_order_remove :: "channel_id \<Rightarrow> channel_id \<Rightarrow> ('d, unit) book_action" where
  "channel_order_remove channel order =
     reorder_first (\<lambda>c. ch_order c = channel \<and> ch_id c \<noteq> channel) order"

definition channel_order_insert :: "channel_id \<Rightarrow> channel_id \<Rightarrow> channel_id \<Rightarrow> ('d, unit) book_action" where
  "channel_order_insert channel order parent =
     reorder_first (\<lambda>c. ch_order c = order \<and> ch_parent c = parent \<and> ch_id c \<noteq> channel) channel"

definition add_channel :: "(channel_id, 'd book_channel) shuffle \<Rightarrow> channel_id \<Rightarrow> 'd book_channel
     \<Rightarrow> ('d, 'd book_channel option) book_action" where
  "add_channel sh i r =
     act_then (channel_order_insert (ch_id r) (ch_order r) (ch_parent r)) (\<lambda>_.
     act_then (act_read (\<lambda>(bk, events). map_of (bk_channels bk) i)) (\<lambda>old.
     act_then (book_modify (bk_channels_update (hm_insert sh i r))) (\<lambda>_. act_return old)))"

definition remove_channel :: "channel_id \<Rightarrow> ('d, 'd book_channel option) book_action" where
  "remove_channel i =
     act_then (act_read (\<lambda>(bk, events). map_of (bk_channels bk) i)) (\<lambda>old.
     act_then (book_modify (bk_channels_update (hm_remove i))) (\<lambda>_.
     act_then
       (case old of Some ch \<Rightarrow> channel_order_remove (ch_id ch) (ch_order ch) | None \<Rightarrow> act_return ()) (\<lambda>_.
     act_return old)))"

definition channel_order_move_fun ::
  "channel_id \<Rightarrow> channel_id option \<Rightarrow> channel_id option \<Rightarrow> ('d, unit) book_action" where
  "channel_order_move_fun channel_id new_order parent =
     (if new_order \<noteq> None \<or> parent \<noteq> None then
        act_then (get_mut_channel channel_id) (\<lambda>channel.
        let old_order = ch_order channel;
            new_parent = (case parent of Some p \<Rightarrow> p | None \<Rightarrow> ch_parent channel) in
        act_then
          (case new_order of
             Some order \<Rightarrow>
               act_then (push_event (order_changed channel)) (\<lambda>_.
               modify_channel channel_id (ch_order_update (\<lambda>_. order)))
           | None \<Rightarrow> act_return ()) (\<lambda>_.
        act_then (channel_order_remove channel_id old_order) (\<lambda>_.
        channel_order_insert channel_id
          (case new_order of Some order \<Rightarrow> order | None \<Rightarrow> old_order) new_parent)))
      else act_return ())"

section \<open>Messages\<close>

text \<open>The limits on clients that the messages about channels carry.\<close>

record limits =
  max_clients :: "i32 option"
  is_max_clients_unlimited :: "bool option"
  max_family_clients :: "i32 option"
  is_max_family_clients_unlimited :: "bool option"
  inherits_max_family_clients :: "bool option"

record channel_part = limits +
  cp_channel_id :: channel_id
  cp_parent_id :: "channel_id option"
  cp_order :: "channel_id option"
  cp_is_permanent :: "bool option"
  cp_is_semi_permanent :: "bool option"
  cp_invoker :: "invoker option"
  cp_reason :: book_reason

text \<open>\<open>unwrap_or_default\<close> of a flag, and a number that is in the range of \<open>u16\<close>.\<close>

definition flag :: "bool option \<Rightarrow> bool" where
  "flag b \<longleftrightarrow> b = Some True"

definition in_u16 :: "i32 \<Rightarrow> bool" where
  "in_u16 i \<longleftrightarrow> 0 \<le> i \<and> i \<le> 65535"

definition limit_clients :: "'a limits_scheme \<Rightarrow> max_clients option" where
  "limit_clients msg =
     (if flag (is_max_clients_unlimited msg) then Some Unlimited
      else case limits.max_clients msg of
        Some i \<Rightarrow> if in_u16 i then Some (Limited (of_int i)) else None
      | None \<Rightarrow> None)"

definition limit_family :: "'a limits_scheme \<Rightarrow> max_clients option" where
  "limit_family msg =
     (if flag (is_max_family_clients_unlimited msg) then Some Unlimited
      else if flag (inherits_max_family_clients msg) then Some Inherited
      else case max_family_clients msg of
        Some i \<Rightarrow> if in_u16 i then Some (Limited (of_int i)) else None
      | None \<Rightarrow> None)"

definition max_clients_cc_fun :: "'a limits_scheme \<Rightarrow> max_clients option \<times> max_clients option" where
  "max_clients_cc_fun msg = (limit_clients msg, limit_family msg)"

definition max_clients_ce_fun :: "channel_id \<Rightarrow> channel_part \<Rightarrow> ('d, unit) book_action" where
  "max_clients_ce_fun channel_id msg =
     act_then (get_mut_channel channel_id) (\<lambda>channel.
     act_then
       (case limit_clients msg of
          Some ch \<Rightarrow>
            act_then (push_event (PropertyChanged (ChannelMaxClients channel_id)
              (OptionMaxClientsValue (ch_max_clients channel)) (cp_invoker msg) (Some (cp_reason msg)))) (\<lambda>_.
            modify_channel channel_id (ch_max_clients_update (\<lambda>_. Some ch)))
        | None \<Rightarrow> act_return ()) (\<lambda>_.
     case limit_family msg of
       Some ch_fam \<Rightarrow>
         act_then (push_event (PropertyChanged (ChannelMaxFamilyClients channel_id)
           (OptionMaxClientsValue (ch_max_family_clients channel)) (cp_invoker msg) (Some (cp_reason msg)))) (\<lambda>_.
         modify_channel channel_id (ch_max_family_clients_update (\<lambda>_. Some ch_fam)))
     | None \<Rightarrow> act_return ()))"

text \<open>The list of channels always has the fields; a family limit out of range is no limit there.\<close>

record channel_list_part =
  cl_max_clients :: i32
  cl_is_max_clients_unlimited :: bool
  cl_max_family_clients :: i32
  cl_is_max_family_clients_unlimited :: bool
  cl_inherits_max_family_clients :: bool
  cl_is_permanent :: bool
  cl_is_semi_permanent :: bool

definition max_clients_cl_fun :: "channel_list_part \<Rightarrow> max_clients option \<times> max_clients option" where
  "max_clients_cl_fun msg =
     ((if cl_is_max_clients_unlimited msg then Some Unlimited
       else if in_u16 (cl_max_clients msg) then Some (Limited (of_int (cl_max_clients msg))) else None),
      (if cl_is_max_family_clients_unlimited msg then Some Unlimited
       else if cl_inherits_max_family_clients msg then Some Inherited
       else if in_u16 (cl_max_family_clients msg) then Some (Limited (of_int (cl_max_family_clients msg)))
       else Some Unlimited))"

definition channel_flags_to_type :: "bool option \<Rightarrow> bool option \<Rightarrow> channel_type" where
  "channel_flags_to_type perm semi =
     (case (flag perm, flag semi) of
        (True, _) \<Rightarrow> Permanent | (_, True) \<Rightarrow> SemiPermanent | (False, False) \<Rightarrow> Temporary)"

definition channel_type_cc_fun :: "channel_part \<Rightarrow> channel_type" where
  "channel_type_cc_fun msg = channel_flags_to_type (cp_is_permanent msg) (cp_is_semi_permanent msg)"

definition channel_type_ce_fun :: "channel_id \<Rightarrow> channel_part \<Rightarrow> ('d, unit) book_action" where
  "channel_type_ce_fun channel_id msg =
     act_then (get_mut_channel channel_id) (\<lambda>channel.
     if cp_is_permanent msg = None \<and> cp_is_semi_permanent msg = None then act_return ()
     else
       act_then (push_event (PropertyChanged (ChannelChannelType channel_id)
         (ChannelTypeValue (ch_channel_type channel)) (cp_invoker msg) (Some (cp_reason msg)))) (\<lambda>_.
       modify_channel channel_id (ch_channel_type_update
         (\<lambda>_. channel_flags_to_type (cp_is_permanent msg) (cp_is_semi_permanent msg)))))"

definition channel_type_cl_fun :: "channel_list_part \<Rightarrow> channel_type" where
  "channel_type_cl_fun msg = channel_flags_to_type (Some (cl_is_permanent msg)) (Some (cl_is_semi_permanent msg))"

text \<open>A new channel puts itself into its chain; so does \<open>add_channel\<close>, which the generated code calls next.\<close>

definition channel_order_cc_fun :: "channel_id \<Rightarrow> channel_id \<Rightarrow> channel_id \<Rightarrow> ('d, channel_id) book_action" where
  "channel_order_cc_fun channel_id order parent =
     act_then (channel_order_insert channel_id order parent) (\<lambda>_. act_return order)"

definition channel_order_ce_fun :: "channel_id \<Rightarrow> channel_part \<Rightarrow> ('d, unit) book_action" where
  "channel_order_ce_fun channel_id msg = channel_order_move_fun channel_id (cp_order msg) (cp_parent_id msg)"

definition channel_order_cm_fun :: "channel_id \<Rightarrow> channel_id \<Rightarrow> channel_id \<Rightarrow> ('d, unit) book_action" where
  "channel_order_cm_fun channel_id order parent = channel_order_move_fun channel_id (Some order) (Some parent)"

text \<open>Messages about clients.\<close>

record client_enter_view_part =
  ev_is_away :: bool
  ev_away_message :: bytes
  ev_uid :: bytes
  ev_client_type :: client_type
  ev_talk_power_request_time :: int
  ev_talk_power_request_message :: bytes

record client_updated_part =
  cu_is_away :: "bool option"
  cu_away_message :: "bytes option"
  cu_talk_power_request_time :: "int option"
  cu_talk_power_request_message :: "bytes option"
  cu_invoker :: "invoker option"

definition is_server_admin :: "bytes \<Rightarrow> bool" where
  "is_server_admin uid \<longleftrightarrow> uid = ascii ''ServerAdmin''"

text \<open>The uid in the name of an avatar: hexadecimal with the letters a to p.\<close>

definition as_avatar :: "bytes \<Rightarrow> bytes" where
  "as_avatar uid = concat (map (\<lambda>b. [0x61 + (drop_bit 4 b), 0x61 + (b AND 0xf)]) uid)"

definition away_cev_fun :: "client_enter_view_part \<Rightarrow> bytes option" where
  "away_cev_fun msg = (if ev_is_away msg then Some (ev_away_message msg) else None)"

definition client_type_cev_fun :: "client_enter_view_part \<Rightarrow> client_type" where
  "client_type_cev_fun msg =
     (if is_server_admin (ev_uid msg)
      then (case ev_client_type msg of Query _ \<Rightarrow> Query True | Normal \<Rightarrow> ev_client_type msg)
      else ev_client_type msg)"

definition talk_power_cev_fun :: "client_enter_view_part \<Rightarrow> talk_power_request option" where
  "talk_power_cev_fun msg =
     (if 0 < ev_talk_power_request_time msg
      then Some \<lparr>tpr_time = ev_talk_power_request_time msg, tpr_message = ev_talk_power_request_message msg\<rparr>
      else None)"

definition away_changed :: "client_id \<Rightarrow> client_updated_part \<Rightarrow> 'd book_client \<Rightarrow> 'd book_event" where
  "away_changed i msg c =
     PropertyChanged (ClientAwayMessage i) (OptionStringValue (bc_away_message c)) (cu_invoker msg) None"

definition away_cu_fun :: "client_id \<Rightarrow> client_updated_part \<Rightarrow> ('d, unit) book_action" where
  "away_cu_fun client_id msg =
     act_then (get_mut_client client_id) (\<lambda>client.
     case cu_is_away msg of
       Some is_away \<Rightarrow>
         if is_away \<noteq> (bc_away_message client \<noteq> None) then
           let away = (if is_away then
                 Some (case cu_away_message msg of Some m \<Rightarrow> m | None \<Rightarrow> []) else None) in
           act_then (push_event (away_changed client_id msg client)) (\<lambda>_.
           modify_client client_id (bc_away_message_update (\<lambda>_. away)))
         else act_return ()
     | None \<Rightarrow>
         (case (cu_away_message msg, bc_away_message client) of
            (Some away_message, Some cur_msg) \<Rightarrow>
              if away_message \<noteq> cur_msg then
                act_then (push_event (away_changed client_id msg client)) (\<lambda>_.
                modify_client client_id (bc_away_message_update (\<lambda>_. Some away_message)))
              else act_return ()
          | _ \<Rightarrow> act_return ()))"

definition talk_power_cu_fun :: "client_id \<Rightarrow> client_updated_part \<Rightarrow> ('d, unit) book_action" where
  "talk_power_cu_fun client_id msg =
     (case cu_talk_power_request_time msg of
        None \<Rightarrow> act_return ()
      | Some time \<Rightarrow>
          act_then (get_mut_client client_id) (\<lambda>client.
          let talk_request = (if 0 < time then
                Some \<lparr>tpr_time = time,
                  tpr_message = (case cu_talk_power_request_message msg of Some m \<Rightarrow> m | None \<Rightarrow> [])\<rparr>
                else None) in
          act_then (push_event (PropertyChanged (ClientTalkPowerRequest client_id)
            (OptionTalkPowerRequestValue (bc_talk_power_request client)) (cu_invoker msg) None)) (\<lambda>_.
          modify_client client_id (bc_talk_power_request_update (\<lambda>_. talk_request)))))"

text \<open>The address in the connection info; \<open>parse\<close> is \<open>IpAddr::from_str\<close>.\<close>

definition trim_brackets :: "bytes \<Rightarrow> bytes" where
  "trim_brackets s =
     (let bracket = (\<lambda>b. b \<in> {0x5B, 0x5D}) in rev (dropWhile bracket (rev (dropWhile bracket s))))"

definition address_fun ::
  "(bytes \<Rightarrow> 'ip option) \<Rightarrow> bytes option \<Rightarrow> u16 option \<Rightarrow> (('ip \<times> u16) option option, book_error) outcome" where
  "address_fun parse ip port =
     (case (ip, port) of
        (Some ip, Some port) \<Rightarrow>
          if ip \<noteq> [] then map_ok (\<lambda>a. Some (Some (a, port))) (ok_or InvalidConnectionIp (parse (trim_brackets ip)))
          else Ok (Some None)
      | _ \<Rightarrow> Ok (Some None))"

text \<open>Subscribing to a channel; without the subscription its clients are no longer known.\<close>

definition set_channel_subscribed :: "bool \<Rightarrow> channel_id \<Rightarrow> ('d, unit) book_action" where
  "set_channel_subscribed subscribed channel_id =
     act_then (get_mut_channel channel_id) (\<lambda>channel.
     act_then (push_event (PropertyChanged (ChannelSubscribed channel_id)
       (BoolValue (ch_subscribed channel)) None None)) (\<lambda>_.
     modify_channel channel_id (ch_subscribed_update (\<lambda>_. subscribed))))"

definition channel_subscribe_fun :: "channel_id \<Rightarrow> ('d, unit) book_action" where
  "channel_subscribe_fun = set_channel_subscribed True"

definition forget_client :: "client_id \<Rightarrow> ('d, unit) book_action" where
  "forget_client i =
     act_then (act_read (\<lambda>(bk, events). map_of (bk_clients bk) i)) (\<lambda>old.
     act_then (act_lift (unwrap_opt old)) (\<lambda>c.
     act_then (book_modify (bk_clients_update (hm_remove i))) (\<lambda>_.
     push_event (PropertyRemoved (ClientProp i) (ClientValue c) None None))))"

definition clients_in :: "channel_id \<Rightarrow> 'd book \<Rightarrow> client_id list" where
  "clients_in channel_id bk =
     map (bc_id \<circ> snd) (filter (\<lambda>(i, c). bc_channel c = channel_id) (bk_clients bk))"

definition channel_unsubscribe_fun :: "channel_id \<Rightarrow> ('d, unit) book_action" where
  "channel_unsubscribe_fun channel_id =
     act_then (set_channel_subscribed False channel_id) (\<lambda>_.
     act_then (act_read (\<lambda>(bk, events). clients_in channel_id bk)) (\<lambda>remove_clients.
     act_for remove_clients forget_client))"

definition subscribe_channel_fun :: "client_id \<Rightarrow> channel_id \<Rightarrow> ('d, unit) book_action" where
  "subscribe_channel_fun client_id target_channel_id =
     act_then (act_read (\<lambda>(bk, events). bk_own_client bk)) (\<lambda>own_client.
     if client_id = own_client \<and> target_channel_id \<noteq> 0 then set_channel_subscribed True target_channel_id
     else act_return ())"

section \<open>Handling a message\<close>

text \<open>
  Of the generated type \<open>InMessage\<close>: text messages and pokes, which \<open>handle_command\<close> turns into events, the
  answer to a command, and everything else, which only the generated code handles.
\<close>

record text_message_part =
  tm_target :: text_message_target_mode
  tm_target_client_id :: "client_id option"
  tm_invoker :: invoker
  tm_message :: bytes

datatype ('e, 'm) in_message =
    TextMessage "text_message_part list"
  | ClientPoke "(invoker \<times> bytes) list"
  | CommandError 'e
  | OtherMessage 'm

fun text_target :: "text_message_part \<Rightarrow> (message_target, book_error) outcome" where
  "text_target msg =
     (case tm_target msg of
        ServerMode \<Rightarrow> Ok ToServer
      | ChannelMode \<Rightarrow> Ok ToChannel
      | ClientMode \<Rightarrow> map_ok ToClient (ok_or MessageWithoutTargetClientId (tm_target_client_id msg))
      | UnknownMode \<Rightarrow> Err UnknownTextMessageTargetMode)"

text \<open>The special messages; the result tells whether there was one.\<close>

definition special_messages :: "('e, 'm) in_message \<Rightarrow> bool \<Rightarrow> ('d, bool) book_action" where
  "special_messages msg handled =
     (case msg of
        TextMessage parts \<Rightarrow>
          act_then (act_for parts (\<lambda>part.
            act_then (act_lift (text_target part)) (\<lambda>target.
            push_event (Message target (tm_invoker part) (tm_message part))))) (\<lambda>_.
          act_return (handled \<or> parts \<noteq> []))
      | ClientPoke parts \<Rightarrow>
          act_then (act_for parts (\<lambda>(invoker, message).
            push_event (Message (ToPoke (in_id invoker)) invoker message))) (\<lambda>_.
          act_return (handled \<or> parts \<noteq> []))
      | CommandError _ \<Rightarrow> act_return True
      | OtherMessage _ \<Rightarrow> act_return handled)"

text \<open>The name of a known client that is the invoker of the first event is kept up to date.\<close>

definition adjust_name :: "('d, unit) book_action" where
  "adjust_name = (\<lambda>(bk, events).
     case events of
       [] \<Rightarrow> (Ok (), (bk, events))
     | e # _ \<Rightarrow>
         (case get_invoker e of
            None \<Rightarrow> (Ok (), (bk, events))
          | Some invoker \<Rightarrow>
              (case map_of (bk_clients bk) (in_id invoker) of
                 None \<Rightarrow> (Ok (), (bk, events))
               | Some client \<Rightarrow>
                   if bc_name client \<noteq> in_name invoker then
                     act_then (modify_client (in_id invoker) (bc_name_update (\<lambda>_. in_name invoker))) (\<lambda>_.
                     push_event (PropertyChanged (ClientName (bc_id client))
                       (StringValue (bc_name client)) None None)) (bk, events)
                   else (Ok (), (bk, events)))))"

text \<open>\<open>handle_command\<close>: \<open>generated\<close> is \<open>handle_command_generated\<close>, which starts the list of events.\<close>

definition book_handle_command ::
  "(('e, 'm) in_message \<Rightarrow> 'd book \<Rightarrow> (bool \<times> 'd book_event list, book_error) outcome \<times> 'd book)
     \<Rightarrow> ('e, 'm) in_message \<Rightarrow> 'd book \<Rightarrow> ('d book_event list \<times> bool, book_error) outcome \<times> 'd book" where
  "book_handle_command generated msg bk =
     (case generated msg bk of
        (Err e, bk) \<Rightarrow> (Err e, bk)
      | (Panic, bk) \<Rightarrow> (Panic, bk)
      | (Ok (handled, events), bk) \<Rightarrow>
          (case act_then (special_messages msg handled) (\<lambda>handled.
                act_then adjust_name (\<lambda>_. act_return handled)) (bk, events) of
             (Ok handled, (bk, events)) \<Rightarrow> (Ok (events, handled), bk)
           | (Err e, (bk, events)) \<Rightarrow> (Err e, bk)
           | (Panic, (bk, events)) \<Rightarrow> (Panic, bk)))"

section \<open>Messages to the server\<close>

text \<open>Values of the book as fields of messages.\<close>

fun away_fun_b2m :: "bytes option \<Rightarrow> bool \<times> bytes" where
  "away_fun_b2m (Some msg) = (True, msg)"
| "away_fun_b2m None = (False, [])"

fun channel_type_fun_b2m :: "channel_type \<Rightarrow> bool \<times> bool" where
  "channel_type_fun_b2m Temporary = (False, False)"
| "channel_type_fun_b2m SemiPermanent = (True, False)"
| "channel_type_fun_b2m Permanent = (False, True)"

fun max_clients_fun_b2m :: "max_clients \<Rightarrow> i32 \<times> bool" where
  "max_clients_fun_b2m Inherited = (0, False)"
| "max_clients_fun_b2m Unlimited = (0, True)"
| "max_clients_fun_b2m (Limited num) = (uint num, False)"

fun max_family_clients_fun_b2m :: "max_clients \<Rightarrow> i32 \<times> bool \<times> bool" where
  "max_family_clients_fun_b2m Inherited = (0, False, True)"
| "max_family_clients_fun_b2m Unlimited = (0, True, False)"
| "max_family_clients_fun_b2m (Limited num) = (uint num, False, False)"

fun password_flagged_b2m :: "crypto_env \<Rightarrow> bytes option \<Rightarrow> bool \<times> bytes" where
  "password_flagged_b2m env (Some password) = (True, encode_password env password)"
| "password_flagged_b2m env None = (False, [])"

fun server_password_b2m :: "crypto_env \<Rightarrow> bytes option \<Rightarrow> bytes" where
  "server_password_b2m env (Some password) = encode_password env password"
| "server_password_b2m env None = []"

text \<open>The options of a new channel.\<close>

record channel_options =
  co_name :: bytes
  co_description :: "bytes option"
  co_parent_id :: "channel_id option"
  co_codec :: "u8 option"
  co_codec_quality :: "u8 option"
  co_delete_delay :: "int option"
  co_password :: "bytes option"
  co_is_default :: bool
  co_max_clients :: "max_clients option"
  co_max_family_clients :: "max_clients option"
  co_channel_type :: "channel_type option"
  co_is_unencrypted :: "bool option"
  co_order :: "channel_id option"
  co_phonetic_name :: "bytes option"
  co_topic :: "bytes option"

definition channel_options_new :: "bytes \<Rightarrow> channel_options" where
  "channel_options_new name =
     \<lparr>co_name = name, co_description = None, co_parent_id = None, co_codec = None, co_codec_quality = None,
      co_delete_delay = None, co_password = None, co_is_default = False, co_max_clients = None,
      co_max_family_clients = None, co_channel_type = None, co_is_unencrypted = None, co_order = None,
      co_phonetic_name = None, co_topic = None\<rparr>"

text \<open>The parts of the generated outgoing messages that the code fills in.\<close>

record channel_create_part = limits +
  oc_name :: bytes
  oc_description :: "bytes option"
  oc_parent_id :: "channel_id option"
  oc_codec :: "u8 option"
  oc_codec_quality :: "u8 option"
  oc_delete_delay :: "int option"
  oc_has_password :: "bool option"
  oc_is_default :: "bool option"
  oc_is_permanent :: "bool option"
  oc_is_semi_permanent :: "bool option"
  oc_is_unencrypted :: "bool option"
  oc_order :: "channel_id option"
  oc_password :: "bytes option"
  oc_phonetic_name :: "bytes option"
  oc_topic :: "bytes option"

datatype out_message =
    OutSendTextMessage text_message_target_mode "client_id option" bytes
  | OutClientPokeRequest client_id bytes
  | OutChannelSubscribe "channel_id list"
  | OutChannelUnsubscribe "channel_id list"
  | OutChannelSubscribeAll
  | OutChannelUnsubscribeAll
  | OutChannelCreate channel_create_part
  | OutDisconnect "book_reason option" "bytes option"

definition some_if :: "bool \<Rightarrow> bool option" where
  "some_if b = (if b then Some True else None)"

fun limited :: "max_clients option \<Rightarrow> i32 option" where
  "limited (Some (Limited n)) = Some (uint n)"
| "limited _ = None"

definition server_add_channel :: "crypto_env \<Rightarrow> channel_options \<Rightarrow> out_message" where
  "server_add_channel env options = OutChannelCreate
     \<lparr>max_clients = limited (co_max_clients options),
      is_max_clients_unlimited = some_if (co_max_clients options = Some Unlimited),
      max_family_clients = limited (co_max_family_clients options),
      is_max_family_clients_unlimited = some_if (co_max_family_clients options = Some Unlimited),
      inherits_max_family_clients = some_if (co_max_family_clients options = Some Inherited),
      oc_name = co_name options, oc_description = co_description options, oc_parent_id = co_parent_id options,
      oc_codec = co_codec options, oc_codec_quality = co_codec_quality options,
      oc_delete_delay = co_delete_delay options, oc_has_password = some_if (co_password options \<noteq> None),
      oc_is_default = some_if (co_is_default options),
      oc_is_permanent = some_if (co_channel_type options = Some Permanent),
      oc_is_semi_permanent = some_if (co_channel_type options = Some SemiPermanent),
      oc_is_unencrypted = co_is_unencrypted options, oc_order = co_order options,
      oc_password = map_option (encode_password env) (co_password options),
      oc_phonetic_name = co_phonetic_name options, oc_topic = co_topic options\<rparr>"

definition channel_set_subscribed :: "'d book_channel \<Rightarrow> bool \<Rightarrow> out_message" where
  "channel_set_subscribed c subscribed =
     (if subscribed then OutChannelSubscribe [ch_id c] else OutChannelUnsubscribe [ch_id c])"

definition server_set_subscribed :: "bool \<Rightarrow> out_message" where
  "server_set_subscribed subscribed = (if subscribed then OutChannelSubscribeAll else OutChannelUnsubscribeAll)"

definition client_send_textmessage :: "'d book_client \<Rightarrow> bytes \<Rightarrow> out_message" where
  "client_send_textmessage c message = OutSendTextMessage ClientMode (Some (bc_id c)) message"

definition client_poke :: "'d book_client \<Rightarrow> bytes \<Rightarrow> out_message" where
  "client_poke c message = OutClientPokeRequest (bc_id c) message"

definition server_send_textmessage :: "bytes \<Rightarrow> out_message" where
  "server_send_textmessage message = OutSendTextMessage ServerMode None message"

fun send_message :: "message_target \<Rightarrow> bytes \<Rightarrow> out_message" where
  "send_message ToServer message = OutSendTextMessage ServerMode None message"
| "send_message ToChannel message = OutSendTextMessage ChannelMode None message"
| "send_message (ToClient i) message = OutSendTextMessage ClientMode (Some i) message"
| "send_message (ToPoke i) message = OutClientPokeRequest i message"

record disconnect_options =
  do_reason :: "book_reason option"
  do_message :: "bytes option"

definition disconnect_options_default :: disconnect_options where
  "disconnect_options_default = \<lparr>do_reason = None, do_message = None\<rparr>"

definition book_disconnect :: "disconnect_options \<Rightarrow> out_message" where
  "book_disconnect options = OutDisconnect (do_reason options) (do_message options)"

end
