(* ===== verification/Client_Library.thy ===== *)
theory Client_Library
  imports Client Bookkeeping
begin

text \<open>
  The connection a user of the library holds (\<open>tsclientlib/src/lib.rs\<close>): its states, the stream of items,
  the commands it sends, the mute state of the own client, file transfers, and reconnecting.

  The clock, the future that connects, the thread that improves the identity, the TCP streams and the
  generated code (parsing of messages, the generated handler of the book, building of packets) are the
  parameters \<open>lib_env\<close>. Tracing and buffers that are handed back are left out.
\<close>

section \<open>Data\<close>

datatype ts_error = TsOk | ClientCouldNotValidateIdentity | OtherTsError u32

datatype 't lib_error =
    LibCommandError ts_error "u32 option"
  | LibConnect "'t client_error"
  | ConnectFailed bytes "'t lib_error list"
  | ConnectionFailed "'t client_error"
  | ConnectionGone
  | ConnectTs ts_error
  | FiletransferIo
  | IdentityCreate
  | IdentityLevel u8
  | IdentityLevelCorrupted u8 u8
  | IdentityLevelIncreaseFailedThread
  | InitserverParamsMissing
  | InitserverParse
  | InitserverTimeout
  | InitserverWait "'t client_error"
  | LibIo
  | NotConnected
  | ResolveAddress
  | SendClientinit "'t client_error"
  | SendPacketError "'t client_error"
  | ServerUidMismatch bytes

datatype temporary_disconnect_reason = TimeoutReason string | ServerstopReason

datatype audio_event = CanSendAudio bool | CanReceiveAudio bool

datatype transfer_kind = Download u64 | Upload u64

text \<open>A file transfer: its handle, where to connect to and the key to send there.\<close>

record 'ip transfer =
  ft_id :: u16
  ft_kind :: transfer_kind
  ft_ip :: "'ip option"
  ft_port :: u16
  ft_key :: bytes

text \<open>
  The messages of the server that the code distinguishes. \<open>'x\<close> are all others. A missing address is the one
  of the server.
\<close>

record error_part =
  er_id :: ts_error
  er_missing_permission :: "u32 option"
  er_return_code :: "bytes option"
  er_extra_message :: "bytes option"

datatype ('ip, 'i, 'x) other_message =
    FileTransferMessage "'ip transfer list"
  | FiletransferStatus "(u16 \<times> ts_error) list"
  | ConnectionInfoUpdateRequest
  | ClientConnectionInfo "(client_id \<times> int option) list"
  | ChannelCreated "channel_id list"
  | ClientLeftView "(client_id \<times> book_reason option) list"
  | ClientMoved "(client_id \<times> channel_id) list"
  | ClientUpdated "(client_id \<times> bytes option) list"
  | InitServer 'i
  | Unspecific 'x

type_synonym ('ip, 'i, 'x) message = "(error_part list, ('ip, 'i, 'x) other_message) in_message"

datatype ('d, 'm, 't) lib_item =
    BookEvents "'d book_event list"
  | MessageEvent 'm
  | AudioPacket in_audio
  | IdentityLevelIncreasing u8
  | IdentityLevelIncreased
  | DisconnectedTemporarily temporary_disconnect_reason
  | MessageResult u16 "(ts_error \<times> u32 option) option"
  | FileDownload u16 u64
  | FileUpload u16 u64
  | FiletransferFailed u16 "'t lib_error"
  | LibNetworkStatsUpdated
  | AudioChange audio_event

text \<open>\<open>ConnectOptions\<close>; the address, the socket and the version are only handed on and left out.\<close>

record con_options =
  op_identity :: "identity option"
  op_server :: "bytes option"
  op_name :: bytes
  op_channel :: "bytes option"
  op_channel_password :: "bytes option"
  op_password :: "bytes option"
  op_input_muted :: bool
  op_output_muted :: bool
  op_input_hardware_enabled :: bool
  op_output_hardware_enabled :: bool
  op_away :: "bytes option"

record 'ip connected =
  cc_client :: client
  cc_return_code :: u16
  cc_filetransfer_id :: u16
  cc_subscribed :: bool
  cc_filetransfers :: "'ip transfer list"
  cc_connection_time :: int

text \<open>
  \<open>ConnectionState\<close>. The future of \<open>Connecting\<close> holds a copy of the options; the flags are \<open>is_reconnect\<close> of
  the future and whether to connect again when it fails.
\<close>

datatype ('d, 'ip) lib_state =
    StConnecting con_options bool bool
  | StIdentityLevelIncreasing identity u8 bool
  | StConnected "'ip connected" "'d book"

text \<open>An item of the stream is a result; only a panic ends the program.\<close>

type_synonym ('d, 'm, 't) lib_result = "(('d, 'm, 't) lib_item, 't lib_error) outcome"

record ('d, 'ip, 'm, 't) lib_con =
  lc_state :: "('d, 'ip) lib_state"
  lc_options :: con_options
  lc_items :: "('d, 'm, 't) lib_result list"

type_synonym ('d, 'ip, 'm, 't, 'a) lib_action = "(('d, 'ip, 'm, 't) lib_con, 'a, 't lib_error) action"
type_synonym ('ip, 't, 'a) connected_action = "('ip connected, 'a, 't lib_error) action"

text \<open>Outgoing messages that the generated code builds.\<close>

record client_init =
  ci_name :: bytes
  ci_input_muted :: "bool option"
  ci_output_muted :: "bool option"
  ci_input_hardware_enabled :: bool
  ci_output_hardware_enabled :: bool
  ci_is_away :: "bool option"
  ci_away_message :: "bytes option"
  ci_default_channel :: bytes
  ci_default_channel_password :: bytes
  ci_password :: bytes
  ci_client_key_offset :: u64

text \<open>
  The statistics that are sent to the server; the lists hold speech, keepalive and control. A packet loss is
  a ratio of floats: here the counters that are added up and the one that divides them (0.0 when it is 0).
\<close>

record connection_info =
  nf_ping :: nat
  nf_ping_deviation :: nat
  nf_packets_sent :: "u64 list"
  nf_bytes_sent :: "u64 list"
  nf_packets_received :: "u64 list"
  nf_bytes_received :: "u64 list"
  nf_packetloss :: "(u32 list \<times> u32) list"
  nf_sent_last_second :: "u64 list"
  nf_sent_last_minute :: "u64 list"
  nf_received_last_second :: "u64 list"
  nf_received_last_minute :: "u64 list"

datatype lib_out =
    BookOut out_message
  | ClientInit client_init
  | InitDownload u16 bytes channel_id bytes u64
  | InitUpload u16 bytes channel_id bytes bool bool u64
  | SetConnectionInfo connection_info

record ('d, 'ip, 'i, 'x, 't) lib_env =
  le_env :: env
  le_version :: bytes
  le_now :: int
  le_crypto :: crypto_env
  le_connect :: "con_options \<Rightarrow> (client \<times> 'd book, 't lib_error) outcome option"
  le_identity :: "identity \<Rightarrow> u8 \<Rightarrow> identity option option"
  le_parse :: "in_packet \<Rightarrow> ('ip, 'i, 'x) message option"
  le_generated :: "('ip, 'i, 'x) message \<Rightarrow> 'd book \<Rightarrow> (bool \<times> 'd book_event list, book_error) outcome \<times> 'd book"
  le_to_packet :: "lib_out \<Rightarrow> out_packet"
  le_tcp :: "'ip transfer \<Rightarrow> bool option"
  le_set_connected_time :: "int \<Rightarrow> 'd \<Rightarrow> 'd"
  le_book_of :: "'i \<Rightarrow> client_id \<times> 'd book_server"

section \<open>The mute state\<close>

definition intern_can_send_audio :: "'d book \<Rightarrow> con_options \<Rightarrow> bool" where
  "intern_can_send_audio bk options =
     (case map_of (bk_clients bk) (bk_own_client bk) of
        Some own_client \<Rightarrow>
          if bc_input_muted own_client \<or> \<not> bc_input_hardware_enabled own_client \<or>
             bc_away_message own_client \<noteq> None \<or> bc_output_muted own_client \<or>
             \<not> bc_output_hardware_enabled own_client
          then False
          else
            (case map_of (bk_channels bk) (bc_channel own_client) of
               Some own_channel \<Rightarrow>
                 (case ch_needed_talk_power own_channel of
                    Some needed_talk_power \<Rightarrow>
                      bc_talk_power_granted own_client \<or> needed_talk_power \<le> bc_talk_power own_client
                  | None \<Rightarrow> True)
             | None \<Rightarrow> True)
      | None \<Rightarrow>
          \<not> op_input_muted options \<and> op_input_hardware_enabled options \<and> op_away options = None \<and>
          \<not> op_output_muted options \<and> op_output_hardware_enabled options)"

definition intern_can_receive_audio :: "'d book \<Rightarrow> con_options \<Rightarrow> bool" where
  "intern_can_receive_audio bk options =
     (case map_of (bk_clients bk) (bk_own_client bk) of
        Some own_client \<Rightarrow>
          \<not> bc_output_muted own_client \<and> \<not> bc_output_only_muted own_client \<and> bc_output_hardware_enabled own_client
      | None \<Rightarrow> \<not> op_output_muted options \<and> op_output_hardware_enabled options)"

definition intern_can_receive_unencrypted_audio :: "'d book \<Rightarrow> bool \<Rightarrow> bool" where
  "intern_can_receive_unencrypted_audio bk whisper =
     (case sv_codec_encryption_mode (bk_server bk) of
        ForcedOn \<Rightarrow> False
      | ForcedOff \<Rightarrow> True
      | PerChannel \<Rightarrow>
          if whisper then True
          else
            (case map_of (bk_clients bk) (bk_own_client bk) of
               Some own_client \<Rightarrow>
                 (case map_of (bk_channels bk) (bc_channel own_client) of
                    Some own_channel \<Rightarrow> (case ch_is_unencrypted own_channel of Some u \<Rightarrow> u | None \<Rightarrow> True)
                  | None \<Rightarrow> True)
             | None \<Rightarrow> True))"

definition can_send_audio :: "('d, 'ip, 'm, 't) lib_con \<Rightarrow> bool" where
  "can_send_audio lc =
     (case lc_state lc of StConnected con bk \<Rightarrow> intern_can_send_audio bk (lc_options lc) | _ \<Rightarrow> False)"

definition can_receive_audio :: "('d, 'ip, 'm, 't) lib_con \<Rightarrow> bool" where
  "can_receive_audio lc =
     (case lc_state lc of StConnected con bk \<Rightarrow> intern_can_receive_audio bk (lc_options lc) | _ \<Rightarrow> False)"

text \<open>The events for a change of the mute state.\<close>

definition audio_changes :: "bool \<Rightarrow> bool \<Rightarrow> bool \<Rightarrow> bool \<Rightarrow> ('d, 'm, 't) lib_result list" where
  "audio_changes prev_can_send prev_can_receive new_can_send new_can_receive =
     (if new_can_send \<noteq> prev_can_send then [Ok (AudioChange (CanSendAudio new_can_send))] else []) @
     (if new_can_receive \<noteq> prev_can_receive then [Ok (AudioChange (CanReceiveAudio new_can_receive))] else [])"

section \<open>Outgoing commands\<close>

text \<open>
  \<open>update_on_outgoing_command\<close> on \<open>clientupdate\<close>: the options and the own client take the new values at once.
\<close>

record 'd own_update =
  ou_options :: con_options
  ou_own_client :: "'d book_client option"
  ou_events :: "'d book_event list"
  ou_has_away_message :: bool
  ou_has_is_away :: bool

definition set_prop ::
  "(bool \<Rightarrow> con_options \<Rightarrow> con_options) \<Rightarrow> ('d book_client \<Rightarrow> bool) \<Rightarrow> (bool \<Rightarrow> 'd book_client \<Rightarrow> 'd book_client)
     \<Rightarrow> (client_id \<Rightarrow> property_id) \<Rightarrow> argument_value \<Rightarrow> 'd own_update \<Rightarrow> 'd own_update" where
  "set_prop opt_set prop put event v u =
     (let new = (av_raw v = ascii ''1''); u = u\<lparr>ou_options := opt_set new (ou_options u)\<rparr> in
      case ou_own_client u of
        Some own_client \<Rightarrow>
          if prop own_client \<noteq> new then
            u\<lparr>ou_own_client := Some (put new own_client),
              ou_events := ou_events u @ [PropertyChanged (event (bc_id own_client)) (BoolValue (prop own_client)) None None]\<rparr>
          else u
      | None \<Rightarrow> u)"

definition update_argument ::
  "bytes \<Rightarrow> argument_value \<Rightarrow> 'd own_update \<Rightarrow> ('d own_update, 't lib_error) outcome" where
  "update_argument name v u =
     (if name = ascii ''client_input_muted'' then
        Ok (set_prop (\<lambda>b. op_input_muted_update (\<lambda>_. b)) bc_input_muted (\<lambda>b. bc_input_muted_update (\<lambda>_. b))
          ClientInputMuted v u)
      else if name = ascii ''client_output_muted'' then
        Ok (set_prop (\<lambda>b. op_output_muted_update (\<lambda>_. b)) bc_output_muted (\<lambda>b. bc_output_muted_update (\<lambda>_. b))
          ClientOutputMuted v u)
      else if name = ascii ''client_away'' then
        (let u = (if av_raw v = ascii ''1'' then
             (if \<not> ou_has_away_message u then u\<lparr>ou_options := (ou_options u)\<lparr>op_away := Some []\<rparr>\<rparr> else u)
             else u\<lparr>ou_options := (ou_options u)\<lparr>op_away := None\<rparr>\<rparr>)
         in Ok (u\<lparr>ou_has_is_away := True\<rparr>))
      else if name = ascii ''client_away_message'' then
        (if ou_has_is_away u \<and> op_away (ou_options u) \<noteq> None then
           map_ok (ou_has_away_message_update (\<lambda>_. True))
             (case get_str v of
                Ok r \<Rightarrow> Ok (u\<lparr>ou_options := (ou_options u)\<lparr>op_away := Some r\<rparr>\<rparr>)
              | Err _ \<Rightarrow> Ok u
              | Panic \<Rightarrow> Panic)
         else Ok u)
      else if name = ascii ''client_input_hardware'' then
        Ok (set_prop (\<lambda>b. op_input_hardware_enabled_update (\<lambda>_. b)) bc_input_hardware_enabled
          (\<lambda>b. bc_input_hardware_enabled_update (\<lambda>_. b)) ClientInputHardwareEnabled v u)
      else if name = ascii ''client_output_hardware'' then
        Ok (set_prop (\<lambda>b. op_output_hardware_enabled_update (\<lambda>_. b)) bc_output_hardware_enabled
          (\<lambda>b. bc_output_hardware_enabled_update (\<lambda>_. b)) ClientOutputHardwareEnabled v u)
      else Ok u)"

definition update_away :: "'d own_update \<Rightarrow> 'd own_update" where
  "update_away u =
     (case ou_own_client u of
        Some own_client \<Rightarrow>
          if bc_away_message own_client \<noteq> op_away (ou_options u) then
            u\<lparr>ou_own_client := Some (own_client\<lparr>bc_away_message := op_away (ou_options u)\<rparr>),
              ou_events := ou_events u @
                [PropertyChanged (ClientAwayMessage (bc_id own_client)) (OptionStringValue (bc_away_message own_client)) None None]\<rparr>
          else u
      | None \<Rightarrow> u)"

fun update_arguments :: "command_item list \<Rightarrow> 'd own_update \<Rightarrow> ('d own_update, 't lib_error) outcome" where
  "update_arguments [] u = Ok u"
| "update_arguments (NextCommand # items) u = update_arguments items u"
| "update_arguments (Argument name v # items) u =
     and_then (update_argument name v u) (\<lambda>u. update_arguments items (update_away u))"

definition update_own_client ::
  "command_item list \<Rightarrow> 'ip connected \<Rightarrow> 'd book \<Rightarrow> ('d, 'ip, 'm, 't, unit) lib_action" where
  "update_own_client items con bk = (\<lambda>lc.
     let options = lc_options lc;
         u = \<lparr>ou_options = options, ou_own_client = map_of (bk_clients bk) (bk_own_client bk), ou_events = [],
              ou_has_away_message = False, ou_has_is_away = False\<rparr> in
     case update_arguments items u of
       Ok u \<Rightarrow>
         let bk' = (case ou_own_client u of
               Some c \<Rightarrow> bk\<lparr>bk_clients := hm_modify (bk_own_client bk) (\<lambda>_. c) (bk_clients bk)\<rparr> | None \<Rightarrow> bk);
             events = (if ou_events u \<noteq> [] then [Ok (BookEvents (ou_events u))] else []) in
         (Ok (), lc
            \<lparr>lc_state := StConnected con bk', lc_options := ou_options u,
             lc_items := lc_items lc @ events @
               audio_changes (intern_can_send_audio bk options) (intern_can_receive_audio bk options)
                 (intern_can_send_audio bk' (ou_options u)) (intern_can_receive_audio bk' (ou_options u))\<rparr>)
     | Err e \<Rightarrow> (Err e, lc)
     | Panic \<Rightarrow> (Panic, lc))"

definition update_on_outgoing_command :: "out_packet \<Rightarrow> ('d, 'ip, 'm, 't, unit) lib_action" where
  "update_on_outgoing_command cmd = (\<lambda>lc.
     case lc_state lc of
       StConnected con bk \<Rightarrow>
         act_then (act_lift (out_content cmd)) (\<lambda>content.
           let (cmd_name, parser) = command_parser_new content in
           if cmd_name = ascii ''channelsubscribeall'' then
             act_modify (lc_state_update (\<lambda>_. StConnected (con\<lparr>cc_subscribed := True\<rparr>) bk))
           else if cmd_name = ascii ''channelunsubscribeall'' then
             act_modify (lc_state_update (\<lambda>_. StConnected (con\<lparr>cc_subscribed := False\<rparr>) bk))
           else if cmd_name = ascii ''clientupdate'' then update_own_client (parse_items parser) con bk
           else act_return ()) lc
     | _ \<Rightarrow> (Ok (), lc))"

text \<open>Sending on a connection.\<close>

definition on_client :: "('t, 'a) client_action \<Rightarrow> ('ip, 't, 'a) connected_action" where
  "on_client m = (\<lambda>con. case m (cc_client con) of (r, cl) \<Rightarrow> (map_err SendPacketError r, con\<lparr>cc_client := cl\<rparr>))"

definition con_send_command :: "env \<Rightarrow> out_packet \<Rightarrow> ('ip, 't, unit) connected_action" where
  "con_send_command env packet = act_then (on_client (client_send_packet env packet)) (\<lambda>_. act_return ())"

definition con_send_with_result :: "env \<Rightarrow> out_packet \<Rightarrow> ('ip, 't, u16) connected_action" where
  "con_send_with_result env packet =
     act_then (act_read cc_return_code) (\<lambda>code.
     act_then (act_lift (checked_plus code 1)) (\<lambda>next_code.
     act_then (act_modify (cc_return_code_update (\<lambda>_. next_code))) (\<lambda>_.
     act_then (act_lift (write_arg (ascii ''return_code'') (show_nat (unat code)) packet)) (\<lambda>packet.
     act_then (con_send_command env packet) (\<lambda>_. act_return code)))))"

definition file_password :: "crypto_env \<Rightarrow> bytes option \<Rightarrow> bytes" where
  "file_password env p = (case p of Some p \<Rightarrow> encode_password env p | None \<Rightarrow> [])"

definition next_filetransfer_id :: "('ip, 't, u16) connected_action" where
  "next_filetransfer_id =
     act_then (act_read cc_filetransfer_id) (\<lambda>i.
     act_then (act_lift (checked_plus i 1)) (\<lambda>next_id.
     act_then (act_modify (cc_filetransfer_id_update (\<lambda>_. next_id))) (\<lambda>_. act_return i)))"

definition con_download_file :: "('d, 'ip, 'i, 'x, 't) lib_env \<Rightarrow> channel_id \<Rightarrow> bytes \<Rightarrow> bytes option
     \<Rightarrow> u64 option \<Rightarrow> ('ip, 't, u16) connected_action" where
  "con_download_file lenv channel_id path channel_password seek_position =
     act_then next_filetransfer_id (\<lambda>i.
     let packet = le_to_packet lenv (InitDownload i path channel_id (file_password (le_crypto lenv) channel_password)
           (case seek_position of Some p \<Rightarrow> p | None \<Rightarrow> 0)) in
     act_then (con_send_with_result (le_env lenv) packet) (\<lambda>_. act_return i))"

definition con_upload_file :: "('d, 'ip, 'i, 'x, 't) lib_env \<Rightarrow> channel_id \<Rightarrow> bytes \<Rightarrow> bytes option
     \<Rightarrow> u64 \<Rightarrow> bool \<Rightarrow> bool \<Rightarrow> ('ip, 't, u16) connected_action" where
  "con_upload_file lenv channel_id path channel_password filesize overwrite resume =
     act_then next_filetransfer_id (\<lambda>i.
     let packet = le_to_packet lenv (InitUpload i path channel_id (file_password (le_crypto lenv) channel_password)
           overwrite resume filesize) in
     act_then (con_send_with_result (le_env lenv) packet) (\<lambda>_. act_return i))"

text \<open>The methods of \<open>Connection\<close>, which need the state \<open>Connected\<close>.\<close>

definition with_connected :: "('ip, 't, 'a) connected_action \<Rightarrow> ('d, 'ip, 'm, 't, 'a) lib_action" where
  "with_connected m = (\<lambda>lc.
     case lc_state lc of
       StConnected con bk \<Rightarrow> (case m con of (r, con) \<Rightarrow> (r, lc\<lparr>lc_state := StConnected con bk\<rparr>))
     | _ \<Rightarrow> (Err NotConnected, lc))"

definition lib_send_command :: "env \<Rightarrow> out_packet \<Rightarrow> ('d, 'ip, 'm, 't, unit) lib_action" where
  "lib_send_command env packet =
     act_then (update_on_outgoing_command packet) (\<lambda>_. with_connected (con_send_command env packet))"

definition lib_send_with_result :: "env \<Rightarrow> out_packet \<Rightarrow> ('d, 'ip, 'm, 't, u16) lib_action" where
  "lib_send_with_result env packet =
     act_then (update_on_outgoing_command packet) (\<lambda>_. with_connected (con_send_with_result env packet))"

definition lib_download_file :: "('d, 'ip, 'i, 'x, 't) lib_env \<Rightarrow> channel_id \<Rightarrow> bytes \<Rightarrow> bytes option
     \<Rightarrow> u64 option \<Rightarrow> ('d, 'ip, 'm, 't, u16) lib_action" where
  "lib_download_file lenv channel_id path pw seek = with_connected (con_download_file lenv channel_id path pw seek)"

definition lib_upload_file :: "('d, 'ip, 'i, 'x, 't) lib_env \<Rightarrow> channel_id \<Rightarrow> bytes \<Rightarrow> bytes option
     \<Rightarrow> u64 \<Rightarrow> bool \<Rightarrow> bool \<Rightarrow> ('d, 'ip, 'm, 't, u16) lib_action" where
  "lib_upload_file lenv channel_id path pw filesize overwrite resume =
     with_connected (con_upload_file lenv channel_id path pw filesize overwrite resume)"

definition lib_send_audio :: "env \<Rightarrow> out_packet \<Rightarrow> ('d, 'ip, 'm, 't, unit) lib_action" where
  "lib_send_audio env packet =
     act_then (act_lift (and_then (out_header packet) h_packet_type)) (\<lambda>p_type.
     if p_type \<in> {Voice, VoiceWhisper} then with_connected (con_send_command env packet)
     else act_lift Panic)"

definition lib_disconnect :: "('d, 'ip, 'i, 'x, 't) lib_env \<Rightarrow> disconnect_options \<Rightarrow> ('d, 'ip, 'm, 't, unit) lib_action" where
  "lib_disconnect lenv options = (\<lambda>lc.
     case lc_state lc of
       StConnected _ _ \<Rightarrow>
         with_connected (con_send_command (le_env lenv) (le_to_packet lenv (BookOut (book_disconnect options)))) lc
     | _ \<Rightarrow> (Ok (), lc))"

definition lib_get_state :: "('d, 'ip, 'm, 't) lib_con \<Rightarrow> ('d book, 't lib_error) outcome" where
  "lib_get_state lc = (case lc_state lc of StConnected con bk \<Rightarrow> Ok bk | _ \<Rightarrow> Err NotConnected)"

section \<open>Commands of the server\<close>

text \<open>
  \<open>ConnectedConnection::handle_command\<close> works on the connection, the book, the queue of items and the options.
\<close>

record ('d, 'ip, 'm, 't) command_state =
  cs_con :: "'ip connected"
  cs_book :: "'d book"
  cs_items :: "('d, 'm, 't) lib_result list"
  cs_options :: con_options

type_synonym ('d, 'ip, 'm, 't, 'a) command_action = "(('d, 'ip, 'm, 't) command_state, 'a, 't lib_error) action"

definition push_items :: "('d, 'm, 't) lib_result list \<Rightarrow> ('d, 'ip, 'm, 't, unit) command_action" where
  "push_items items = act_modify (cs_items_update (\<lambda>old. old @ items))"

text \<open>Answers to commands: only those with a return code that is a number count as handled.\<close>

fun error_answers :: "error_part list \<Rightarrow> ('d, 'm, 't) lib_result list \<times> bool" where
  "error_answers [] = ([], True)"
| "error_answers (p # ps) =
     (let (items, handled) = error_answers ps;
          res = (if er_id p = TsOk then None else Some (er_id p, er_missing_permission p)) in
      case er_return_code p of
        Some code \<Rightarrow>
          (case parse_uint () code of
             Ok ret_code \<Rightarrow> (Ok (MessageResult ret_code res) # items, handled)
           | _ \<Rightarrow> (items, False))
      | None \<Rightarrow> (items, False))"

text \<open>A packet that cannot be sent: reported, or only logged.\<close>

definition try_send :: "env \<Rightarrow> out_packet \<Rightarrow> ('d, 'ip, 'm, 't, 't lib_error option) command_action" where
  "try_send env packet = (\<lambda>cs.
     case con_send_command env packet (cs_con cs) of
       (Ok _, con) \<Rightarrow> (Ok None, cs\<lparr>cs_con := con\<rparr>)
     | (Err e, con) \<Rightarrow> (Ok (Some e), cs\<lparr>cs_con := con\<rparr>)
     | (Panic, con) \<Rightarrow> (Panic, cs\<lparr>cs_con := con\<rparr>))"

text \<open>Changes of the own mute state by the server are undone; their events are dropped.\<close>

definition reset_own ::
  "client_id \<Rightarrow> property_id \<Rightarrow> 'd property_value \<Rightarrow> 'd book_client \<Rightarrow> 'd book_client option" where
  "reset_own own i old c =
     (let to_bool = (\<lambda>put. case old of BoolValue b \<Rightarrow> Some (put (\<lambda>_. b) c) | _ \<Rightarrow> Some c) in
      if i = ClientInputMuted own then to_bool bc_input_muted_update
      else if i = ClientOutputMuted own then to_bool bc_output_muted_update
      else if i = ClientInputHardwareEnabled own then to_bool bc_input_hardware_enabled_update
      else if i = ClientOutputHardwareEnabled own then to_bool bc_output_hardware_enabled_update
      else if i = ClientOutputOnlyMuted own then to_bool bc_output_only_muted_update
      else if i = ClientAwayMessage own then
        (case old of OptionStringValue s \<Rightarrow> Some (c\<lparr>bc_away_message := s\<rparr>) | _ \<Rightarrow> Some c)
      else None)"

fun retain_events ::
  "client_id \<Rightarrow> 'd book_event list \<Rightarrow> 'd book_client \<Rightarrow> 'd book_event list \<times> 'd book_client" where
  "retain_events own [] c = ([], c)"
| "retain_events own (PropertyChanged i old inv_by r # es) c =
     (case reset_own own i old c of
        Some c' \<Rightarrow> retain_events own es c'
      | None \<Rightarrow> (case retain_events own es c of (es', c') \<Rightarrow> (PropertyChanged i old inv_by r # es', c')))"
| "retain_events own (e # es) c = (case retain_events own es c of (es', c') \<Rightarrow> (e # es', c'))"

definition modify_own :: "('d book_client \<Rightarrow> 'd book_client) \<Rightarrow> ('d, 'ip, 'm, 't, unit) command_action" where
  "modify_own f = act_modify (cs_book_update (\<lambda>bk. bk\<lparr>bk_clients := hm_modify (bk_own_client bk) f (bk_clients bk)\<rparr>))"

text \<open>The book handles the message, then the mute state of the own client is restored.\<close>

definition set_connected_time ::
  "('d, 'ip, 'i, 'x, 't) lib_env \<Rightarrow> ('ip, 'i, 'x) message \<Rightarrow> ('d, 'ip, 'm, 't, unit) command_action" where
  "set_connected_time lenv msg =
     (case msg of
        OtherMessage (ClientConnectionInfo parts) \<Rightarrow>
          act_then (act_read id) (\<lambda>cs.
          if \<exists>(client, connected_time) \<in> set parts. client = bk_own_client (cs_book cs) \<and> connected_time = None
          then modify_own (bc_connection_data_update
            (map_option (le_set_connected_time lenv (le_now lenv - cc_connection_time (cs_con cs)))))
          else act_return ())
      | _ \<Rightarrow> act_return ())"

definition report_events :: "'d book_event list \<Rightarrow> ('d, 'ip, 'm, 't, unit) command_action" where
  "report_events events =
     (if events = [] then act_return ()
      else
        act_then (act_read cs_book) (\<lambda>bk.
        case map_of (bk_clients bk) (bk_own_client bk) of
          Some own_client \<Rightarrow>
            let (events, own_client) = retain_events (bk_own_client bk) events own_client in
            act_then (modify_own (\<lambda>_. own_client)) (\<lambda>_. push_items [Ok (BookEvents events)])
        | None \<Rightarrow> push_items [Ok (BookEvents events)]))"

definition handle_in_book ::
  "('d, 'ip, 'i, 'x, 't) lib_env \<Rightarrow> ('ip, 'i, 'x) message \<Rightarrow> ('d, 'ip, 'm, 't, bool) command_action" where
  "handle_in_book lenv msg = (\<lambda>cs.
     case book_handle_command (le_generated lenv) msg (cs_book cs) of
       (Panic, bk) \<Rightarrow> (Panic, cs\<lparr>cs_book := bk\<rparr>)
     | (r, bk) \<Rightarrow>
         let (events, handled) = (case r of Ok x \<Rightarrow> x | _ \<Rightarrow> ([], False)) in
         act_then (set_connected_time lenv msg) (\<lambda>_.
         act_then (report_events events) (\<lambda>_. act_return handled)) (cs\<lparr>cs_book := bk\<rparr>))"

text \<open>The statistics for the server. A duration of more than \<open>i64::MAX\<close> seconds is sent as one second.\<close>

fun sum_checked :: "u32 list \<Rightarrow> (u32, 'e) outcome" where
  "sum_checked [] = Ok 0"
| "sum_checked [x] = Ok x"
| "sum_checked (x # y # xs) = and_then (checked_plus x y) (\<lambda>z. sum_checked (z # xs))"

definition loss_ratio ::
  "packet_loss_stat list \<Rightarrow> packet_loss_stat list \<Rightarrow> connection_stats \<Rightarrow> (u32 list \<times> u32, 'e) outcome" where
  "loss_ratio lost count st =
     and_then (try_map (\<lambda>s. index (packet_loss st) (packet_loss_index s)) count) (\<lambda>counts.
     and_then (sum_checked counts) (\<lambda>n.
     map_ok (\<lambda>ls. (ls, n)) (try_map (\<lambda>s. index (packet_loss st) (packet_loss_index s)) lost)))"

definition get_packetloss_s2c_speech :: "connection_stats \<Rightarrow> (u32 list \<times> u32, 'e) outcome" where
  "get_packetloss_s2c_speech = loss_ratio [VoiceInLost] [VoiceInCount]"

definition get_packetloss_s2c_keepalive :: "connection_stats \<Rightarrow> (u32 list \<times> u32, 'e) outcome" where
  "get_packetloss_s2c_keepalive = loss_ratio [PingInLost, PongInLost] [PingInCount, PongInCount]"

definition get_packetloss_s2c_control :: "connection_stats \<Rightarrow> (u32 list \<times> u32, 'e) outcome" where
  "get_packetloss_s2c_control = loss_ratio [AckInLost] [AckInCount]"

definition get_packetloss_s2c_total :: "connection_stats \<Rightarrow> (u32 list \<times> u32, 'e) outcome" where
  "get_packetloss_s2c_total =
     loss_ratio [VoiceInLost, PingInLost, PongInLost, AckInLost] [VoiceInCount, PingInCount, PongInCount, AckInCount]"

definition signed_duration :: "nat \<Rightarrow> nat" where
  "signed_duration nanos = (if nanos div 10 ^ 9 < 2 ^ 63 then nanos else 10 ^ 9)"

definition pick_stats :: "packet_stat list \<Rightarrow> 'a list \<Rightarrow> ('a list, 'e) outcome" where
  "pick_stats ss xs = try_map (\<lambda>s. index xs (packet_stat_index s)) ss"

definition connection_info_of :: "connection_stats \<Rightarrow> (connection_info, 'e) outcome" where
  "connection_info_of st =
     (let sent = [OutSpeech, OutKeepalive, OutControl]; received = [InSpeech, InKeepalive, InControl];
          last_minute_bytes = get_last_minute_bytes st in
      and_then (get_last_second_bytes st) (\<lambda>last_second_bytes.
      and_then (pick_stats sent (total_packets st)) (\<lambda>packets_sent.
      and_then (pick_stats sent (total_bytes st)) (\<lambda>bytes_sent.
      and_then (pick_stats received (total_packets st)) (\<lambda>packets_received.
      and_then (pick_stats received (total_bytes st)) (\<lambda>bytes_received.
      and_then (try_map (\<lambda>f. f st) [get_packetloss_s2c_speech, get_packetloss_s2c_keepalive,
         get_packetloss_s2c_control, get_packetloss_s2c_total]) (\<lambda>loss.
      and_then (pick_stats sent last_second_bytes) (\<lambda>sent_second.
      and_then (pick_stats sent last_minute_bytes) (\<lambda>sent_minute.
      and_then (pick_stats received last_second_bytes) (\<lambda>received_second.
      and_then (pick_stats received last_minute_bytes) (\<lambda>received_minute.
      Ok \<lparr>nf_ping = signed_duration (rtt st), nf_ping_deviation = signed_duration (rtt_dev st),
         nf_packets_sent = packets_sent, nf_bytes_sent = bytes_sent,
         nf_packets_received = packets_received, nf_bytes_received = bytes_received, nf_packetloss = loss,
         nf_sent_last_second = map ucast sent_second, nf_sent_last_minute = map (\<lambda>b. b div 60) sent_minute,
         nf_received_last_second = map ucast received_second,
         nf_received_last_minute = map (\<lambda>b. b div 60) received_minute\<rparr>)))))))))))"

text \<open>The first half: messages for the library itself, or for the book.\<close>

definition handle_message ::
  "('d, 'ip, 'i, 'x, 't) lib_env \<Rightarrow> ('ip, 'i, 'x) message
     \<Rightarrow> ('d, 'ip, ('ip, 'i, 'x) message, 't, bool) command_action" where
  "handle_message lenv msg =
     (case msg of
        CommandError parts \<Rightarrow>
          let (items, handled) = error_answers parts in
          act_then (push_items items) (\<lambda>_. act_return handled)
      | OtherMessage (FileTransferMessage transfers) \<Rightarrow>
          act_then (act_modify (cs_con_update (cc_filetransfers_update (\<lambda>old. old @ transfers)))) (\<lambda>_. act_return True)
      | OtherMessage (FiletransferStatus parts) \<Rightarrow>
          act_then (push_items (map (\<lambda>(i, status). Ok (FiletransferFailed i (LibCommandError status None))) parts)) (\<lambda>_.
          act_return True)
      | OtherMessage ConnectionInfoUpdateRequest \<Rightarrow>
          act_then (act_read (\<lambda>cs. stats (resender (cl_con (cc_client (cs_con cs)))))) (\<lambda>stats.
          act_then (act_lift (connection_info_of stats)) (\<lambda>info.
          act_then (try_send (le_env lenv) (le_to_packet lenv (SetConnectionInfo info))) (\<lambda>e.
          act_then (case e of Some e \<Rightarrow> push_items [Err e] | None \<Rightarrow> act_return ()) (\<lambda>_.
          act_return True))))
      | _ \<Rightarrow> handle_in_book lenv msg)"

text \<open>The second half: subscriptions, a server that stops, and options that are kept for a reconnect.\<close>

definition stops_server :: "client_id \<Rightarrow> (client_id \<times> book_reason option) list \<Rightarrow> bool" where
  "stops_server own parts \<longleftrightarrow>
     (\<exists>(client, reason) \<in> set parts. client = own \<and> reason \<in> {Some Serverstop, Some ClientdisconnectServerShutdown})"

definition channel_path :: "channel_id \<Rightarrow> bytes" where
  "channel_path i = 0x2F # show_nat (unat i)"

definition follow_message ::
  "('d, 'ip, 'i, 'x, 't) lib_env \<Rightarrow> ('ip, 'i, 'x) message
     \<Rightarrow> ('d, 'ip, 'm, 't, temporary_disconnect_reason option) command_action" where
  "follow_message lenv msg =
     act_then (act_read id) (\<lambda>cs.
     let own = bk_own_client (cs_book cs) in
     case msg of
       OtherMessage (ChannelCreated ids) \<Rightarrow>
         act_then
           (if cc_subscribed (cs_con cs)
            then act_then (try_send (le_env lenv) (le_to_packet lenv (BookOut (OutChannelSubscribe ids)))) (\<lambda>_. act_return ())
            else act_return ()) (\<lambda>_. act_return None)
     | OtherMessage (ClientLeftView parts) \<Rightarrow>
         act_return (if stops_server own parts then Some ServerstopReason else None)
     | OtherMessage (ClientMoved parts) \<Rightarrow>
         act_then
           (case find (\<lambda>(client, target). client = own \<and> target \<noteq> 0) parts of
              Some (_, target) \<Rightarrow> act_modify (cs_options_update (op_channel_update (\<lambda>_. Some (channel_path target))))
            | None \<Rightarrow> act_return ()) (\<lambda>_. act_return None)
     | OtherMessage (ClientUpdated parts) \<Rightarrow>
         act_then (act_modify (cs_options_update (\<lambda>options.
           foldl (\<lambda>options (client, name).
             case name of
               Some name \<Rightarrow> if client = own then options\<lparr>op_name := name\<rparr> else options
             | None \<Rightarrow> options) options parts))) (\<lambda>_. act_return None)
     | _ \<Rightarrow> act_return None)"

definition con_handle_command ::
  "('d, 'ip, 'i, 'x, 't) lib_env \<Rightarrow> in_packet
     \<Rightarrow> ('d, 'ip, ('ip, 'i, 'x) message, 't, temporary_disconnect_reason option) command_action" where
  "con_handle_command lenv cmd =
     (case le_parse lenv cmd of
        None \<Rightarrow> act_return None
      | Some msg \<Rightarrow>
          act_then (handle_message lenv msg) (\<lambda>handled.
          act_then (follow_message lenv msg) (\<lambda>stop.
          case stop of
            Some reason \<Rightarrow> act_return (Some reason)
          | None \<Rightarrow>
              act_then (if \<not> handled then push_items [Ok (MessageEvent msg)] else act_return ()) (\<lambda>_.
              act_return None))))"

section \<open>The stream of items\<close>

type_synonym ('d, 'ip, 'i, 'x, 't) con = "('d, 'ip, ('ip, 'i, 'x) message, 't) lib_con"
type_synonym ('d, 'ip, 'i, 'x, 't) poll_result =
  "(('d, ('ip, 'i, 'x) message, 't) lib_result option poll \<times> ('d, 'ip, 'i, 'x, 't) con)"

definition increase_identity_level ::
  "crypto_env \<Rightarrow> u8 \<Rightarrow> ('d, 'ip, 'm, 't, unit) lib_action" where
  "increase_identity_level env needed =
     (if 20 < needed then act_fail (IdentityLevel needed)
      else
        act_then (act_read (op_identity \<circ> lc_options)) (\<lambda>identity.
        act_then (act_lift (unwrap_opt identity)) (\<lambda>identity.
        act_then (act_lift (unwrap (identity_level env identity))) (\<lambda>level.
        if needed \<le> level then act_fail (IdentityLevelCorrupted needed level)
        else act_modify (lc_state_update (\<lambda>_. StIdentityLevelIncreasing identity needed False))))))"

definition cancel_identity_level_increase :: "('d, 'ip, 'm, 't) lib_con \<Rightarrow> ('d, 'ip, 'm, 't) lib_con" where
  "cancel_identity_level_increase lc =
     (case lc_state lc of
        StIdentityLevelIncreasing identity needed _ \<Rightarrow> lc\<lparr>lc_state := StIdentityLevelIncreasing identity needed True\<rparr>
      | _ \<Rightarrow> lc)"

definition reconnecting :: "('d, 'ip, 'm, 't) lib_con \<Rightarrow> ('d, 'ip, 'm, 't) lib_con" where
  "reconnecting lc = lc\<lparr>lc_state := StConnecting (lc_options lc) True True\<rparr>"

text \<open>\<open>Connecting\<close>. A new future that reconnects sleeps first, so polling it at once gives \<open>Pending\<close>.\<close>

definition is_timeout :: "'t lib_error \<Rightarrow> bool" where
  "is_timeout e \<longleftrightarrow> (case e of LibConnect (TsProto (Timeout _)) \<Rightarrow> True | _ \<Rightarrow> False)"

definition poll_connecting ::
  "('d, 'ip, 'i, 'x, 't) lib_env \<Rightarrow> con_options \<Rightarrow> bool \<Rightarrow> ('d, 'ip, 'i, 'x, 't) con
     \<Rightarrow> ('d, 'ip, 'i, 'x, 't) poll_result" where
  "poll_connecting lenv options reconnect lc =
     (case le_connect lenv options of
        None \<Rightarrow> (Pending, lc)
      | Some Panic \<Rightarrow> (Ready (Some Panic), lc)
      | Some (Err e) \<Rightarrow>
          (case e of
             IdentityLevel level \<Rightarrow>
               (case increase_identity_level (le_crypto lenv) level lc of
                  (Ok _, lc) \<Rightarrow> (Ready (Some (Ok (IdentityLevelIncreasing level))), lc)
                | (Err e, lc) \<Rightarrow> (Ready (Some (Err e)), lc)
                | (Panic, lc) \<Rightarrow> (Ready (Some Panic), lc))
           | ConnectFailed _ errors \<Rightarrow>
               if reconnect \<and> (\<exists>e \<in> set errors. is_timeout e) then (Pending, reconnecting lc)
               else (Ready (Some (Err e)), lc)
           | _ \<Rightarrow> (Ready (Some (Err e)), lc))
      | Some (Ok (client, bk)) \<Rightarrow>
          let con = \<lparr>cc_client = client, cc_return_code = 0, cc_filetransfer_id = 0, cc_subscribed = False,
                cc_filetransfers = [], cc_connection_time = le_now lenv\<rparr> in
          (Ready (Some (Ok (BookEvents [PropertyAdded ServerProp None None]))),
           lc\<lparr>lc_state := StConnected con bk,
              lc_items := lc_items lc @ audio_changes False False
                (intern_can_send_audio bk (lc_options lc)) (intern_can_receive_audio bk (lc_options lc))\<rparr>))"

definition poll_increasing ::
  "('d, 'ip, 'i, 'x, 't) lib_env \<Rightarrow> identity \<Rightarrow> u8 \<Rightarrow> ('d, 'ip, 'i, 'x, 't) con
     \<Rightarrow> ('d, 'ip, 'i, 'x, 't) poll_result" where
  "poll_increasing lenv identity needed lc =
     (case le_identity lenv identity needed of
        None \<Rightarrow> (Pending, lc)
      | Some None \<Rightarrow> (Ready (Some (Err IdentityLevelIncreaseFailedThread)), lc)
      | Some (Some identity) \<Rightarrow>
          let options = (lc_options lc)\<lparr>op_identity := Some identity\<rparr> in
          (Ready (Some (Ok IdentityLevelIncreased)),
           lc\<lparr>lc_options := options, lc_state := StConnecting options False False\<rparr>))"

text \<open>A command of the server; \<open>None\<close> when there is no item yet.\<close>

definition lib_command_item ::
  "('d, 'ip, 'i, 'x, 't) lib_env \<Rightarrow> in_packet \<Rightarrow> 'ip connected \<Rightarrow> 'd book \<Rightarrow> ('d, 'ip, 'i, 'x, 't) con
     \<Rightarrow> ('d, ('ip, 'i, 'x) message, 't) lib_result option option \<times> ('d, 'ip, 'i, 'x, 't) con" where
  "lib_command_item lenv cmd con bk lc =
     (let prev_can_send = intern_can_send_audio bk (lc_options lc);
          prev_can_receive = intern_can_receive_audio bk (lc_options lc);
          (r, cs) = con_handle_command lenv cmd
            \<lparr>cs_con = con, cs_book = bk, cs_items = lc_items lc, cs_options = lc_options lc\<rparr>;
          lc = lc\<lparr>lc_state := StConnected (cs_con cs) (cs_book cs), lc_options := cs_options cs, lc_items := cs_items cs\<rparr>
      in
      case r of
        Ok (Some reason) \<Rightarrow>
          let items = lc_items lc @ audio_changes prev_can_send prev_can_receive False False
                @ [Ok (DisconnectedTemporarily reason)] in
          (Some (Some (hd items)), (reconnecting lc)\<lparr>lc_items := tl items\<rparr>)
      | Ok None \<Rightarrow>
          let items = lc_items lc @ audio_changes prev_can_send prev_can_receive
                (intern_can_send_audio (cs_book cs) (cs_options cs)) (intern_can_receive_audio (cs_book cs) (cs_options cs)) in
          (case items of
             [] \<Rightarrow> (None, lc)
           | item # items \<Rightarrow> (Some (Some item), lc\<lparr>lc_items := items\<rparr>))
      | _ \<Rightarrow> (Some (Some Panic), lc))"

definition lib_audio_item ::
  "in_audio \<Rightarrow> 'd book \<Rightarrow> con_options \<Rightarrow> ('d, 'm, 't) lib_result option option" where
  "lib_audio_item audio bk options =
     (if \<not> intern_can_receive_audio bk options then None
      else
        (case and_then (h_flags (ip_header (audio_packet audio))) (\<lambda>f.
              map_ok (\<lambda>t. (f, t)) (h_packet_type (ip_header (audio_packet audio)))) of
           Ok (f, p_type) \<Rightarrow>
             if \<not> flags_contains f UNENCRYPTED \<or> intern_can_receive_unencrypted_audio bk (p_type = VoiceWhisper)
             then Some (Some (Ok (AudioPacket audio)))
             else None
         | Err e \<Rightarrow> Some (Some (Err e))
         | Panic \<Rightarrow> Some (Some Panic)))"

text \<open>One result of the client: go on, or give an item or the end of the stream.\<close>

definition client_result ::
  "('d, 'ip, 'i, 'x, 't) lib_env \<Rightarrow> (stream_item option, 't client_error) outcome \<Rightarrow> 'ip connected \<Rightarrow> 'd book
     \<Rightarrow> ('d, 'ip, 'i, 'x, 't) con
     \<Rightarrow> ('d, ('ip, 'i, 'x) message, 't) lib_result option option \<times> ('d, 'ip, 'i, 'x, 't) con" where
  "client_result lenv r con bk lc =
     (case r of
        Panic \<Rightarrow> (Some (Some Panic), lc)
      | Err e \<Rightarrow>
          if res_state (resender (cl_con (cc_client con))) \<in> {Disconnected, Disconnecting} then (Some None, lc)
          else
            (case e of
               TsProto (Timeout reason) \<Rightarrow> (Some (Some (Ok (DisconnectedTemporarily (TimeoutReason reason)))), reconnecting lc)
             | _ \<Rightarrow> (Some (Some (Err (ConnectionFailed e))), lc))
      | Ok None \<Rightarrow> (Some None, lc)
      | Ok (Some (AudioItem audio)) \<Rightarrow> (lib_audio_item audio bk (lc_options lc), lc)
      | Ok (Some (CommandItem cmd)) \<Rightarrow> lib_command_item lenv cmd con bk lc
      | Ok (Some NetworkStatsUpdated) \<Rightarrow> (Some (Some (Ok LibNetworkStatsUpdated)), lc)
      | Ok (Some _) \<Rightarrow> (None, lc))"

text \<open>\<open>Pending\<close>: the first file transfer that is ready.\<close>

fun transfer_item :: "'ip transfer \<Rightarrow> bool \<Rightarrow> ('d, 'm, 't) lib_item" where
  "transfer_item ft False = FiletransferFailed (ft_id ft) FiletransferIo"
| "transfer_item ft True =
     (case ft_kind ft of Download n \<Rightarrow> FileDownload (ft_id ft) n | Upload n \<Rightarrow> FileUpload (ft_id ft) n)"

fun ready_transfer :: "('ip transfer \<Rightarrow> bool option) \<Rightarrow> 'ip transfer list \<Rightarrow> ('d, 'm, 't) lib_item option \<times> 'ip transfer list" where
  "ready_transfer tcp [] = (None, [])"
| "ready_transfer tcp (ft # fts) =
     (case tcp ft of
        Some ok \<Rightarrow> (Some (transfer_item ft ok), fts)
      | None \<Rightarrow> (case ready_transfer tcp fts of (r, fts) \<Rightarrow> (r, ft # fts)))"

definition poll_transfers ::
  "('d, 'ip, 'i, 'x, 't) lib_env \<Rightarrow> 'ip connected \<Rightarrow> 'd book \<Rightarrow> ('d, 'ip, 'i, 'x, 't) con
     \<Rightarrow> ('d, 'ip, 'i, 'x, 't) poll_result" where
  "poll_transfers lenv con bk lc =
     (case ready_transfer (le_tcp lenv) (cc_filetransfers con) of
        (Some item, fts) \<Rightarrow> (Ready (Some (Ok item)), lc\<lparr>lc_state := StConnected (con\<lparr>cc_filetransfers := fts\<rparr>) bk\<rparr>)
      | (None, fts) \<Rightarrow> (Pending, lc))"

partial_function (option) poll_loop ::
  "('d, 'ip, 'i, 'x, 't) lib_env \<Rightarrow> ('d, 'ip, 'i, 'x, 't) con \<Rightarrow> ('d, 'ip, 'i, 'x, 't) poll_result option" where
  "poll_loop lenv lc =
     (case lc_state lc of
        StConnected con bk \<Rightarrow>
          (case client_poll_next (le_env lenv) (le_version lenv) (cc_client con) of
             None \<Rightarrow> None
           | Some (r, cl) \<Rightarrow>
               let con = con\<lparr>cc_client := cl\<rparr>; lc = lc\<lparr>lc_state := StConnected con bk\<rparr> in
               if r = Ok Pending then Some (poll_transfers lenv con bk lc)
               else
                 (case client_result lenv (map_ok (\<lambda>p. case p of Ready x \<Rightarrow> x | Pending \<Rightarrow> None) r) con bk lc of
                    (Some x, lc) \<Rightarrow> Some (Ready x, lc)
                  | (None, lc) \<Rightarrow> poll_loop lenv lc))
      | _ \<Rightarrow> None)"

definition lib_poll_next ::
  "('d, 'ip, 'i, 'x, 't) lib_env \<Rightarrow> ('d, 'ip, 'i, 'x, 't) con \<Rightarrow> ('d, 'ip, 'i, 'x, 't) poll_result option" where
  "lib_poll_next lenv lc =
     (case lc_items lc of
        item # items \<Rightarrow> Some (Ready (Some item), lc\<lparr>lc_items := items\<rparr>)
      | [] \<Rightarrow>
          (case lc_state lc of
             StConnecting options is_reconnect reconnect \<Rightarrow> Some (poll_connecting lenv options reconnect lc)
           | StIdentityLevelIncreasing identity needed canceled \<Rightarrow> Some (poll_increasing lenv identity needed lc)
           | StConnected con bk \<Rightarrow> poll_loop lenv lc))"

declare poll_loop.simps [code]

section \<open>Connecting\<close>

text \<open>A connection that is built from options; \<open>random_key\<close> is the key of a new identity.\<close>

definition connect_options_default :: con_options where
  "connect_options_default =
     \<lparr>op_identity = None, op_server = None, op_name = ascii ''TeamSpeakUser'', op_channel = None,
      op_channel_password = None, op_password = None, op_input_muted = False, op_output_muted = False,
      op_input_hardware_enabled = True, op_output_hardware_enabled = True, op_away = None\<rparr>"

definition lib_connect ::
  "crypto_env \<Rightarrow> bytes \<Rightarrow> con_options \<Rightarrow> (('d, 'ip, 'm, 't) lib_con, 't lib_error) outcome" where
  "lib_connect env random_key options =
     and_then
       (case op_identity options of
          Some identity \<Rightarrow> Ok (identity, [])
        | None \<Rightarrow> map_ok (\<lambda>identity. (identity, [Ok IdentityLevelIncreased])) (unwrap (identity_create env random_key)))
       (\<lambda>(identity, items).
     let options = options\<lparr>op_identity := Some identity\<rparr> in
     Ok \<lparr>lc_state = StConnecting options False False, lc_options = options, lc_items = items\<rparr>)"

definition channel_id_option :: "channel_id \<Rightarrow> con_options \<Rightarrow> con_options" where
  "channel_id_option channel options = options\<lparr>op_channel := Some (channel_path channel)\<rparr>"

text \<open>The future of one address: the handshake, the check of the server, \<open>clientinit\<close>, and \<open>initserver\<close>.\<close>

type_synonym ('t, 'a) lib_task = "(('a, 't lib_error) outcome \<times> task) option"

definition client_step :: "('t client_error \<Rightarrow> 't lib_error) \<Rightarrow> ('t, 'a) task_result \<Rightarrow> ('t, 'a) lib_task" where
  "client_step f r = map_option (\<lambda>(x, t). (map_err f x, t)) r"

definition connected_params_of :: "task \<Rightarrow> (connected_params, 't lib_error) outcome" where
  "connected_params_of t = ok_or InitserverParamsMissing (params (cl_con (t_client t)))"

definition check_server :: "crypto_env \<Rightarrow> con_options \<Rightarrow> task \<Rightarrow> (unit, 't lib_error) outcome" where
  "check_server env options t =
     (case op_server options of
        None \<Rightarrow> Ok ()
      | Some server_uid \<Rightarrow>
          and_then (connected_params_of t) (\<lambda>ps.
          and_then (unwrap (get_uid_no_base64 env (cp_public_key ps))) (\<lambda>real_uid.
          if real_uid \<noteq> server_uid then Err (ServerUidMismatch real_uid) else Ok ())))"

definition client_init_message :: "crypto_env \<Rightarrow> con_options \<Rightarrow> u64 \<Rightarrow> client_init" where
  "client_init_message env options counter =
     \<lparr>ci_name = op_name options, ci_input_muted = some_if (op_input_muted options),
      ci_output_muted = some_if (op_output_muted options),
      ci_input_hardware_enabled = op_input_hardware_enabled options,
      ci_output_hardware_enabled = op_output_hardware_enabled options,
      ci_is_away = some_if (op_away options \<noteq> None), ci_away_message = op_away options,
      ci_default_channel = (case op_channel options of Some c \<Rightarrow> c | None \<Rightarrow> []),
      ci_default_channel_password = file_password env (op_channel_password options),
      ci_password = file_password env (op_password options), ci_client_key_offset = counter\<rparr>"

text \<open>The error a server refuses a client with; \<open>unwrap\<close> of the first part.\<close>

definition refused :: "error_part list \<Rightarrow> ('a, 't lib_error) outcome" where
  "refused parts =
     (case parts of
        [] \<Rightarrow> Panic
      | e # _ \<Rightarrow>
          if er_id e = ClientCouldNotValidateIdentity then
            (case er_extra_message e of
               Some m \<Rightarrow> (case parse_uint () m of Ok needed \<Rightarrow> Err (IdentityLevel needed) | _ \<Rightarrow> Err (ConnectTs (er_id e)))
             | None \<Rightarrow> Err (ConnectTs (er_id e)))
          else Err (ConnectTs (er_id e)))"

definition next_command :: "bytes \<Rightarrow> task \<Rightarrow> ('t, in_packet) lib_task" where
  "next_command version t = client_step InitserverWait (filter_commands version (\<lambda>_ cmd. Ok (Some cmd)) t)"

partial_function (option) wait_initserver ::
  "('d, 'ip, 'i, 'x, 't) lib_env \<Rightarrow> task \<Rightarrow> ('t, 'd book) lib_task" where
  "wait_initserver lenv t =
     (case next_command (le_version lenv) t of
        None \<Rightarrow> None
      | Some (Err e, t) \<Rightarrow> Some (Err e, t)
      | Some (Panic, t) \<Rightarrow> Some (Panic, t)
      | Some (Ok cmd, t) \<Rightarrow>
          (case le_parse lenv cmd of
             Some (CommandError parts) \<Rightarrow> Some (refused parts, t)
           | Some (OtherMessage (InitServer initserver)) \<Rightarrow>
               Some (and_then (connected_params_of t) (\<lambda>_. case le_book_of lenv initserver of
                 (own, server) \<Rightarrow> Ok (book_new own server)), t)
           | _ \<Rightarrow> wait_initserver lenv t))"

text \<open>
  The timer for \<open>initserver\<close> is the argument \<open>timer\<close>: whether it fires while the task still waits.
\<close>

definition with_timeout :: "bool \<Rightarrow> (task \<Rightarrow> ('t, 'a) lib_task) \<Rightarrow> task \<Rightarrow> ('t, 'a) lib_task" where
  "with_timeout timer f t =
     (case f t of Some r \<Rightarrow> Some r | None \<Rightarrow> if timer then Some (Err InitserverTimeout, t) else None)"

definition connect_to ::
  "('t::linorder, 'p, 's) client_env \<Rightarrow> ('d, 'ip, 'i, 'x, 't) lib_env \<Rightarrow> bool \<Rightarrow> con_options \<Rightarrow> task
     \<Rightarrow> ('t, 'd book) lib_task" where
  "connect_to cenv lenv timer options t =
     opt_then (Some (unwrap_opt (op_identity options), t)) (\<lambda>identity t.
     opt_then (client_step LibConnect (connect cenv t)) (\<lambda>_ t.
     opt_then (Some (check_server (crypto cenv) options t, t)) (\<lambda>_ t.
     let packet = le_to_packet lenv (ClientInit (client_init_message (crypto cenv) options (id_counter identity))) in
     opt_then (client_step SendClientinit (task_do (\<lambda>env. client_send_packet env packet) t)) (\<lambda>_ t.
     with_timeout timer (wait_initserver lenv) t))))"

text \<open>All addresses in turn; only a refusal by the server ends the search. \<open>attempt\<close> is \<open>connect_to\<close>.\<close>

fun connect_addresses ::
  "('a \<Rightarrow> ('r, 't lib_error) outcome option) \<Rightarrow> bytes \<Rightarrow> ('a, unit) outcome list \<Rightarrow> 't lib_error list
     \<Rightarrow> ('r, 't lib_error) outcome option" where
  "connect_addresses attempt address [] errors = Some (Err (ConnectFailed address errors))"
| "connect_addresses attempt address (Ok addr # addrs) errors =
     (case attempt addr of
        None \<Rightarrow> None
      | Some (Err (IdentityLevel l)) \<Rightarrow> Some (Err (IdentityLevel l))
      | Some (Err (ConnectTs e)) \<Rightarrow> Some (Err (ConnectTs e))
      | Some (Err e) \<Rightarrow> connect_addresses attempt address addrs (errors @ [e])
      | Some r \<Rightarrow> Some r)"
| "connect_addresses attempt address (Err _ # addrs) errors = Some (Err ResolveAddress)"
| "connect_addresses attempt address (Panic # addrs) errors = Some Panic"

declare wait_initserver.simps [code]

end
