(* ===== verification/Client_Run.thy ===== *)
theory Client_Run
  imports Client License_Props
begin

text \<open>
  A run of the handshake, evaluated in the logic: a client with toy primitives and a server whose four
  datagrams wait at the socket. Continuations are only simplified once their argument is known.
\<close>

section \<open>Rules of evaluation\<close>

lemmas run_rust_prelude =
  index_def slice_def slice_from_def slice_to_def set_index_def copy_at_def checked_plus_def
  checked_minus_def overflowing_add_def overflowing_sub_def saturating_sub_def usize_sub_def act_return_def
  act_fail_def act_lift_def act_read_def act_modify_def ascii_def starts_with_def be16_def be32_def
  from_be_def read_be16_def read_be32_def

lemmas run_utf8 =
  continuation_def lead_bounds_def from_utf8_def

lemmas run_decimal =
  digit_value_def parse_uint_def

lemmas run_packet_header =
  packet_types_def packet_type_from_u8_def packet_type_index_def is_command_def is_ack_def is_voice_def
  UNENCRYPTED_def COMPRESSED_def NEWPROTOCOL_def FRAGMENTED_def flags_contains_def flags_from_bits_def
  S2C_HEADER_LEN_def C2S_HEADER_LEN_def header_len_def in_header_new_def get_off_def h_mac_def
  h_packet_id_def h_client_id_def h_flags_def h_packet_type_def h_get_meta_def in_packet_new_def
  in_packet_try_new_def ack_packet_def content_offset_def out_content_def header_bytes_def out_header_def
  set_mac_def set_packet_id_def set_client_id_def set_flags_def set_packet_type_def new_with_dir_def
  new_from_data_def append_data_def udp_packet_type_def udp_packet_id_def out_ack_def hdr_def

lemmas run_packet_ids = ppid_order_defs
  ppid_default_def ppid_add_def ppid_sub_def ppid_diff_def cmp_def packet_id_partial_cmp_def
  packet_id_le_def packet_id_of_def send_record_cmp_def

lemmas run_algorithms =
  FAKE_KEY_def FAKE_NONCE_def should_encrypt_def cached_key_default_def key_cache_default_def
  key_material_def create_key_nonce_def encrypt_key_nonce_def encrypt_fake_def encrypt_def
  decrypt_key_nonce_def decrypt_fake_def decrypt_def max_content_def make_fragment_def
  compress_and_split_def compute_iv_mac_def biguint_to_array_def array_to_biguint_def toy_primitives_def

lemmas run_init_packets =
  INIT_MAC_def into_s2cinit_def into_c2sinit_def out_init_def out_c2s_init0_def out_c2s_init2_def
  clientinitiv_def out_c2s_init4_def

lemmas run_commands =
  spaces_def name_ends_def value_ends_def is_ascii_alphanumeric_def at_end_def cur_def cur_in_def adv_def
  command_parser_new_def skip_space_def parser_slice_def next_item_def value_get_def get_str_def
  get_parse_def escape_def out_command_new_def write_separator_def write_arg_def

lemmas run_connection_state =
  MAX_UDP_PACKET_LENGTH_def MAX_FRAGMENTS_LENGTH_def MAX_QUEUE_LEN_def MAX_DECOMPRESSED_SIZE_def
  UDP_SINK_CAPACITY_def packet_codec_default_def connection_stats_default_def stats_counter_default_def
  from_secs_def from_millis_def resend_config_default_def PING_COUNT_def PING_SECONDS_def STAT_SECONDS_def
  UDP_HEADER_SIZE_def IPV4_HEADER_SIZE_def resender_default_def connected_params_new_def connection_new_def
  push_item_def send_event_def on_resender_def in_dir_def

lemmas run_packet_codec =
  in_receive_window_def decompress_def decompress_packet_def handle_fragment_def remove_at_def
  handle_command_queues_def handle_command_packet_def encrypt_with_params_def encode_one_def add_flags_def
  must_fake_encrypt_def split_packet_def encode_packet_def

lemmas run_resender =
  packet_stat_from_def bump_def count_loss_def count_bytes_def count_total_def datagram_len_def
  loss_stats_in_def handle_loss_incoming_def counter_loss_outgoing_def handle_loss_outgoing_def
  handle_loss_resend_ack_def handle_loss_resend_command_def received_packet_def get_timeout_def
  set_state_def get_window_def is_empty_def abs_diff_def update_srtt_def packet_type_to_index_def
  rec_part_def queue_iters_def fill_up_send_queue_def rebuild_send_queue_def resender_send_def ack_ping_def
  ack_target_def ack_removed_def resender_ack_def poll_send_udp_packet_def heap_peek_def max_send_rto_def
  get_rto_def record_sent_def on_packet_loss_def count_resend_def after_send_def poll_resend_def
  example_env_def

lemmas run_connection =
  res_try_def send_udp_packet_def send_packet_def send_ack_packet_def poll_send_acks_def step_then_def
  reject_def check_established_def decrypt_with_params_def or_reject_def unseal_def replace_content_def
  open_content_def implied_ack_def handle_command_def update_next_id_def acked_type_def parsed_item_def
  handle_other_def dispatch_def ignores_window_def out_of_window_def codec_handle_udp_packet_def
  handle_udp_packet_def rotate_stats_def next_ping_def pings_unanswered_def send_ping_def
  check_disconnecting_def poll_ping_def pop_item_def poll_incoming_udp_packet_def opt_then_def poll_next_def

lemmas run_license =
  TIMESTAMP_OFFSET_def BLOCK_MIN_LEN_def BLOCK_TYPE_OFFSET_def BLOCK_NOT_VALID_BEFORE_OFFSET_def
  BLOCK_NOT_VALID_AFTER_OFFSET_def block_types_def block_type_from_u8_def parse_inner_def license_parse_def
  get_public_key_def get_timestamp_def get_not_valid_before_def get_not_valid_after_def get_hash_key_def
  block_derive_public_key_def parse_block_def parse_internal_def licenses_parse_def derive_public_key_def

lemmas run_crypto_keys =
  magnitude_le_def from_bytes_be_def FIELD_SIZE_def to_coord_def from_affine_coordinates_def point_x_def
  point_y_def integer_at_def pub_from_tomcrypt_def pub_from_ts_def pub_to_tomcrypt_def verify_def sign_def

lemmas run_client =
  is_global_ip_def ROOT_KEY_def client_new_def on_con_def set_con_state_def client_send_packet_def
  parse_client_id_def handle_initserver_def handle_client_left_def version_command_def
  client_handle_command_def client_poll_next_def add_answers_def await_next_def task_do_def get_init_def
  get_command_def wait_for_ack_def modpow_def solve_puzzle_def answer_init3_def send_built_def
  init_round_def init_args_empty_def base64_arg_def init_arg_def check_init_args_def read_initivexpand2_def
  shared_secret_def client_params_def clientek_command_def exchange_keys_def connect_def

text \<open>Evaluate the first part of a sequence and nothing else.\<close>

lemma lazy_act_then: "s = s' \<Longrightarrow> act_then m f s = act_then m f s'"
  by simp

lemma lazy_and_then: "r = r' \<Longrightarrow> and_then r f = and_then r' f"
  by simp

lemma lazy_opt_then: "x = x' \<Longrightarrow> opt_then x f = opt_then x' f"
  by simp

lemma lazy_filter_items: "x = x' \<Longrightarrow> filter_items v i x = filter_items v i x'"
  by simp

lemma lazy_task_do: "x = x' \<Longrightarrow> task_do f x = task_do f x'"
  by simp

lemma lazy_step_then: "x = x' \<Longrightarrow> step_then x f = step_then x' f"
  by simp

lemma lazy_act_for: "x = x' \<Longrightarrow> act_for x f = act_for x' f"
  by simp

lemma lazy_act_map: "x = x' \<Longrightarrow> act_map f x = act_map f x'"
  by simp

lemma lazy_Let: "x = x' \<Longrightarrow> Let x f = Let x' f"
  by simp

lemmas lazy_congs = lazy_act_then lazy_and_then lazy_opt_then lazy_filter_items lazy_task_do lazy_step_then lazy_act_for lazy_act_map lazy_Let

lemma run_step_then:
  "step_then m f s = act_then m (\<lambda>r. case r of Stop \<Rightarrow> act_return Stop | Go x \<Rightarrow> f x) s"
  by (simp add: step_then_def)

lemma run_replicate: "replicate (numeral n) x = x # replicate (pred_numeral n) x"
  by (simp add: numeral_eq_Suc)

lemmas run_fill_loop = fill_loop.simps(2) [where n = "pred_numeral k" for k, folded numeral_eq_Suc]

lemmas run_loops = act_then.simps utf8_valid.simps show_nat.simps split_data.simps to_bytes_le.simps name_end_from.simps
  adv_while.simps scan_value.simps parse_items.simps command_loop.simps parse_blocks.simps await_loop.simps
  filter_items.simps init_loop.simps poll_resend_loop.simps ping_loop.simps update_stats.simps

section \<open>The run\<close>

definition mini_crypto :: crypto_env where
  "mini_crypto = \<lparr>base64_encode = id, base64_decode = Some,
     from_der = \<lambda>_. Some [Sequence [BitString 1 [0], Integer 32, Integer 1, Integer 1]], to_der = \<lambda>_. Some [7],
     sha1 = \<lambda>d. replicate 20 1, from_sec1_bytes = Some, from_encoded_point = \<lambda>_. Some [4],
     secret_from_bytes = Some, public_key_of = \<lambda>k. [4], signature_from_der = Some,
     ecdsa_verify = \<lambda>key d s. s = d @ key, ecdsa_sign = \<lambda>k d. [8]\<rparr>"

definition mini_client_env :: "(int, int, int) client_env" where
  "mini_client_env = \<lparr>crypto = mini_crypto, licensing = toy_license_env, license_now = 7, unix_time = 1700000000,
     random0 = [1, 2, 3, 4], random_alpha = replicate 10 0, random_ek = 2, ed_base = id,
     compress_point = \<lambda>i. [of_int i], server_ip = V4 127 0 0 1, server_ip_text = [], version_text = []\<rparr>"

definition hello_text :: bytes where
  "hello_text = ascii ''initivexpand2 l='' @ [1] @ ascii '' beta='' @ replicate 54 65
     @ ascii '' omega=A proof='' @ [1, 4] @ ascii '' ot=1''"

definition fake_sealed :: "packet_type \<Rightarrow> bytes \<Rightarrow> bytes" where
  "fake_sealed t c =
     (case encrypt_fake toy_primitives \<lparr>op_dir = S2C, op_data = hdr S2C (replicate 8 0) 0 0 0 t @ c\<rparr> of
        Ok p \<Rightarrow> op_data p | _ \<Rightarrow> [])"

text \<open>The two init packets, \<open>initivexpand2\<close> and the ack of \<open>clientek\<close>.\<close>

definition server_script :: "bytes list" where
  "server_script = [
     hdr S2C INIT_MAC 101 0 UNENCRYPTED Init @ [1] @ replicate 16 1 @ [4, 3, 2, 1],
     hdr S2C INIT_MAC 101 0 UNENCRYPTED Init @ [3] @ replicate 63 0 @ [2] @ replicate 63 0 @ [7] @ be32 3 @ replicate 100 0,
     fake_sealed Command hello_text,
     fake_sealed Ack_T [0, 1]]"

definition waiting_task :: "bytes list \<Rightarrow> task" where
  "waiting_task datagrams =
     \<lparr>t_client = client_new 7 ''server''
        \<lparr>send_answers = [], recv_answers = map (\<lambda>d. Some (d, ''server'')) datagrams, sent_datagrams = []\<rparr> (replicate 32 9),
      t_env = example_env, t_wakeups = []\<rparr>"

lemmas run_example = mini_crypto_def mini_client_env_def toy_license_env_def hello_text_def fake_sealed_def
  server_script_def waiting_task_def

lemmas run_views =
  init_hdr_def init_packet_def unacked_def fill_state_def queued_def

lemmas run_audio_packets =
  codec_types_def codec_from_u8_def read_be64_def read_codec_def audio_parse_def into_audio_def


lemmas run_rules =
  run_views run_audio_packets run_rust_prelude run_utf8 run_decimal run_packet_header run_packet_ids
  run_algorithms run_init_packets run_commands run_connection_state run_packet_codec run_resender
  run_connection run_license run_crypto_keys run_client Let_def run_fill_loop run_replicate run_step_then run_loops run_example

lemma handshake_run:
  "\<exists>t'. connect mini_client_env (waiting_task server_script) = (Some (Ok (), t') :: (int, unit) task_result)"
  by (simp add: run_rules del: act_simps step_then_def cong: lazy_congs)

end
