(* ===== verification/Library_Run.thy ===== *)
theory Library_Run
  imports Client_Library Client_Run
begin

text \<open>
  A run of the future that connects to one address, on a scripted server: the handshake of \<open>Client_Run\<close>, then
  an \<open>initserver\<close> that is sealed with the keys of the handshake. It shows that the future can succeed.
\<close>

text \<open>A command of the server after the handshake, with the shared iv of that run.\<close>

definition real_sealed :: "bytes \<Rightarrow> bytes" where
  "real_sealed c =
     (case (encrypt toy_primitives \<lparr>op_dir = S2C, op_data = hdr S2C (replicate 8 0) 1 0 0 Command @ c\<rparr> 0
          (replicate 10 1 @ replicate 54 64) key_cache_default :: (_, unit) outcome) of
        Ok (Ok p, _) \<Rightarrow> op_data p | _ \<Rightarrow> [])"

definition pinned_lenv :: "(unit, unit, unit, unit, int) lib_env" where
  "pinned_lenv = \<lparr>le_env = example_env, le_version = [], le_now = 0, le_crypto = mini_crypto, le_connect = \<lambda>_. None,
     le_identity = \<lambda>i _. Some (Some i), le_parse = \<lambda>_. Some (OtherMessage (InitServer ())),
     le_generated = \<lambda>_ bk. (Ok (False, []), bk),
     le_to_packet = \<lambda>_. \<lparr>op_dir = C2S, op_data = hdr C2S (replicate 8 0) 0 0 0 Command @ ascii ''clientinit''\<rparr>,
     le_tcp = \<lambda>_. None, le_set_connected_time = \<lambda>_ d. d,
     le_book_of = \<lambda>_. (1, \<lparr>sv_codec_encryption_mode = PerChannel, sv_optional_data = None, sv_connection_data = None\<rparr>)\<rparr>"

definition pinned_options :: con_options where
  "pinned_options = connect_options_default\<lparr>op_identity := Some \<lparr>id_key = [], id_counter = 0, id_max_counter = 0\<rparr>\<rparr>"

abbreviation pinned_task :: task where
  "pinned_task \<equiv> waiting_task (server_script @ [real_sealed (ascii ''initserver aclid=1'')])"

lemmas run_library = real_sealed_def pinned_lenv_def pinned_options_def connect_options_default_def connect_to_def
  client_step_def check_server_def connected_params_of_def next_command_def wait_initserver.simps with_timeout_def
  client_init_message_def get_uid_no_base64_def pub_to_ts_def file_password_def encode_password_def some_if_def
  filter_commands_def

lemma pinned_run:
  "\<exists>bk t'. connect_to mini_client_env pinned_lenv False (pinned_options\<lparr>op_server := Some (replicate 20 1)\<rparr>) pinned_task
     = Some (Ok bk, t')"
  by (simp add: run_library run_rules del: act_simps step_then_def cong: lazy_congs)

end
