(* ===== verification/Client_Inv.thy ===== *)
theory Client_Inv
  imports Client Connection_Inv
begin

text \<open>
  The keys of a connection (the key of the server, the shared initialisation vector and the shared mac) are
  set once by the key exchange: no operation of a connection, and nothing that the client does while it
  waits, changes them.
\<close>

definition con_keys :: "connection \<Rightarrow> (bytes \<times> bytes \<times> bytes) option" where
  "con_keys con = map_option (\<lambda>ps. (cp_public_key ps, cp_shared_iv ps, cp_shared_mac ps)) (params con)"

abbreviation keeps_keys :: "(bytes \<times> bytes \<times> bytes) option \<Rightarrow> (connection, 'a, 'e) action \<Rightarrow> bool" where
  "keeps_keys K m \<equiv> keeps True (\<lambda>con. con_keys con = K) m"

lemma con_keys_update [simp]:
  "con_keys (codec_update f con) = con_keys con" "con_keys (resender_update g con) = con_keys con"
  "con_keys (stream_items_update h con) = con_keys con" "con_keys (acks_to_send_update i con) = con_keys con"
  "con_keys (event_log_update j con) = con_keys con" "con_keys (udp_socket_update k con) = con_keys con"
  by (simp_all add: con_keys_def)

section \<open>Operations of a connection\<close>

lemma keys_crypt [keeps_intros]:
  "keeps_keys K (encrypt_with_params pr packet g)" "keeps_keys K (decrypt_with_params pr p g)"
  unfolding encrypt_with_params_def decrypt_with_params_def
  by (rule keepsI; auto simp: con_keys_def unwrap_opt_Ok_iff act_then.simps act_lift_def act_read_def act_modify_def
      split: option.splits outcome.splits prod.splits)+

lemma keys_basic [keeps_intros]:
  "keeps_keys K (push_item x)" "keeps_keys K (send_event e)" "keeps_keys K (res_try f)" "keeps_keys K (on_resender r)"
proof -
  show "keeps_keys K (push_item x)" "keeps_keys K (send_event e)" "keeps_keys K (res_try f)"
    unfolding push_item_def send_event_def res_try_def by (intro keeps_intros; simp)+
  show "keeps_keys K (on_resender r)"
    by (rule keepsI) (auto simp: on_resender_def split: prod.splits)
qed

lemma keys_send [keeps_intros]:
  "keeps_keys K (encode_packet pr p)" "keeps_keys K (poll_send_udp_packet u)" "keeps_keys K (send_udp_packet env u)"
  "keeps_keys K (send_packet env p)" "keeps_keys K (send_ack_packet env p)"
proof -
  show e: "keeps_keys K (encode_packet pr p)" for pr p
    unfolding encode_packet_def encode_one_def Let_def by (intro keeps_intros) simp_all
  show u: "keeps_keys K (poll_send_udp_packet u)" for u
    unfolding poll_send_udp_packet_def Let_def by (intro keeps_intros) simp_all
  show s: "keeps_keys K (send_udp_packet env u)" for u
    unfolding send_udp_packet_def by (intro keeps_intros) simp_all
  show "keeps_keys K (send_packet env p)"
    unfolding send_packet_def by (intro keeps_intros e s)
  show "keeps_keys K (send_ack_packet env p)"
    unfolding send_ack_packet_def by (intro keeps_intros e u) simp_all
qed

lemma keys_acks [keeps_intros]: "keeps_keys K poll_send_acks"
proof -
  have "keeps_keys K (poll_acks us)" for us
    by (induction us; simp only: poll_acks.simps; intro keeps_intros; simp)
  then show ?thesis unfolding poll_send_acks_def by (intro keeps_intros)
qed

lemma keys_resender_ack [keeps_intros]: "keeps_keys K (resender_ack env t i)"
  unfolding resender_ack_def by (intro keeps_intros) simp_all

lemma keys_handlers [keeps_intros]:
  "keeps_keys K (reject e)" "keeps_keys K (check_established p t i g)" "keeps_keys K (or_reject x)"
  "keeps_keys K (open_content pr d p t i g)" "keeps_keys K (handle_command env d)"
  "keeps_keys K (parsed_item s item y)" "keeps_keys K (update_next_id t i g)" "keeps_keys K (handle_command_packet pr d)"
proof -
  show r: "keeps_keys K (reject e :: 'z step con_action)" for e unfolding reject_def by (intro keeps_intros)
  show "keeps_keys K (check_established p t i g)" unfolding check_established_def Let_def by (intro keeps_intros r)
  show o: "keeps_keys K (or_reject x)" for x :: "('y, tsproto_error) outcome"
    unfolding or_reject_def by (intro keeps_intros r)
  show "keeps_keys K (open_content pr d p t i g)"
    unfolding open_content_def unseal_def by (intro keeps_intros r o)
  show "keeps_keys K (handle_command env d)" unfolding handle_command_def by (intro keeps_intros)
  show "keeps_keys K (parsed_item s item y)" unfolding parsed_item_def by (intro keeps_intros)
  show "keeps_keys K (update_next_id t i g)" unfolding update_next_id_def Let_def by (intro keeps_intros) simp_all
  show "keeps_keys K (handle_command_packet pr d)"
    unfolding handle_command_packet_def Let_def by (intro keeps_intros) simp_all
qed

lemma keys_handle_udp_packet [keeps_intros]: "keeps_keys K (handle_udp_packet env d addr)"
  unfolding handle_udp_packet_def codec_handle_udp_packet_def dispatch_def out_of_window_def handle_other_def Let_def
  by (intro keeps_intros) simp_all

section \<open>Polling\<close>

lemma keys_update_stats: "keeps_keys K (update_stats env)"
proof (rule keepsI)
  fix con r con' assume "con_keys con = K" "update_stats env con = (r, con')"
  then show "con_keys con' = K"
    by (induction env con rule: update_stats.induct)
      (subst (asm) (2) update_stats.simps, auto simp: Let_def split: if_splits outcome.splits)
qed


lemma keys_send_ping: "keeps_keys K (send_ping env)"
  unfolding send_ping_def by (intro keeps_intros) simp_all

lemma keys_ping_loop:
  assumes "ping_loop env con = Some rc"
  shows "con_keys con = K \<longrightarrow> fst rc \<noteq> Panic \<longrightarrow> con_keys (snd rc) = K"
proof (rule ping_loop.raw_induct [OF _ assms,
    where P = "\<lambda>_ con rc. con_keys con = K \<longrightarrow> fst rc \<noteq> Panic \<longrightarrow> con_keys (snd rc) = K"], goal_cases)
  case (1 loop env con rc)
  note IH = 1(1) and body = 1(2)
  obtain t res where n: "next_ping (resender con) = (t, res)" by fastforce
  let ?con = "con\<lparr>resender := res\<lparr>res_timers := (res_timers res)\<lparr>t_ping_timeout := t\<rparr>\<rparr>\<rparr>"
  obtain r c where p: "send_ping env ?con = (r, c)" by fastforce
  have "con_keys con = K \<Longrightarrow> r \<noteq> Panic \<Longrightarrow> con_keys c = K"
    by (rule keeps_use [OF keys_send_ping _ p]) simp_all
  then show ?case
    using body IH [of env c rc] by (cases r) (simp_all add: n p Let_def split: if_splits, auto)
qed

lemma keys_poll_ping:
  assumes "poll_ping env con = Some (r, con')" "con_keys con = K" "r \<noteq> Panic"
  shows "con_keys con' = K"
proof -
  have "keeps_keys K (check_disconnecting env)"
    unfolding check_disconnecting_def by (intro keeps_intros) simp_all
  then have k: "keeps_keys K (act_then (check_disconnecting env) (\<lambda>_. update_stats env))"
    by (rule keeps_then) (rule keys_update_stats)
  obtain r1 con1 where run: "act_then (check_disconnecting env) (\<lambda>_. update_stats env) con = (r1, con1)" by fastforce
  then show ?thesis
    using assms keeps_use [OF k assms(2) run] keys_ping_loop [of env con1 "(r, con')" K]
    by (cases r1) (simp_all add: poll_ping_def split: if_splits)
qed

lemma keys_receive [keeps_intros]: "keeps_keys K pop_item" "keeps_keys K (poll_incoming_udp_packet env)"
proof -
  show p: "keeps_keys K pop_item" unfolding pop_item_def by (intro keeps_intros) simp
  have "keeps_keys K (receive_loop env answers)" for answers
    by (induction env answers rule: receive_loop.induct; simp only: receive_loop.simps; intro keeps_intros p; simp)
  then show "keeps_keys K (poll_incoming_udp_packet env)"
    unfolding poll_incoming_udp_packet_def by (intro keeps_intros)
qed

text \<open>What holds of a run that may not return: it keeps a property unless it panics.\<close>

definition run_keeps :: "('s \<Rightarrow> bool) \<Rightarrow> (('a, 'e) outcome \<times> 's) option \<Rightarrow> bool" where
  "run_keeps I m \<longleftrightarrow> (\<forall>r s. m = Some (r, s) \<longrightarrow> r \<noteq> Panic \<longrightarrow> I s)"

lemma run_keeps_then:
  "run_keeps I m \<Longrightarrow> (\<And>x s. m = Some (Ok x, s) \<Longrightarrow> I s \<Longrightarrow> run_keeps I (f x s)) \<Longrightarrow> run_keeps I (opt_then m f)"
  by (force simp: run_keeps_def opt_then_def split: option.splits prod.splits outcome.splits)

lemma run_keeps_action: "keeps True I m \<Longrightarrow> I s \<Longrightarrow> run_keeps I (Some (m s))"
  by (auto simp: run_keeps_def dest: keeps_use)

lemma run_keeps_Some: "run_keeps I (Some (r, s)) \<longleftrightarrow> r = Panic \<or> I s"
  by (auto simp: run_keeps_def)

lemma keys_poll_next:
  assumes "con_keys con = K"
  shows "run_keeps (\<lambda>con. con_keys con = K) (poll_next env con)"
proof -
  have "run_keeps (\<lambda>con. con_keys con = K) (poll_resend env c)" if "con_keys c = K" for c
    using that poll_resend_loop_frame by (fastforce simp: run_keeps_def poll_resend_def con_frame_def con_keys_def)
  moreover have "run_keeps (\<lambda>con. con_keys con = K) (poll_ping env c)" if "con_keys c = K" for c
    using that keys_poll_ping by (fastforce simp: run_keeps_def)
  ultimately show ?thesis
    unfolding poll_next_def using assms
    by (intro run_keeps_then run_keeps_action keeps_intros)
      (auto simp: run_keeps_Some intro!: run_keeps_then run_keeps_action keeps_intros split: option.split poll.split)
qed

section \<open>The client\<close>

abbreviation client_keys :: "(bytes \<times> bytes \<times> bytes) option \<Rightarrow> client \<Rightarrow> bool" where
  "client_keys K cl \<equiv> con_keys (cl_con cl) = K"

lemma keys_on_con [keeps_intros]: "keeps_keys K m \<Longrightarrow> keeps True (client_keys K) (on_con m)"
proof (rule keepsI)
  fix cl r cl' assume m: "keeps_keys K m" "client_keys K cl" "on_con m cl = (r, cl')" "r \<noteq> Panic"
  obtain r' c where "m (cl_con cl) = (r', c)" "r = map_err TsProto r'" "cl' = cl\<lparr>cl_con := c\<rparr>"
    using m(3) by (auto simp: on_con_def split: prod.splits)
  moreover have "r' \<noteq> Panic" using calculation(2) m(4) by auto
  ultimately show "client_keys K cl'" using keeps_use [OF m(1,2)] by simp
qed

lemma keys_client_send [keeps_intros]:
  "keeps True (client_keys K) (set_con_state env st)" "keeps True (client_keys K) (client_send_packet env p)"
  unfolding client_send_packet_def set_con_state_def by (intro keeps_intros; simp)+

lemma keys_initserver [keeps_intros]: "keeps True (client_keys K) (handle_initserver env items)"
proof (rule keepsI)
  fix cl r cl' assume run: "client_keys K cl" "handle_initserver env items cl = (r, cl')"
  then show "client_keys K cl'"
    by (auto simp: handle_initserver_def set_con_state_def con_keys_def act_then.simps act_lift_def
        split: option.splits outcome.splits)
qed

lemma keys_plugincmd [keeps_intros]:
  "keeps True (client_keys K) (handle_plugincmd env version items getversion request sender)"
proof (induction items arbitrary: getversion request sender)
  case (Cons item items)
  then show ?case
    by (cases item) (simp_all only: handle_plugincmd.simps, (intro keeps_intros; simp)+)
qed (simp add: act_spec_def)

lemma keys_client_handle_command [keeps_intros]:
  "keeps True (client_keys K) (client_handle_command env version command)"
  unfolding client_handle_command_def handle_client_left_def Let_def by (intro keeps_intros)

lemma keys_client_poll_next:
  assumes "client_keys K cl"
  shows "run_keeps (client_keys K) (client_poll_next env version cl)"
proof (cases "poll_next env (cl_con cl)")
  case (Some rc)
  obtain r c where rc: "rc = (r, c)" by fastforce
  have k: "r \<noteq> Panic \<Longrightarrow> con_keys c = K" using keys_poll_next [OF assms] Some rc by (simp add: run_keeps_def)
  have cmd: "run_keeps (client_keys K) (Some (act_then (client_handle_command env version command)
      (\<lambda>cmd. act_return (Ready (Some (CommandItem cmd)))) (cl\<lparr>cl_con := c\<rparr>)))" if "con_keys c = K" for command
    by (rule run_keeps_action, intro keeps_intros) (simp add: that)
  show ?thesis
    using k cmd by (auto simp: client_poll_next_def Some rc Let_def run_keeps_Some
        split: outcome.split poll.split option.split stream_item.split)
qed (simp add: client_poll_next_def run_keeps_def)

abbreviation task_keys :: "(bytes \<times> bytes \<times> bytes) option \<Rightarrow> task \<Rightarrow> bool" where
  "task_keys K t \<equiv> client_keys K (t_client t)"

lemma keys_await_loop:
  "client_keys K cl \<Longrightarrow> run_keeps (task_keys K) (await_loop version wakeups env cl)"
proof (induction wakeups arbitrary: env cl)
  case Nil
  then show ?case
    using keys_client_poll_next [OF Nil, of env version]
    by (subst await_loop.simps)
      (auto simp: run_keeps_def split: option.splits prod.splits outcome.splits poll.splits)
next
  case (Cons w ws)
  then show ?case
    using keys_client_poll_next [OF Cons.prems, of env version] Cons.IH [of "add_answers w _" "w_env w"]
    by (subst await_loop.simps)
      (auto simp: run_keeps_def add_answers_def split: option.splits prod.splits outcome.splits poll.splits)
qed

lemma keys_filter_items:
  fixes f :: "('t, 'a) item_filter"
  assumes "task_keys K t"
  shows "run_keeps (task_keys K) (filter_items version f t)"
proof -
  have "task_keys K t \<longrightarrow> fst rt \<noteq> Panic \<longrightarrow> task_keys K (snd rt)" if "filter_items version f t = Some rt" for rt
  proof (rule filter_items.raw_induct [OF _ that,
      where P = "\<lambda>_ _ t rt. task_keys K t \<longrightarrow> fst rt \<noteq> Panic \<longrightarrow> task_keys K (snd rt)"], goal_cases)
    case (1 loop version f t rt)
    note IH = 1(1) and body = 1(2)
    show ?case
    proof (cases "await_next version t :: ('t, stream_item option) task_result")
      case (Some rt1)
      obtain r t1 where rt1: "rt1 = (r, t1)" by fastforce
      have k: "task_keys K t \<Longrightarrow> r \<noteq> Panic \<Longrightarrow> task_keys K t1"
      proof -
        assume "task_keys K t" "r \<noteq> Panic"
        then have "run_keeps (task_keys K) (Some rt1)"
          unfolding Some [symmetric] await_next_def by (intro keys_await_loop)
        then show "task_keys K t1" using rt1 \<open>r \<noteq> Panic\<close> by (simp add: run_keeps_def)
      qed
      show ?thesis
      proof (cases "\<exists>item. r = Ok (Some item) \<and> f t1 item = Ok None")
        case True
        then show ?thesis using body Some rt1 IH [of version f t1 rt] k by auto
      next
        case False
        then have "fst rt \<noteq> Panic \<longrightarrow> r \<noteq> Panic \<and> snd rt = t1"
          using body Some rt1 by (auto split: outcome.splits option.splits)
        then show ?thesis using k by auto
      qed
    qed (use body in simp)
  qed
  then show ?thesis using assms by (auto simp: run_keeps_def)
qed

end
