(* ===== verification/Client_Props.thy ===== *)
theory Client_Props
  imports Client_Inv Client_Run
begin

text \<open>
  Properties of the client: what a completed handshake has verified, and a puzzle that makes it panic.
\<close>

section \<open>The key exchange\<close>

lemma opt_then_Ok:
  "opt_then m f = Some (Ok y, s') \<longleftrightarrow> (\<exists>x s. m = Some (Ok x, s) \<and> f x s = Some (Ok y, s'))"
  by (auto simp: opt_then_def split: option.splits prod.splits outcome.splits)

lemma task_do_Ok:
  "task_do m t = Some (Ok x, t') \<longleftrightarrow> (\<exists>cl. m (t_env t) (t_client t) = (Ok x, cl) \<and> t' = t\<lparr>t_client := cl\<rparr>)"
  by (auto simp: task_do_def split: prod.splits)

lemma act_lift_then_Ok:
  "act_then (act_lift r) f s = (Ok y, s') \<longleftrightarrow> (\<exists>x. r = Ok x \<and> f x s = (Ok y, s'))"
  by (cases r) (simp_all add: act_then.simps act_lift_def)

abbreviation params_keys :: "connected_params \<Rightarrow> bytes \<times> bytes \<times> bytes" where
  "params_keys ps \<equiv> (cp_public_key ps, cp_shared_iv ps, cp_shared_mac ps)"

lemma exchange_keys_Ok:
  fixes cenv :: "('t::linorder, 'p, 's) client_env"
  assumes "exchange_keys cenv command t = Some (Ok i, t')"
  shows "\<exists>hello. read_initivexpand2 cenv command = Ok hello \<and>
    task_keys (Some (params_keys (client_params cenv hello))) t'"
proof -
  obtain cl where run: "act_then (act_lift (read_initivexpand2 cenv command)) (\<lambda>hello.
       act_then (act_modify (cl_con_update (params_update (\<lambda>_. Some (client_params cenv hello))))) (\<lambda>_.
       act_then (act_read cl_key) (\<lambda>key.
       act_then (act_lift (clientek_command cenv key (sh_beta hello))) (client_send_packet (t_env t)))))
       (t_client t) = (Ok i, cl)" "t' = t\<lparr>t_client := cl\<rparr>"
    using assms unfolding exchange_keys_def task_do_Ok by blast
  then obtain hello where hello: "read_initivexpand2 cenv command = Ok hello" by (auto simp: act_lift_then_Ok)
  let ?cl = "cl_con_update (params_update (\<lambda>_. Some (client_params cenv hello))) (t_client t)"
  let ?send = "act_then (act_lift (clientek_command cenv (cl_key ?cl) (sh_beta hello)))
      (client_send_packet (t_env t)) :: ('t, packet_id_t) client_action"
  have sent: "?send ?cl = (Ok i, cl)"
    using run(1) hello by simp
  have keys: "client_keys (Some (params_keys (client_params cenv hello))) ?cl" by (simp add: con_keys_def)
  have "keeps True (client_keys (Some (params_keys (client_params cenv hello)))) ?send"
    by (intro keeps_intros)
  from keeps_use [OF this keys sent] have "client_keys (Some (params_keys (client_params cenv hello))) cl" by simp
  then show ?thesis using hello run(2) by simp
qed

text \<open>What the checks of \<open>initivexpand2\<close> establish.\<close>

definition authentic_hello :: "('t::linorder, 'p, 's) client_env \<Rightarrow> 'p server_hello \<Rightarrow> bool" where
  "authentic_hello cenv hello \<longleftrightarrow>
     (\<exists>l proof root licenses.
        verify (crypto cenv) (sh_key hello) l proof = Ok () \<and>
        licenses_parse (licensing cenv) (license_now cenv) l = Ok licenses \<and>
        derive_public_key (licensing cenv) licenses root = Ok (sh_ek hello) \<and> length (sh_beta hello) = 54)"

lemma check_init_args_Ok:
  "check_init_args cenv a = Ok hello \<Longrightarrow> authentic_hello cenv hello"
  by (auto simp: check_init_args_def Let_def and_then_Ok_iff map_err_Ok_iff authentic_hello_def
      split: if_splits option.splits) blast+

lemma read_initivexpand2_Ok: "read_initivexpand2 cenv command = Ok hello \<Longrightarrow> authentic_hello cenv hello"
  by (auto simp: read_initivexpand2_def and_then_Ok_iff dest: check_init_args_Ok split: prod.splits if_splits)

text \<open>
  C4 (a completed handshake is authenticated): when \<open>connect\<close> returns without an error, there was an
  \<open>initivexpand2\<close> whose license was signed by the key of the server, was valid at that time, and gives
  the ephemeral key of the server; the parameters of the connection hold that key of the server and the
  shared values of that ephemeral key, and nothing that arrived since then has changed them.
\<close>

theorem connect_authenticated:
  fixes cenv :: "('t::linorder, 'p, 's) client_env"
  assumes "connect cenv t = Some (Ok (), t')"
  shows "\<exists>command hello ps. read_initivexpand2 cenv command = Ok hello \<and> authentic_hello cenv hello \<and>
    params (cl_con (t_client t')) = Some ps \<and> cp_public_key ps = sh_key hello \<and>
    (cp_shared_iv ps, cp_shared_mac ps) =
      compute_iv_mac (sha512 (licensing cenv)) (sha1 (crypto cenv)) (random_alpha cenv) (sh_beta hello)
        (shared_secret cenv (random_ek cenv) (sh_ek hello))"
proof -
  obtain command t1 t2 i where run: "exchange_keys cenv command t1 = Some (Ok i, t2)"
      "wait_for_ack (version_text cenv) i t2 = (Some (Ok (), t') :: ('t, unit) task_result)"
    using assms by (auto simp: connect_def Let_def opt_then_Ok)
  obtain hello where hello: "read_initivexpand2 cenv command = Ok hello"
      "task_keys (Some (params_keys (client_params cenv hello))) t2"
    using exchange_keys_Ok [OF run(1)] by blast
  have "task_keys (Some (params_keys (client_params cenv hello))) t'"
    using keys_filter_items [OF hello(2)] run(2) by (auto simp: wait_for_ack_def run_keeps_def)
  then obtain ps where "params (cl_con (t_client t')) = Some ps" "cp_public_key ps = sh_key hello"
      "(cp_shared_iv ps, cp_shared_mac ps) =
        compute_iv_mac (sha512 (licensing cenv)) (sha1 (crypto cenv)) (random_alpha cenv) (sh_beta hello)
          (shared_secret cenv (random_ek cenv) (sh_ek hello))"
    by (auto simp: con_keys_def client_params_def connected_params_new_def split: prod.splits)
  then show ?thesis using hello(1) read_initivexpand2_Ok [OF hello(1)] by (intro exI conjI)
qed

theorem connect_authenticated_witness:
  "\<exists>t' ps. connect mini_client_env (waiting_task server_script) = (Some (Ok (), t') :: (int, unit) task_result) \<and>
     params (cl_con (t_client t')) = Some ps"
proof -
  obtain t' where run: "connect mini_client_env (waiting_task server_script) = (Some (Ok (), t') :: (int, unit) task_result)"
    using handshake_run by blast
  then show ?thesis using connect_authenticated [OF run] by blast
qed

section \<open>The puzzle\<close>

text \<open>A server that sends a puzzle with modulus zero makes the client panic.\<close>

lemma puzzle_zero_modulus_panics:
  "level \<le> 10000000 \<Longrightarrow> answer_init3 cenv version key x (replicate 64 0) level random2 = Panic"
  by (simp add: answer_init3_def solve_puzzle_def modpow_def array_to_biguint_def numeral_eq_Suc)

end
