(* ===== verification/Client_Library_Props.thy ===== *)
theory Client_Library_Props
  imports Library_Run Client_Props
begin

text \<open>
  Properties of the library: what a user is told about the mute state is the mute state, audio that must
  not be played is not delivered, the answer to a command finds its handle, a disconnect ends the stream,
  and a pinned server is the one that was connected to.
\<close>

section \<open>What the stream says about audio\<close>

text \<open>The items that concern audio, and a panic; a command of the server puts none of them into the queue.\<close>

fun about_audio :: "('d, 'm, 't) lib_result \<Rightarrow> bool" where
  "about_audio (Ok (AudioPacket a)) \<longleftrightarrow> True"
| "about_audio (Ok (DisconnectedTemporarily reason)) \<longleftrightarrow> True"
| "about_audio (Ok (AudioChange e)) \<longleftrightarrow> True"
| "about_audio Panic \<longleftrightarrow> True"
| "about_audio _ \<longleftrightarrow> False"

abbreviation no_audio :: "('d, 'ip, 'm, 't) command_state \<Rightarrow> bool" where
  "no_audio cs \<equiv> filter about_audio (cs_items cs) = []"

lemma error_answers_no_audio: "filter about_audio (fst (error_answers ps)) = []"
  by (induction ps) (auto simp: Let_def split: prod.splits option.splits outcome.splits)

lemma error_answers_silent: "error_answers ps = (items, handled) \<Longrightarrow> filter about_audio items = []"
  by (metis error_answers_no_audio fst_conv)

lemma keeps_push: "filter about_audio items = [] \<Longrightarrow> keeps may no_audio (push_items items)"
  unfolding push_items_def by (rule keeps_modify) simp

lemma keeps_modify_own [keeps_intros]: "keeps may no_audio (modify_own f)"
  unfolding modify_own_def by (rule keeps_modify) simp

lemma keeps_try_send [keeps_intros]: "keeps True no_audio (try_send env p)"
  unfolding try_send_def by (rule keepsI) (auto split: prod.splits outcome.splits)

lemma keeps_set_connected_time [keeps_intros]: "keeps may no_audio (set_connected_time lenv msg)"
  unfolding set_connected_time_def
  by (auto intro!: keeps_intros split: in_message.split other_message.split)

lemma keeps_report_events [keeps_intros]: "keeps may no_audio (report_events events)"
  unfolding report_events_def Let_def by (intro keeps_intros keeps_push) simp_all

lemma keeps_after_book:
  "keeps may no_audio (act_then (set_connected_time lenv msg) (\<lambda>_. act_then (report_events events) (\<lambda>_. act_return h)))"
  by (intro keeps_intros)

lemma keeps_handle_in_book [keeps_intros]: "keeps True no_audio (handle_in_book lenv msg)"
proof (rule keepsI)
  fix cs r cs' assume I: "no_audio cs" and run: "handle_in_book lenv msg cs = (r, cs')" and r: "r \<noteq> Panic"
  obtain x bk where bk: "book_handle_command (le_generated lenv) msg (cs_book cs) = (x, bk)" by fastforce
  have x: "x \<noteq> Panic" using run r bk by (auto simp: handle_in_book_def)
  obtain events handled where eh: "(case x of Ok x \<Rightarrow> x | _ \<Rightarrow> ([], False)) = (events, handled)" by fastforce
  have "handle_in_book lenv msg cs = act_then (set_connected_time lenv msg) (\<lambda>_.
      act_then (report_events events) (\<lambda>_. act_return handled)) (cs\<lparr>cs_book := bk\<rparr>)"
    using x eh by (cases x) (auto simp: handle_in_book_def bk Let_def)
  then have "act_then (set_connected_time lenv msg) (\<lambda>_.
      act_then (report_events events) (\<lambda>_. act_return handled)) (cs\<lparr>cs_book := bk\<rparr>) = (r, cs')"
    using run by simp
  moreover have "no_audio (cs\<lparr>cs_book := bk\<rparr>)" using I by simp
  ultimately show "no_audio cs'"
    by (rule keeps_use [where m = "act_then (set_connected_time lenv msg) (\<lambda>_.
      act_then (report_events events) (\<lambda>_. act_return handled))", OF keeps_after_book _ _ r, rotated])
qed

lemma keeps_handle_message [keeps_intros]: "keeps True no_audio (handle_message lenv msg)"
proof -
  have "filter about_audio (map (\<lambda>(i, status). Ok (FiletransferFailed i (LibCommandError status None))) parts) = []" for parts
    by (auto simp: filter_empty_conv)
  then show ?thesis
    unfolding handle_message_def Let_def
    by (auto intro!: keeps_intros keeps_push dest: error_answers_silent split: in_message.split other_message.split prod.split)
qed

lemma keeps_follow_message [keeps_intros]: "keeps True no_audio (follow_message lenv msg)"
  unfolding follow_message_def Let_def
  by (auto intro!: keeps_intros split: in_message.split other_message.split option.split prod.split)

lemma keeps_con_handle_command: "keeps True no_audio (con_handle_command lenv cmd)"
  unfolding con_handle_command_def by (intro keeps_intros keeps_push) simp_all

text \<open>
  What a user who reads the items knows, starting with \<open>b\<close>: the last announcements, and that a connection
  that is lost for some time is muted.
\<close>

fun announced :: "bool \<times> bool \<Rightarrow> ('d, 'm, 't) lib_result list \<Rightarrow> bool \<times> bool" where
  "announced b [] = b"
| "announced b (Ok (AudioChange (CanSendAudio x)) # items) = announced (x, snd b) items"
| "announced b (Ok (AudioChange (CanReceiveAudio x)) # items) = announced (fst b, x) items"
| "announced b (Ok (DisconnectedTemporarily reason) # items) = announced (False, False) items"
| "announced b (_ # items) = announced b items"

lemma announced_append [simp]: "announced b (xs @ ys) = announced (announced b xs) ys"
  by (induction b xs rule: announced.induct) auto

lemma announced_silent: "filter about_audio xs = [] \<Longrightarrow> announced b xs = b"
  by (induction b xs rule: announced.induct) auto

lemma announced_changes [simp]: "announced (s, r) (audio_changes s r s' r') = (s', r')"
  by (auto simp: audio_changes_def)

abbreviation mute_state :: "('d, 'ip, 'm, 't) lib_con \<Rightarrow> bool \<times> bool" where
  "mute_state lc \<equiv> (can_send_audio lc, can_receive_audio lc)"

abbreviation no_packets :: "('d, 'm, 't) lib_result list \<Rightarrow> bool" where
  "no_packets items \<equiv> (\<forall>a. Ok (AudioPacket a) \<notin> set items) \<and> Panic \<notin> set items"

text \<open>Whether an audio packet may be played: audio is not muted, and the packet is encrypted or need not be.\<close>

definition may_play :: "('d, 'ip, 'm, 't) lib_con \<Rightarrow> in_audio \<Rightarrow> bool" where
  "may_play lc audio \<longleftrightarrow> can_receive_audio lc \<and>
     (\<exists>con bk f p_type. lc_state lc = StConnected con bk \<and>
        h_flags (ip_header (audio_packet audio)) = (Ok f :: (_, 't lib_error) outcome) \<and>
        h_packet_type (ip_header (audio_packet audio)) = (Ok p_type :: (_, 't lib_error) outcome) \<and>
        (flags_contains f UNENCRYPTED \<longrightarrow> intern_can_receive_unencrypted_audio bk (p_type = VoiceWhisper)))"

text \<open>
  A step that gives some items keeps what was announced equal to the mute state, delivers only audio that
  may be played and puts none into the queue.
\<close>

definition announces :: "('d, 'ip, 'm, 't) lib_con \<Rightarrow> ('d, 'm, 't) lib_result list \<Rightarrow> ('d, 'ip, 'm, 't) lib_con \<Rightarrow> bool" where
  "announces lc items lc' \<longleftrightarrow>
     announced (mute_state lc) (items @ lc_items lc') = mute_state lc' \<and> no_packets (lc_items lc') \<and>
     (\<forall>a. Ok (AudioPacket a) \<in> set items \<longrightarrow> may_play lc' a)"

fun item_list :: "('d, 'm, 't) lib_result option poll \<Rightarrow> ('d, 'm, 't) lib_result list" where
  "item_list (Ready (Some x)) = [x]"
| "item_list _ = []"

lemma no_packets_silent: "filter about_audio items = [] \<Longrightarrow> no_packets items"
  by (auto simp: filter_empty_conv)

lemma no_packets_changes [simp]: "no_packets (audio_changes s r s' r')"
  by (simp add: audio_changes_def)

lemma announces_queue:
  assumes "announced (mute_state lc) (items @ queue) = mute_state lc'" "no_packets (items @ queue)" "lc_items lc' = queue"
  shows "announces lc items lc'"
  using assms by (auto simp: announces_def)

lemma command_item_announces:
  assumes "lc_items lc = []" "lc_state lc = StConnected con bk" "lib_command_item lenv cmd con bk lc = (r, lc')"
    and "r \<noteq> Some (Some Panic)"
  shows "announces lc (case r of Some x \<Rightarrow> item_list (Ready x) | None \<Rightarrow> []) lc'"
    and "r = None \<Longrightarrow> lc_items lc' = []"
proof -
  let ?cs = "\<lparr>cs_con = con, cs_book = bk, cs_items = lc_items lc, cs_options = lc_options lc\<rparr>"
  obtain res cs where run: "con_handle_command lenv cmd ?cs = (res, cs)" by fastforce
  have res: "res = Ok None \<or> (\<exists>reason. res = Ok (Some reason))"
    using assms(3,4) run by (cases res) (auto simp: lib_command_item_def Let_def)
  have silent: "filter about_audio (cs_items cs) = []"
    using keeps_use [OF keeps_con_handle_command, of ?cs lenv cmd res cs] run res assms(1) by auto
  have mute: "mute_state lc = (intern_can_send_audio bk (lc_options lc), intern_can_receive_audio bk (lc_options lc))"
    using assms(2) by (simp add: can_send_audio_def can_receive_audio_def)
  define items where "items = cs_items cs @ audio_changes
      (intern_can_send_audio bk (lc_options lc)) (intern_can_receive_audio bk (lc_options lc))
      (intern_can_send_audio (cs_book cs) (cs_options cs)) (intern_can_receive_audio (cs_book cs) (cs_options cs))"
  define stop where "stop = (\<lambda>reason. cs_items cs @ audio_changes
      (intern_can_send_audio bk (lc_options lc)) (intern_can_receive_audio bk (lc_options lc)) False False
      @ [Ok (DisconnectedTemporarily reason) :: ('a, ('b, 'c, 'd) message, 'e) lib_result])"
  let ?lc = "lc\<lparr>lc_state := StConnected (cs_con cs) (cs_book cs), lc_options := cs_options cs, lc_items := cs_items cs\<rparr>"
  have items: "announced (mute_state lc) items = mute_state ?lc"
    unfolding mute items_def by (simp add: announced_silent [OF silent] can_send_audio_def can_receive_audio_def)
  have stopped: "announced (mute_state lc) (stop reason) = (False, False)" for reason
    unfolding mute stop_def by (simp add: announced_silent [OF silent])
  have packets: "no_packets items" "no_packets (stop reason)" for reason
    using no_packets_silent [OF silent] by (simp_all add: items_def stop_def)
  have outcome: "(r, lc') = (case items of [] \<Rightarrow> (None, ?lc) | x # xs \<Rightarrow> (Some (Some x), ?lc\<lparr>lc_items := xs\<rparr>))"
    if "res = Ok None"
    using assms(3) run that unfolding items_def by (auto simp: lib_command_item_def Let_def split: list.splits)
  have outcome_stop: "(r, lc') = (Some (Some (hd (stop reason))), (reconnecting ?lc)\<lparr>lc_items := tl (stop reason)\<rparr>)"
    if "res = Ok (Some reason)" for reason
    using assms(3) run that unfolding stop_def by (simp add: lib_command_item_def Let_def)
  show "announces lc (case r of Some x \<Rightarrow> item_list (Ready x) | None \<Rightarrow> []) lc'"
    using res
  proof (elim disjE exE)
    assume "res = Ok None"
    note o = outcome [OF this]
    show ?thesis
    proof (cases items)
      case Nil
      then have "cs_items cs = []" by (simp add: items_def)
      then show ?thesis using o Nil items by (simp add: announces_def)
    next
      case (Cons x xs)
      have "announces lc [x] (?lc\<lparr>lc_items := xs\<rparr>)"
        by (rule announces_queue [where queue = xs])
          (use items packets(1) Cons in \<open>simp_all add: can_send_audio_def can_receive_audio_def del: announced_append\<close>)
      then show ?thesis using o Cons by simp
    qed
  next
    fix reason assume "res = Ok (Some reason)"
    note o = outcome_stop [OF this]
    have split: "[hd (stop reason)] @ tl (stop reason) = stop reason" by (cases "stop reason") (simp_all add: stop_def)
    have "announces lc [hd (stop reason)] lc'"
    proof (rule announces_queue [where queue = "tl (stop reason)"])
      show "announced (mute_state lc) ([hd (stop reason)] @ tl (stop reason)) = mute_state lc'"
        unfolding split stopped using o by (simp add: can_send_audio_def can_receive_audio_def reconnecting_def)
      show "no_packets ([hd (stop reason)] @ tl (stop reason))" unfolding split by (rule packets(2))
      show "lc_items lc' = tl (stop reason)" using o by simp
    qed
    then show ?thesis using o by simp
  qed
  show "r = None \<Longrightarrow> lc_items lc' = []"
    using res outcome outcome_stop by (cases items) (auto simp: items_def)
qed

lemma audio_item_plays:
  fixes lc :: "('d, 'ip, 'm, 't) lib_con"
  assumes "lc_state lc = StConnected con bk" "lib_audio_item audio bk (lc_options lc) = (Some (Some (Ok (AudioPacket a))) :: ('d, 'm, 't) lib_result option option)"
  shows "may_play lc a"
proof -
  from assms(2) have "intern_can_receive_audio bk (lc_options lc)" and [simp]: "a = audio"
    by (auto simp: lib_audio_item_def split: if_splits outcome.splits)
  moreover from assms(2) obtain f p_type where
    "h_flags (ip_header (audio_packet audio)) = (Ok f :: (_, 't lib_error) outcome)"
    "h_packet_type (ip_header (audio_packet audio)) = (Ok p_type :: (_, 't lib_error) outcome)"
    "flags_contains f UNENCRYPTED \<longrightarrow> intern_can_receive_unencrypted_audio bk (p_type = VoiceWhisper)"
    by (auto simp: lib_audio_item_def and_then_Ok_iff elim!: map_ok.elims split: if_splits outcome.splits)
  ultimately show ?thesis
    using assms(1) by (auto simp: may_play_def can_receive_audio_def)
qed
lemma announces_other:
  assumes "lc_items lc = []" "mute_state lc' = mute_state lc" "lc_items lc' = []"
    "\<And>i. x = Some (Some i) \<Longrightarrow> \<not> about_audio i"
  shows "announces lc (case x of Some y \<Rightarrow> item_list (Ready y) | None \<Rightarrow> []) lc'"
proof -
  have "filter about_audio (case x of Some y \<Rightarrow> item_list (Ready y) | None \<Rightarrow> []) = []"
    using assms(4) by (cases x; cases "the x") auto
  then show ?thesis
    using assms(2,3) by (auto simp: announces_def announced_silent dest: no_packets_silent)
qed

lemma client_result_announces:
  assumes "lc_items lc = []" "lc_state lc = StConnected con bk" "client_result lenv r con bk lc = (x, lc')"
    and "x \<noteq> Some (Some Panic)"
  shows "announces lc (case x of Some y \<Rightarrow> item_list (Ready y) | None \<Rightarrow> []) lc'"
    and "x = None \<Longrightarrow> lc_items lc' = []"
proof -
  let ?items = "case x of Some y \<Rightarrow> item_list (Ready y) | None \<Rightarrow> []"
  have "announces lc ?items lc' \<and> (x = None \<longrightarrow> lc_items lc' = [])"
  proof (cases "(\<exists>cmd. r = Ok (Some (CommandItem cmd))) \<or> (\<exists>audio. r = Ok (Some (AudioItem audio)))
      \<or> (\<exists>reason. x = Some (Some (Ok (DisconnectedTemporarily (TimeoutReason reason)))))")
    case True
    then show ?thesis
    proof (elim disjE exE)
      fix cmd assume "r = Ok (Some (CommandItem cmd))"
      then have "lib_command_item lenv cmd con bk lc = (x, lc')" using assms(3) by (simp add: client_result_def)
      from command_item_announces [OF assms(1,2) this assms(4)] show ?thesis by blast
    next
      fix audio assume "r = Ok (Some (AudioItem audio))"
      then have x: "x = lib_audio_item audio bk (lc_options lc)" and [simp]: "lc' = lc"
        using assms(3) by (auto simp: client_result_def)
      show ?thesis
      proof (cases "\<exists>a. x = Some (Some (Ok (AudioPacket a)))")
        case True
        then obtain a where a: "x = Some (Some (Ok (AudioPacket a)))" ..
        from audio_item_plays [OF assms(2)] a x have "may_play lc a" by simp
        then show ?thesis using a assms(1) by (simp add: announces_def)
      next
        case False
        have "\<not> about_audio i" if "x = Some (Some i)" for i
          using that False assms(4) unfolding x by (auto simp: lib_audio_item_def split: if_splits outcome.splits)
        then show ?thesis using announces_other [of lc lc x] assms(1) by simp
      qed
    next
      fix reason assume d: "x = Some (Some (Ok (DisconnectedTemporarily (TimeoutReason reason))))"
      show ?thesis
      proof (cases "\<exists>cmd. r = Ok (Some (CommandItem cmd))")
        case True
        then have "lib_command_item lenv cmd con bk lc = (x, lc')" if "r = Ok (Some (CommandItem cmd))" for cmd
          using assms(3) that by (simp add: client_result_def)
        from command_item_announces [OF assms(1,2) this assms(4)] True show ?thesis by blast
      next
        case False
        with d have "lc' = reconnecting lc"
          using assms(3) by (auto simp: client_result_def lib_audio_item_def split: outcome.splits option.splits
              stream_item.splits if_splits client_error.splits tsproto_error.splits)
        then show ?thesis using d assms(1)
          by (simp add: announces_def reconnecting_def can_send_audio_def can_receive_audio_def)
      qed
    qed
  next
    case False
    have "lc' = lc \<and> (\<forall>i. x = Some (Some i) \<longrightarrow> \<not> about_audio i)"
      using assms(3,4) False
      by (auto simp: client_result_def split: outcome.splits option.splits stream_item.splits
          if_splits client_error.splits tsproto_error.splits)
    then show ?thesis using announces_other [of lc lc' x] assms(1) by simp
  qed
  then show "announces lc ?items lc'" and "x = None \<Longrightarrow> lc_items lc' = []" by blast+
qed

lemma announces_trans:
  assumes "announces lc [] lc1" "lc_items lc1 = []" "announces lc1 items lc2"
  shows "announces lc items lc2"
  using assms by (simp add: announces_def)

lemma transfer_item_silent: "\<not> about_audio (Ok (transfer_item ft ok))"
  by (cases ok) (simp_all split: transfer_kind.split)

lemma ready_transfer_silent:
  "ready_transfer tcp fts = (Some item, fts') \<Longrightarrow> \<not> about_audio (Ok item)"
  by (induction fts arbitrary: fts') (auto simp: transfer_item_silent split: prod.splits option.splits)

lemma transfers_announces:
  fixes lenv :: "('d, 'ip, 'i, 'x, 't) lib_env" and lc :: "('d, 'ip, 'i, 'x, 't) con"
  assumes "lc_items lc = []" "lc_state lc = StConnected con bk"
  shows "announces lc (item_list (fst (poll_transfers lenv con bk lc))) (snd (poll_transfers lenv con bk lc))"
proof -
  obtain item fts where r: "ready_transfer (le_tcp lenv) (cc_filetransfers con) =
      (item :: ('d, ('ip, 'i, 'x) message, 't) lib_item option, fts)" by fastforce
  have "filter about_audio (item_list (fst (poll_transfers lenv con bk lc))) = []"
    using ready_transfer_silent r by (cases item) (auto simp: poll_transfers_def)
  moreover have "mute_state (snd (poll_transfers lenv con bk lc)) = mute_state lc"
    "lc_items (snd (poll_transfers lenv con bk lc)) = []"
    using assms r by (cases item; auto simp: poll_transfers_def can_send_audio_def can_receive_audio_def)+
  ultimately show ?thesis
    by (auto simp: announces_def announced_silent dest: no_packets_silent)
qed

lemma poll_loop_announces:
  fixes lenv :: "('d, 'ip, 'i, 'x, 't) lib_env"
  assumes "poll_loop lenv lc = Some rt"
  shows "lc_items lc = [] \<longrightarrow> fst rt \<noteq> Ready (Some Panic) \<longrightarrow> announces lc (item_list (fst rt)) (snd rt)"
proof (rule poll_loop.raw_induct [OF _ assms,
    where P = "\<lambda>_ lc rt. lc_items lc = [] \<longrightarrow> fst rt \<noteq> Ready (Some Panic) \<longrightarrow> announces lc (item_list (fst rt)) (snd rt)"], goal_cases)
  case (1 loop lenv lc rt)
  note IH = 1(1) and body = 1(2)
  show ?case
  proof (intro impI)
    assume empty: "lc_items lc = []" and panic: "fst rt \<noteq> Ready (Some Panic)"
    obtain con bk where con: "lc_state lc = StConnected con bk" using body by (cases "lc_state lc") auto
    obtain r cl where polled: "client_poll_next (le_env lenv) (le_version lenv) (cc_client con) =
        Some (r :: (stream_item option poll, 't client_error) outcome, cl)"
      using body con
      by (cases "client_poll_next (le_env lenv) (le_version lenv) (cc_client con) ::
          ((stream_item option poll, 't client_error) outcome \<times> client) option") auto
    define con' where "con' = con\<lparr>cc_client := cl\<rparr>"
    define lc1 where "lc1 = lc\<lparr>lc_state := StConnected con' bk\<rparr>"
    have lc1: "lc_items lc1 = []" "lc_state lc1 = StConnected con' bk" "mute_state lc1 = mute_state lc"
      using empty con by (simp_all add: lc1_def can_send_audio_def can_receive_audio_def)
    show "announces lc (item_list (fst rt)) (snd rt)"
    proof (cases "r = Ok Pending")
      case True
      then have "rt = poll_transfers lenv con' bk lc1"
        using body con polled by (simp add: Let_def con'_def lc1_def)
      then show ?thesis
        using transfers_announces [OF lc1(1,2)] lc1(3) by (simp add: announces_def)
    next
      case False
      define x where "x = client_result lenv (map_ok (\<lambda>p. case p of Ready x \<Rightarrow> x | Pending \<Rightarrow> None) r) con' bk lc1"
      obtain y lc2 where y: "x = (y, lc2)" by fastforce
      note c = client_result_announces [OF lc1(1,2) y [unfolded x_def]]
      have rt: "Some rt = (case x of (Some x, lc) \<Rightarrow> Some (Ready x, lc) | (None, lc) \<Rightarrow> loop lenv lc)"
        using body con polled False by (simp add: Let_def con'_def lc1_def x_def)
      show ?thesis
      proof (cases y)
        case None
        then have "loop lenv lc2 = Some rt" using rt y by simp
        from IH [OF this] c None panic have "announces lc2 (item_list (fst rt)) (snd rt)" by simp
        moreover have "announces lc [] lc2" using c(1) None lc1(3) by (simp add: announces_def)
        ultimately show ?thesis using announces_trans c(2) None by blast
      next
        case (Some z)
        then have "rt = (Ready z, lc2)" using rt y by simp
        then show ?thesis using c(1) Some panic lc1(3) by (simp add: announces_def)
      qed
    qed
  qed
qed
lemma poll_connecting_announces:
  fixes lenv :: "('d, 'ip, 'i, 'x, 't) lib_env" and lc :: "('d, 'ip, 'i, 'x, 't) con"
  assumes "lc_items lc = []" "lc_state lc = StConnecting options reconnect again"
    and "poll_connecting lenv options again lc = (p, lc')" "p \<noteq> Ready (Some Panic)"
  shows "announces lc (item_list p) lc'"
proof -
  have mute: "mute_state lc = (False, False)" using assms(2) by (simp add: can_send_audio_def can_receive_audio_def)
  have level: "mute_state lc1 = (False, False) \<and> lc_items lc1 = []"
    if "increase_identity_level (le_crypto lenv) l lc = (r, lc1)" for l r and lc1 :: "('d, 'ip, 'i, 'x, 't) con"
    using that assms(1,2)
    by (auto simp: increase_identity_level_def act_then.simps act_simps can_send_audio_def can_receive_audio_def
        split: if_splits outcome.splits prod.splits)
  show ?thesis
  proof (cases "\<exists>client bk. le_connect lenv options = Some (Ok (client, bk))")
    case True
    then obtain client bk where c: "le_connect lenv options = Some (Ok (client, bk))" by blast
    show ?thesis
      using assms(1,3) mute no_packets_changes
      by (auto simp: poll_connecting_def c announces_def can_send_audio_def can_receive_audio_def)
  next
    case False
    have quiet: "announces lc (item_list p) lc'" if "mute_state lc' = (False, False)" "lc_items lc' = []"
      "p = Pending \<or> (\<exists>e. p = Ready (Some (Err e))) \<or> (\<exists>l. p = Ready (Some (Ok (IdentityLevelIncreasing l))))"
      using that mute by (auto simp: announces_def)
    show ?thesis
      using assms False
      by (intro quiet) (auto simp: poll_connecting_def reconnecting_def can_send_audio_def can_receive_audio_def
          dest: level split: option.splits outcome.splits lib_error.splits prod.splits if_splits)
  qed
qed

lemma lib_poll_next_announces:
  assumes "lib_poll_next lenv lc = Some (p, lc')" "p \<noteq> Ready (Some Panic)" "lc_items lc = []"
  shows "announces lc (item_list p) lc'"
proof (cases "lc_state lc")
  case (StConnecting options reconnect again)
  then show ?thesis using assms poll_connecting_announces by (auto simp: lib_poll_next_def)
next
  case (StIdentityLevelIncreasing identity needed canceled)
  then show ?thesis using assms
    by (auto simp: lib_poll_next_def poll_increasing_def announces_def can_send_audio_def can_receive_audio_def Let_def
        split: option.splits)
next
  case (StConnected con bk)
  then have "poll_loop lenv lc = Some (p, lc')" using assms by (simp add: lib_poll_next_def)
  from poll_loop_announces [OF this] assms(2,3) show ?thesis by simp
qed

text \<open>What a user does between two items keeps the announcements of the queue true.\<close>

definition sends :: "('d, 'ip, 'm, 't) lib_con \<Rightarrow> ('d, 'ip, 'm, 't) lib_con \<Rightarrow> bool" where
  "sends lc lc' \<longleftrightarrow>
     (\<exists>more. lc_items lc' = lc_items lc @ more \<and> announced (mute_state lc) more = mute_state lc' \<and> no_packets more)"

lemma sends_refl: "mute_state lc' = mute_state lc \<Longrightarrow> lc_items lc' = lc_items lc \<Longrightarrow> sends lc lc'"
  by (simp add: sends_def)

lemma sends_trans: "sends lc lc1 \<Longrightarrow> sends lc1 lc2 \<Longrightarrow> sends lc lc2"
  by (fastforce simp: sends_def)

lemma update_own_client_sends:
  assumes "lc_state lc = StConnected con bk" "update_own_client items con bk lc = (r, lc')"
  shows "sends lc lc'"
proof -
  let ?u = "\<lparr>ou_options = lc_options lc, ou_own_client = map_of (bk_clients bk) (bk_own_client bk), ou_events = [],
      ou_has_away_message = False, ou_has_is_away = False\<rparr>"
  show ?thesis
  proof (cases "update_arguments items ?u :: (_, 'd lib_error) outcome")
    case (Ok u)
    then show ?thesis
      using assms by (auto simp: update_own_client_def Let_def sends_def can_send_audio_def can_receive_audio_def)
  qed (use assms in \<open>auto simp: update_own_client_def Let_def intro: sends_refl\<close>)
qed

lemma update_on_outgoing_sends:
  assumes "update_on_outgoing_command cmd lc = (r, lc')"
  shows "sends lc lc'"
proof (cases "lc_state lc")
  case (StConnected con bk)
  note s = update_own_client_sends [OF StConnected]
  have "sends lc (lc\<lparr>lc_state := StConnected (con\<lparr>cc_subscribed := b\<rparr>) bk\<rparr>)" for b
    by (rule sends_refl) (simp_all add: StConnected can_send_audio_def can_receive_audio_def)
  then show ?thesis using assms StConnected
    by (auto simp: update_on_outgoing_command_def act_simps Let_def act_then.simps split: outcome.splits prod.splits if_splits
        intro: sends_refl s)
qed (use assms in \<open>auto simp: update_on_outgoing_command_def intro: sends_refl\<close>)

lemma with_connected_sends:
  assumes "with_connected m lc = (r, lc')"
  shows "sends lc lc'"
  using assms by (intro sends_refl)
    (auto simp: with_connected_def can_send_audio_def can_receive_audio_def split: lib_state.splits prod.splits)

lemma lib_send_sends:
  assumes "act_then (update_on_outgoing_command cmd) (\<lambda>_. with_connected m) lc = (r, lc')"
  shows "sends lc lc'"
proof -
  obtain r1 lc1 where u: "update_on_outgoing_command cmd lc = (r1, lc1)" by fastforce
  from update_on_outgoing_sends [OF u] have s: "sends lc lc1" .
  show ?thesis
  proof (cases r1)
    case (Ok x)
    then have "with_connected m lc1 = (r, lc')" using assms u by (simp add: act_then.simps)
    from with_connected_sends [OF this] s show ?thesis by (rule sends_trans [rotated])
  qed (use assms u s in \<open>auto simp: act_then.simps\<close>)
qed
section \<open>Runs of a connection\<close>

text \<open>
  A connection from its creation on: the user polls it, and between polls sends, transfers files, cancels the
  improvement of the identity or disconnects, all in any order and with any environment. The first argument
  are the items that were delivered. A panic ends the run.
\<close>

inductive lib_run ::
  "('d, ('ip, 'i, 'x) message, 't) lib_result list \<Rightarrow> ('d, 'ip, 'i, 'x, 't) con \<Rightarrow> bool" where
  start: "lib_connect env random_key options = Ok lc \<Longrightarrow> lib_run [] lc"
| poll: "lib_run items lc \<Longrightarrow> lib_poll_next lenv lc = Some (p, lc') \<Longrightarrow> p \<noteq> Ready (Some Panic)
    \<Longrightarrow> lib_run (items @ item_list p) lc'"
| send: "lib_run items lc \<Longrightarrow> lib_send_command env packet lc = (r, lc') \<Longrightarrow> lib_run items lc'"
| send_result: "lib_run items lc \<Longrightarrow> lib_send_with_result env packet lc = (r', lc') \<Longrightarrow> lib_run items lc'"
| send_audio: "lib_run items lc \<Longrightarrow> lib_send_audio env packet lc = (r, lc') \<Longrightarrow> lib_run items lc'"
| download: "lib_run items lc \<Longrightarrow>
    lib_download_file (lenv :: ('d, 'ip, 'i, 'x, 't) lib_env) channel path pw seek lc = (r', lc') \<Longrightarrow> lib_run items lc'"
| upload: "lib_run items lc \<Longrightarrow>
    lib_upload_file (lenv :: ('d, 'ip, 'i, 'x, 't) lib_env) channel path pw filesize overwrite resume lc = (r', lc')
    \<Longrightarrow> lib_run items lc'"
| disconnect: "lib_run items lc \<Longrightarrow> lib_disconnect (lenv :: ('d, 'ip, 'i, 'x, 't) lib_env) dc_options lc = (r, lc') \<Longrightarrow> lib_run items lc'"
| cancel: "lib_run items lc \<Longrightarrow> lib_run items (cancel_identity_level_increase lc)"

definition run_inv :: "('d, ('ip, 'i, 'x) message, 't) lib_result list \<Rightarrow> ('d, 'ip, 'i, 'x, 't) con \<Rightarrow> bool" where
  "run_inv items lc \<longleftrightarrow>
     announced (False, False) (items @ lc_items lc) = mute_state lc \<and> no_packets (lc_items lc)"

lemma mute_queue [simp]:
  "can_send_audio (lc\<lparr>lc_items := q\<rparr>) = can_send_audio lc" "can_receive_audio (lc\<lparr>lc_items := q\<rparr>) = can_receive_audio lc"
  by (simp_all add: can_send_audio_def can_receive_audio_def split: lib_state.split)

lemma run_inv_sends: "run_inv items lc \<Longrightarrow> sends lc lc' \<Longrightarrow> run_inv items lc'"
  by (auto simp: run_inv_def sends_def)

lemma run_inv_announces:
  assumes "run_inv items lc" "lc_items lc = []" "announces lc new lc'"
  shows "run_inv (items @ new) lc'"
  using assms by (auto simp: run_inv_def announces_def)

lemma run_inv_poll:
  assumes "run_inv items lc" "lib_poll_next lenv lc = Some (p, lc')" "p \<noteq> Ready (Some Panic)"
  shows "run_inv (items @ item_list p) lc'"
proof (cases "lc_items lc")
  case Nil
  from run_inv_announces [OF assms(1) Nil lib_poll_next_announces [OF assms(2,3) Nil]] show ?thesis .
next
  case (Cons item queue)
  then have "p = Ready (Some item)" "lc' = lc\<lparr>lc_items := queue\<rparr>"
    using assms(2) by (simp_all add: lib_poll_next_def)
  then show ?thesis using assms(1) Cons
    by (simp add: run_inv_def)
qed

lemma lib_connect_inv: "lib_connect env random_key options = Ok lc \<Longrightarrow> run_inv [] lc"
  by (auto simp: lib_connect_def and_then_Ok_iff Let_def run_inv_def can_send_audio_def can_receive_audio_def
      split: option.splits elim!: map_ok.elims)

lemma lib_disconnect_sends: "lib_disconnect lenv dc_options lc = (r, lc') \<Longrightarrow> sends lc lc'"
  by (auto simp: lib_disconnect_def split: lib_state.splits intro: sends_refl dest: with_connected_sends)

lemma lib_send_audio_sends: "lib_send_audio env packet lc = (r, lc') \<Longrightarrow> sends lc lc'"
  by (auto simp: lib_send_audio_def act_then.simps act_simps split: outcome.splits if_splits
      intro: sends_refl dest: with_connected_sends)

lemma lib_run_inv: "lib_run items lc \<Longrightarrow> run_inv items lc"
proof (induction rule: lib_run.induct)
  case (start env random_key options lc)
  then show ?case by (rule lib_connect_inv)
next
  case (poll items lc lenv p lc')
  then show ?case by (blast intro: run_inv_poll)
next
  case (cancel items lc)
  then show ?case
    by (auto simp: cancel_identity_level_increase_def run_inv_def can_send_audio_def can_receive_audio_def
        split: lib_state.split)
qed (auto simp: lib_send_command_def lib_send_with_result_def lib_download_file_def lib_upload_file_def
    intro: run_inv_sends dest: lib_send_sends with_connected_sends lib_disconnect_sends lib_send_audio_sends)

section \<open>The mute state\<close>

text \<open>An environment whose connections come up with an encrypted audio packet in their queue.\<close>

definition sample_audio :: in_audio where
  "sample_audio = \<lparr>audio_packet = \<lparr>ip_header = \<lparr>ih_dir = S2C, ih_data = replicate 11 0\<rparr>, ip_content = []\<rparr>,
     audio_data = AudioS2C 0 0 OpusVoice []\<rparr>"

definition sample_client :: client where
  "sample_client = cl_con_update (stream_items_update (\<lambda>_. [AudioItem sample_audio])) (t_client (waiting_task []))"

definition example_lenv :: "(unit, unit, unit, unit, unit) lib_env" where
  "example_lenv = \<lparr>le_env = example_env, le_version = [], le_now = 0, le_crypto = mini_crypto,
     le_connect = \<lambda>_. Some (Ok (sample_client, book_new 1
       \<lparr>sv_codec_encryption_mode = PerChannel, sv_optional_data = None, sv_connection_data = None\<rparr>)),
     le_identity = \<lambda>i _. Some (Some i), le_parse = \<lambda>_. None, le_generated = \<lambda>_ bk. (Ok (False, []), bk),
     le_to_packet = \<lambda>_. \<lparr>op_dir = C2S, op_data = []\<rparr>, le_tcp = \<lambda>_. None, le_set_connected_time = \<lambda>_ d. d,
     le_book_of = \<lambda>_. (1, \<lparr>sv_codec_encryption_mode = PerChannel, sv_optional_data = None, sv_connection_data = None\<rparr>)\<rparr>"

definition example_options :: con_options where
  "example_options = connect_options_default\<lparr>op_identity := Some \<lparr>id_key = [], id_counter = 0, id_max_counter = 0\<rparr>\<rparr>"

fun polls :: "nat \<Rightarrow> ('d, 'ip, 'i, 'x, 't) lib_env \<Rightarrow> ('d, 'ip, 'i, 'x, 't) con
    \<Rightarrow> (('d, ('ip, 'i, 'x) message, 't) lib_result list \<times> ('d, 'ip, 'i, 'x, 't) con) option" where
  "polls 0 lenv lc = Some ([], lc)"
| "polls (Suc n) lenv lc =
     (case lib_poll_next lenv lc of
        None \<Rightarrow> None
      | Some (p, lc) \<Rightarrow>
          if p = Ready (Some Panic) then None
          else map_option (\<lambda>(items, lc). (item_list p @ items, lc)) (polls n lenv lc))"

lemma lib_run_polls:
  "lib_run items lc \<Longrightarrow> polls n lenv lc = Some (new, lc') \<Longrightarrow> lib_run (items @ new) lc'"
proof (induction n arbitrary: items lc new)
  case (Suc n)
  obtain p lc1 where p: "lib_poll_next lenv lc = Some (p, lc1)" "p \<noteq> Ready (Some Panic)"
    using Suc.prems(2) by (auto split: option.splits if_splits)
  with Suc.prems(2) obtain rest where rest: "polls n lenv lc1 = Some (rest, lc')" "new = item_list p @ rest" by auto
  from Suc.IH [OF lib_run.poll [OF Suc.prems(1) p] rest(1)] rest(2) show ?case by simp
qed simp

lemma polls_queue:
  "Panic \<notin> set (lc_items lc) \<Longrightarrow>
     polls (length (lc_items lc)) lenv lc = Some (lc_items lc, lc\<lparr>lc_items := []\<rparr>)"
proof (induction "lc_items lc" arbitrary: lc)
  case (Cons item queue)
  have "polls (length queue) lenv (lc\<lparr>lc_items := queue\<rparr>) = Some (queue, lc\<lparr>lc_items := []\<rparr>)"
    using Cons.hyps(1) [of "lc\<lparr>lc_items := queue\<rparr>"] Cons.hyps(2) [symmetric] Cons.prems by simp
  then show ?case using Cons.hyps(2) [symmetric] Cons.prems by (auto simp: lib_poll_next_def)
qed (simp add: polls.simps)

lemma example_client_polled:
  "\<exists>cl. client_poll_next example_env [] sample_client =
     Some (Ok (Ready (Some (AudioItem sample_audio))) :: (_, 't client_error) outcome, cl)"
  by (simp add: run_rules sample_client_def del: act_simps step_then_def cong: lazy_congs)

lemma example_audio_item:
  "lib_audio_item sample_audio bk options = (if intern_can_receive_audio bk options then Some (Some (Ok (AudioPacket sample_audio))) else None)"
  by (simp add: lib_audio_item_def sample_audio_def run_rules intern_can_receive_unencrypted_audio_def)

abbreviation "example_start \<equiv>
  \<lparr>lc_state = StConnecting example_options False False, lc_options = example_options, lc_items = []\<rparr>"

lemma example_connect: "lib_connect mini_crypto [] example_options = Ok example_start"
  by (simp add: lib_connect_def example_options_def connect_options_default_def Let_def)

lemma example_polls:
  "\<exists>lc lc'. polls 3 example_lenv example_start = Some ([
       Ok (BookEvents [PropertyAdded ServerProp None None]), Ok (AudioChange (CanSendAudio True)),
       Ok (AudioChange (CanReceiveAudio True))], lc) \<and> can_send_audio lc \<and> can_receive_audio lc \<and>
     lib_poll_next example_lenv lc = Some (Ready (Some (Ok (AudioPacket sample_audio))), lc')"
proof -
  let ?bk = "book_new 1 \<lparr>sv_codec_encryption_mode = PerChannel, sv_optional_data = None, sv_connection_data = None\<rparr> :: unit book"
  let ?lc = "\<lambda>cl. \<lparr>lc_state = StConnected \<lparr>cc_client = cl, cc_return_code = 0, cc_filetransfer_id = 0,
      cc_subscribed = False, cc_filetransfers = [], cc_connection_time = 0\<rparr> ?bk,
      lc_options = example_options, lc_items = []\<rparr> :: (unit, unit, unit, unit, unit) con"
  obtain cl where cl: "client_poll_next example_env [] sample_client =
      Some (Ok (Ready (Some (AudioItem sample_audio))) :: (_, unit client_error) outcome, cl)"
    using example_client_polled by blast
  have on: "intern_can_send_audio ?bk example_options" "intern_can_receive_audio ?bk example_options"
    by (simp_all add: intern_can_send_audio_def intern_can_receive_audio_def book_new_def example_options_def
        connect_options_default_def)
  have "polls 3 example_lenv example_start = Some ([
       Ok (BookEvents [PropertyAdded ServerProp None None]), Ok (AudioChange (CanSendAudio True)),
       Ok (AudioChange (CanReceiveAudio True))], ?lc sample_client)"
    using on by (simp add: numeral_eq_Suc lib_poll_next_def poll_connecting_def example_lenv_def audio_changes_def)
  moreover have "lib_poll_next example_lenv (?lc sample_client) =
      Some (Ready (Some (Ok (AudioPacket sample_audio))), ?lc cl)"
    using on cl by (simp add: lib_poll_next_def, subst poll_loop.simps)
      (simp add: example_lenv_def client_result_def example_audio_item)
  ultimately show ?thesis using on by (auto simp: can_send_audio_def can_receive_audio_def)
qed

text \<open>
  C5 (announcements are the mute state): at every moment of every run, the announcements among the items
  that were delivered and those that wait, together with the rule that a temporary disconnect mutes, give
  exactly what \<open>can_send_audio\<close> and \<open>can_receive_audio\<close> return; polling until the queue is empty tells the user.
\<close>

theorem announcements_are_mute_state:
  assumes "lib_run items lc"
  shows "announced (False, False) (items @ lc_items lc) = (can_send_audio lc, can_receive_audio lc) \<and>
    polls (length (lc_items lc)) lenv lc = Some (lc_items lc, lc\<lparr>lc_items := []\<rparr>)"
  using lib_run_inv [OF assms] polls_queue [of lc lenv] by (simp add: run_inv_def)

theorem announcements_are_mute_state_witness:
  "\<exists>(lc :: (unit, unit, unit, unit, unit) con) items. lib_run items lc \<and> can_send_audio lc \<and> can_receive_audio lc \<and>
     announced (False, False) (items @ lc_items lc) = (True, True)"
proof -
  obtain lc items where lc: "polls 3 example_lenv example_start = Some (items, lc)" "can_send_audio lc" "can_receive_audio lc"
    using example_polls by blast
  note run = lib_run_polls [OF lib_run.start [OF example_connect] lc(1)]
  show ?thesis using announcements_are_mute_state [OF run, of example_lenv] run lc(2,3) by (intro exI conjI) auto
qed

text \<open>
  C24 (audio that must not be heard is not delivered): an audio packet that the stream delivers arrived while
  the output was not muted, and it was encrypted or the server or the channel of the client allow audio
  that is not. This holds for every run: no audio packet ever waits in the queue.
\<close>

theorem delivered_audio_may_play:
  assumes "lib_run items lc" "lib_poll_next lenv lc = Some (Ready (Some (Ok (AudioPacket audio))), lc')"
  shows "may_play lc' audio \<and> lc_items lc = []"
proof (cases "lc_items lc")
  case Nil
  from lib_poll_next_announces [OF assms(2) _ Nil] show ?thesis using Nil by (auto simp: announces_def)
next
  case (Cons item queue)
  then show ?thesis using assms(2) lib_run_inv [OF assms(1)] by (auto simp: lib_poll_next_def run_inv_def)
qed

theorem delivered_audio_may_play_witness:
  "\<exists>(lc :: (unit, unit, unit, unit, unit) con) items. lib_run items lc \<and> may_play lc sample_audio"
proof -
  obtain lc items lc' where lc: "polls 3 example_lenv example_start = Some (items, lc)"
    "lib_poll_next example_lenv lc = Some (Ready (Some (Ok (AudioPacket sample_audio))), lc')"
    using example_polls by blast
  note run = lib_run_polls [OF lib_run.start [OF example_connect] lc(1)]
  from delivered_audio_may_play [OF run lc(2)] lib_run.poll [OF run lc(2)] show ?thesis by blast
qed

text \<open>A connection that times out is muted without an announcement: only the lost connection is reported.\<close>

lemma timeout_not_announced:
  assumes "res_state (resender (cl_con (cc_client con))) = Connected"
  shows "client_result lenv (Err (TsProto (Timeout reason))) con bk lc =
      (Some (Some (Ok (DisconnectedTemporarily (TimeoutReason reason)))), reconnecting lc)"
    "lc_items (reconnecting lc) = lc_items lc" "\<not> can_send_audio (reconnecting lc)" "\<not> can_receive_audio (reconnecting lc)"
  using assms by (simp_all add: client_result_def reconnecting_def can_send_audio_def can_receive_audio_def)

section \<open>Answers to commands\<close>

lemma error_answers_append: "fst (error_answers (ps @ qs)) = fst (error_answers ps) @ fst (error_answers qs)"
  by (induction ps) (auto simp: Let_def split: prod.splits option.splits outcome.splits)

lemma list_all2_snoc: "list_all2 P (xs @ [x]) zs \<Longrightarrow> \<exists>ys y. zs = ys @ [y] \<and> list_all2 P xs ys \<and> P x y"
  by (auto simp: list_all2_append1 list_all2_Cons1)

lemma con_send_with_result_Ok:
  assumes "con_send_with_result env packet con = (Ok handle :: (_, 't lib_error) outcome, con')"
  obtains sent where "write_arg (ascii ''return_code'') (show_nat (unat handle)) packet = (Ok sent :: (_, 't lib_error) outcome)"
    "con_send_command env sent (con\<lparr>cc_return_code := handle + 1\<rparr>) = (Ok () :: (_, 't lib_error) outcome, con')"
    "handle = cc_return_code con" "unat (cc_return_code con) + 1 < 65536" "cc_return_code con' = handle + 1"
proof -
  let ?code = "cc_return_code con" and ?con = "cc_return_code_update (\<lambda>_. cc_return_code con + 1) con"
  have lt: "unat ?code + 1 < 65536"
    using assms by (auto simp: con_send_with_result_def act_then.simps checked_plus_def split: if_splits)
  obtain sent where sent: "write_arg (ascii ''return_code'') (show_nat (unat ?code)) packet = (Ok sent :: (_, 't lib_error) outcome)"
    using assms lt
    by (cases "write_arg (ascii ''return_code'') (show_nat (unat ?code)) packet :: (_, 't lib_error) outcome")
      (auto simp: con_send_with_result_def act_then.simps checked_plus_def)
  obtain r con2 where run: "(con_send_command env sent ?con :: (_, 't lib_error) outcome \<times> _) = (r, con2)" by fastforce
  have "r = Ok () \<and> handle = ?code \<and> con2 = con'"
    using assms lt sent run
    by (cases r) (auto simp: con_send_with_result_def act_then.simps checked_plus_def)
  then have r: "r = Ok ()" "handle = ?code" "con2 = con'" by blast+
  have "cc_return_code con' = ?code + 1"
    using run r(3) by (auto simp: con_send_command_def on_client_def act_then.simps split: prod.splits outcome.splits)
  with that [of sent] sent lt run r show ?thesis by simp
qed

text \<open>
  C25 (the answer to a command finds its handle): let a command be written with \<open>OutCommand\<close> (a name of
  letters and digits, arguments with valid names, no new part first, flags that leave the bits of the packet
  type alone) and sent with a handle without an error. The handle is
  the number of the counter, which counts on. The packet that goes to the client is the command with one
  more argument at the end: its parser yields the name and the arguments that were written, and then
  \<open>return_code\<close>. An answer of the server with the value of that argument, wherever it stands among other
  answers, is reported with exactly this handle, and with no error when the server reports success.
\<close>

theorem command_answer_reported:
  assumes "valid_command_name name" "valid_flags f" "list_all valid_op ops" "ops = [] \<or> hd ops \<noteq> NewPart"
    and "write_command dir f t name ops = (Ok packet :: (_, 't lib_error) outcome)"
    and "con_send_with_result env packet con = (Ok handle :: (_, 't lib_error) outcome, con')"
  shows "handle = cc_return_code con \<and> unat (cc_return_code con') = unat handle + 1 \<and>
    (\<exists>sent c q items code v.
       con_send_command env sent (con\<lparr>cc_return_code := handle + 1\<rparr>) = (Ok () :: (_, 't lib_error) outcome, con') \<and>
       out_content sent = (Ok c :: (_, unit) outcome) \<and> command_parser_new c = (name, q) \<and>
       parse_items q = items @ [Argument (ascii ''return_code'') code] \<and> list_all2 op_matches ops items \<and>
       value_get code = (Ok v :: (_, unit) outcome) \<and>
       (\<forall>before answer after. er_return_code answer = Some v \<longrightarrow>
          fst (error_answers (before @ answer # after)) = fst (error_answers before) @
          (Ok (MessageResult handle (if er_id answer = TsOk then None else Some (er_id answer, er_missing_permission answer)))
             :: ('d, 'm, 't) lib_result) # fst (error_answers after)))"
proof -
  let ?v = "show_nat (unat handle)" and ?rc = "ascii ''return_code''"
  obtain sent where sent: "write_arg ?rc ?v packet = (Ok sent :: (_, 't lib_error) outcome)"
    "con_send_command env sent (con\<lparr>cc_return_code := handle + 1\<rparr>) = (Ok () :: (_, 't lib_error) outcome, con')"
    and code: "handle = cc_return_code con" "unat (cc_return_code con) + 1 < 65536" "cc_return_code con' = handle + 1"
    by (rule con_send_with_result_Ok [OF assms(6)])
  have ops: "list_all valid_op (ops @ [WriteArg ?rc ?v])" "ops @ [WriteArg ?rc ?v] = [] \<or> hd (ops @ [WriteArg ?rc ?v]) \<noteq> NewPart"
    using assms(3,4) by (cases ops; simp add: valid_arg_name_def name_ends_def spaces_def ascii_def)+
  have written: "write_command dir f t name (ops @ [WriteArg ?rc ?v]) = (Ok sent :: (_, 't lib_error) outcome)"
    using write_command_append [OF assms(5)] sent(1) by simp
  obtain p c q where parsed: "write_command dir f t name (ops @ [WriteArg ?rc ?v]) = (Ok p :: (_, unit) outcome)"
    "out_content p = (Ok c :: (_, unit) outcome)" "command_parser_new c = (name, q)"
    "list_all2 op_matches (ops @ [WriteArg ?rc ?v]) (parse_items q)"
    using written_command_parses [OF assms(1,2) ops] by blast
  have "p = sent" using written parsed(1) write_command_bytes [OF assms(1,2) ops(1), where ?'e = unit]
      write_command_bytes [OF assms(1,2) ops(1), where ?'e = "'t lib_error"] by simp
  obtain items last_item where items: "parse_items q = items @ [last_item]" "list_all2 op_matches ops items"
    "op_matches (WriteArg ?rc ?v) last_item"
    using list_all2_snoc [OF parsed(4)] by blast
  obtain arg where arg: "last_item = Argument ?rc arg" "value_get arg = (Ok ?v :: (_, unit) outcome)"
    using items(3) by (cases last_item) auto
  have "fst (error_answers (before @ answer # after)) = fst (error_answers before) @
      (Ok (MessageResult handle (if er_id answer = TsOk then None else Some (er_id answer, er_missing_permission answer)))
         :: ('d, 'm, 't) lib_result) # fst (error_answers after)" if "er_return_code answer = Some ?v" for before answer after
    using that by (auto simp: error_answers_append parse_uint_show Let_def split: prod.splits)
  moreover have "unat (cc_return_code con') = unat handle + 1"
    using code by (simp add: unat_plus_no_carry)
  ultimately show ?thesis
    using code(1) sent(2) parsed(2,3) items(1,2) arg \<open>p = sent\<close> by blast
qed

abbreviation "example_connected \<equiv>
  \<lparr>cc_client = t_client (waiting_task []), cc_return_code = 7, cc_filetransfer_id = 0, cc_subscribed = False,
   cc_filetransfers = [] :: unit transfer list, cc_connection_time = 0\<rparr>"

abbreviation "example_command args \<equiv> \<lparr>op_dir = C2S, op_data = hdr C2S (replicate 8 0) 0 0 0 Command @ args\<rparr>"

lemma example_return_code:
  "write_arg (ascii ''return_code'') (show_nat 7) (example_command [97]) =
     Ok (example_command (ascii ''a return_code=7''))"
  by (simp add: show_nat.simps run_commands run_packet_header run_rust_prelude and_then.simps)

lemma example_client_sends:
  "\<exists>i cl. client_send_packet example_env (example_command (ascii ''a return_code=7'')) (t_client (waiting_task [])) =
     (Ok i :: (_, 't client_error) outcome, cl)"
  by (simp add: run_rules del: act_simps step_then_def cong: lazy_congs)

lemma example_command_sent:
  "\<exists>con'. con_send_with_result example_env (example_command [97]) example_connected =
     (Ok 7 :: (_, 't lib_error) outcome, con')"
proof -
  obtain i cl where "client_send_packet example_env (example_command (ascii ''a return_code=7'')) (t_client (waiting_task [])) =
     (Ok i :: (_, 't client_error) outcome, cl)"
    using example_client_sends by blast
  then show ?thesis
    by (simp add: con_send_with_result_def con_send_command_def on_client_def act_then.simps act_simps
        checked_plus_def example_return_code del: show_nat.simps)
qed

abbreviation "example_answer v \<equiv>
  \<lparr>er_id = TsOk, er_missing_permission = None, er_return_code = Some v, er_extra_message = None\<rparr>"

theorem command_answer_reported_witness:
  "\<exists>con' c q items code v. con_send_with_result example_env (example_command [97]) example_connected =
       (Ok 7 :: (_, unit lib_error) outcome, con') \<and> unat (cc_return_code con') = 8 \<and>
     command_parser_new c = ([97], q) \<and> parse_items q = items @ [Argument (ascii ''return_code'') code] \<and>
     value_get code = (Ok v :: (_, unit) outcome) \<and>
     fst (error_answers [example_answer v]) = [Ok (MessageResult 7 None) :: (unit, unit, unit) lib_result]"
proof -
  obtain con' where run: "con_send_with_result example_env (example_command [97]) example_connected =
      (Ok 7 :: (_, unit lib_error) outcome, con')"
    using example_command_sent by blast
  have name: "valid_command_name [97]" "valid_flags 0" "list_all valid_op []" "[] = [] \<or> hd [] \<noteq> NewPart"
    by (simp_all add: valid_command_name_def is_ascii_alphanumeric_def valid_flags_def)
  have "write_command C2S 0 Command [97] [] = (Ok (example_command [97]) :: (_, unit lib_error) outcome)"
    using write_command_bytes [OF name(1-3), of C2S Command] by simp
  from command_answer_reported [OF name this run, where ?'d = unit and ?'m = unit] obtain c q items code v where
    "unat (cc_return_code con') = 8" "command_parser_new c = ([97], q)"
    "parse_items q = items @ [Argument (ascii ''return_code'') code]" "value_get code = (Ok v :: (_, unit) outcome)"
    and all: "\<And>before answer after. er_return_code answer = Some v \<Longrightarrow> fst (error_answers (before @ answer # after)) =
      fst (error_answers before) @ (Ok (MessageResult 7 (if er_id answer = TsOk then None
        else Some (er_id answer, er_missing_permission answer))) :: (unit, unit, unit) lib_result) # fst (error_answers after)"
    by auto
  moreover have "fst (error_answers [example_answer v]) = [Ok (MessageResult 7 None) :: (unit, unit, unit) lib_result]"
    using all [of "example_answer v" "[]" "[]"] by (simp del: error_answers.simps(2))
  ultimately show ?thesis using run by blast
qed

text \<open>The counter is not wrapped: after 65535 commands with a handle the next one panics.\<close>

lemma handles_run_out: "fst (con_send_with_result env packet (con\<lparr>cc_return_code := 0xFFFF\<rparr>)) = Panic"
  by (simp add: con_send_with_result_def act_then.simps act_simps checked_plus_def)

section \<open>Disconnecting\<close>

text \<open>
  C26 (a disconnect ends): a connection that waits for the answer to its disconnect and has nothing left to
  send or to acknowledge ends its stream at the first poll after the timeout.
\<close>

theorem disconnect_ends_stream:
  assumes "lc_state lc = StConnected con bk" "lc_items lc = []"
    and "acks_to_send (cl_con (cc_client con)) = []" "res_state (resender (cl_con (cc_client con))) = Disconnecting"
    and "send_queue (resender (cl_con (cc_client con))) = []"
    and "get_timeout (resender (cl_con (cc_client con)))
      \<le> now (le_env lenv) - last_send (resender (cl_con (cc_client con)))"
  shows "\<exists>lc'. lib_poll_next lenv lc = Some (Ready None, lc')"
proof -
  let ?c = "cl_con (cc_client con)"
  have "poll_resend (le_env lenv) ?c = Some (Ok (), ?c)"
    using assms(5) by (simp add: poll_resend_def poll_resend_loop.simps heap_peek_def Let_def)
  moreover have "poll_ping (le_env lenv) ?c = Some (Err (Timeout ''No disconnect ack received''), ?c)"
    using assms(4,6) by (simp add: poll_ping_def check_disconnecting_def act_then.simps act_simps)
  ultimately have "poll_next (le_env lenv) ?c = Some (Err (Timeout ''No disconnect ack received''), ?c)"
    using assms(3,4) by (simp add: poll_next_def poll_send_acks_def opt_then_def act_simps)
  then have "client_poll_next (le_env lenv) (le_version lenv) (cc_client con) =
      Some (Err (TsProto (Timeout ''No disconnect ack received'')) :: (_, 'e client_error) outcome, cc_client con)"
    by (simp add: client_poll_next_def)
  then show ?thesis
    using assms(1,2,4) by (simp add: lib_poll_next_def, subst poll_loop.simps) (simp add: client_result_def)
qed

abbreviation "example_leaving \<equiv> \<lparr>lc_state = StConnected (example_connected\<lparr>cc_client := cl_con_update
    (resender_update (res_state_update (\<lambda>_. Disconnecting))) (t_client (waiting_task []))\<rparr>) (book_new 1
      \<lparr>sv_codec_encryption_mode = PerChannel, sv_optional_data = None, sv_connection_data = None\<rparr>),
  lc_options = example_options, lc_items = []\<rparr> :: (unit, unit, unit, unit, unit) con"

theorem disconnect_ends_stream_witness:
  "\<exists>lc'. lib_poll_next (example_lenv\<lparr>le_env := example_env\<lparr>now := 10 ^ 12\<rparr>\<rparr>) example_leaving = Some (Ready None, lc')"
  by (rule disconnect_ends_stream [where con = "example_connected\<lparr>cc_client := cl_con_update
      (resender_update (res_state_update (\<lambda>_. Disconnecting))) (t_client (waiting_task []))\<rparr>" and bk = "book_new 1
      \<lparr>sv_codec_encryption_mode = PerChannel, sv_optional_data = None, sv_connection_data = None\<rparr>"])
    (simp_all add: waiting_task_def client_new_def connection_new_def resender_default_def get_timeout_def
      resend_config_default_def from_secs_def example_env_def)

section \<open>The server that is connected to\<close>

lemma keys_client_step: "run_keeps (task_keys K) r \<Longrightarrow> client_step f r = Some (x, t) \<Longrightarrow> x \<noteq> Panic \<Longrightarrow> task_keys K t"
  by (cases r) (auto simp: client_step_def run_keeps_def)

lemma keys_wait_initserver:
  fixes lenv :: "('d, 'ip, 'i, 'x, 't) lib_env"
  assumes "wait_initserver lenv t = Some rt"
  shows "task_keys K t \<longrightarrow> fst rt \<noteq> Panic \<longrightarrow> task_keys K (snd rt)"
proof (rule wait_initserver.raw_induct [OF _ assms,
    where P = "\<lambda>_ t rt. task_keys K t \<longrightarrow> fst rt \<noteq> Panic \<longrightarrow> task_keys K (snd rt)"], goal_cases)
  case (1 loop lenv t rt)
  note IH = 1(1) and body = 1(2)
  obtain r t1 where n: "next_command (le_version lenv) t = Some (r :: (_, 't lib_error) outcome, t1)"
    using body by (cases "next_command (le_version lenv) t :: ('t, in_packet) lib_task") auto
  have k: "task_keys K t1" if "task_keys K t" "r \<noteq> Panic"
    using keys_client_step [OF keys_filter_items [OF that(1)] n [unfolded next_command_def filter_commands_def] that(2)] .
  show ?case
  proof (cases "\<exists>cmd. r = Ok cmd \<and> loop lenv t1 = Some rt")
    case True
    then show ?thesis using IH [of lenv t1 rt] k by auto
  next
    case False
    then have "snd rt = t1 \<and> (fst rt \<noteq> Panic \<longrightarrow> r \<noteq> Panic)"
      using body n by (auto split: outcome.splits option.splits in_message.splits other_message.splits)
    then show ?thesis using k by auto
  qed
qed

lemma keys_send_step:
  fixes f :: "'t client_error \<Rightarrow> 't lib_error"
  assumes "task_keys K t" "client_step f (task_do (\<lambda>env. client_send_packet env packet) t) = Some (Ok x, t')"
  shows "task_keys K t'"
proof -
  obtain r cl where send: "client_send_packet (t_env t) packet (t_client t) = (r :: (_, 't client_error) outcome, cl)"
    by fastforce
  then have "(map_err f r, t\<lparr>t_client := cl\<rparr>) = (Ok x, t')"
    using assms(2) by (simp add: client_step_def task_do_def)
  then have t': "t' = t\<lparr>t_client := cl\<rparr>" and r: "r \<noteq> Panic" by auto
  have "client_keys K cl"
    by (rule keeps_use [OF keys_client_send(2) _ send r]) (use assms(1) in simp)
  then show ?thesis using t' by simp
qed

lemma check_server_Ok:
  "check_server env (options\<lparr>op_server := Some uid\<rparr>) t = Ok () \<Longrightarrow>
     \<exists>ps. params (cl_con (t_client t)) = Some ps \<and> get_uid_no_base64 env (cp_public_key ps) = Ok uid"
  by (auto simp: check_server_def connected_params_of_def and_then_Ok_iff split: if_splits option.splits
      elim!: ok_or.elims unwrap.elims)

lemma keys_with_timeout:
  assumes "with_timeout timer (wait_initserver lenv) t = Some (Ok bk, t')" "task_keys K t"
  shows "task_keys K t'"
  using assms keys_wait_initserver [of lenv t "(Ok bk, t')" K]
  by (auto simp: with_timeout_def split: option.splits if_splits)

text \<open>
  C23 (a pinned server is the one that is connected to): when the options name the uid of the server and
  connecting to an address succeeds, the key of the connection that is then used hashes to that uid; nothing
  that the server sends while the client waits for \<open>initserver\<close> replaces the key.
\<close>

theorem pinned_server_reached:
  fixes lenv :: "('d, 'ip, 'i, 'x, 't::linorder) lib_env"
  assumes "connect_to cenv lenv timer (options\<lparr>op_server := Some uid\<rparr>) t = Some (Ok bk, t')"
  shows "\<exists>ps. params (cl_con (t_client t')) = Some ps \<and> get_uid_no_base64 (crypto cenv) (cp_public_key ps) = Ok uid"
proof -
  obtain t1 t2 packet i where run:
      "check_server (crypto cenv) (options\<lparr>op_server := Some uid\<rparr>) t1 = (Ok () :: (_, 't lib_error) outcome)"
      "client_step SendClientinit (task_do (\<lambda>env. client_send_packet env packet) t1) = (Some (Ok i, t2) :: ('t, _) lib_task)"
      "with_timeout timer (wait_initserver lenv) t2 = Some (Ok bk, t')"
    using assms unfolding connect_to_def opt_then_Ok Let_def by (elim exE conjE) (auto intro: that)
  obtain ps where ps: "params (cl_con (t_client t1)) = Some ps" "get_uid_no_base64 (crypto cenv) (cp_public_key ps) = Ok uid"
    using check_server_Ok [OF run(1)] by blast
  then have "task_keys (Some (params_keys ps)) t1" by (simp add: con_keys_def)
  from keys_with_timeout [OF run(3) keys_send_step [OF this run(2)]] ps(2) show ?thesis
    by (auto simp: con_keys_def)
qed

theorem pinned_server_reached_witness:
  "\<exists>bk t' ps. connect_to mini_client_env pinned_lenv False (pinned_options\<lparr>op_server := Some (replicate 20 1)\<rparr>) pinned_task
     = Some (Ok bk, t') \<and> params (cl_con (t_client t')) = Some ps \<and>
     get_uid_no_base64 (crypto mini_client_env) (cp_public_key ps) = Ok (replicate 20 1)"
proof -
  obtain bk t' where run: "connect_to mini_client_env pinned_lenv False (pinned_options\<lparr>op_server := Some (replicate 20 1)\<rparr>)
      pinned_task = Some (Ok bk, t')"
    using pinned_run by blast
  from pinned_server_reached [OF run] run show ?thesis by blast
qed

end
