(* ===== verification/Bookkeeping_Props.thy ===== *)
theory Bookkeeping_Props
  imports Bookkeeping "HOL-Library.Multiset"
begin

text \<open>
  Properties of the book: the order fields of the channels represent one list of channels for every parent,
  and adding, removing and moving a channel are insertion and removal in these lists; the clients that an
  unsubscription forgets; names and messages; the limits of a channel in messages and back.
\<close>

section \<open>Hash maps\<close>

definition shuffle_law :: "('k, 'v) shuffle \<Rightarrow> bool" where
  "shuffle_law sh \<longleftrightarrow> (\<forall>m. mset (sh m) = mset m)"

lemma map_of_mset:
  assumes "mset m' = mset m" "distinct (map fst m)"
  shows "map_of m' = map_of m" "distinct (map fst m')"
proof -
  have keys: "mset (map fst m') = mset (map fst m)" using assms(1) by (metis mset_map)
  then show d: "distinct (map fst m')" using assms(2) by (metis mset_eq_imp_distinct_iff)
  have "set m' = set m" using assms(1) by (metis set_mset_mset)
  then show "map_of m' = map_of m" using d assms(2) map_of_inject_set by blast
qed

lemma hm_insert:
  assumes "shuffle_law sh" "distinct (map fst m)"
  shows "map_of (hm_insert sh k v m) = (map_of m)(k \<mapsto> v)" "distinct (map fst (hm_insert sh k v m))"
proof -
  have "map_of (sh ((k, v) # m)) = map_of ((k, v) # m) \<and> distinct (map fst (sh ((k, v) # m)))"
    if "map_of m k = None"
    using map_of_mset [of "sh ((k, v) # m)" "(k, v) # m"] that assms
    by (auto simp: shuffle_law_def map_of_eq_None_iff)
  then show "map_of (hm_insert sh k v m) = (map_of m)(k \<mapsto> v)" "distinct (map fst (hm_insert sh k v m))"
    using assms(2) by (auto simp: hm_insert_def update_conv' distinct_update)
qed

lemma hm_remove [simp]:
  "map_of (hm_remove k m) = (map_of m)(k := None)"
  "distinct (map fst m) \<Longrightarrow> distinct (map fst (hm_remove k m))"
  by (simp_all add: hm_remove_def delete_conv' distinct_delete)

lemma hm_modify [simp]:
  "map_of (hm_modify k f m) = (map_of m)(k := map_option f (map_of m k))"
  "map fst (hm_modify k f m) = map fst m"
  unfolding hm_modify_def by (rule ext, induction m; auto) (induction m; auto)

lemma modify_first_keys [simp]: "map fst (fst (modify_first p f m)) = map fst m"
  by (induction m) (auto split: prod.splits)

lemma modify_first_none: "\<forall>v \<in> snd ` set m. \<not> p v \<Longrightarrow> modify_first p f m = (m, None)"
  by (induction m) auto

lemma modify_first_map_of:
  assumes "distinct (map fst m)"
    and "\<And>i j v w. map_of m i = Some v \<Longrightarrow> map_of m j = Some w \<Longrightarrow> p v \<Longrightarrow> p w \<Longrightarrow> i = j"
  shows "map_of (fst (modify_first p f m)) i = map_option (\<lambda>v. if p v then f v else v) (map_of m i)"
  using assms
proof (induction m arbitrary: i)
  case (Cons e m)
  obtain k v where e: "e = (k, v)" by fastforce
  have k: "map_of m k = None" using Cons.prems(1) e by (simp add: map_of_eq_None_iff)
  have uniq: "j = k" if "map_of m j = Some w" "p v" "p w" for j w
    using Cons.prems(2) [of k v j w] that k e by (cases "j = k") auto
  show ?case
  proof (cases "p v")
    case True
    then have "\<not> p w" if "map_of m j = Some w" for j w using uniq that k by force
    then have "map_option (\<lambda>v. if p v then f v else v) (map_of m i) = map_of m i" by (cases "map_of m i") auto
    then show ?thesis using e True by simp
  next
    case False
    have up: "map_of (e # m) j = Some w" if "map_of m j = Some w" for j w using that k e by auto
    have "map_of (fst (modify_first p f m)) i = map_option (\<lambda>v. if p v then f v else v) (map_of m i)"
    proof (rule Cons.IH)
      show "distinct (map fst m)" using Cons.prems(1) by simp
      show "i = j" if "map_of m i = Some v" "map_of m j = Some w" "p v" "p w" for i j v w
        using Cons.prems(2) [OF up up] that by blast
    qed
    then show ?thesis using e False by (simp add: split_beta)
  qed
qed simp

section \<open>Chains\<close>

text \<open>The channel before another one in a chain that starts behind \<open>prev\<close>, and insertion behind a channel.\<close>

fun pred_in :: "'a \<Rightarrow> 'a list \<Rightarrow> 'a \<Rightarrow> 'a" where
  "pred_in prev [] x = prev"
| "pred_in prev (y # ys) x = (if x = y then prev else pred_in y ys x)"

fun chain_insert :: "'a \<Rightarrow> 'a \<Rightarrow> 'a \<Rightarrow> 'a list \<Rightarrow> 'a list" where
  "chain_insert prev order x [] = [x]"
| "chain_insert prev order x (y # ys) = (if order = prev then x # y # ys else y # chain_insert y order x ys)"

lemma set_chain_insert [simp]: "set (chain_insert prev order x cs) = insert x (set cs)"
  by (induction cs arbitrary: prev) auto

lemma distinct_chain_insert [simp]:
  "distinct (chain_insert prev order x cs) \<longleftrightarrow> x \<notin> set cs \<and> distinct cs"
  by (induction cs arbitrary: prev) auto

lemma pred_in_mem: "c \<in> set cs \<Longrightarrow> pred_in prev cs c \<in> set (prev # cs)"
  by (induction cs arbitrary: prev) auto

lemma pred_in_not_later: "distinct (prev # cs) \<Longrightarrow> c \<in> set cs \<Longrightarrow> pred_in prev cs c \<noteq> c"
  by (induction cs arbitrary: prev) auto

lemma pred_in_inj:
  "distinct (prev # cs) \<Longrightarrow> c \<in> set cs \<Longrightarrow> d \<in> set cs \<Longrightarrow> pred_in prev cs c = pred_in prev cs d \<Longrightarrow> c = d"
proof (induction cs arbitrary: prev)
  case (Cons y ys)
  have "pred_in y ys e \<noteq> prev" if "e \<in> set ys" for e
    using pred_in_mem [OF that, of y] Cons.prems(1) by auto
  then show ?case using Cons by (auto split: if_splits)
qed simp

lemma pred_in_insert:
  assumes "distinct (prev # cs)" "x \<notin> set (prev # cs)" "order \<in> set (prev # cs)"
  shows "pred_in prev (chain_insert prev order x cs) x = order"
    and "c \<in> set cs \<Longrightarrow> pred_in prev (chain_insert prev order x cs) c
      = (if pred_in prev cs c = order then x else pred_in prev cs c)"
proof -
  show "pred_in prev (chain_insert prev order x cs) x = order"
    using assms by (induction cs arbitrary: prev) auto
  show "c \<in> set cs \<Longrightarrow> pred_in prev (chain_insert prev order x cs) c
      = (if pred_in prev cs c = order then x else pred_in prev cs c)"
    using assms
  proof (induction cs arbitrary: prev)
    case (Cons y ys)
    have "pred_in y ys c \<noteq> prev" if "c \<in> set ys"
      using pred_in_mem [OF that, of y] Cons.prems(2) by auto
    then show ?case using Cons by auto
  qed simp
qed

lemma pred_in_remove:
  "distinct (prev # cs) \<Longrightarrow> x \<in> set cs \<Longrightarrow> c \<in> set cs \<Longrightarrow> c \<noteq> x \<Longrightarrow>
    pred_in prev (remove1 x cs) c = (if pred_in prev cs c = x then pred_in prev cs x else pred_in prev cs c)"
proof (induction cs arbitrary: prev)
  case (Cons y ys)
  show ?case
  proof (cases "x = y")
    case True
    then obtain z zs where ys: "ys = z # zs" using Cons.prems by (cases ys) auto
    have "pred_in z zs c \<noteq> y" if "c \<noteq> z"
      using pred_in_mem [of c zs z] that Cons.prems ys True by auto
    then show ?thesis using Cons.prems True ys by auto
  next
    case False
    then show ?thesis using Cons by auto
  qed
qed simp

section \<open>The order of the channels\<close>

text \<open>
  The order fields represent the list \<open>tree p\<close> for every parent \<open>p\<close>. The channels in \<open>M\<close> are being moved: they
  are in no list.
\<close>

definition channel_lists :: "channel_id set \<Rightarrow> (channel_id \<times> 'd book_channel) list
     \<Rightarrow> (channel_id \<Rightarrow> channel_id list) \<Rightarrow> bool" where
  "channel_lists M m tree \<longleftrightarrow>
     distinct (map fst m) \<and>
     (\<forall>i c. map_of m i = Some c \<longrightarrow> ch_id c = i \<and> i \<noteq> 0) \<and>
     (\<forall>p. distinct (0 # tree p)) \<and>
     (\<forall>p i. i \<in> set (tree p) \<longleftrightarrow> (\<exists>c. map_of m i = Some c \<and> ch_parent c = p \<and> i \<notin> M)) \<and>
     (\<forall>i c. map_of m i = Some c \<and> i \<notin> M \<longrightarrow> ch_order c = pred_in 0 (tree (ch_parent c)) i)"

lemma chainsD:
  assumes "channel_lists M m tree"
  shows "distinct (map fst m)" "map_of m i = Some c \<Longrightarrow> ch_id c = i" "map_of m i = Some c \<Longrightarrow> i \<noteq> 0"
    and "distinct (0 # tree p)" "i \<in> set (tree p) \<longleftrightarrow> (\<exists>c. map_of m i = Some c \<and> ch_parent c = p \<and> i \<notin> M)"
    and "map_of m i = Some c \<Longrightarrow> i \<notin> M \<Longrightarrow> ch_order c = pred_in 0 (tree (ch_parent c)) i"
  using assms unfolding channel_lists_def by blast+

lemma chains_cong:
  assumes "channel_lists M m tree" "distinct (map fst m')" "\<And>i. i \<notin> M \<Longrightarrow> map_of m' i = map_of m i"
    and "\<And>i c. i \<in> M \<Longrightarrow> map_of m' i = Some c \<Longrightarrow> ch_id c = i \<and> i \<noteq> 0"
  shows "channel_lists M m' tree"
proof -
  have "ch_id c = i \<and> i \<noteq> 0" if "map_of m' i = Some c" for i c
    using that assms(3) [of i] assms(4) [of i c] chainsD(2,3) [OF assms(1), of i c] by (cases "i \<in> M") auto
  moreover have "i \<in> set (tree p) \<longleftrightarrow> (\<exists>c. map_of m' i = Some c \<and> ch_parent c = p \<and> i \<notin> M)" for i p
    using chainsD(5) [OF assms(1), of i p] assms(3) [of i] by (cases "i \<in> M") simp_all
  moreover have "ch_order c = pred_in 0 (tree (ch_parent c)) i" if "map_of m' i = Some c" "i \<notin> M" for i c
    using chainsD(6) [OF assms(1), of i c] assms(3) [of i] that by auto
  ultimately show ?thesis using assms(2) chainsD(4) [OF assms(1)] unfolding channel_lists_def by blast
qed

text \<open>Two channels of one list do not name the same channel before them.\<close>

lemma chains_order_inj:
  assumes "channel_lists M m tree" "map_of m i = Some c" "map_of m j = Some d" "i \<notin> M" "j \<notin> M"
    and "ch_order c = ch_order d" "ch_parent c = ch_parent d"
  shows "i = j"
proof -
  have "i \<in> set (tree (ch_parent c))" "j \<in> set (tree (ch_parent c))"
    using chainsD(5) [OF assms(1)] assms by auto
  moreover have "pred_in 0 (tree (ch_parent c)) i = pred_in 0 (tree (ch_parent c)) j"
    using chainsD(6) [OF assms(1)] assms by (metis (no_types))
  ultimately show ?thesis using pred_in_inj [OF chainsD(4) [OF assms(1)]] by blast
qed

text \<open>The channel that another one names is a sibling.\<close>

lemma chains_order_parent:
  assumes "channel_lists M m tree" "map_of m i = Some c" "i \<notin> M" "ch_order c = k" "k \<noteq> 0"
  shows "k \<in> set (tree (ch_parent c))"
proof -
  have "i \<in> set (tree (ch_parent c))" using chainsD(5) [OF assms(1)] assms by auto
  from pred_in_mem [OF this, of 0] show ?thesis using chainsD(6) [OF assms(1,2,3)] assms(4,5) by auto
qed

abbreviation set_order :: "channel_id \<Rightarrow> 'd book_channel \<Rightarrow> 'd book_channel" where
  "set_order o' \<equiv> ch_order_update (\<lambda>_. o')"

lemma chains_take_out:
  assumes ch: "channel_lists {} m tree" "map_of m k = Some ck" "distinct (map fst m')"
    and same: "\<And>i. i \<noteq> k \<Longrightarrow> map_of m' i = map_of m i" and k: "\<And>c. map_of m' k = Some c \<Longrightarrow> ch_id c = k"
    and m'': "m'' = fst (modify_first (\<lambda>c. ch_order c = k \<and> ch_id c \<noteq> k) (set_order (ch_order ck)) m')"
  shows "channel_lists {k} m'' (tree(ch_parent ck := remove1 k (tree (ch_parent ck))))" "map_of m'' k = map_of m' k"
proof -
  let ?p = "\<lambda>c. ch_order c = k \<and> ch_id c \<noteq> k" and ?pk = "ch_parent ck"
  let ?tree = "tree(?pk := remove1 k (tree ?pk))"
  note d = chainsD [OF ch(1)]
  have id: "ch_id c = i" if "map_of m' i = Some c" for i c
    using that same [of i] k d(2) [of i c] by (cases "i = k") auto
  have kn: "k \<noteq> 0" "k \<in> set (tree ?pk)" using d(3) [OF ch(2)] d(5) [of k ?pk] ch(2) by auto
  have sib: "ch_parent c = ?pk" if "map_of m i = Some c" "ch_order c = k" for i c
    using chains_order_parent [OF ch(1) that(1) _ that(2) kn(1)] d(5) [of k "ch_parent c"] ch(2) by auto
  have m''_of: "map_of m'' i = map_option (\<lambda>c. if ?p c then set_order (ch_order ck) c else c) (map_of m' i)" for i
    unfolding m''
  proof (rule modify_first_map_of [OF ch(3)])
    fix i j v w assume a: "map_of m' i = Some v" "map_of m' j = Some w" "?p v" "?p w"
    then have "i \<noteq> k" "j \<noteq> k" using id by auto
    then have "map_of m i = Some v" "map_of m j = Some w" using a same by auto
    then show "i = j" using chains_order_inj [OF ch(1), of i v j w] a(3,4) sib by auto
  qed
  show kk: "map_of m'' k = map_of m' k" using m''_of [of k] id by (cases "map_of m' k") auto
  have other: "map_of m'' i = map_option (\<lambda>c. if ch_order c = k then set_order (ch_order ck) c else c) (map_of m i)"
    if "i \<noteq> k" for i
    using m''_of [of i] same [OF that] d(2) [of i] that by (cases "map_of m i") auto
  have "distinct (map fst m'')" using ch(3) m'' by simp
  moreover have "ch_id c = i \<and> i \<noteq> 0" if "map_of m'' i = Some c" for i c
  proof (cases "i = k")
    case True
    then show ?thesis using that kk kn id by simp
  next
    case False
    then show ?thesis using other [OF False] that d(2,3) [of i] by (cases "map_of m i") (auto split: if_splits)
  qed
  moreover have "distinct (0 # ?tree p)" for p
    using d(4) [of p] by (auto dest: notin_set_remove1)
  moreover have "i \<in> set (?tree p) \<longleftrightarrow> (\<exists>c. map_of m'' i = Some c \<and> ch_parent c = p \<and> i \<notin> {k})" for i p
  proof (cases "i = k")
    case True
    then show ?thesis using d(4) [of ?pk] d(5) [of k p] ch(2) by auto
  next
    case False
    have "i \<in> set (?tree p) \<longleftrightarrow> i \<in> set (tree p)" using False d(4) [of ?pk] by auto
    also have "\<dots> \<longleftrightarrow> (\<exists>c. map_of m'' i = Some c \<and> ch_parent c = p)"
      using d(5) [of i p] other [OF False] by (cases "map_of m i") auto
    finally show ?thesis using False by simp
  qed
  moreover have "ch_order c = pred_in 0 (?tree (ch_parent c)) i" if c: "map_of m'' i = Some c" and ik: "i \<notin> {k}" for i c
  proof -
    obtain b where b: "map_of m i = Some b" "c = (if ch_order b = k then set_order (ch_order ck) b else b)"
      using other [of i] c ik by (cases "map_of m i") auto
    have order: "ch_order b = pred_in 0 (tree (ch_parent b)) i" "ch_order ck = pred_in 0 (tree ?pk) k"
      using d(6) [OF b(1)] d(6) [OF ch(2)] by auto
    show ?thesis
    proof (cases "ch_parent b = ?pk")
      case True
      have "i \<in> set (tree ?pk)" using d(5) [of i ?pk] b(1) True by auto
      from pred_in_remove [OF d(4) kn(2) this] show ?thesis using ik b(2) order True by auto
    next
      case False
      then show ?thesis using b order sib [OF b(1)] by auto
    qed
  qed
  ultimately show "channel_lists {k} m'' ?tree" unfolding channel_lists_def by blast
qed

lemma chains_put_in:
  assumes ch: "channel_lists {k} m tree" and kn: "k \<noteq> 0" and ord: "ord = 0 \<or> ord \<in> set (tree p)"
    and m': "m' = fst (modify_first (\<lambda>c. ch_order c = ord \<and> ch_parent c = p \<and> ch_id c \<noteq> k) (set_order k) m)"
    and m'': "distinct (map fst m'')" "\<And>i. i \<noteq> k \<Longrightarrow> map_of m'' i = map_of m' i"
    and r: "map_of m'' k = Some r" "ch_id r = k" "ch_parent r = p" "ch_order r = ord"
  shows "channel_lists {} m'' (tree(p := chain_insert 0 ord k (tree p)))"
proof -
  let ?p = "\<lambda>c. ch_order c = ord \<and> ch_parent c = p \<and> ch_id c \<noteq> k"
  let ?tree = "tree(p := chain_insert 0 ord k (tree p))"
  note d = chainsD [OF ch]
  have fresh: "k \<notin> set (tree q)" for q using d(5) [of k q] by simp
  have ins: "distinct (0 # tree p)" "k \<notin> set (0 # tree p)" "ord \<in> set (0 # tree p)"
    using d(4) [of p] fresh kn ord by auto
  have m'_of: "map_of m' i = map_option (\<lambda>c. if ?p c then set_order k c else c) (map_of m i)" for i
    unfolding m'
  proof (rule modify_first_map_of [OF d(1)])
    fix i j v w assume a: "map_of m i = Some v" "map_of m j = Some w" "?p v" "?p w"
    then have "i \<notin> {k}" "j \<notin> {k}" using d(2) by auto
    then show "i = j" using chains_order_inj [OF ch a(1,2)] a(3,4) by simp
  qed
  have other: "map_of m'' i
      = map_option (\<lambda>c. if ch_order c = ord \<and> ch_parent c = p then set_order k c else c) (map_of m i)" if "i \<noteq> k" for i
    using m''(2) [OF that] m'_of [of i] d(2) [of i] that by (cases "map_of m i") auto
  have "ch_id c = i \<and> i \<noteq> 0" if "map_of m'' i = Some c" for i c
  proof (cases "i = k")
    case True
    then show ?thesis using that r kn by simp
  next
    case False
    then show ?thesis using other [OF False] that d(2,3) [of i] by (cases "map_of m i") (auto split: if_splits)
  qed
  moreover have "distinct (0 # ?tree q)" for q using d(4) [of q] ins by auto
  moreover have "i \<in> set (?tree q) \<longleftrightarrow> (\<exists>c. map_of m'' i = Some c \<and> ch_parent c = q \<and> i \<notin> {})" for i q
  proof (cases "i = k")
    case True
    then show ?thesis using r fresh by auto
  next
    case False
    have "i \<in> set (?tree q) \<longleftrightarrow> i \<in> set (tree q)" using False by auto
    also have "\<dots> \<longleftrightarrow> (\<exists>c. map_of m'' i = Some c \<and> ch_parent c = q)"
      using d(5) [of i q] other [OF False] False by (cases "map_of m i") auto
    finally show ?thesis by simp
  qed
  moreover have "ch_order c = pred_in 0 (?tree (ch_parent c)) i" if c: "map_of m'' i = Some c" and "i \<notin> {}" for i c
  proof (cases "i = k")
    case True
    then show ?thesis using c r pred_in_insert(1) [OF ins] by simp
  next
    case False
    obtain b where b: "map_of m i = Some b" "c = (if ch_order b = ord \<and> ch_parent b = p then set_order k b else b)"
      using other [OF False] c by (cases "map_of m i") auto
    have order: "ch_order b = pred_in 0 (tree (ch_parent b)) i" using d(6) [OF b(1)] False by simp
    show ?thesis
    proof (cases "ch_parent b = p")
      case True
      have "i \<in> set (tree p)" using d(5) [of i p] b(1) True False by auto
      from pred_in_insert(2) [OF ins this] show ?thesis using b(2) order True by auto
    qed (use b order in auto)
  qed
  ultimately show ?thesis using m''(1) unfolding channel_lists_def by blast
qed

text \<open>The operations as functions on the map of the channels.\<close>

definition taken_out :: "channel_id \<Rightarrow> channel_id \<Rightarrow> (channel_id \<times> 'd book_channel) list \<Rightarrow> (channel_id \<times> 'd book_channel) list" where
  "taken_out k order m = fst (modify_first (\<lambda>c. ch_order c = k \<and> ch_id c \<noteq> k) (set_order order) m)"

definition put_in :: "channel_id \<Rightarrow> channel_id \<Rightarrow> channel_id \<Rightarrow> (channel_id \<times> 'd book_channel) list \<Rightarrow> (channel_id \<times> 'd book_channel) list" where
  "put_in k order p m
     = fst (modify_first (\<lambda>c. ch_order c = order \<and> ch_parent c = p \<and> ch_id c \<noteq> k) (set_order k) m)"

text \<open>An action that returns a value and changes the channels only.\<close>

definition channels_to :: "('d, 'a) book_action \<Rightarrow> 'a \<Rightarrow> 'd book \<Rightarrow> (channel_id \<times> 'd book_channel) list
     \<Rightarrow> 'd book_event list \<Rightarrow> bool" where
  "channels_to act x bk m events \<longleftrightarrow> (\<exists>more. act (bk, events) = (Ok x, (bk\<lparr>bk_channels := m\<rparr>, events @ more)))"

lemma reorder_first_runs:
  "channels_to (reorder_first p order) () bk (fst (modify_first p (set_order order) (bk_channels bk))) events"
  by (cases "snd (modify_first p (set_order order) (bk_channels bk))")
    (auto simp: channels_to_def reorder_first_def act_then.simps act_read_def book_modify_def act_modify_def
      push_event_def act_return_def split: prod.splits)

lemma channel_order_remove_runs: "channels_to (channel_order_remove k order) () bk (taken_out k order (bk_channels bk)) events"
  unfolding channel_order_remove_def taken_out_def by (rule reorder_first_runs)

lemma channel_order_insert_runs: "channels_to (channel_order_insert k order p) () bk (put_in k order p (bk_channels bk)) events"
  unfolding channel_order_insert_def put_in_def by (rule reorder_first_runs)

lemma channels_to_then:
  assumes "channels_to act x bk m events" "\<And>events. channels_to (f x) y (bk\<lparr>bk_channels := m\<rparr>) m' events"
  shows "channels_to (act_then act f) y bk m' events"
proof -
  obtain more where "act (bk, events) = (Ok x, (bk\<lparr>bk_channels := m\<rparr>, events @ more))"
    using assms(1) unfolding channels_to_def by blast
  moreover obtain more' where "f x (bk\<lparr>bk_channels := m\<rparr>, events @ more) = (Ok y, (bk\<lparr>bk_channels := m'\<rparr>, (events @ more) @ more'))"
    using assms(2) [of "events @ more"] unfolding channels_to_def by auto
  ultimately show ?thesis unfolding channels_to_def by (simp add: act_then.simps)
qed

lemma channels_to_same [simp]: "bk_channels bk = m \<Longrightarrow> channels_to (act_return x) x bk m events"
  by (auto simp: channels_to_def act_return_def)

lemma channels_to_Pair [simp]: "bk_channels bk = m \<Longrightarrow> channels_to (Pair (Ok x)) x bk m events"
  by (auto simp: channels_to_def)

lemma channels_to_read_then:
  "f (bk, events) = x \<Longrightarrow> channels_to (g x) y bk m events \<Longrightarrow> channels_to (act_then (act_read f) g) y bk m events"
  by (auto simp: channels_to_def act_read_def act_then.simps)

lemma channels_to_modify: "channels_to (book_modify (bk_channels_update f)) () bk (f (bk_channels bk)) events"
  by (auto simp: channels_to_def book_modify_def act_modify_def)

lemma channels_to_push: "bk_channels bk = m \<Longrightarrow> channels_to (push_event e) () bk m events"
  by (auto simp: channels_to_def push_event_def act_modify_def)

lemma channels_to_get_then:
  "map_of (bk_channels bk) i = Some c \<Longrightarrow> channels_to (g c) y bk m events \<Longrightarrow>
     channels_to (act_then (get_mut_channel i) g) y bk m events"
  by (simp add: channels_to_def get_mut_channel_def get_channel_def act_then.simps)

text \<open>A channel that is not in the map is in no list.\<close>

lemma chains_absent:
  assumes "map_of m k = None"
  shows "channel_lists {k} m tree \<longleftrightarrow> channel_lists {} m tree"
proof -
  have "i \<noteq> k" if "map_of m i = Some c" for i c using that assms by auto
  then have "map_of m i = Some c \<and> ch_parent c = p \<and> i \<notin> {k} \<longleftrightarrow> map_of m i = Some c \<and> ch_parent c = p \<and> i \<notin> {}"
    and "map_of m i = Some c \<and> i \<notin> {k} \<longleftrightarrow> map_of m i = Some c \<and> i \<notin> {}" for i c p by blast+
  then show ?thesis unfolding channel_lists_def by presburger
qed

lemma put_in_self:
  assumes "channel_lists {k} m tree"
  shows "map_of (put_in k ord p m) k = map_of m k" "map fst (put_in k ord p m) = map fst m"
proof -
  note d = chainsD [OF assms]
  have "map_of (put_in k ord p m) k
      = map_option (\<lambda>c. if ch_order c = ord \<and> ch_parent c = p \<and> ch_id c \<noteq> k then set_order k c else c) (map_of m k)"
    unfolding put_in_def
  proof (rule modify_first_map_of [OF d(1)])
    fix i j v w assume a: "map_of m i = Some v" "map_of m j = Some w"
      "ch_order v = ord \<and> ch_parent v = p \<and> ch_id v \<noteq> k" "ch_order w = ord \<and> ch_parent w = p \<and> ch_id w \<noteq> k"
    then have "i \<notin> {k}" "j \<notin> {k}" using d(2) by auto
    then show "i = j" using chains_order_inj [OF assms a(1,2)] a(3,4) by simp
  qed
  then show "map_of (put_in k ord p m) k = map_of m k" using d(2) [of k] by (cases "map_of m k") auto
  show "map fst (put_in k ord p m) = map fst m" by (simp add: put_in_def)
qed

lemma add_channel_runs:
  assumes "shuffle_law sh" "channel_lists {} (bk_channels bk) tree" "map_of (bk_channels bk) k = None"
    and "k \<noteq> 0" "ch_id r = k" "ch_order r = 0 \<or> ch_order r \<in> set (tree (ch_parent r))"
  shows "\<exists>m. channels_to (add_channel sh k r) None bk m events \<and> map_of m k = Some r \<and>
    channel_lists {} m (tree(ch_parent r := chain_insert 0 (ch_order r) k (tree (ch_parent r))))"
proof (intro exI conjI)
  let ?m = "put_in k (ch_order r) (ch_parent r) (bk_channels bk)"
  have ch: "channel_lists {k} (bk_channels bk) tree" using assms(2,3) chains_absent by blast
  have m: "map_of ?m k = None" "distinct (map fst ?m)"
    using put_in_self [OF ch] assms(3) chainsD(1) [OF ch] by simp_all
  note ins = hm_insert [OF assms(1) m(2), of k r]
  show "channels_to (add_channel sh k r) None bk (hm_insert sh k r ?m) events"
    unfolding add_channel_def assms(5) using m(1)
    by (intro channels_to_then [OF channel_order_insert_runs] channels_to_read_then [where x = None]
        channels_to_then [OF channels_to_modify]) simp_all
  show "map_of (hm_insert sh k r ?m) k = Some r" by (simp add: ins(1))
  show "channel_lists {} (hm_insert sh k r ?m) (tree(ch_parent r := chain_insert 0 (ch_order r) k (tree (ch_parent r))))"
    by (rule chains_put_in [OF ch assms(4,6) put_in_def]) (simp_all add: ins assms(5))
qed

lemma remove_channel_runs:
  assumes "channel_lists {} (bk_channels bk) tree" "map_of (bk_channels bk) k = Some ck"
  shows "\<exists>m. channels_to (remove_channel k) (Some ck) bk m events \<and> map_of m k = None \<and>
    channel_lists {} m (tree(ch_parent ck := remove1 k (tree (ch_parent ck))))"
proof (intro exI conjI)
  let ?m = "taken_out k (ch_order ck) (hm_remove k (bk_channels bk))"
  have d: "distinct (map fst (hm_remove k (bk_channels bk)))" using chainsD(1) [OF assms(1)] by simp
  have "channel_lists {k} ?m (tree(ch_parent ck := remove1 k (tree (ch_parent ck)))) \<and> map_of ?m k = map_of (hm_remove k (bk_channels bk)) k"
    using chains_take_out [OF assms d _ _ taken_out_def] by simp
  then show none: "map_of ?m k = None" and "channel_lists {} ?m (tree(ch_parent ck := remove1 k (tree (ch_parent ck))))"
    using chains_absent [of ?m k] by simp_all
  have "ch_id ck = k" using chainsD(2) [OF assms] .
  then have "channels_to (case Some ck of Some ch \<Rightarrow> channel_order_remove (ch_id ch) (ch_order ch) | None \<Rightarrow> act_return ())
      () (bk\<lparr>bk_channels := hm_remove k (bk_channels bk)\<rparr>) ?m events" for events
    using channel_order_remove_runs [of k "ch_order ck" "bk\<lparr>bk_channels := hm_remove k (bk_channels bk)\<rparr>" events] by simp
  note step = channels_to_then [OF this]
  show "channels_to (remove_channel k) (Some ck) bk ?m events"
    unfolding remove_channel_def
    by (intro channels_to_read_then [where x = "Some ck"] channels_to_then [OF channels_to_modify] step)
      (simp_all add: assms(2))
qed

lemma hm_modify_fst: "distinct (map fst m) \<Longrightarrow> distinct (map fst (hm_modify k f m))"
  by simp

lemma channel_order_move_runs:
  assumes ch: "channel_lists {} (bk_channels bk) tree" "map_of (bk_channels bk) k = Some ck"
    and "new_order \<noteq> None \<or> parent \<noteq> None"
    and tree1: "tree1 = tree(ch_parent ck := remove1 k (tree (ch_parent ck)))"
    and order: "order = (case new_order of Some order \<Rightarrow> order | None \<Rightarrow> ch_order ck)"
    and p: "p = (case parent of Some p \<Rightarrow> p | None \<Rightarrow> ch_parent ck)"
    and valid: "order = 0 \<or> order \<in> set (tree1 p)"
  shows "\<exists>m. channels_to (channel_order_move_fun k new_order parent) () bk m events \<and>
    channel_lists {} (hm_modify k (ch_parent_update (\<lambda>_. p)) m) (tree1(p := chain_insert 0 order k (tree1 p)))"
proof (intro exI conjI)
  let ?m0 = "case new_order of Some o' \<Rightarrow> hm_modify k (set_order o') (bk_channels bk) | None \<Rightarrow> bk_channels bk"
  let ?m1 = "taken_out k (ch_order ck) ?m0"
  let ?m2 = "put_in k order p ?m1"
  have m0: "distinct (map fst ?m0)" "map_of ?m0 k = Some (set_order order ck)"
    "\<And>i. i \<noteq> k \<Longrightarrow> map_of ?m0 i = map_of (bk_channels bk) i"
    using chainsD(1) [OF ch(1)] ch(2) order by (simp_all split: option.splits del: map_of_eq_Some_iff)
  have id: "ch_id ck = k" "k \<noteq> 0" using chainsD(2,3) [OF ch(1,2)] .
  have out: "channel_lists {k} ?m1 tree1" "map_of ?m1 k = Some (set_order order ck)"
    using chains_take_out [OF ch m0(1) m0(3) _ taken_out_def] m0(2) id tree1 by auto
  note self = put_in_self [OF out(1), of order p]
  show "channel_lists {} (hm_modify k (ch_parent_update (\<lambda>_. p)) ?m2) (tree1(p := chain_insert 0 order k (tree1 p)))"
    by (rule chains_put_in [OF out(1) id(2) valid put_in_def,
          where r = "ch_parent_update (\<lambda>_. p) (set_order order ck)"])
      (simp_all add: self out(2) id chainsD(1) [OF out(1)])
  have first: "channels_to (case new_order of
       Some order \<Rightarrow> act_then (push_event (order_changed ck)) (\<lambda>_. modify_channel k (set_order order))
     | None \<Rightarrow> act_return ()) () bk ?m0 events" for events
    unfolding modify_channel_def
    by (cases new_order) (simp_all add: channels_to_then [OF channels_to_push [OF refl]] channels_to_modify)
  show "channels_to (channel_order_move_fun k new_order parent) () bk ?m2 events"
    unfolding channel_order_move_fun_def Let_def if_P [OF assms(3)]
    by (intro channels_to_get_then [OF ch(2)] channels_to_then [OF first] channels_to_then [OF channel_order_remove_runs])
      (use channel_order_insert_runs [of k order p "bk\<lparr>bk_channels := ?m1\<rparr>"] in \<open>simp add: order p\<close>)
qed

text \<open>
  The changes a server announces, on the book and on the lists. The new parent of a moved channel is set by
  the generated code, after \<open>channel_order_move_fun\<close>.
\<close>

datatype 'd channel_change = AddCh "'d book_channel" | RemoveCh channel_id | MoveCh channel_id channel_id channel_id

fun apply_change :: "(channel_id, 'd book_channel) shuffle \<Rightarrow> 'd channel_change \<Rightarrow> ('d, unit) book_action" where
  "apply_change sh (AddCh r) = act_then (add_channel sh (ch_id r) r) (\<lambda>_. act_return ())"
| "apply_change sh (RemoveCh k) = act_then (remove_channel k) (\<lambda>_. act_return ())"
| "apply_change sh (MoveCh k order p) =
     act_then (channel_order_cm_fun k order p) (\<lambda>_. modify_channel k (ch_parent_update (\<lambda>_. p)))"

fun tree_change :: "(channel_id \<Rightarrow> channel_id list) \<Rightarrow> 'd channel_change \<Rightarrow> channel_id \<Rightarrow> channel_id list" where
  "tree_change tree (AddCh r) =
     tree(ch_parent r := chain_insert 0 (ch_order r) (ch_id r) (tree (ch_parent r)))"
| "tree_change tree (RemoveCh k) = (\<lambda>q. remove1 k (tree q))"
| "tree_change tree (MoveCh k order p) =
     (let rest = (\<lambda>q. remove1 k (tree q)) in rest(p := chain_insert 0 order k (rest p)))"

fun valid_change :: "(channel_id \<Rightarrow> channel_id list) \<Rightarrow> 'd channel_change \<Rightarrow> bool" where
  "valid_change tree (AddCh r) \<longleftrightarrow>
     ch_id r \<noteq> 0 \<and> (\<forall>q. ch_id r \<notin> set (tree q)) \<and> ch_order r \<in> set (0 # tree (ch_parent r))"
| "valid_change tree (RemoveCh k) \<longleftrightarrow> (\<exists>q. k \<in> set (tree q))"
| "valid_change tree (MoveCh k order p) \<longleftrightarrow> (\<exists>q. k \<in> set (tree q)) \<and> order \<in> set (0 # remove1 k (tree p))"

fun valid_changes :: "(channel_id \<Rightarrow> channel_id list) \<Rightarrow> 'd channel_change list \<Rightarrow> bool" where
  "valid_changes tree [] \<longleftrightarrow> True"
| "valid_changes tree (x # xs) \<longleftrightarrow> valid_change tree x \<and> valid_changes (tree_change tree x) xs"

lemma chains_remove_everywhere:
  assumes "channel_lists {} m tree" "map_of m k = Some ck"
  shows "tree(ch_parent ck := remove1 k (tree (ch_parent ck))) = (\<lambda>q. remove1 k (tree q))"
proof
  fix q
  have "k \<notin> set (tree q)" if "q \<noteq> ch_parent ck" using chainsD(5) [OF assms(1), of k q] assms(2) that by auto
  then show "(tree(ch_parent ck := remove1 k (tree (ch_parent ck)))) q = remove1 k (tree q)"
    by (simp add: remove1_idem)
qed

lemma chains_known: "channel_lists {} m tree \<Longrightarrow> k \<in> set (tree q) \<Longrightarrow> \<exists>ck. map_of m k = Some ck"
  using chainsD(5) [of "{}" m tree k q] by auto

lemma channels_to_drop: "channels_to act x bk m events \<Longrightarrow> channels_to (act_then act (\<lambda>_. act_return ())) () bk m events"
  by (rule channels_to_then, assumption, rule channels_to_same, simp)

lemma change_simulates:
  assumes "shuffle_law sh" "channel_lists {} (bk_channels bk) tree" "valid_change tree x"
  shows "\<exists>m. channels_to (apply_change sh x) () bk m events \<and> channel_lists {} m (tree_change tree x)"
proof (cases x)
  case (AddCh r)
  have "map_of (bk_channels bk) (ch_id r) = None"
  proof (rule ccontr)
    assume "map_of (bk_channels bk) (ch_id r) \<noteq> None"
    then obtain c where "map_of (bk_channels bk) (ch_id r) = Some c" by blast
    then have "ch_id r \<in> set (tree (ch_parent c))" using chainsD(5) [OF assms(2)] by auto
    then show False using assms(3) AddCh by auto
  qed
  then show ?thesis
    using add_channel_runs [OF assms(1,2), of "ch_id r" r events] assms(3) AddCh
    by (auto intro: channels_to_drop simp del: act_simps)
next
  case (RemoveCh k)
  then obtain ck where ck: "map_of (bk_channels bk) k = Some ck" using assms(3) chains_known [OF assms(2)] by auto
  show ?thesis
    using remove_channel_runs [OF assms(2) ck, of events] RemoveCh
    by (auto simp: chains_remove_everywhere [OF assms(2) ck] intro: channels_to_drop simp del: act_simps)
next
  case (MoveCh k order p)
  then obtain ck where ck: "map_of (bk_channels bk) k = Some ck" using assms(3) chains_known [OF assms(2)] by auto
  note every = chains_remove_everywhere [OF assms(2) ck]
  have "\<exists>m. channels_to (channel_order_move_fun k (Some order) (Some p)) () bk m events \<and>
      channel_lists {} (hm_modify k (ch_parent_update (\<lambda>_. p)) m) (tree_change tree x)"
    using channel_order_move_runs [OF assms(2) ck, of "Some order" "Some p" _ order p events] assms(3) MoveCh every
    by (simp add: Let_def)
  then obtain m where m: "channels_to (channel_order_move_fun k (Some order) (Some p)) () bk m events"
      "channel_lists {} (hm_modify k (ch_parent_update (\<lambda>_. p)) m) (tree_change tree x)" by blast
  have "channels_to (apply_change sh x) () bk (hm_modify k (ch_parent_update (\<lambda>_. p)) m) events"
    unfolding MoveCh apply_change.simps channel_order_cm_fun_def modify_channel_def
    by (rule channels_to_then [OF m(1)])
      (use channels_to_modify [of _ "bk\<lparr>bk_channels := m\<rparr>"] in simp)
  then show ?thesis using m(2) by blast
qed

lemma changes_simulate:
  assumes "shuffle_law sh"
  shows "channel_lists {} (bk_channels bk) tree \<Longrightarrow> valid_changes tree xs \<Longrightarrow>
    \<exists>m. channels_to (act_for xs (apply_change sh)) () bk m events \<and> channel_lists {} m (foldl tree_change tree xs)"
proof (induction xs arbitrary: bk tree events)
  case Nil
  then show ?case by (auto intro!: exI [of _ "bk_channels bk"])
next
  case (Cons x xs)
  obtain m where m: "channels_to (apply_change sh x) () bk m events" "channel_lists {} m (tree_change tree x)"
    using change_simulates [OF assms Cons.prems(1)] Cons.prems(2) by auto
  obtain more where more: "apply_change sh x (bk, events) = (Ok (), (bk\<lparr>bk_channels := m\<rparr>, events @ more))"
    using m(1) unfolding channels_to_def by blast
  obtain m' where m': "channels_to (act_for xs (apply_change sh)) () (bk\<lparr>bk_channels := m\<rparr>) m' (events @ more)"
      "channel_lists {} m' (foldl tree_change (tree_change tree x) xs)"
    using Cons.IH [of "bk\<lparr>bk_channels := m\<rparr>" "tree_change tree x" "events @ more"] m(2) Cons.prems(2) by auto
  have "channels_to (act_for (x # xs) (apply_change sh)) () bk m' events"
    using m'(1) more by (auto simp: channels_to_def act_then.simps)
  then show ?case using m'(2) by auto
qed

text \<open>
  C30 (the channel list of the server is kept in order): the order fields of the channels represent one
  list of channels for every parent. Whatever valid channels a server adds, removes and moves, the book
  follows without an error, and afterwards its order fields represent the lists in which the same
  channels were inserted behind the named ones and removed, whatever the iteration order of the hash map.
\<close>

theorem channel_order_simulation:
  assumes "shuffle_law sh" "channel_lists {} (bk_channels bk) tree" "valid_changes tree xs"
  shows "\<exists>m more. act_for xs (apply_change sh) (bk, events) = (Ok (), (bk\<lparr>bk_channels := m\<rparr>, events @ more)) \<and>
    channel_lists {} m (foldl tree_change tree xs)"
  using changes_simulate [OF assms] unfolding channels_to_def by blast

definition example_channel :: "channel_id \<Rightarrow> channel_id \<Rightarrow> channel_id \<Rightarrow> unit book_channel" where
  "example_channel i parent order =
     \<lparr>ch_id = i, ch_parent = parent, ch_order = order, ch_channel_type = Permanent, ch_max_clients = None,
      ch_max_family_clients = None, ch_needed_talk_power = None, ch_is_unencrypted = None, ch_subscribed = False,
      ch_optional_data = None\<rparr>"

definition example_book :: "unit book" where
  "example_book = book_new 1 \<lparr>sv_codec_encryption_mode = PerChannel, sv_optional_data = None, sv_connection_data = None\<rparr>"

definition example_changes :: "unit channel_change list" where
  "example_changes = [AddCh (example_channel 7 0 0), AddCh (example_channel 5 0 7), AddCh (example_channel 9 7 0),
     MoveCh 9 7 0, MoveCh 7 5 0, RemoveCh 9]"

theorem channel_order_simulation_witness:
  "\<exists>m more. act_for example_changes (apply_change rev) (example_book, [])
      = (Ok (), (example_book\<lparr>bk_channels := m\<rparr>, more)) \<and>
    channel_lists {} m (\<lambda>q. if q = 0 then [5, 7] else [])"
proof -
  have "channel_lists {} (bk_channels example_book) (\<lambda>_. [])"
    by (simp add: channel_lists_def example_book_def book_new_def)
  moreover have "valid_changes (\<lambda>_. []) example_changes"
    by (simp add: example_changes_def example_channel_def Let_def) (rule exI [of _ 0], simp)
  moreover have "foldl tree_change (\<lambda>_. []) example_changes = (\<lambda>q. if q = 0 then [5, 7] else [])"
    by (auto simp: example_changes_def example_channel_def Let_def fun_eq_iff)
  moreover have "shuffle_law (rev :: (channel_id, unit book_channel) shuffle)" by (simp add: shuffle_law_def)
  ultimately show ?thesis using channel_order_simulation [of rev example_book "\<lambda>_. []" example_changes "[]"] by simp
qed

section \<open>Unsubscribing\<close>

definition clients_wf :: "(client_id \<times> 'd book_client) list \<Rightarrow> bool" where
  "clients_wf m \<longleftrightarrow> distinct (map fst m) \<and> (\<forall>(i, c) \<in> set m. bc_id c = i)"

definition removed_event :: "'d book_client \<Rightarrow> 'd book_event" where
  "removed_event c = PropertyRemoved (ClientProp (bc_id c)) (ClientValue c) None None"

lemma hm_remove_filter: "hm_remove k m = filter (\<lambda>(i, c). i \<noteq> k) m"
  unfolding hm_remove_def AList.delete_eq by (rule filter_cong) auto

lemma forget_clients:
  assumes "distinct (map fst m)" "distinct is" "\<forall>i \<in> set is. map_of m i = Some (f i) \<and> bc_id (f i) = i"
  shows "act_for is forget_client (bk\<lparr>bk_clients := m\<rparr>, events)
    = (Ok (), (bk\<lparr>bk_clients := filter (\<lambda>(i, c). i \<notin> set is) m\<rparr>, events @ map (removed_event \<circ> f) is))"
  using assms
proof (induction "is" arbitrary: m events)
  case (Cons i "is")
  let ?m = "hm_remove i m"
  have i: "map_of m i = Some (f i)" "bc_id (f i) = i" using Cons.prems(3) by auto
  have "forget_client i (bk\<lparr>bk_clients := m\<rparr>, events)
      = (Ok (), (bk\<lparr>bk_clients := ?m\<rparr>, events @ [removed_event (f i)]))"
    using i by (simp add: forget_client_def removed_event_def act_then.simps act_read_def act_lift_def
        book_modify_def push_event_def act_modify_def)
  moreover have "act_for is forget_client (bk\<lparr>bk_clients := ?m\<rparr>, events @ [removed_event (f i)])
      = (Ok (), (bk\<lparr>bk_clients := filter (\<lambda>(i, c). i \<notin> set is) ?m\<rparr>, (events @ [removed_event (f i)]) @ map (removed_event \<circ> f) is))"
    by (rule Cons.IH) (use Cons.prems in auto)
  moreover have "filter (\<lambda>(i, c). i \<notin> set is) ?m = filter (\<lambda>(j, c). j \<notin> set (i # is)) m"
    by (auto simp: hm_remove_filter intro: filter_cong)
  ultimately show ?case by (simp add: act_then.simps)
qed simp

text \<open>
  C31 (unsubscribing forgets the clients of the channel): afterwards the channel counts as not subscribed,
  exactly the clients that were in it are gone, each is reported with its last state, in the order of the
  map, all others are unchanged, and the \<open>unwrap\<close> of the removal does not panic.
\<close>

theorem unsubscribe_forgets_clients:
  assumes "clients_wf (bk_clients bk)" "map_of (bk_channels bk) channel = Some c"
  shows "channel_unsubscribe_fun channel (bk, events) =
    (Ok (),
     (bk\<lparr>bk_channels := hm_modify channel (ch_subscribed_update (\<lambda>_. False)) (bk_channels bk),
         bk_clients := filter (\<lambda>(i, cl). bc_channel cl \<noteq> channel) (bk_clients bk)\<rparr>,
      events @ PropertyChanged (ChannelSubscribed channel) (BoolValue (ch_subscribed c)) None None
        # map (removed_event \<circ> snd) (filter (\<lambda>(i, cl). bc_channel cl = channel) (bk_clients bk))))"
proof -
  let ?m = "bk_clients bk" and ?changed = "PropertyChanged (ChannelSubscribed channel) (BoolValue (ch_subscribed c)) None None"
  let ?bk = "bk\<lparr>bk_channels := hm_modify channel (ch_subscribed_update (\<lambda>_. False)) (bk_channels bk)\<rparr>"
  let ?in = "filter (\<lambda>(i, cl). bc_channel cl = channel) ?m"
  let ?f = "\<lambda>i. the (map_of ?m i)"
  have d: "distinct (map fst ?m)" and id: "\<And>i cl. (i, cl) \<in> set ?m \<Longrightarrow> bc_id cl = i"
    using assms(1) by (auto simp: clients_wf_def)
  have ids: "clients_in channel bk' = map fst ?in" if "bk_clients bk' = ?m" for bk' :: "'a book"
    unfolding clients_in_def that by (rule map_cong [OF refl]) (auto simp: id)
  have "distinct (map fst ?in)" using d by (rule distinct_map_filter)
  moreover have "\<forall>i \<in> set (map fst ?in). map_of ?m i = Some (?f i) \<and> bc_id (?f i) = i" using d id by auto
  ultimately have run: "act_for (map fst ?in) forget_client (?bk\<lparr>bk_clients := ?m\<rparr>, events @ [?changed])
      = (Ok (), (?bk\<lparr>bk_clients := filter (\<lambda>(i, cl). i \<notin> set (map fst ?in)) ?m\<rparr>,
         (events @ [?changed]) @ map (removed_event \<circ> ?f) (map fst ?in)))"
    by (rule forget_clients [OF d])
  have "filter (\<lambda>(i, cl). i \<notin> set (map fst ?in)) ?m = filter (\<lambda>(i, cl). bc_channel cl \<noteq> channel) ?m"
    using d by (intro filter_cong refl) (force dest: eq_key_imp_eq_value)
  moreover have "map (removed_event \<circ> ?f) (map fst ?in) = map (removed_event \<circ> snd) ?in"
    using d by (auto simp: map_eq_conv)
  moreover have "set_channel_subscribed False channel (bk, events) = (Ok (), (?bk, events @ [?changed]))"
    using assms(2) by (simp add: set_channel_subscribed_def get_mut_channel_def get_channel_def act_then.simps
        push_event_def modify_channel_def book_modify_def act_modify_def)
  ultimately show ?thesis
    using run by (simp add: channel_unsubscribe_fun_def act_then.simps act_read_def ids)
qed

definition example_clients :: "(client_id \<times> unit book_client) list" where
  "example_clients = map (\<lambda>(i, channel). (i,
     \<lparr>bc_id = i, bc_channel = channel, bc_name = [], bc_away_message = None, bc_talk_power = 0,
      bc_talk_power_granted = False, bc_talk_power_request = None, bc_input_muted = False,
      bc_output_muted = False, bc_output_only_muted = False, bc_input_hardware_enabled = True,
      bc_output_hardware_enabled = True, bc_optional_data = None, bc_connection_data = None\<rparr>))
     [(1, 7), (2, 8), (3, 7)]"

theorem unsubscribe_forgets_clients_witness:
  "\<exists>bk events. channel_unsubscribe_fun 7 (example_book
       \<lparr>bk_clients := example_clients, bk_channels := [(7, example_channel 7 0 0)]\<rparr>, []) = (Ok (), (bk, events)) \<and>
     map fst (bk_clients bk) = [2] \<and> length events = 3"
proof -
  have "clients_wf example_clients" by (simp add: clients_wf_def example_clients_def)
  then show ?thesis
    using unsubscribe_forgets_clients [of "example_book
        \<lparr>bk_clients := example_clients, bk_channels := [(7, example_channel 7 0 0)]\<rparr>" 7 "example_channel 7 0 0" "[]"]
    by (simp add: example_clients_def)
qed

section \<open>Messages and names\<close>

lemma adjust_name_result:
  "\<exists>bk' more. adjust_name (bk, events) = (Ok (), (bk', events @ more)) \<and>
     (\<forall>e es inv c. events = e # es \<and> get_invoker e = Some inv \<and> map_of (bk_clients bk') (in_id inv) = Some c
        \<longrightarrow> bc_name c = in_name inv) \<and>
     map fst (bk_clients bk') = map fst (bk_clients bk)"
proof (cases events)
  case Nil
  then show ?thesis by (simp add: adjust_name_def)
next
  case (Cons e es)
  show ?thesis
  proof (cases "get_invoker e")
    case None
    then show ?thesis using Cons by (simp add: adjust_name_def)
  next
    case (Some inv)
    show ?thesis
      using Cons Some by (cases "map_of (bk_clients bk) (in_id inv)")
        (auto simp: adjust_name_def modify_client_def book_modify_def push_event_def act_modify_def act_then.simps)
  qed
qed

definition message_event :: "text_message_part \<Rightarrow> message_target \<Rightarrow> 'd book_event" where
  "message_event part target = Message target (tm_invoker part) (tm_message part)"

lemma text_messages_run:
  defines "report \<equiv> \<lambda>part. act_then (act_lift (text_target part)) (\<lambda>target.
       push_event (Message target (tm_invoker part) (tm_message part)))"
  shows "try_map text_target parts = Ok targets \<Longrightarrow>
      act_for parts report (bk, events) = (Ok (), (bk, events @ map2 message_event parts targets))"
    and "try_map text_target parts = Err e \<Longrightarrow> \<exists>events'. act_for parts report (bk, events) = (Err e, (bk, events'))"
proof (induction parts arbitrary: targets events)
  case (Cons p ps)
  have step: "report p (bk, events) = (case text_target p of
      Ok t \<Rightarrow> (Ok (), (bk, events @ [message_event p t])) | r \<Rightarrow> (map_ok (\<lambda>_. ()) r, (bk, events)))" for events
    by (cases "text_target p") (simp_all add: report_def act_then.simps act_lift_def push_event_def act_modify_def
        message_event_def del: text_target.simps)
  {
    case 1
    then obtain t ts where t: "text_target p = Ok t" "try_map text_target ps = Ok ts" "targets = t # ts"
      by (auto simp: outcome_simps simp del: text_target.simps)
    show ?case using Cons.IH(1) [OF t(2)] by (simp add: act_then.simps step t del: text_target.simps)
  next
    case 2
    then show ?case using Cons.IH(2)
      by (cases "text_target p"; cases "try_map text_target ps")
        (auto simp: act_then.simps step simp del: text_target.simps)
  }
qed simp_all

text \<open>
  Text messages are reported and names kept up to date: a message for several targets becomes one event
  per part, behind the events of the generated code, or an error when a part has no valid target. When the
  first event has an invoker that is a known client, that client has the name of the invoker afterwards;
  no client appears or disappears.
\<close>

theorem text_messages_reported:
  assumes "generated (TextMessage parts) bk = (Ok (handled, es), bk1)"
  shows "case try_map text_target parts of
      Ok targets \<Rightarrow> \<exists>bk' more. book_handle_command generated (TextMessage parts) bk
          = (Ok (es @ map2 message_event parts targets @ more, handled \<or> parts \<noteq> []), bk') \<and>
        map fst (bk_clients bk') = map fst (bk_clients bk1) \<and>
        (\<forall>inv c. map_option get_invoker (find (\<lambda>_. True) (es @ map2 message_event parts targets)) = Some (Some inv) \<and>
           map_of (bk_clients bk') (in_id inv) = Some c \<longrightarrow> bc_name c = in_name inv)
    | Err e \<Rightarrow> book_handle_command generated (TextMessage parts) bk = (Err e, bk1)
    | Panic \<Rightarrow> False"
proof (cases "try_map text_target parts")
  case (Ok targets)
  let ?events = "es @ map2 message_event parts targets"
  obtain bk' more where adjust: "adjust_name (bk1, ?events) = (Ok (), (bk', ?events @ more))"
      "\<forall>e es' inv c. ?events = e # es' \<and> get_invoker e = Some inv \<and> map_of (bk_clients bk') (in_id inv) = Some c
        \<longrightarrow> bc_name c = in_name inv"
      "map fst (bk_clients bk') = map fst (bk_clients bk1)"
    using adjust_name_result [of bk1 ?events] by blast
  have "book_handle_command generated (TextMessage parts) bk = (Ok (?events @ more, handled \<or> parts \<noteq> []), bk')"
    using assms adjust(1) text_messages_run(1) [OF Ok, of bk1 es]
    by (simp add: book_handle_command_def special_messages_def act_then.simps del: text_target.simps)
  moreover have "bc_name c = in_name inv"
    if "map_option get_invoker (find (\<lambda>_. True) ?events) = Some (Some inv)"
      "map_of (bk_clients bk') (in_id inv) = Some c" for inv c
    using that adjust(2) by (cases ?events) auto
  ultimately show ?thesis using Ok adjust(3) by auto
next
  case (Err e)
  then show ?thesis
    using assms text_messages_run(2) [OF Err, of bk1 es]
    by (auto simp: book_handle_command_def special_messages_def act_then.simps simp del: text_target.simps)
next
  case Panic
  have "text_target p \<noteq> Panic" for p
    by (cases "tm_target_client_id p") (simp_all split: text_message_target_mode.split)
  then have "try_map text_target parts \<noteq> Panic" by (rule try_map_not_Panic)
  then show ?thesis using Panic by simp
qed

theorem text_messages_reported_witness:
  "\<exists>events bk'. book_handle_command (\<lambda>_ bk. (Ok (False, []), bk))
       (TextMessage [\<lparr>tm_target = ChannelMode, tm_target_client_id = None,
          tm_invoker = \<lparr>in_name = [65], in_id = 3, in_uid = None\<rparr>, tm_message = [66]\<rparr>] :: (unit, unit) in_message)
       (example_book\<lparr>bk_clients := example_clients\<rparr>) = (Ok (events, True), bk') \<and>
     (\<forall>c. map_of (bk_clients bk') 3 = Some c \<longrightarrow> bc_name c = [65])"
  using text_messages_reported [of "\<lambda>_ bk. (Ok (False, []), bk)"
      "[\<lparr>tm_target = ChannelMode, tm_target_client_id = None,
          tm_invoker = \<lparr>in_name = [65], in_id = 3, in_uid = None\<rparr>, tm_message = [66]\<rparr>]"
      "example_book\<lparr>bk_clients := example_clients\<rparr>"]
  by (fastforce simp: message_event_def)

section \<open>Options of a new channel\<close>

lemma in_u16_uint [simp]: "in_u16 (uint (n :: u16))"
  using uint_lt2p [of n] by (simp add: in_u16_def)

text \<open>
  The options of a new channel arrive: the message that creates a channel, read with the functions that
  read the answer of a server, gives the limits and the type of the options. A limit \<open>Inherited\<close>, which only
  families have, is left out for the channel itself, and no type means a temporary channel.
\<close>

theorem channel_options_roundtrip:
  "\<exists>part. server_add_channel env options = OutChannelCreate part \<and>
    limit_clients part = (if co_max_clients options = Some Inherited then None else co_max_clients options) \<and>
    limit_family part = co_max_family_clients options \<and>
    channel_flags_to_type (oc_is_permanent part) (oc_is_semi_permanent part)
      = (case co_channel_type options of Some t \<Rightarrow> t | None \<Rightarrow> Temporary)"
proof -
  show ?thesis
    by (cases "co_max_clients options" rule: limited.cases; cases "co_max_family_clients options" rule: limited.cases;
        cases "co_channel_type options"; (cases "the (co_channel_type options)")?)
      (auto simp: server_add_channel_def limit_clients_def limit_family_def flag_def some_if_def
        channel_flags_to_type_def)
qed

text \<open>The fields that change a channel: the limit of a family is read back, \<open>Inherited\<close> for a channel is 0.\<close>

lemma limits_fields_roundtrip:
  "limit_family \<lparr>max_clients = mc, is_max_clients_unlimited = u,
     max_family_clients = Some (fst (max_family_clients_fun_b2m m)),
     is_max_family_clients_unlimited = Some (fst (snd (max_family_clients_fun_b2m m))),
     inherits_max_family_clients = Some (snd (snd (max_family_clients_fun_b2m m)))\<rparr> = Some m"
  "limit_clients \<lparr>max_clients = Some (fst (max_clients_fun_b2m m)),
     is_max_clients_unlimited = Some (snd (max_clients_fun_b2m m)), max_family_clients = mf,
     is_max_family_clients_unlimited = fu, inherits_max_family_clients = fi\<rparr>
   = Some (if m = Inherited then Limited 0 else m)"
proof -
  show "limit_family \<lparr>max_clients = mc, is_max_clients_unlimited = u,
     max_family_clients = Some (fst (max_family_clients_fun_b2m m)),
     is_max_family_clients_unlimited = Some (fst (snd (max_family_clients_fun_b2m m))),
     inherits_max_family_clients = Some (snd (snd (max_family_clients_fun_b2m m)))\<rparr> = Some m"
    by (cases m) (simp_all add: limit_family_def flag_def in_u16_def [of 0])
  show "limit_clients \<lparr>max_clients = Some (fst (max_clients_fun_b2m m)),
     is_max_clients_unlimited = Some (snd (max_clients_fun_b2m m)), max_family_clients = mf,
     is_max_family_clients_unlimited = fu, inherits_max_family_clients = fi\<rparr>
   = Some (if m = Inherited then Limited 0 else m)"
    by (cases m) (simp_all add: limit_clients_def flag_def in_u16_def [of 0])
qed

end
