(* ===== verification/Resolver.thy ===== *)
theory Resolver
  imports Decimal Utf8 "HOL-Library.Multiset"
begin

text \<open>
  The search for the addresses of a server (\<open>tsclientlib/src/resolver.rs\<close>): reading an address, nicknames,
  SRV records and their order, TSDNS, and the system resolver.

  The system resolver, DNS, HTTP, the TSDNS connection and the random numbers are the parameters
  \<open>resolver_env\<close>. What the code awaits is a \<open>future\<close>, which may stay pending forever. The timeout of ten
  seconds around the search only adds items that are filtered out again, and the same future is polled on,
  so it does not appear in the results: a step that never answers keeps the search waiting.
\<close>

section \<open>Data\<close>

datatype resolver_error =
    CreateResolver
  | InvalidIp4Address
  | InvalidIp6Address
  | InvalidIpAddress
  | InvalidNickname
  | InvalidPort
  | ResolverIo string
  | NicknameParseUrl
  | NicknameResolve
  | ResolveHost
  | SrvLookup
  | TsdnsAddressInvalidResponse bytes
  | TsdnsAddressNotFound
  | TsdnsParseResponse

type_synonym 'ip socket_addr = "'ip \<times> u16"

datatype 'ip parse_ip_result = Addr "'ip socket_addr" | Other bytes "u16 option"

record srv =
  srv_priority :: u16
  srv_weight :: u16
  srv_port :: u16
  srv_target :: bytes

text \<open>
  \<open>text_addrs\<close> resolves a text with a port in it and \<open>host_addrs\<close> a host and a port, both blocking;
  \<open>lookup_host\<close> is the awaited form. An answer to a DNS query is \<open>None\<close> for a record that is not SRV.
  \<open>random_range g k b\<close> is the random number up to \<open>b\<close> in step \<open>k\<close> of group \<open>g\<close>.
\<close>

datatype 'a future = Resolves 'a | Hangs

record 'ip resolver_env =
  text_addrs :: "bytes \<Rightarrow> 'ip socket_addr list option"
  host_addrs :: "bytes \<Rightarrow> u16 \<Rightarrow> 'ip socket_addr list option"
  lookup_host :: "bytes \<Rightarrow> u16 \<Rightarrow> 'ip socket_addr list option future"
  nickname_body :: "bytes \<Rightarrow> (resolver_error + bytes) future"
  dns_resolver :: bool
  srv_answers :: "bytes \<Rightarrow> srv option list option future"
  tsdns_answer :: "'ip socket_addr \<Rightarrow> bytes \<Rightarrow> bytes option future"
  random_range :: "nat \<Rightarrow> nat \<Rightarrow> u32 \<Rightarrow> u32"

text \<open>A stream: the items it gives, and then its end, waiting forever for the next one, or a panic.\<close>

datatype stream_end = Ended | Waiting | Panicked

datatype 'ip addr_stream =
  Addrs (results: "('ip socket_addr, resolver_error) outcome list") (ending: stream_end)

definition DEFAULT_PORT :: u16 where
  "DEFAULT_PORT = 9987"

definition DNS_PREFIX_TCP :: bytes where
  "DNS_PREFIX_TCP = ascii ''_tsdns._tcp.''"

definition DNS_PREFIX_UDP :: bytes where
  "DNS_PREFIX_UDP = ascii ''_ts3._udp.''"

section \<open>Reading an address\<close>

text \<open>\<open>find\<close> and \<open>rfind\<close>.\<close>

definition find_byte :: "u8 \<Rightarrow> bytes \<Rightarrow> nat option" where
  "find_byte b s = (if b \<in> set s then Some (length (takeWhile (\<lambda>x. x \<noteq> b) s)) else None)"

definition rfind_byte :: "u8 \<Rightarrow> bytes \<Rightarrow> nat option" where
  "rfind_byte b s = map_option (\<lambda>i. length s - 1 - i) (find_byte b (rev s))"

definition digits_and_dots :: "bytes \<Rightarrow> bool" where
  "digits_and_dots s \<longleftrightarrow> list_all (\<lambda>c. 0x30 \<le> c \<and> c \<le> 0x39 \<or> c = 0x2E) s"

definition first_addr ::
  "resolver_error \<Rightarrow> 'ip socket_addr list option \<Rightarrow> ('ip parse_ip_result, resolver_error) outcome" where
  "first_addr e addrs =
     and_then (ok_or e addrs) (\<lambda>addrs. case addrs of [] \<Rightarrow> Err e | a # _ \<Rightarrow> Ok (Addr a))"

definition parse_ip :: "'ip resolver_env \<Rightarrow> bytes \<Rightarrow> ('ip parse_ip_result, resolver_error) outcome" where
  "parse_ip env address =
     (case rfind_byte 0x3A address of
        Some pos \<Rightarrow>
          if find_byte 0x3A address = Some pos then
            let addr = take pos address; port = drop (pos + 1) address in
            if digits_and_dots addr then first_addr InvalidIp4Address (text_addrs env address)
            else map_ok (\<lambda>p. Other addr (Some p)) (parse_uint InvalidPort port)
          else
            (case rfind_byte 0x5D address of
               Some pos_bracket \<Rightarrow>
                 if pos_bracket < pos then first_addr InvalidIp6Address (text_addrs env address)
                 else if pos_bracket = length address - 1 \<and> starts_with address [0x5B] then
                   and_then (slice address 1 pos_bracket) (\<lambda>inner.
                   first_addr InvalidIp6Address (host_addrs env inner DEFAULT_PORT))
                 else Err InvalidIpAddress
             | None \<Rightarrow> first_addr InvalidIp6Address (host_addrs env address DEFAULT_PORT))
      | None \<Rightarrow>
          if digits_and_dots address then first_addr InvalidIp4Address (host_addrs env address DEFAULT_PORT)
          else Ok (Other address None))"

section \<open>SRV records\<close>

text \<open>\<open>chunk_by\<close>: neighbours with the same priority.\<close>

fun chunk_by :: "('a \<Rightarrow> 'k) \<Rightarrow> 'a list \<Rightarrow> ('k \<times> 'a list) list" where
  "chunk_by f [] = []"
| "chunk_by f (x # xs) =
     (case chunk_by f xs of
        (k, ys) # rest \<Rightarrow> if f x = k then (k, x # ys) # rest else (f x, [x]) # (k, ys) # rest
      | [] \<Rightarrow> [(f x, [x])])"

fun sum_weights :: "u32 \<Rightarrow> srv list \<Rightarrow> (u32, 'e) outcome" where
  "sum_weights acc [] = Ok acc"
| "sum_weights acc (e # es) = and_then (checked_plus acc (ucast (srv_weight e))) (\<lambda>acc. sum_weights acc es)"

text \<open>With the random number 0, the first entry of weight 0 is taken.\<close>

definition take_zero :: "u32 \<Rightarrow> srv list \<Rightarrow> srv list \<times> srv list" where
  "take_zero w entries =
     (if w = 0 then
        (case List.extract (\<lambda>e. srv_weight e = 0) entries of
           Some (before, e, after) \<Rightarrow> ([e], before @ after)
         | None \<Rightarrow> ([], entries))
      else ([], entries))"

fun pick_entry :: "u32 \<Rightarrow> srv list \<Rightarrow> srv list \<times> srv list" where
  "pick_entry w [] = ([], [])"
| "pick_entry w (e # es) =
     (if w \<le> ucast (srv_weight e) then ([e], es)
      else (case pick_entry (w - ucast (srv_weight e)) es of (picked, rest) \<Rightarrow> (picked, e # rest)))"

text \<open>The loop ends when every entry is taken; each round may also take none.\<close>

partial_function (option) select_entries ::
  "(nat \<Rightarrow> u32 \<Rightarrow> u32) \<Rightarrow> nat \<Rightarrow> srv list \<Rightarrow> (srv list, 'e) outcome option" where
  "select_entries rand k entries =
     (if entries = [] then Some (Ok [])
      else
        (case sum_weights 0 entries of
           Ok weight \<Rightarrow>
             (case take_zero (rand k weight) entries of (zero, rest) \<Rightarrow>
             (case pick_entry (rand k weight) rest of (picked, rest) \<Rightarrow>
               Option.bind (select_entries rand (k + 1) rest) (\<lambda>r.
               Some (map_ok (\<lambda>selected. zero @ picked @ selected) r))))
         | Err e \<Rightarrow> Some (Err e)
         | Panic \<Rightarrow> Some Panic))"

declare select_entries.simps [code]

text \<open>The entries of weight 0 of every group are put aside.\<close>

fun order_groups ::
  "(nat \<Rightarrow> nat \<Rightarrow> u32 \<Rightarrow> u32) \<Rightarrow> nat \<Rightarrow> (u16 \<times> srv list) list \<Rightarrow> (srv list, 'e) outcome option" where
  "order_groups rand g [] = Some (Ok [])"
| "order_groups rand g ((p, es) # groups) =
     (case select_entries (rand g) 0 (filter (\<lambda>e. srv_weight e \<noteq> 0) es) of
        None \<Rightarrow> None
      | Some (Ok selected) \<Rightarrow> map_option (map_ok (\<lambda>rest. selected @ rest)) (order_groups rand (g + 1) groups)
      | Some r \<Rightarrow> Some r)"

definition srv_order :: "(nat \<Rightarrow> nat \<Rightarrow> u32 \<Rightarrow> u32) \<Rightarrow> srv list \<Rightarrow> (srv list, 'e) outcome option" where
  "srv_order rand srvs = order_groups rand 0 (sort_key fst (chunk_by srv_priority srvs))"

section \<open>Streams\<close>

text \<open>\<open>stream::once\<close>, \<open>chain\<close>, \<open>try_flatten\<close>, \<open>map_ok\<close> and \<open>and_then\<close>.\<close>

fun once :: "('ip socket_addr, resolver_error) outcome future \<Rightarrow> 'ip addr_stream" where
  "once Hangs = Addrs [] Waiting"
| "once (Resolves Panic) = Addrs [] Panicked"
| "once (Resolves r) = Addrs [r] Ended"

definition chain_streams :: "'ip addr_stream \<Rightarrow> 'ip addr_stream \<Rightarrow> 'ip addr_stream" where
  "chain_streams s t = (if ending s = Ended then Addrs (results s @ results t) (ending t) else s)"

fun try_flatten :: "'ip addr_stream list \<Rightarrow> 'ip addr_stream" where
  "try_flatten [] = Addrs [] Ended"
| "try_flatten (s # ss) = chain_streams s (try_flatten ss)"

definition map_stream :: "('ip socket_addr \<Rightarrow> 'ip socket_addr) \<Rightarrow> 'ip addr_stream \<Rightarrow> 'ip addr_stream" where
  "map_stream f s = Addrs (map (map_ok f) (results s)) (ending s)"

definition and_then_stream ::
  "'ip addr_stream \<Rightarrow> ('ip socket_addr \<Rightarrow> ('ip socket_addr, resolver_error) outcome future) \<Rightarrow> 'ip addr_stream" where
  "and_then_stream s f =
     chain_streams (try_flatten (map (\<lambda>r. once (case r of Ok a \<Rightarrow> f a | r \<Rightarrow> Resolves r)) (results s))) (Addrs [] (ending s))"

definition host_stream :: "'ip resolver_env \<Rightarrow> bytes \<Rightarrow> u16 \<Rightarrow> 'ip addr_stream" where
  "host_stream env host port =
     (case lookup_host env host port of
        Hangs \<Rightarrow> Addrs [] Waiting
      | Resolves (Some addrs) \<Rightarrow> Addrs (map Ok addrs) Ended
      | Resolves None \<Rightarrow> Addrs [Err ResolveHost] Ended)"

text \<open>The addresses of a service; \<open>None\<close> when the selection of its records does not end.\<close>

definition resolve_srv :: "'ip resolver_env \<Rightarrow> bytes \<Rightarrow> 'ip addr_stream option" where
  "resolve_srv env addr =
     (case srv_answers env addr of
        Hangs \<Rightarrow> Some (Addrs [] Waiting)
      | Resolves None \<Rightarrow> Some (Addrs [Err SrvLookup] Ended)
      | Resolves (Some records) \<Rightarrow>
          if None \<in> set records then Some (Addrs [] Panicked)
          else
            (case srv_order (random_range env) (map the records) of
               None \<Rightarrow> None
             | Some (Ok srvs) \<Rightarrow> Some (try_flatten (map (\<lambda>e. host_stream env (srv_target e) (srv_port e)) srvs))
             | Some (Err e) \<Rightarrow> Some (Addrs [Err e] Ended)
             | Some Panic \<Rightarrow> Some (Addrs [] Panicked)))"

section \<open>TSDNS and nicknames\<close>

definition read_tsdns ::
  "'ip resolver_env \<Rightarrow> bytes option \<Rightarrow> ('ip socket_addr, resolver_error) outcome" where
  "read_tsdns env answer =
     and_then (ok_or (ResolverIo ''tsdns'') answer) (\<lambda>answer.
     and_then (from_utf8 TsdnsParseResponse answer) (\<lambda>addr.
     if starts_with addr (ascii ''404'') then Err TsdnsAddressNotFound
     else
       and_then (parse_ip env addr) (\<lambda>r.
       case r of Addr a \<Rightarrow> Ok a | Other _ _ \<Rightarrow> Err (TsdnsAddressInvalidResponse addr))))"

definition resolve_tsdns ::
  "'ip resolver_env \<Rightarrow> 'ip socket_addr \<Rightarrow> bytes \<Rightarrow> ('ip socket_addr, resolver_error) outcome future" where
  "resolve_tsdns env server addr = map_future (read_tsdns env) (tsdns_answer env server addr)"

text \<open>The parts between line breaks; empty parts are dropped.\<close>

fun split_lines :: "bytes \<Rightarrow> bytes list" where
  "split_lines [] = [[]]"
| "split_lines (b # bs) =
     (if b = 0x0D \<or> b = 0x0A then [] # split_lines bs
      else (case split_lines bs of l # ls \<Rightarrow> (b # l) # ls | [] \<Rightarrow> [[b]]))"

definition nickname_addr :: "'ip resolver_env \<Rightarrow> bytes \<Rightarrow> 'ip addr_stream" where
  "nickname_addr env addr =
     (case parse_ip env addr of
        Ok (Addr a) \<Rightarrow> Addrs [Ok a] Ended
      | Ok (Other a p) \<Rightarrow> host_stream env a (case p of Some p \<Rightarrow> p | None \<Rightarrow> DEFAULT_PORT)
      | Err e \<Rightarrow> Addrs [Err e] Ended
      | Panic \<Rightarrow> Addrs [] Panicked)"

definition resolve_nickname :: "'ip resolver_env \<Rightarrow> bytes \<Rightarrow> 'ip addr_stream" where
  "resolve_nickname env nickname =
     (case nickname_body env nickname of
        Hangs \<Rightarrow> Addrs [] Waiting
      | Resolves (Inr body) \<Rightarrow> try_flatten (map (nickname_addr env) (filter (\<lambda>l. l \<noteq> []) (split_lines body)))
      | Resolves (Inl e) \<Rightarrow> Addrs [Err e] Ended)"

section \<open>The search\<close>

definition set_port :: "u16 option \<Rightarrow> 'ip socket_addr \<Rightarrow> 'ip socket_addr" where
  "set_port port a = (case port of Some p \<Rightarrow> (fst a, p) | None \<Rightarrow> a)"

text \<open>The last two parts of a name.\<close>

definition tsdns_name :: "bytes \<Rightarrow> bytes" where
  "tsdns_name addr =
     (case rfind_byte 0x2E addr of
        Some i \<Rightarrow> (case rfind_byte 0x2E (take i addr) of Some j \<Rightarrow> drop (j + 1) addr | None \<Rightarrow> addr)
      | None \<Rightarrow> addr)"

definition resolve_steps ::
  "'ip resolver_env \<Rightarrow> bytes \<Rightarrow> bytes \<Rightarrow> u16 option \<Rightarrow> 'ip addr_stream option list" where
  "resolve_steps env address addr port =
     [Some (if 0x2E \<notin> set address \<and> addr \<noteq> ascii ''localhost''
            then map_stream (set_port port) (resolve_nickname env address) else Addrs [Err InvalidNickname] Ended),
      if dns_resolver env then resolve_srv env (DNS_PREFIX_UDP @ addr @ [0x2E])
      else Some (Addrs [Err CreateResolver] Ended),
      if dns_resolver env then
        map_option (\<lambda>servers. and_then_stream servers (\<lambda>server.
            map_future (map_ok (set_port port)) (resolve_tsdns env server address)))
          (resolve_srv env (DNS_PREFIX_TCP @ tsdns_name addr @ [0x2E]))
      else Some (Addrs [Err CreateResolver] Ended),
      Some (host_stream env addr (case port of Some p \<Rightarrow> p | None \<Rightarrow> DEFAULT_PORT))]"

text \<open>
  One step after the other: a step that waits or panics hides those after it. The selection in a step that is
  reached may not end.
\<close>

fun chain_steps :: "'ip addr_stream option list \<Rightarrow> 'ip addr_stream option" where
  "chain_steps [] = Some (Addrs [] Ended)"
| "chain_steps (None # ss) = None"
| "chain_steps (Some s # ss) = (if ending s = Ended then map_option (chain_streams s) (chain_steps ss) else Some s)"

fun is_error :: "('a, 'e) outcome \<Rightarrow> bool" where
  "is_error (Err e) = True"
| "is_error _ = False"

text \<open>Errors of a step are only logged, as are the timeouts.\<close>

definition successes :: "'ip addr_stream \<Rightarrow> 'ip addr_stream" where
  "successes s = Addrs (filter (\<lambda>r. \<not> is_error r) (results s)) (ending s)"

definition resolve :: "'ip resolver_env \<Rightarrow> bytes \<Rightarrow> 'ip addr_stream option" where
  "resolve env address =
     (case parse_ip env address of
        Ok (Addr res) \<Rightarrow> Some (Addrs [Ok res] Ended)
      | Ok (Other addr port) \<Rightarrow> map_option successes (chain_steps (resolve_steps env address addr port))
      | Err e \<Rightarrow> Some (Addrs [Err e] Ended)
      | Panic \<Rightarrow> Some (Addrs [] Panicked))"

end
