(* ===== verification/Resolver_Props.thy ===== *)
theory Resolver_Props
  imports Resolver
begin

text \<open>
  Properties of the search for a server: the order of the SRV records, and what the search gives.
\<close>

section \<open>The order of the SRV records\<close>

definition random_law :: "(nat \<Rightarrow> u32 \<Rightarrow> u32) \<Rightarrow> bool" where
  "random_law rand \<longleftrightarrow> (\<forall>k b. rand k b \<le> b)"

abbreviation total_weight :: "srv list \<Rightarrow> nat" where
  "total_weight es \<equiv> sum_list (map (\<lambda>e. unat (srv_weight e)) es)"

lemma unat_u16: "unat (w :: u16) < 65536"
  using unsigned_less [of w, where ?'a = nat] by simp

lemma unat_weight: "unat (ucast (w :: u16) :: u32) = unat w"
  using unat_u16 [of w] by (simp add: unsigned_ucast_eq unsigned_take_bit_eq take_bit_nat_eq_self)

lemma sum_weights_ok:
  "unat acc + total_weight es < 2 ^ 32 \<Longrightarrow> \<exists>w. sum_weights acc es = (Ok w :: (u32, 'e) outcome) \<and> unat w = unat acc + total_weight es"
proof (induction es arbitrary: acc)
  case (Cons e es)
  note u = unat_weight [of "srv_weight e"]
  have "unat acc + unat (ucast (srv_weight e) :: u32) < 2 ^ 32" using Cons.prems u by simp
  then have "checked_plus acc (ucast (srv_weight e)) = (Ok (acc + ucast (srv_weight e)) :: (u32, 'e) outcome)"
    and "unat (acc + ucast (srv_weight e)) = unat acc + unat (srv_weight e)"
    using u by (simp_all add: checked_plus_Ok unat_plus_no_carry)
  then show ?case using Cons.IH [of "acc + ucast (srv_weight e)"] Cons.prems by (simp add: add.assoc)
qed simp

lemma pick_entry_takes_one:
  assumes "unat w \<le> total_weight es" "es \<noteq> []"
  shows "\<exists>e rest. pick_entry w es = ([e], rest) \<and> mset es = add_mset e (mset rest)"
  using assms
proof (induction es arbitrary: w)
  case (Cons e es)
  note u = unat_weight [of "srv_weight e"]
  show ?case
  proof (cases "w \<le> ucast (srv_weight e)")
    case False
    then have "unat (w - ucast (srv_weight e)) = unat w - unat (srv_weight e)" and lt: "unat (srv_weight e) < unat w"
      using u by (simp_all add: word_le_nat_alt unat_sub not_le)
    then have "unat (w - ucast (srv_weight e)) \<le> total_weight es" "es \<noteq> []" using Cons.prems(1) by auto
    from Cons.IH [OF this] False show ?thesis by auto
  qed auto
qed simp

lemma take_zero_none: "\<forall>e \<in> set es. srv_weight e \<noteq> 0 \<Longrightarrow> take_zero w es = ([], es)"
  by (auto simp: take_zero_def extract_None_iff split: option.splits dest: extract_SomeE)

lemma select_entries_total:
  assumes "random_law rand" "\<forall>e \<in> set es. srv_weight e \<noteq> 0" "length es \<le> 65536"
  shows "\<exists>ys. select_entries rand k es = (Some (Ok ys) :: (srv list, 'e) outcome option) \<and> mset ys = mset es"
  using assms(2,3)
proof (induction "length es" arbitrary: es k)
  case 0
  then show ?case by (simp add: select_entries.simps)
next
  case (Suc n)
  have not_empty: "es \<noteq> []" using Suc.hyps(2) by auto
  have "total_weight es \<le> length es * 65535"
  proof (induction es)
    case (Cons e es)
    with unat_u16 [of "srv_weight e"] show ?case by simp
  qed simp
  also have "\<dots> < 2 ^ 32" using Suc.prems(2) by simp
  finally obtain weight where weight: "sum_weights 0 es = (Ok weight :: (u32, 'e) outcome)" "unat weight = total_weight es"
    using sum_weights_ok [of 0 es] by auto
  have "unat (rand k weight) \<le> total_weight es"
    using assms(1) weight(2) by (metis random_law_def word_le_nat_alt)
  then obtain e rest where pick: "pick_entry (rand k weight) es = ([e], rest)" "mset es = add_mset e (mset rest)"
    using pick_entry_takes_one [OF _ not_empty] by blast
  have len: "length rest = n" using Suc.hyps(2) pick(2) by (metis diff_Suc_1 size_add_mset size_mset)
  have "\<forall>e \<in> set rest. srv_weight e \<noteq> 0"
    using Suc.prems(1) pick(2) by (metis insertCI set_mset_add_mset_insert set_mset_mset)
  then obtain ys where ys: "select_entries rand (k + 1) rest = (Some (Ok ys) :: (srv list, 'e) outcome option)" "mset ys = mset rest"
    using Suc.hyps(1) [of rest "k + 1"] len Suc.prems(2) Suc.hyps(2) by auto
  have "select_entries rand k es = (Some (Ok (e # ys)) :: (srv list, 'e) outcome option)"
    using Suc.hyps(2) weight(1) pick(1) ys(1) take_zero_none [OF Suc.prems(1)]
    by (subst select_entries.simps) auto
  then show ?case using pick(2) ys(2) by auto
qed

lemma chunk_by_concat: "concat (map snd (chunk_by f xs)) = xs"
  by (induction xs) (auto split: list.splits)

lemma chunk_by_keys: "(k, ys) \<in> set (chunk_by f xs) \<Longrightarrow> y \<in> set ys \<Longrightarrow> f y = k"
proof (induction xs arbitrary: k ys)
  case (Cons x xs)
  show ?case
  proof (cases "chunk_by f xs")
    case groups: (Cons group rest)
    then show ?thesis
      using Cons.IH [of "fst group" "snd group"] Cons.IH Cons.prems by (cases group) (auto split: if_splits)
  qed (use Cons.prems in simp)
qed simp

lemma order_groups_sound:
  assumes "\<And>g. random_law (rand g)" "length (concat (map snd groups)) \<le> 65536" "sorted (map fst groups)"
    and "\<And>k es e. (k, es) \<in> set groups \<Longrightarrow> e \<in> set es \<Longrightarrow> srv_priority e = k"
  shows "\<exists>ys. order_groups rand g groups = (Some (Ok ys) :: (srv list, 'e) outcome option) \<and> sorted (map srv_priority ys) \<and>
    mset ys = mset (filter (\<lambda>e. srv_weight e \<noteq> 0) (concat (map snd groups)))"
  using assms(2-)
proof (induction groups arbitrary: g)
  case (Cons group groups)
  obtain p es where group: "group = (p, es)" by fastforce
  let ?es = "filter (\<lambda>e. srv_weight e \<noteq> 0) es"
  have "length ?es \<le> 65536" using Cons.prems(1) group by (simp add: order_trans [OF length_filter_le])
  then obtain xs where xs: "select_entries (rand g) 0 ?es = (Some (Ok xs) :: (srv list, 'e) outcome option)" "mset xs = mset ?es"
    using select_entries_total [OF assms(1), of ?es g 0] by auto
  obtain ys where ys: "order_groups rand (g + 1) groups = (Some (Ok ys) :: (srv list, 'e) outcome option)" "sorted (map srv_priority ys)"
    "mset ys = mset (filter (\<lambda>e. srv_weight e \<noteq> 0) (concat (map snd groups)))"
    using Cons.IH [of "g + 1"] Cons.prems by (auto simp: group)
  have p: "\<forall>e \<in> set xs. srv_priority e = p"
    using xs(2) Cons.prems(3) [of p es] group by (metis filter_is_subset in_mono list.set_intros(1) mset_eq_setD)
  have "\<forall>e \<in> set ys. p \<le> srv_priority e"
  proof
    fix e assume "e \<in> set ys"
    then have "e \<in> set (concat (map snd groups))" using ys(3) by (metis filter_is_subset in_mono mset_eq_setD)
    then obtain k es' where "(k, es') \<in> set groups" "e \<in> set es'" by auto
    then show "p \<le> srv_priority e" using Cons.prems(2,3) group by force
  qed
  moreover have "sorted (map srv_priority xs)" using p by (induction xs) auto
  ultimately have "sorted (map srv_priority (xs @ ys))" using p ys(2) by (auto simp: sorted_append)
  then show ?case using xs ys by (simp add: group)
qed simp

lemma srv_order_sound:
  assumes "\<And>g. random_law (rand g)" "length srvs \<le> 65536"
  shows "\<exists>ys. srv_order rand srvs = (Some (Ok ys) :: (srv list, resolver_error) outcome option) \<and>
    sorted (map srv_priority ys) \<and> mset ys = mset (filter (\<lambda>e. srv_weight e \<noteq> 0) srvs)"
proof -
  let ?groups = "sort_key fst (chunk_by srv_priority srvs)"
  have perm: "mset (concat (map snd ?groups)) = mset srvs"
  proof -
    have "mset (concat (map snd ?groups)) = mset (concat (map snd (chunk_by srv_priority srvs)))"
      by (simp only: mset_concat mset_map map_map flip: sum_mset_sum_list) simp
    then show ?thesis by (simp add: chunk_by_concat)
  qed
  have "length (concat (map snd ?groups)) \<le> 65536" using perm assms(2) by (metis size_mset)
  moreover have "srv_priority e = k" if "(k, es) \<in> set ?groups" "e \<in> set es" for k es e
    using chunk_by_keys [of k es srv_priority srvs e] that by simp
  ultimately obtain ys where "order_groups rand 0 ?groups = (Some (Ok ys) :: (srv list, resolver_error) outcome option)"
    "sorted (map srv_priority ys)" "mset ys = mset (filter (\<lambda>e. srv_weight e \<noteq> 0) (concat (map snd ?groups)))"
    using order_groups_sound [where groups = ?groups and g = 0 and rand = rand, OF assms(1)] by (metis sorted_sort_key)
  moreover have "mset (filter (\<lambda>e. srv_weight e \<noteq> 0) (concat (map snd ?groups))) = mset (filter (\<lambda>e. srv_weight e \<noteq> 0) srvs)"
    using perm by (simp only: mset_filter)
  ultimately show ?thesis by (simp add: srv_order_def)
qed

text \<open>
  C28 (SRV records are tried by priority): whatever the random numbers are, the loop that selects by weight
  ends, and the result has the records with a weight, each as often as it was in the answer, in the order of
  their priorities. Records of weight 0 are put aside for a later place that the code does not have, so
  they are never tried.
\<close>

theorem srv_records_ordered:
  assumes "\<And>g. random_law (rand g)" "length srvs \<le> 65536"
  shows "\<exists>ys. srv_order rand srvs = (Some (Ok ys) :: (srv list, resolver_error) outcome option) \<and>
    sorted (map srv_priority ys) \<and> mset ys = mset (filter (\<lambda>e. srv_weight e \<noteq> 0) srvs)"
  by (rule srv_order_sound [OF assms])

theorem srv_records_ordered_witness:
  "\<exists>ys. srv_order (\<lambda>g k b. b) [\<lparr>srv_priority = 2, srv_weight = 5, srv_port = 9, srv_target = [97]\<rparr>,
       \<lparr>srv_priority = 1, srv_weight = 0, srv_port = 8, srv_target = [98]\<rparr>] =
     (Some (Ok ys) :: (srv list, resolver_error) outcome option) \<and> length ys = 1"
proof -
  have "random_law ((\<lambda>g k b. b) g)" for g :: nat by (simp add: random_law_def)
  from srv_records_ordered [OF this, of "[\<lparr>srv_priority = 2, srv_weight = 5, srv_port = 9, srv_target = [97]\<rparr>,
      \<lparr>srv_priority = 1, srv_weight = 0, srv_port = 8, srv_target = [98]\<rparr>]"]
  obtain ys where ys: "srv_order (\<lambda>g k b. b) [\<lparr>srv_priority = 2, srv_weight = 5, srv_port = 9, srv_target = [97]\<rparr>,
       \<lparr>srv_priority = 1, srv_weight = 0, srv_port = 8, srv_target = [98]\<rparr>] =
      (Some (Ok ys) :: (srv list, resolver_error) outcome option)"
    "mset ys = {#\<lparr>srv_priority = 2, srv_weight = 5, srv_port = 9, srv_target = [97]\<rparr>#}" by auto
  then have "length ys = 1" by (metis size_mset size_single)
  with ys(1) show ?thesis by blast
qed

section \<open>The results of the search\<close>



definition foreign_record :: "'ip resolver_env \<Rightarrow> bytes \<Rightarrow> bool" where
  "foreign_record env name \<longleftrightarrow> (\<exists>records. srv_answers env name = Resolves (Some records) \<and> None \<in> set records)"

text \<open>
  The addresses that come from the SRV records of a name: those of some of its records with a weight, sorted
  by priority, each with all the addresses that the system resolver has for its target and its port.
\<close>

definition from_records :: "'ip resolver_env \<Rightarrow> bytes \<Rightarrow> 'ip socket_addr list \<Rightarrow> bool" where
  "from_records env name addrs \<longleftrightarrow>
     addrs = [] \<or>
     (\<exists>records found. srv_answers env name = Resolves (Some records) \<and> None \<notin> set records \<and>
       addrs = concat (map snd found) \<and> sorted (map (\<lambda>(r, as). srv_priority r) found) \<and>
       mset (map fst found) \<subseteq># mset (filter (\<lambda>e. srv_weight e \<noteq> 0) (map the records)) \<and>
       (\<forall>(r, as) \<in> set found. lookup_host env (srv_target r) (srv_port r) = Resolves (Some as) \<and>
          (\<forall>a \<in> set as. snd a = srv_port r)))"

lemma rfind_byte_nth: "rfind_byte b s = Some i \<Longrightarrow> i < length s \<and> s ! i = b"
proof -
  assume i: "rfind_byte b s = Some i"
  have b: "b \<in> set s" using i by (auto simp: rfind_byte_def find_byte_def split: if_splits)
  then obtain ys zs where s: "rev s = ys @ b # zs" "b \<notin> set ys" using split_list_first [of b "rev s"] by auto
  then have "takeWhile (\<lambda>x. x \<noteq> b) (rev s) = ys" by (simp add: s(1) takeWhile_append)
  then have "i = length s - 1 - length ys" using i b by (simp add: rfind_byte_def find_byte_def)
  moreover have "s = rev zs @ b # rev ys" using s(1) by (metis rev_append rev_rev_ident rev.simps(2) append.assoc append_Cons append_Nil)
  ultimately show ?thesis by (simp add: nth_append)
qed

lemma first_addr_not_Panic [simp]: "first_addr e addrs \<noteq> Panic"
  by (cases addrs) (auto simp: first_addr_def split: list.split)

lemma parse_ip_not_Panic [simp]: "parse_ip env address \<noteq> Panic"
proof -
  have "slice address 1 i \<noteq> (Panic :: (_, resolver_error) outcome)"
    if "rfind_byte 0x5D address = Some i" "i = length address - 1" "starts_with address [0x5B]" for i
  proof -
    have "i \<noteq> 0"
    proof
      assume "i = 0"
      with that rfind_byte_nth [OF that(1)] show False by (cases address) (auto simp: starts_with_def)
    qed
    then show ?thesis using that(2) by (simp add: slice_def)
  qed
  moreover have "map_ok f r \<noteq> Panic" if "r \<noteq> Panic" for f :: "u16 \<Rightarrow> 'a parse_ip_result" and r :: "(u16, resolver_error) outcome"
    using that by (cases r) simp_all
  ultimately show ?thesis
    unfolding parse_ip_def Let_def by (simp add: and_then_not_Panic split: option.split)
qed

text \<open>The addresses among the results, and the streams that give no panic as a result.\<close>

fun addresses :: "('a, 'e) outcome list \<Rightarrow> 'a list" where
  "addresses [] = []"
| "addresses (Ok a # rs) = a # addresses rs"
| "addresses (_ # rs) = addresses rs"

abbreviation found :: "'ip addr_stream \<Rightarrow> 'ip socket_addr list" where
  "found s \<equiv> addresses (results s)"

lemma addresses_append [simp]: "addresses (xs @ ys) = addresses xs @ addresses ys"
  by (induction xs rule: addresses.induct) simp_all

lemma addresses_map_Ok [simp]: "addresses (map Ok as) = as"
  by (induction as) simp_all

lemma addresses_map_ok [simp]: "addresses (map (map_ok f) rs) = map f (addresses rs)"
  by (induction rs rule: addresses.induct) simp_all


text \<open>What holds of a stream and of how it ends, given what a wait and a panic need.\<close>

definition stream_ok :: "bool \<Rightarrow> bool \<Rightarrow> 'ip addr_stream \<Rightarrow> bool" where
  "stream_ok w p s \<longleftrightarrow>
     Panic \<notin> set (results s) \<and> (ending s = Waiting \<longrightarrow> w) \<and> (ending s = Panicked \<longrightarrow> p)"

lemma stream_ok_Addrs [simp]:
  "stream_ok w p (Addrs rs e) \<longleftrightarrow> Panic \<notin> set rs \<and> (e = Waiting \<longrightarrow> w) \<and> (e = Panicked \<longrightarrow> p)"
  by (simp add: stream_ok_def)













text \<open>A record that is not SRV, like the alias of a name, panics and hides what comes after.\<close>

lemma foreign_record_panics: "foreign_record env name \<Longrightarrow> resolve_srv env name = Some (Addrs [] Panicked)"
  by (auto simp: foreign_record_def resolve_srv_def)


lemma read_tsdns_not_Panic [simp]: "read_tsdns env answer \<noteq> Panic"
  by (auto simp: read_tsdns_def and_then_not_Panic split: parse_ip_result.split)




lemma from_records_Nil [simp]: "from_records env name []"
  by (simp add: from_records_def)







end
