(* ===== verification/Sync_Connection.thy ===== *)
theory Sync_Connection
  imports Client_Library
begin

text \<open>
  The connection behind handles (\<open>tsclientlib/src/sync.rs\<close>): handles send requests with a one-shot sender for
  the answer, and the connection keeps each sender until the event that answers it.

  A one-shot sender is a name; what was sent through it is the log \<open>sy_replies\<close>, where \<open>Gone\<close> is a sender that
  was dropped (its receiver reports \<open>ConnectionGone\<close>). The requests that are in the channel when the connection
  is polled are an argument, and functions that a user runs on the connection are a parameter.
\<close>

section \<open>Data\<close>

type_synonym sender = nat

datatype 't reply =
    Done "(unit, 't lib_error) outcome"
  | Downloaded "(u64, 't lib_error) outcome"
  | Uploaded "(u64, 't lib_error) outcome"
  | Gone

datatype 'f sync_message =
    RunFn 'f
  | SendCommand out_packet sender
  | WaitConnected sender
  | Disconnect disconnect_options sender
  | DownloadFile channel_id bytes "bytes option" "u64 option" sender
  | UploadFile channel_id bytes "bytes option" u64 bool bool sender

text \<open>\<open>SyncStreamItem\<close>: the items that the connection hands on.\<close>

datatype ('d, 'm) sync_item =
    SyncBookEvents "'d book_event list"
  | SyncMessageEvent 'm
  | SyncAudio in_audio
  | SyncIdentityLevelIncreasing u8
  | SyncIdentityLevelIncreased
  | SyncDisconnectedTemporarily temporary_disconnect_reason
  | SyncNetworkStatsUpdated
  | SyncAudioChange audio_event

record ('d, 'ip, 'i, 'x, 't) sync_con =
  sy_con :: "('d, 'ip, 'i, 'x, 't) con"
  sy_commands :: "(u16 \<times> sender) list"
  sy_connects :: "sender list"
  sy_disconnects :: "sender list"
  sy_downloads :: "(u16 \<times> sender) list"
  sy_uploads :: "(u16 \<times> sender) list"
  sy_replies :: "(sender \<times> 't reply) list"

type_synonym ('d, 'ip, 'i, 'x, 't, 'a) sync_action =
  "(('d, 'ip, 'i, 'x, 't) sync_con, 'a, 't lib_error) action"

definition sync_from :: "('d, 'ip, 'i, 'x, 't) con \<Rightarrow> ('d, 'ip, 'i, 'x, 't) sync_con" where
  "sync_from con =
     \<lparr>sy_con = con, sy_commands = [], sy_connects = [], sy_disconnects = [], sy_downloads = [], sy_uploads = [],
      sy_replies = []\<rparr>"

definition reply :: "sender \<Rightarrow> 't reply \<Rightarrow> ('d, 'ip, 'i, 'x, 't) sync_con \<Rightarrow> ('d, 'ip, 'i, 'x, 't) sync_con" where
  "reply send r s = s\<lparr>sy_replies := sy_replies s @ [(send, r)]\<rparr>"

definition reply_all :: "sender list \<Rightarrow> 't reply \<Rightarrow> ('d, 'ip, 'i, 'x, 't) sync_con \<Rightarrow> ('d, 'ip, 'i, 'x, 't) sync_con" where
  "reply_all sends r s = s\<lparr>sy_replies := sy_replies s @ map (\<lambda>send. (send, r)) sends\<rparr>"

text \<open>\<open>HashMap::insert\<close> drops the sender that was there.\<close>

definition track ::
  "u16 \<Rightarrow> sender \<Rightarrow> (u16 \<times> sender) list \<Rightarrow> (u16 \<times> sender) list \<times> (sender \<times> 't reply) list" where
  "track h send m = (AList.update h send m, (case map_of m h of Some old \<Rightarrow> [(old, Gone)] | None \<Rightarrow> []))"

section \<open>Requests\<close>

text \<open>A method of the connection; its error is a value here.\<close>

definition run_con ::
  "('d, 'ip, ('ip, 'i, 'x) message, 't, 'a) lib_action \<Rightarrow> ('d, 'ip, 'i, 'x, 't, ('a, 't lib_error) outcome) sync_action" where
  "run_con m = (\<lambda>s.
     case m (sy_con s) of
       (Panic, con) \<Rightarrow> (Panic, s\<lparr>sy_con := con\<rparr>)
     | (r, con) \<Rightarrow> (Ok r, s\<lparr>sy_con := con\<rparr>))"

definition refuse :: "('a, 't lib_error) outcome \<Rightarrow> ('b, 't lib_error) outcome" where
  "refuse r = (case r of Err e \<Rightarrow> Err e | _ \<Rightarrow> Panic)"

definition handle_request ::
  "('d, 'ip, 'i, 'x, 't) lib_env \<Rightarrow> ('f \<Rightarrow> ('d, 'ip, 'i, 'x, 't, unit) sync_action) \<Rightarrow> 'f sync_message
     \<Rightarrow> ('d, 'ip, 'i, 'x, 't, unit) sync_action" where
  "handle_request lenv run msg =
     (case msg of
        RunFn f \<Rightarrow> run f
      | SendCommand arg send \<Rightarrow>
          act_then (run_con (lib_send_with_result (le_env lenv) arg)) (\<lambda>r.
          case r of
            Ok handle \<Rightarrow> act_modify (\<lambda>s. case track handle send (sy_commands s) of
              (m, gone) \<Rightarrow> s\<lparr>sy_commands := m, sy_replies := sy_replies s @ gone\<rparr>)
          | _ \<Rightarrow> act_modify (reply send (Done (refuse r))))
      | WaitConnected send \<Rightarrow>
          act_then (act_read (lib_get_state \<circ> sy_con)) (\<lambda>r.
          case r of
            Ok _ \<Rightarrow> act_modify (reply send (Done (Ok ())))
          | _ \<Rightarrow> act_modify (sy_connects_update (\<lambda>ss. ss @ [send])))
      | Disconnect arg send \<Rightarrow>
          act_then (run_con (lib_disconnect lenv arg)) (\<lambda>r.
          case r of
            Ok _ \<Rightarrow> act_modify (sy_disconnects_update (\<lambda>ss. ss @ [send]))
          | _ \<Rightarrow> act_modify (reply send (Done (refuse r))))
      | DownloadFile channel path password seek send \<Rightarrow>
          act_then (run_con (lib_download_file lenv channel path password seek)) (\<lambda>r.
          case r of
            Ok handle \<Rightarrow> act_modify (\<lambda>s. case track handle send (sy_downloads s) of
              (m, gone) \<Rightarrow> s\<lparr>sy_downloads := m, sy_replies := sy_replies s @ gone\<rparr>)
          | _ \<Rightarrow> act_modify (reply send (Downloaded (refuse r))))
      | UploadFile channel path password filesize overwrite resume send \<Rightarrow>
          act_then (run_con (lib_upload_file lenv channel path password filesize overwrite resume)) (\<lambda>r.
          case r of
            Ok handle \<Rightarrow> act_modify (\<lambda>s. case track handle send (sy_uploads s) of
              (m, gone) \<Rightarrow> s\<lparr>sy_uploads := m, sy_replies := sy_replies s @ gone\<rparr>)
          | _ \<Rightarrow> act_modify (reply send (Uploaded (refuse r)))))"

section \<open>Items\<close>

text \<open>A tracked request is answered; \<open>None\<close> when there is none.\<close>

definition untrack ::
  "u16 \<Rightarrow> 't reply \<Rightarrow> (u16 \<times> sender) list \<Rightarrow> ((u16 \<times> sender) list \<times> (sender \<times> 't reply) list) option" where
  "untrack h r m = map_option (\<lambda>send. (hm_remove h m, [(send, r)])) (map_of m h)"

definition answer_download ::
  "u16 \<Rightarrow> 't reply \<Rightarrow> ('d, 'ip, 'i, 'x, 't) sync_con \<Rightarrow> ('d, 'ip, 'i, 'x, 't) sync_con option" where
  "answer_download h r s =
     map_option (\<lambda>(m, new). s\<lparr>sy_downloads := m, sy_replies := sy_replies s @ new\<rparr>) (untrack h r (sy_downloads s))"

definition answer_upload ::
  "u16 \<Rightarrow> 't reply \<Rightarrow> ('d, 'ip, 'i, 'x, 't) sync_con \<Rightarrow> ('d, 'ip, 'i, 'x, 't) sync_con option" where
  "answer_upload h r s =
     map_option (\<lambda>(m, new). s\<lparr>sy_uploads := m, sy_replies := sy_replies s @ new\<rparr>) (untrack h r (sy_uploads s))"

definition answer_command ::
  "u16 \<Rightarrow> 't reply \<Rightarrow> ('d, 'ip, 'i, 'x, 't) sync_con \<Rightarrow> ('d, 'ip, 'i, 'x, 't) sync_con option" where
  "answer_command h r s =
     map_option (\<lambda>(m, new). s\<lparr>sy_commands := m, sy_replies := sy_replies s @ new\<rparr>) (untrack h r (sy_commands s))"

fun default_to :: "'a option \<Rightarrow> 'a \<Rightarrow> 'a" where
  "default_to (Some x) y = x"
| "default_to None y = y"

text \<open>The item to hand on, if there is one.\<close>

fun handle_item ::
  "('d, ('ip, 'i, 'x) message, 't) lib_item \<Rightarrow> ('d, 'ip, 'i, 'x, 't) sync_con
     \<Rightarrow> ('d, ('ip, 'i, 'x) message) sync_item option \<times> ('d, 'ip, 'i, 'x, 't) sync_con" where
  "handle_item (BookEvents es) s =
     (Some (SyncBookEvents es), (reply_all (sy_connects s) (Done (Ok ())) s)\<lparr>sy_connects := []\<rparr>)"
| "handle_item (MessageEvent m) s = (Some (SyncMessageEvent m), s)"
| "handle_item (AudioPacket a) s = (Some (SyncAudio a), s)"
| "handle_item (IdentityLevelIncreasing l) s = (Some (SyncIdentityLevelIncreasing l), s)"
| "handle_item IdentityLevelIncreased s = (Some SyncIdentityLevelIncreased, s)"
| "handle_item (DisconnectedTemporarily reason) s = (Some (SyncDisconnectedTemporarily reason), s)"
| "handle_item (MessageResult h res) s =
     (None, default_to (answer_command h
        (Done (case res of None \<Rightarrow> Ok () | Some (e, p) \<Rightarrow> Err (LibCommandError e p))) s) s)"
| "handle_item (FileDownload h res) s = (None, default_to (answer_download h (Downloaded (Ok res)) s) s)"
| "handle_item (FileUpload h res) s = (None, default_to (answer_upload h (Uploaded (Ok res)) s) s)"
| "handle_item (FiletransferFailed h e) s =
     (None, default_to (answer_download h (Downloaded (Err e)) s) (default_to (answer_upload h (Uploaded (Err e)) s) s))"
| "handle_item LibNetworkStatsUpdated s = (Some SyncNetworkStatsUpdated, s)"
| "handle_item (AudioChange change) s = (Some (SyncAudioChange change), s)"

type_synonym ('d, 'ip, 'i, 'x, 't) sync_result =
  "(('d, ('ip, 'i, 'x) message) sync_item, 't lib_error) outcome option poll \<times> ('d, 'ip, 'i, 'x, 't) sync_con"

partial_function (option) sync_items ::
  "('d, 'ip, 'i, 'x, 't) lib_env \<Rightarrow> ('d, 'ip, 'i, 'x, 't) sync_con \<Rightarrow> ('d, 'ip, 'i, 'x, 't) sync_result option" where
  "sync_items lenv s =
     (case lib_poll_next lenv (sy_con s) of
        None \<Rightarrow> None
      | Some (p, con) \<Rightarrow>
          let s = s\<lparr>sy_con := con\<rparr> in
          (case p of
             Pending \<Rightarrow> Some (Pending, s)
           | Ready None \<Rightarrow>
               Some (Ready None, (reply_all (sy_disconnects s) (Done (Ok ())) s)\<lparr>sy_disconnects := []\<rparr>)
           | Ready (Some (Err e)) \<Rightarrow> Some (Ready (Some (Err e)), s)
           | Ready (Some Panic) \<Rightarrow> Some (Ready (Some Panic), s)
           | Ready (Some (Ok item)) \<Rightarrow>
               (case handle_item item s of
                  (Some x, s) \<Rightarrow> Some (Ready (Some (Ok x)), s)
                | (None, s) \<Rightarrow> sync_items lenv s)))"

declare sync_items.simps [code]

text \<open>\<open>poll_next\<close>: first the requests that wait, then the connection.\<close>

definition sync_poll_next ::
  "('d, 'ip, 'i, 'x, 't) lib_env \<Rightarrow> ('f \<Rightarrow> ('d, 'ip, 'i, 'x, 't, unit) sync_action) \<Rightarrow> 'f sync_message list
     \<Rightarrow> ('d, 'ip, 'i, 'x, 't) sync_con \<Rightarrow> ('d, 'ip, 'i, 'x, 't) sync_result option" where
  "sync_poll_next lenv run msgs s =
     (case act_for msgs (handle_request lenv run) s of
        (Ok _, s) \<Rightarrow> sync_items lenv s
      | (Err e, s) \<Rightarrow> Some (Ready (Some (Err e)), s)
      | (Panic, s) \<Rightarrow> Some (Ready (Some Panic), s))"

end
