(* ===== verification/Sync_Props.thy ===== *)
theory Sync_Props
  imports Sync_Connection Client_Library_Props "HOL-Library.Multiset"
begin

text \<open>
  Properties of the connection behind handles: no request is lost and none is answered twice.
\<close>

section \<open>Every request is kept until it is answered\<close>

definition waiting :: "('d, 'ip, 'i, 'x, 't) sync_con \<Rightarrow> sender list" where
  "waiting s = sy_connects s @ sy_disconnects s @ map snd (sy_commands s) @ map snd (sy_downloads s) @ map snd (sy_uploads s)"

definition answered :: "('d, 'ip, 'i, 'x, 't) sync_con \<Rightarrow> sender list" where
  "answered s = map fst (sy_replies s)"

definition known :: "('d, 'ip, 'i, 'x, 't) sync_con \<Rightarrow> sender multiset" where
  "known s = mset (waiting s) + mset (answered s)"

fun sender_of :: "'f sync_message \<Rightarrow> sender list" where
  "sender_of (RunFn f) = []"
| "sender_of (SendCommand _ send) = [send]"
| "sender_of (WaitConnected send) = [send]"
| "sender_of (Disconnect _ send) = [send]"
| "sender_of (DownloadFile _ _ _ _ send) = [send]"
| "sender_of (UploadFile _ _ _ _ _ _ send) = [send]"

text \<open>The keys of the maps are distinct.\<close>

definition maps_ok :: "('d, 'ip, 'i, 'x, 't) sync_con \<Rightarrow> bool" where
  "maps_ok s \<longleftrightarrow> distinct (map fst (sy_commands s)) \<and> distinct (map fst (sy_downloads s)) \<and> distinct (map fst (sy_uploads s))"

lemma mset_map_snd_update:
  "distinct (map fst m) \<Longrightarrow>
     mset (map snd (AList.update h send m)) + mset (case map_of m h of Some old \<Rightarrow> [old] | None \<Rightarrow> [])
       = add_mset send (mset (map snd m))"
  by (induction m) (auto split: option.splits dest: map_of_SomeD)

lemma mset_map_snd_delete:
  "distinct (map fst m) \<Longrightarrow> map_of m h = Some send \<Longrightarrow> add_mset send (mset (map snd (AList.delete h m))) = mset (map snd m)"
  by (induction m) (auto simp: delete_conv' split: if_splits)

text \<open>The maps are well-formed and exactly the senders \<open>K\<close> are known.\<close>

definition sync_inv :: "sender multiset \<Rightarrow> ('d, 'ip, 'i, 'x, 't) sync_con \<Rightarrow> bool" where
  "sync_inv K s \<longleftrightarrow> maps_ok s \<and> known s = K"

lemmas sync_defs = sync_inv_def maps_ok_def known_def waiting_def answered_def

lemma sync_inv_con [simp]: "sync_inv K (s\<lparr>sy_con := c\<rparr>) = sync_inv K s"
  by (simp add: sync_defs)

lemma sync_inv_reply: "sync_inv K s \<Longrightarrow> sync_inv (add_mset send K) (reply send r s)"
  by (auto simp: sync_defs reply_def)

lemma sync_inv_push:
  "sync_inv K s \<Longrightarrow> sync_inv (add_mset send K) (sy_connects_update (\<lambda>ss. ss @ [send]) s)"
  "sync_inv K s \<Longrightarrow> sync_inv (add_mset send K) (sy_disconnects_update (\<lambda>ss. ss @ [send]) s)"
  by (auto simp: sync_defs)

lemma track_known:
  "distinct (map fst m) \<Longrightarrow> track h send m = (m', gone) \<Longrightarrow>
     distinct (map fst m') \<and> mset (map snd m') + mset (map fst gone) = add_mset send (mset (map snd m))"
  using mset_map_snd_update [of m h send] by (auto simp: track_def distinct_update split: option.splits)

lemma sync_inv_track:
  assumes "sync_inv K s"
  shows "track h send (sy_commands s) = (m, gone) \<Longrightarrow>
      sync_inv (add_mset send K) (s\<lparr>sy_commands := m, sy_replies := sy_replies s @ gone\<rparr>)"
    and "track h send (sy_downloads s) = (m, gone) \<Longrightarrow>
      sync_inv (add_mset send K) (s\<lparr>sy_downloads := m, sy_replies := sy_replies s @ gone\<rparr>)"
    and "track h send (sy_uploads s) = (m, gone) \<Longrightarrow>
      sync_inv (add_mset send K) (s\<lparr>sy_uploads := m, sy_replies := sy_replies s @ gone\<rparr>)"
  using assms track_known [of _ h send m gone] by (fastforce simp: sync_defs)+

lemma untrack_known:
  "distinct (map fst m) \<Longrightarrow> untrack h r m = Some (m', new) \<Longrightarrow>
     distinct (map fst m') \<and> mset (map snd m') + mset (map fst new) = mset (map snd m)"
  using mset_map_snd_delete [of m h] by (auto simp: untrack_def hm_remove_def distinct_delete)

lemma sync_inv_answer:
  assumes "sync_inv K s"
  shows "answer_command h r s = Some s' \<Longrightarrow> sync_inv K s'" and "answer_download h r s = Some s' \<Longrightarrow> sync_inv K s'"
    and "answer_upload h r s = Some s' \<Longrightarrow> sync_inv K s'"
  using assms untrack_known [of _ h r]
  by (fastforce simp: answer_command_def answer_download_def answer_upload_def sync_defs)+

lemma default_to_keeps: "(\<And>y. x = Some y \<Longrightarrow> I y) \<Longrightarrow> I t \<Longrightarrow> I (default_to x t)"
  by (cases x) auto

lemma sync_inv_handle_item: "sync_inv K s \<Longrightarrow> sync_inv K (snd (handle_item item s))"
proof -
  assume inv: "sync_inv K s"
  have "sync_inv K ((reply_all (sy_connects s) r s)\<lparr>sy_connects := []\<rparr>)" for r
    using inv by (simp add: sync_defs reply_all_def comp_def ac_simps)
  then show ?thesis
    using inv sync_inv_answer [OF inv] by (cases item) (auto intro!: default_to_keeps [where I = "sync_inv K"])
qed

text \<open>A function of the user returns or panics, and keeps track of the requests.\<close>

definition run_law :: "('f \<Rightarrow> ('d, 'ip, 'i, 'x, 't, unit) sync_action) \<Rightarrow> bool" where
  "run_law run \<longleftrightarrow> (\<forall>f s. fst (run f s) = Panic \<or>
     fst (run f s) = Ok () \<and> (\<forall>K. sync_inv K s \<longrightarrow> sync_inv K (snd (run f s))))"

lemma run_con_then:
  assumes "act_then (run_con m) f s = (r, s')" "sync_inv K s" "r \<noteq> Panic"
  obtains x s1 where "sync_inv K s1" "f x s1 = (r, s')"
proof -
  obtain x c where m: "m (sy_con s) = (x, c)" by fastforce
  have "f x (s\<lparr>sy_con := c\<rparr>) = (r, s')"
    using assms(1,3) m by (cases x) (simp_all add: act_then.simps run_con_def)
  then show ?thesis using that assms(2) by (metis sync_inv_con)
qed

lemma tracked:
  assumes "sync_inv K s"
  shows "\<exists>s'. act_modify (\<lambda>s. case track h send (sy_commands s) of (m, gone) \<Rightarrow>
      s\<lparr>sy_commands := m, sy_replies := sy_replies s @ gone\<rparr>) s = (Ok (), s') \<and> sync_inv (add_mset send K) s'"
    and "\<exists>s'. act_modify (\<lambda>s. case track h send (sy_downloads s) of (m, gone) \<Rightarrow>
      s\<lparr>sy_downloads := m, sy_replies := sy_replies s @ gone\<rparr>) s = (Ok (), s') \<and> sync_inv (add_mset send K) s'"
    and "\<exists>s'. act_modify (\<lambda>s. case track h send (sy_uploads s) of (m, gone) \<Rightarrow>
      s\<lparr>sy_uploads := m, sy_replies := sy_replies s @ gone\<rparr>) s = (Ok (), s') \<and> sync_inv (add_mset send K) s'"
  using sync_inv_track [OF assms, of h send] by (simp_all split: prod.split)

lemma replied:
  "sync_inv K s \<Longrightarrow> \<exists>s'. act_modify (reply send x) s = (Ok (), s') \<and> sync_inv (add_mset send K) s'"
  by (simp add: sync_inv_reply)

lemma sync_inv_request:
  fixes lenv :: "('d, 'ip, 'i, 'x, 't) lib_env"
  assumes "run_law run" "sync_inv K s" "handle_request lenv run msg s = (r, s')" "r \<noteq> Panic"
  shows "r = Ok () \<and> sync_inv (K + mset (sender_of msg)) s'"
proof (cases msg)
  case (RunFn f)
  then have "run f s = (r, s')" using assms(3) by (simp add: handle_request_def)
  moreover have "fst (run f s) = Panic \<or> fst (run f s) = Ok () \<and> (\<forall>K. sync_inv K s \<longrightarrow> sync_inv K (snd (run f s)))"
    using assms(1) by (simp add: run_law_def)
  ultimately show ?thesis using assms(2,4) RunFn by simp
next
  case (WaitConnected send)
  then show ?thesis using assms(2,3)
    by (auto simp: handle_request_def sync_inv_reply sync_inv_push split: outcome.splits)
next
  case (SendCommand arg send)
  obtain x s1 where x: "sync_inv K s1" "(case x of
      Ok h \<Rightarrow> act_modify (\<lambda>s. case track h send (sy_commands s) of (m, gone) \<Rightarrow> s\<lparr>sy_commands := m, sy_replies := sy_replies s @ gone\<rparr>)
    | _ \<Rightarrow> act_modify (reply send (Done (refuse x)))) s1 = (r, s')"
    using assms(2-4) SendCommand by (auto simp: handle_request_def elim!: run_con_then)
  then show ?thesis using SendCommand tracked(1) [OF x(1), of _ send] replied [OF x(1), of send] by (cases x) force+
next
  case (Disconnect arg send)
  obtain x s1 where x: "sync_inv K s1" "(case x :: (unit, 't lib_error) outcome of Ok _ \<Rightarrow> act_modify (sy_disconnects_update (\<lambda>ss. ss @ [send]))
    | _ \<Rightarrow> act_modify (reply send (Done (refuse x)))) s1 = (r, s')"
    using assms(2-4) Disconnect by (auto simp: handle_request_def elim!: run_con_then)
  then show ?thesis using Disconnect sync_inv_push(2) [OF x(1), of send] replied [OF x(1), of send] by (cases x) force+
next
  case (DownloadFile channel path password seek send)
  obtain x s1 where x: "sync_inv K s1" "(case x of
      Ok h \<Rightarrow> act_modify (\<lambda>s. case track h send (sy_downloads s) of (m, gone) \<Rightarrow> s\<lparr>sy_downloads := m, sy_replies := sy_replies s @ gone\<rparr>)
    | _ \<Rightarrow> act_modify (reply send (Downloaded (refuse x)))) s1 = (r, s')"
    using assms(2-4) DownloadFile by (auto simp: handle_request_def elim!: run_con_then)
  then show ?thesis using DownloadFile tracked(2) [OF x(1), of _ send] replied [OF x(1), of send] by (cases x) force+
next
  case (UploadFile channel path password filesize overwrite resume send)
  obtain x s1 where x: "sync_inv K s1" "(case x of
      Ok h \<Rightarrow> act_modify (\<lambda>s. case track h send (sy_uploads s) of (m, gone) \<Rightarrow> s\<lparr>sy_uploads := m, sy_replies := sy_replies s @ gone\<rparr>)
    | _ \<Rightarrow> act_modify (reply send (Uploaded (refuse x)))) s1 = (r, s')"
    using assms(2-4) UploadFile by (auto simp: handle_request_def elim!: run_con_then)
  then show ?thesis using UploadFile tracked(3) [OF x(1), of _ send] replied [OF x(1), of send] by (cases x) force+
qed

lemma sync_inv_requests:
  assumes "run_law run"
  shows "sync_inv K s \<Longrightarrow> act_for msgs (handle_request lenv run) s = (r, s') \<Longrightarrow> r \<noteq> Panic \<Longrightarrow>
    r = Ok () \<and> sync_inv (K + mset (concat (map sender_of msgs))) s'"
proof (induction msgs arbitrary: K s)
  case (Cons msg msgs)
  obtain r1 s1 where m: "handle_request lenv run msg s = (r1, s1)" by fastforce
  have "r1 \<noteq> Panic" using Cons.prems(2,3) m by (auto simp: act_then.simps)
  from sync_inv_request [OF assms Cons.prems(1) m this]
  have "r1 = Ok ()" "sync_inv (K + mset (sender_of msg)) s1" by auto
  moreover have "act_for msgs (handle_request lenv run) s1 = (r, s')"
    using Cons.prems(2) m \<open>r1 = Ok ()\<close> by (simp add: act_then.simps)
  ultimately show ?case using Cons.IH [of "K + mset (sender_of msg)" s1] Cons.prems(3) by (simp add: ac_simps)
qed simp

lemma sync_items_keep:
  fixes lenv :: "('d, 'ip, 'i, 'x, 't) lib_env"
  assumes "sync_items lenv s = Some rt"
  shows "sync_inv K s \<longrightarrow> sync_inv K (snd rt)"
proof (rule sync_items.raw_induct [OF _ assms, where P = "\<lambda>_ s rt. sync_inv K s \<longrightarrow> sync_inv K (snd rt)"], goal_cases)
  case (1 loop lenv s rt)
  note IH = 1(1) and body = 1(2)
  obtain p con where p: "lib_poll_next lenv (sy_con s) = Some (p, con)" using body by (auto split: option.splits)
  let ?s = "s\<lparr>sy_con := con\<rparr>"
  show ?case
  proof (cases "\<exists>item. p = Ready (Some (Ok item))")
    case True
    then obtain item where item: "p = Ready (Some (Ok item))" by blast
    obtain x s1 where x: "handle_item item ?s = (x, s1)" by fastforce
    have "sync_inv K s \<Longrightarrow> sync_inv K s1" using sync_inv_handle_item [of K ?s item] x by simp
    then show ?thesis using body p item x IH [of lenv s1 rt] by (cases x) auto
  next
    case False
    have "sync_inv K ((reply_all (sy_disconnects ?s) r ?s)\<lparr>sy_disconnects := []\<rparr>)" if "sync_inv K s" for r
      using that by (simp add: sync_defs reply_all_def comp_def ac_simps)
    then show ?thesis using body p False
      by (auto simp: Let_def split: poll.splits option.splits outcome.splits)
  qed
qed

text \<open>
  C27 (every request is answered at most once and none is lost): whatever the network, the server and the
  clock do, after a poll the requests that came before and those that were in the channel are exactly those
  that still wait for an event together with those that were answered, and none is in both. A sender whose
  handle is given out again is answered with \<open>Gone\<close>.
\<close>

theorem requests_answered_once:
  assumes "run_law run" "sync_inv (mset K) s" "distinct (K @ concat (map sender_of msgs))"
    and "sync_poll_next lenv run msgs s = Some (p, s')" "p \<noteq> Ready (Some Panic)"
  shows "set (waiting s') \<union> set (answered s') = set K \<union> set (concat (map sender_of msgs)) \<and>
    distinct (waiting s' @ answered s') \<and> sync_inv (mset (K @ concat (map sender_of msgs))) s'"
proof -
  let ?all = "K @ concat (map sender_of msgs)"
  obtain r s1 where m: "act_for msgs (handle_request lenv run) s = (r, s1)" by fastforce
  have "r \<noteq> Panic" using assms(4,5) m by (auto simp: sync_poll_next_def)
  from sync_inv_requests [OF assms(1,2) m this]
  have r: "r = Ok ()" "sync_inv (mset ?all) s1" by simp_all
  then have "sync_items lenv s1 = Some (p, s')" using assms(4) m by (simp add: sync_poll_next_def)
  from sync_items_keep [OF this, of "mset ?all"] r(2) have inv: "sync_inv (mset ?all) s'" by simp
  then have m: "mset (waiting s' @ answered s') = mset ?all" by (simp add: sync_inv_def known_def)
  then have "set (waiting s' @ answered s') = set ?all" by (rule mset_eq_setD)
  moreover have "distinct (waiting s' @ answered s')" using m assms(3) by (metis mset_eq_imp_distinct_iff)
  ultimately show ?thesis using inv by simp
qed

text \<open>A request to wait for the connection, while there is none yet.\<close>

abbreviation "calm_lenv \<equiv> example_lenv\<lparr>le_connect := \<lambda>_. None\<rparr>"

lemma calm_poll:
  "\<exists>s. sync_poll_next calm_lenv (\<lambda>_ :: unit. act_return ()) [WaitConnected 5] (sync_from example_start) = Some (Pending, s) \<and>
     waiting s = [5]"
proof -
  have "lib_poll_next calm_lenv example_start = Some (Pending, example_start)"
    by (simp add: lib_poll_next_def poll_connecting_def)
  then have items: "sync_items calm_lenv s = Some (Pending, s)" if "sy_con s = example_start" for s
    using that by (subst sync_items.simps) simp
  show ?thesis
    by (simp add: sync_poll_next_def handle_request_def sync_from_def lib_get_state_def act_then.simps items waiting_def)
qed

theorem requests_answered_once_witness:
  "\<exists>s. sync_poll_next calm_lenv (\<lambda>_ :: unit. act_return ()) [WaitConnected 5] (sync_from example_start) = Some (Pending, s) \<and>
     set (waiting s) \<union> set (answered s) = {5}"
proof -
  obtain s where s: "sync_poll_next calm_lenv (\<lambda>_ :: unit. act_return ()) [WaitConnected 5] (sync_from example_start) =
      Some (Pending, s)" using calm_poll by blast
  have law: "run_law (\<lambda>_ :: unit. act_return () :: (unit, unit, unit, unit, unit, unit) sync_action)"
    by (simp add: run_law_def)
  have inv: "sync_inv (mset []) (sync_from example_start)" by (simp add: sync_defs sync_from_def)
  from requests_answered_once [OF law inv _ s] s show ?thesis by auto
qed

text \<open>
  \<open>disconnect\<close> does nothing while the client connects, so a handle that asks for it waits for the end of a
  stream that does not end.
\<close>

lemma disconnect_while_connecting:
  assumes "lc_state (sy_con s) = StConnecting options is_reconnect again"
  shows "handle_request lenv run (Disconnect arg send) s = (Ok (), s\<lparr>sy_disconnects := sy_disconnects s @ [send]\<rparr>)"
  using assms by (simp add: handle_request_def run_con_def lib_disconnect_def act_then.simps)

end
